(* ===== verification/Prelude.thy ===== *)
theory Prelude
  imports Complex_Main "HOL-Library.Sublist" "HOL-Library.Multiset"
begin

text \<open>
  Shared definitions of the development: the Python built-ins the program calls (joining
  strings, decimal formatting, \<open>max\<close> with a key, \<open>dict.fromkeys\<close>, a list extended
  with what it does not hold yet), the result type of code that can raise, and the lemmas on
  lists that several components use.

  Text is a \<open>string\<close> holding the UTF-8 bytes of the Python string. A Python \<open>float\<close>
  that is finite is a \<open>rat\<close>, its exact value, so comparisons are exact as they are in
  Python. A call that can raise returns \<open>error + value\<close>, with \<open>Inl\<close> for the exception.
\<close>

named_theorems sentinel_simps "characteristic equations the component proofs unfold"

section \<open>Results that can fail\<close>

definition bind_err :: "'e + 'a \<Rightarrow> ('a \<Rightarrow> 'e + 'b) \<Rightarrow> 'e + 'b" where
  "bind_err r f = (case r of Inl e \<Rightarrow> Inl e | Inr a \<Rightarrow> f a)"

lemma bind_err_simps [simp]:
  "bind_err (Inl e) f = Inl e"
  "bind_err (Inr a) f = f a"
  by (simp_all add: bind_err_def)

lemma bind_err_Inr: "bind_err r f = Inr b \<longleftrightarrow> (\<exists>a. r = Inr a \<and> f a = Inr b)"
  by (cases r) simp_all

text \<open>A check raises or does nothing; checks in a row stop at the first that raises.\<close>

fun first_error :: "('e option) list \<Rightarrow> 'e option" where
  "first_error [] = None"
| "first_error (None # cs) = first_error cs"
| "first_error (Some e # cs) = Some e"

lemma first_error_None: "first_error cs = None \<longleftrightarrow> (\<forall>c\<in>set cs. c = None)"
  by (induction cs rule: first_error.induct) auto

lemma first_error_Some: "first_error cs = Some e \<Longrightarrow> Some e \<in> set cs"
  by (induction cs rule: first_error.induct) auto

section \<open>Text\<close>

text \<open>\<open>sep.join(parts)\<close>.\<close>

fun join :: "string \<Rightarrow> string list \<Rightarrow> string" where
  "join sep [] = []"
| "join sep [x] = x"
| "join sep (x # y # ys) = x @ sep @ join sep (y # ys)"

definition newline :: string where
  "newline = [CHR 0x0A]"

definition starts_with :: "string \<Rightarrow> string \<Rightarrow> bool" where
  "starts_with text p \<longleftrightarrow> take (length p) text = p"

lemma starts_with_append [simp]: "starts_with (p @ s) p"
  by (simp add: starts_with_def)

lemma starts_with_iff: "starts_with text p \<longleftrightarrow> (\<exists>s. text = p @ s)"
  unfolding starts_with_def by (metis append_eq_conv_conj append_take_drop_id)

text \<open>The decimal digits of a number, and a number to two places: \<open>f"{x:.2f}"\<close>, which rounds
  the exact value of a float half to even.\<close>

fun nat_text :: "nat \<Rightarrow> string" where
  "nat_text n = (if n < 10 then [char_of (48 + n)]
                 else nat_text (n div 10) @ [char_of (48 + n mod 10)])"

declare nat_text.simps [simp del]

definition round_half_even :: "rat \<Rightarrow> int" where
  "round_half_even x =
     (let f = \<lfloor>x\<rfloor>; d = x - of_int f
      in if d < 1 / 2 then f else if d > 1 / 2 then f + 1 else if even f then f else f + 1)"

definition two_places :: "rat \<Rightarrow> string" where
  "two_places x =
     (let n = nat (round_half_even (\<bar>x\<bar> * 100))
      in (if x < 0 then ''-'' else []) @ nat_text (n div 100) @ ''.''
           @ [char_of (48 + n div 10 mod 10), char_of (48 + n mod 10)])"

text \<open>Rounding is within half a unit of the exact value.\<close>

lemma round_half_even_bound: "\<bar>x - of_int (round_half_even x)\<bar> \<le> 1 / 2"
proof -
  define f d where "f = \<lfloor>x\<rfloor>" and "d = x - of_int f"
  have d: "0 \<le> d" "d < 1" and x: "x = of_int f + d"
    unfolding f_def d_def by linarith+
  show ?thesis
    unfolding round_half_even_def Let_def f_def [symmetric] d_def [symmetric]
    using d by (auto simp: x)
qed

section \<open>Lists\<close>

text \<open>\<open>max(xs, key=f)\<close>: the first element with the highest key; \<open>None\<close> for an empty list,
  where Python's \<open>max\<close> raises and the callers do not call it.\<close>

fun first_max :: "('a \<Rightarrow> 'k::linorder) \<Rightarrow> 'a list \<Rightarrow> 'a option" where
  "first_max f [] = None"
| "first_max f (x # xs) =
     (case first_max f xs of None \<Rightarrow> Some x | Some y \<Rightarrow> if f x < f y then Some y else Some x)"

lemma first_max_None [simp]: "first_max f xs = None \<longleftrightarrow> xs = []"
  by (cases xs) (auto split: option.splits)

lemma first_max_Some: "first_max f xs = Some y \<Longrightarrow> y \<in> set xs \<and> (\<forall>x\<in>set xs. f x \<le> f y)"
proof (induction xs arbitrary: y)
  case (Cons x xs)
  show ?case
  proof (cases "first_max f xs")
    case None
    with Cons.prems show ?thesis by simp
  next
    case (Some z)
    then have "z \<in> set xs" "\<forall>x\<in>set xs. f x \<le> f z" using Cons.IH by auto
    with Some Cons.prems show ?thesis by (fastforce split: if_splits)
  qed
qed simp

lemma first_max_ex: "xs \<noteq> [] \<Longrightarrow> \<exists>y. first_max f xs = Some y"
  by (cases "first_max f xs") auto

text \<open>Everything before the element found is strictly lower: ties go to the first.\<close>

lemma first_max_first:
  "first_max f xs = Some y \<Longrightarrow> \<exists>us vs. xs = us @ y # vs \<and> (\<forall>u\<in>set us. f u < f y)"
proof (induction xs arbitrary: y)
  case (Cons x xs)
  show ?case
  proof (cases "first_max f xs")
    case None
    then have "xs = []" by simp
    moreover from this Cons.prems have "y = x" by simp
    ultimately have "x # xs = [] @ y # []" "\<forall>u\<in>set []. f u < f y" by simp_all
    then show ?thesis by blast
  next
    case (Some z)
    show ?thesis
    proof (cases "f x < f z")
      case True
      with Some Cons.prems have "y = z" by simp
      moreover from Some Cons.IH obtain us vs
        where "xs = us @ z # vs" "\<forall>u\<in>set us. f u < f z" by blast
      ultimately have "x # xs = (x # us) @ y # vs" "\<forall>u\<in>set (x # us). f u < f y"
        using True by auto
      then show ?thesis by blast
    next
      case False
      with Some Cons.prems have "x # xs = [] @ y # xs" "\<forall>u\<in>set []. f u < f y" by simp_all
      then show ?thesis by blast
    qed
  qed
qed simp

text \<open>A loop that keeps the highest so far finds what \<open>max\<close> does.\<close>

definition keep_higher :: "('a \<Rightarrow> 'k::linorder) \<Rightarrow> 'a option \<Rightarrow> 'a \<Rightarrow> 'a option" where
  "keep_higher f best x =
     (case best of None \<Rightarrow> Some x | Some b \<Rightarrow> if f b < f x then Some x else Some b)"

lemma foldl_keep_higher_Some: "foldl (keep_higher f) (Some b) xs = first_max f (b # xs)"
proof (induction xs arbitrary: b)
  case (Cons x xs)
  show ?case
  proof (cases "first_max f xs")
    case None
    with Cons show ?thesis by (simp add: keep_higher_def)
  next
    case (Some y)
    with Cons [of b] Cons [of x] show ?thesis
      by (auto simp: keep_higher_def)
  qed
qed simp

lemma foldl_keep_higher: "foldl (keep_higher f) None xs = first_max f xs"
proof (cases xs)
  case (Cons x ys)
  have "foldl (keep_higher f) None xs = foldl (keep_higher f) (Some x) ys"
    by (simp add: Cons keep_higher_def)
  then show ?thesis by (simp only: foldl_keep_higher_Some Cons)
qed simp

text \<open>\<open>dict.fromkeys\<close>: each element once, where it first is.\<close>

fun once :: "'a list \<Rightarrow> 'a list" where
  "once [] = []"
| "once (x # xs) = x # filter (\<lambda>y. y \<noteq> x) (once xs)"

lemma set_once [simp]: "set (once xs) = set xs"
  by (induction xs) auto

lemma distinct_once [simp]: "distinct (once xs)"
  by (induction xs) (auto intro: distinct_filter)

text \<open>\<open>xs.extend(y for y in ys if y not in xs)\<close>: the generator is consumed one element at a
  time, so it sees what it has added.\<close>

fun extend_new :: "'a list \<Rightarrow> 'a list \<Rightarrow> 'a list" where
  "extend_new xs [] = xs"
| "extend_new xs (y # ys) = extend_new (if y \<in> set xs then xs else xs @ [y]) ys"

lemma set_extend_new [simp]: "set (extend_new xs ys) = set xs \<union> set ys"
  by (induction xs ys rule: extend_new.induct) auto

lemma distinct_extend_new: "distinct xs \<Longrightarrow> distinct (extend_new xs ys)"
  by (induction xs ys rule: extend_new.induct) auto

lemma extend_new_prefix: "prefix xs (extend_new xs ys)"
proof (induction xs ys rule: extend_new.induct)
  case (2 xs y ys)
  have "prefix xs (if y \<in> set xs then xs else xs @ [y])" by simp
  then show ?case using 2 by (metis extend_new.simps(2) prefix_order.trans)
qed simp

text \<open>\<open>enumerate(xs)\<close>.\<close>

definition indexed :: "'a list \<Rightarrow> (nat \<times> 'a) list" where
  "indexed xs = zip [0..<length xs] xs"

lemma indexed_simps [simp]:
  "indexed [] = []"
  "length (indexed xs) = length xs"
  by (simp_all add: indexed_def)

lemma set_indexed: "(i, x) \<in> set (indexed xs) \<longleftrightarrow> i < length xs \<and> xs ! i = x"
  by (force simp: indexed_def set_zip)

lemma indexed_member: "p \<in> set (indexed xs) \<Longrightarrow> snd p \<in> set xs"
  by (cases p) (auto simp: set_indexed)

lemma map_snd_indexed [simp]: "map snd (indexed xs) = xs"
  by (simp add: indexed_def)

lemma map_fst_indexed [simp]: "map fst (indexed xs) = [0..<length xs]"
  by (simp add: indexed_def)

lemma indexed_snoc: "indexed (xs @ [x]) = indexed xs @ [(length xs, x)]"
  by (simp add: indexed_def)

text \<open>A list sorted by its first components keeps the order of equal ones: Python's
  \<open>sorted(pairs, key=lambda t: t[0])\<close> is stable, as \<open>sort_key\<close> is.\<close>

definition by_index :: "(nat \<times> 'a) list \<Rightarrow> 'a list" where
  "by_index ps = map snd (sort_key fst ps)"

lemma set_by_index [simp]: "set (by_index ps) = snd ` set ps"
  by (simp add: by_index_def)

lemma length_by_index [simp]: "length (by_index ps) = length ps"
  by (simp add: by_index_def)

lemma by_index_Nil [simp]: "by_index [] = []"
  by (simp add: by_index_def)

lemma by_index_const [simp]: "by_index (map (Pair k) xs) = xs"
proof -
  have "sorted (map fst (map (Pair k) xs))" by (induction xs) auto
  then have "sort_key fst (map (Pair k) xs) = map (Pair k) xs" by (rule sort_key_id_if_sorted)
  then show ?thesis by (simp add: by_index_def comp_def)
qed

lemma sort_key_fst_filter:
  "filter (\<lambda>p. fst p = k) (sort_key fst ps) = filter (\<lambda>p. fst p = k) (ps :: (nat \<times> 'a) list)"
  by (rule sort_key_stable)

end
