(* ===== verification/Report.thy ===== *)
theory Report
  imports Prelude
begin

text \<open>
  The reports of monitors and protocols (\<open>_report.py\<close>): observations with a suspicion score,
  decisions with an action, the identity a report is wrapped in, and the origin stamp a
  decision carries through copies. The exceptions the program raises are values of
  \<open>exc\<close>.
\<close>

section \<open>Values of inspect_ai the reports hold\<close>

text \<open>A JSON value; an object keeps the order of its keys, as a Python \<open>dict\<close> does.\<close>

datatype json =
    JNull
  | JBool bool
  | JInt int
  | JNum rat
  | JStr string
  | JList "json list"
  | JObj "(string \<times> json) list"

text \<open>\<open>inspect_ai.scorer.Reference\<close> and \<open>inspect_ai.tool.ToolCall\<close>, with the attributes this
  repository reads.\<close>

datatype ref_type = MessageRef | EventRef

record reference =
  ref_type :: ref_type
  ref_id :: string
  ref_cite :: "string option"

record tool_call =
  tc_id :: string
  tc_function :: string
  tc_arguments :: "(string \<times> json) list"
  tc_parse_error :: "string option"
  tc_view :: "json option"

section \<open>Actions\<close>

datatype action = Terminate | Reject | Modify | Escalate | Proceed

primrec precedence :: "action \<Rightarrow> nat" where
  "precedence Terminate = 5"
| "precedence Reject = 4"
| "precedence Modify = 3"
| "precedence Escalate = 2"
| "precedence Proceed = 1"

primrec action_text :: "action \<Rightarrow> string" where
  "action_text Terminate = ''terminate''"
| "action_text Reject = ''reject''"
| "action_text Modify = ''modify''"
| "action_text Escalate = ''escalate''"
| "action_text Proceed = ''proceed''"

lemma precedence_inj: "precedence a = precedence b \<longleftrightarrow> a = b"
  by (cases a; cases b) simp_all

text \<open>The actions are ordered by precedence.\<close>

instantiation action :: linorder
begin

definition less_eq_action :: "action \<Rightarrow> action \<Rightarrow> bool" where
  "less_eq_action a b \<longleftrightarrow> precedence a \<le> precedence b"

definition less_action :: "action \<Rightarrow> action \<Rightarrow> bool" where
  "less_action a b \<longleftrightarrow> precedence a < precedence b"

instance
  by standard (auto simp: less_eq_action_def less_action_def precedence_inj)

end

lemma action_le_Terminate [simp]: "a \<le> Terminate"
  by (cases a) (simp_all add: less_eq_action_def)

lemma action_Proceed_le [simp]: "Proceed \<le> a"
  by (cases a) (simp_all add: less_eq_action_def)

section \<open>Observations and decisions\<close>

text \<open>\<open>SentinelSuspicion\<close>: one finite score, or a dict of scores by dimension.\<close>

datatype suspicion = Single rat | Dims "(string \<times> rat) list"

text \<open>A dict of dimensions is not empty and holds each key once.\<close>

fun suspicion_ok :: "suspicion \<Rightarrow> bool" where
  "suspicion_ok (Single x) = True"
| "suspicion_ok (Dims ds) = (ds \<noteq> [] \<and> distinct (map fst ds))"

record observation =
  o_suspicion :: suspicion
  o_explanation :: "string option"
  o_references :: "reference list"
  o_metadata :: "(string \<times> json) list option"

definition observation_score ::
  "suspicion \<Rightarrow> string option \<Rightarrow> reference list \<Rightarrow> (string \<times> json) list option \<Rightarrow> observation" where
  "observation_score suspicion explanation references metadata =
     \<lparr>o_suspicion = suspicion, o_explanation = explanation, o_references = references,
      o_metadata = metadata\<rparr>"

definition observation_flag :: "string option \<Rightarrow> reference list \<Rightarrow> observation" where
  "observation_flag explanation references =
     \<lparr>o_suspicion = Single 1, o_explanation = explanation, o_references = references,
      o_metadata = None\<rparr>"

text \<open>The stamp \<open>_Origin\<close>: the step (a number standing for the step's collection of
  invocations) and the invocation that returned the decision first. \<open>None\<close> is a decision no
  function has returned yet.\<close>

type_synonym origin = "(nat \<times> nat) option"

record decision =
  d_action :: action
  d_audit :: bool
  d_modified :: "tool_call option"
  d_explanation :: "string option"
  d_references :: "reference list"
  d_message :: "string option"
  d_metadata :: "(string \<times> json) list option"
  d_origin :: origin

definition plain_decision :: "action \<Rightarrow> string option \<Rightarrow> reference list \<Rightarrow> decision" where
  "plain_decision action explanation references =
     \<lparr>d_action = action, d_audit = False, d_modified = None, d_explanation = explanation,
      d_references = references, d_message = None, d_metadata = None, d_origin = None\<rparr>"

definition decision_proceed :: "string option \<Rightarrow> reference list \<Rightarrow> decision" where
  "decision_proceed explanation references = plain_decision Proceed explanation references"

definition decision_reject :: "string option \<Rightarrow> string option \<Rightarrow> reference list \<Rightarrow> decision" where
  "decision_reject explanation message references =
     (plain_decision Reject explanation references)\<lparr>d_message := message\<rparr>"

definition decision_terminate :: "string option \<Rightarrow> reference list \<Rightarrow> decision" where
  "decision_terminate explanation references = plain_decision Terminate explanation references"

definition decision_escalate :: "string option \<Rightarrow> reference list \<Rightarrow> decision" where
  "decision_escalate explanation references = plain_decision Escalate explanation references"

lemmas decision_makers [sentinel_simps] =
  decision_proceed_def decision_reject_def decision_terminate_def decision_escalate_def
  plain_decision_def

text \<open>Two origins always compare equal, so decisions are compared without theirs.\<close>

definition decision_eq :: "decision \<Rightarrow> decision \<Rightarrow> bool" where
  "decision_eq a b \<longleftrightarrow> a\<lparr>d_origin := None\<rparr> = b\<lparr>d_origin := None\<rparr>"

lemma decision_eq_refl [simp]: "decision_eq d d"
  by (simp add: decision_eq_def)

definition with_origin :: "decision \<Rightarrow> nat \<Rightarrow> nat \<Rightarrow> decision" where
  "with_origin d step node = d\<lparr>d_origin := Some (step, node)\<rparr>"

lemma with_origin_simps [simp]:
  "d_action (with_origin d s n) = d_action d"
  "d_explanation (with_origin d s n) = d_explanation d"
  "d_references (with_origin d s n) = d_references d"
  "d_modified (with_origin d s n) = d_modified d"
  "d_message (with_origin d s n) = d_message d"
  "d_origin (with_origin d s n) = Some (s, n)"
  "decision_eq (with_origin d s n) e = decision_eq d e"
  by (simp_all add: with_origin_def decision_eq_def)

datatype report = RObs observation | RDec decision

text \<open>A report with the identity of the instance that made it.\<close>

record 'r reported =
  rp_name :: string
  rp_path :: string
  rp_report :: 'r
  rp_function :: string

type_synonym escalations = "decision reported list"

section \<open>Exceptions\<close>

text \<open>The classes of the exceptions the program raises or tells apart.\<close>

datatype exc_class =
    ValueError | TypeError | RuntimeError | MonitorFailedError | LimitExceededError
  | OtherException string

text \<open>Why a decision's shape is refused (\<open>_validate.py\<close>).\<close>

datatype shape_error =
    GenerateStageCannot action
  | AfterCallCannot action
  | ModifiedMismatch action
  | ModifyChangesCall
  | MessageOnlyOnReject action

text \<open>An exception: what the program's own code raises, by the place that raises it, and what
  a monitor or protocol raises itself, by its class and text.\<close>

datatype exc =
    BadShape string shape_error
  | WrongReport string string
  | MonitorDecidedFinal string
  | PathTaken string string string
  | NotALayer string string
  | NoOrigin action
  | MonitorsFailed nat
  | BadInstanceName string
  | DuplicateInstanceName string
  | ExpectedKind string string
  | NoChildren string
  | NoFunctions string
  | DuplicateFunctionName string
  | BadAnswer string
  | GroupAsRoot
  | UserRaised exc_class string

text \<open>The class of an exception, as \<open>type(error)\<close> gives it.\<close>

fun class_of :: "exc \<Rightarrow> exc_class" where
  "class_of (BadShape label why) = ValueError"
| "class_of (WrongReport label got) = TypeError"
| "class_of (MonitorDecidedFinal label) = TypeError"
| "class_of (PathTaken path earlier now) = ValueError"
| "class_of (NotALayer caller path) = ValueError"
| "class_of (NoOrigin a) = RuntimeError"
| "class_of (MonitorsFailed n) = MonitorFailedError"
| "class_of (BadInstanceName name) = ValueError"
| "class_of (DuplicateInstanceName name) = ValueError"
| "class_of (ExpectedKind expected got) = TypeError"
| "class_of (NoChildren who) = ValueError"
| "class_of (NoFunctions who) = ValueError"
| "class_of (DuplicateFunctionName name) = ValueError"
| "class_of (BadAnswer answer) = ValueError"
| "class_of GroupAsRoot = TypeError"
| "class_of (UserRaised c text) = c"

text \<open>A monitor function that raised instead of reporting.\<close>

record failed =
  f_name :: string
  f_path :: string
  f_function :: string
  f_error :: exc

end
