(* ===== verification/Results.thy ===== *)
theory Results
  imports Report
begin

text \<open>
  What a layer's children reported (\<open>_results.py\<close>). \<open>observations\<close> holds what the monitors
  observed and which of them failed; every read of it raises while a monitor failed.
  \<open>strongest\<close> is the strongest of a layer's decisions, the first on a tie. The choice by rank
  is an interface of its own, which a layer's decisions and a scan's results both provide.
\<close>

section \<open>Choosing by rank\<close>

text \<open>A client that picks the strongest of a list by a rank, when the rank tells the values
  apart: what is picked is a member, outranks the others, and its value depends only on
  which values are in the list.\<close>

locale strongest_by =
  fixes rank :: "'a \<Rightarrow> 'k::linorder"
    and pick :: "'a list \<Rightarrow> 'a option"
  assumes pick_member: "pick xs = Some y \<Longrightarrow> y \<in> set xs"
    and pick_top: "pick xs = Some y \<Longrightarrow> x \<in> set xs \<Longrightarrow> rank x \<le> rank y"
    and pick_none: "pick xs = None \<longleftrightarrow> xs = []"
begin

lemma pick_total: "xs \<noteq> [] \<Longrightarrow> \<exists>y. pick xs = Some y"
  using pick_none by fastforce

lemma pick_rank: "pick xs = Some y \<Longrightarrow> rank y = Max (rank ` set xs)"
  by (rule Max_eqI [symmetric]) (auto dest: pick_member pick_top)

lemma pick_rank_set:
  assumes "set xs = set ys" "pick xs = Some x" "pick ys = Some y"
  shows "rank x = rank y"
  using pick_rank [OF assms(2)] pick_rank [OF assms(3)] assms(1) by simp

lemma pick_append:
  assumes "pick (xs @ ys) = Some z" "pick xs = Some x"
  shows "rank x \<le> rank z"
  using pick_top [OF assms(1)] pick_member [OF assms(2)] by simp

end

section \<open>Observations\<close>

fun max_list1 :: "rat \<Rightarrow> rat list \<Rightarrow> rat" where
  "max_list1 x [] = x"
| "max_list1 x (y # ys) = max_list1 (if x < y then y else x) ys"

lemma max_list1_Max: "max_list1 x xs = Max (set (x # xs))"
proof (induction x xs rule: max_list1.induct)
  case (2 x y ys)
  have "Max (set ((if x < y then y else x) # ys)) = Max (set (x # y # ys))"
    by (cases "ys = []") (auto simp: max_def)
  then show ?case using 2 by simp
qed simp

fun peak_score :: "suspicion \<Rightarrow> rat option" where
  "peak_score (Single x) = Some x"
| "peak_score (Dims []) = None"
| "peak_score (Dims (d # ds)) = Some (max_list1 (snd d) (map snd ds))"

text \<open>\<open>peak_suspicion\<close>: \<open>None\<close> stands for the \<open>ValueError\<close> of \<open>max\<close> on an empty dict, which
  a valid observation does not have.\<close>

definition peak_suspicion :: "observation \<Rightarrow> rat option" where
  "peak_suspicion observation = peak_score (o_suspicion observation)"

lemma peak_suspicion_valid: "suspicion_ok s \<Longrightarrow> \<exists>x. peak_score s = Some x"
  by (cases s rule: peak_score.cases) auto

record observations =
  obs_items :: "observation reported list"
  obs_failed :: "failed list"

definition obs_check :: "observations \<Rightarrow> exc option" where
  "obs_check o' = (if obs_failed o' \<noteq> [] then Some (MonitorsFailed (length (obs_failed o'))) else None)"

definition obs_read :: "observations \<Rightarrow> exc + observation reported list" where
  "obs_read o' = (case obs_check o' of Some e \<Rightarrow> Inl e | None \<Rightarrow> Inr (obs_items o'))"

definition obs_len :: "observations \<Rightarrow> exc + nat" where
  "obs_len o' = (case obs_check o' of Some e \<Rightarrow> Inl e | None \<Rightarrow> Inr (length (obs_items o')))"

definition obs_succeeded :: "observations \<Rightarrow> observations" where
  "obs_succeeded o' = \<lparr>obs_items = obs_items o', obs_failed = []\<rparr>"

definition max_suspicion :: "observations \<Rightarrow> exc + rat option" where
  "max_suspicion o' =
     (case obs_check o' of
        Some e \<Rightarrow> Inl e
      | None \<Rightarrow>
          Inr (case List.map_filter (\<lambda>r. peak_suspicion (rp_report r)) (obs_items o') of
                 [] \<Rightarrow> None
               | x # xs \<Rightarrow> Some (max_list1 x xs)))"

lemma obs_read_succeeded [simp]: "obs_read (obs_succeeded o') = Inr (obs_items o')"
  by (simp add: obs_read_def obs_check_def obs_succeeded_def)

lemma obs_read_Inr: "obs_read o' = Inr xs \<longleftrightarrow> obs_failed o' = [] \<and> xs = obs_items o'"
  by (auto simp: obs_read_def obs_check_def)

text \<open>\<open>warn_failed\<close>: the failures logged, one per path and class of exception, and what has
  been warned of by then.\<close>

type_synonym warned = "(string \<times> exc_class) list"

fun warn_failed :: "warned \<Rightarrow> failed list \<Rightarrow> warned \<times> failed list" where
  "warn_failed w [] = (w, [])"
| "warn_failed w (f # fs) =
     (let key = (f_path f, class_of (f_error f))
      in if key \<in> set w then warn_failed w fs
         else case warn_failed (w @ [key]) fs of (w', logged) \<Rightarrow> (w', f # logged))"

lemma warn_failed_keys:
  "set (fst (warn_failed w fs)) = set w \<union> (\<lambda>f. (f_path f, class_of (f_error f))) ` set fs"
  by (induction w fs rule: warn_failed.induct) (auto simp: Let_def split: prod.splits)

lemma warn_failed_distinct:
  "distinct w \<Longrightarrow> distinct (fst (warn_failed w fs))"
  by (induction w fs rule: warn_failed.induct) (auto simp: Let_def split: prod.splits)

section \<open>Decisions\<close>

definition strongest :: "decision reported list \<Rightarrow> decision reported option" where
  "strongest ds = first_max (\<lambda>d. precedence (d_action (rp_report d))) ds"

interpretation layer_pick: strongest_by "\<lambda>d. precedence (d_action (rp_report d))" strongest
  by unfold_locales (auto simp: strongest_def dest: first_max_Some)

lemma strongest_None [simp]: "strongest ds = None \<longleftrightarrow> ds = []"
  by (rule layer_pick.pick_none)

lemma strongest_Nil [simp]: "strongest [] = None"
  by simp

lemma strongest_member: "strongest ds = Some d \<Longrightarrow> d \<in> set ds"
  by (rule layer_pick.pick_member)

lemma strongest_top:
  "strongest ds = Some d \<Longrightarrow> x \<in> set ds \<Longrightarrow> d_action (rp_report x) \<le> d_action (rp_report d)"
  unfolding less_eq_action_def by (rule layer_pick.pick_top)

text \<open>Both families of report from one layer.\<close>

record reports =
  rs_observations :: observations
  rs_decisions :: "decision reported list"

end
