(* ===== verification/Step.thy ===== *)
theory Step
  imports Report
begin

text \<open>
  The step a sentinel examines (\<open>_step.py\<close>): one of four stage payloads, with the messages,
  tools and calls of inspect_ai as records of the attributes this repository reads, the
  decisions a person made earlier, and the check of a decision's shape against its step
  (\<open>_validate.py\<close>).
\<close>

section \<open>Messages and model outputs\<close>

datatype role = System | User | Assistant | Tool

datatype content_item =
    TextItem string
  | ReasoningItem string
  | ToolUseItem string
  | OtherItem string string

primrec item_type :: "content_item \<Rightarrow> string" where
  "item_type (TextItem t) = ''text''"
| "item_type (ReasoningItem t) = ''reasoning''"
| "item_type (ToolUseItem t) = ''tool_use''"
| "item_type (OtherItem k t) = k"

datatype content = Text string | Items "content_item list"

text \<open>A chat message; \<open>cm_text\<close> and \<open>cm_content_list\<close> are the attributes \<open>text\<close> and
  \<open>content_list\<close> that inspect_ai derives from its content.\<close>

record chat_message =
  cm_role :: role
  cm_id :: "string option"
  cm_content :: content
  cm_text :: string
  cm_content_list :: "content_item list"
  cm_model :: "string option"
  cm_tool_calls :: "tool_call list option"
  cm_tool_call_id :: "string option"
  cm_error :: "(string \<times> string) option"

type_synonym messages = "chat_message list"

datatype tool_choice = ChoiceText string | ChoiceFunction string

record choice =
  ch_message :: chat_message
  ch_stop_reason :: string

record model_output =
  mo_model :: string
  mo_choices :: "choice list"

text \<open>\<open>output.message\<close> is the first choice's; the program reads it only where there is one.\<close>

definition output_message :: "model_output \<Rightarrow> chat_message option" where
  "output_message out = (case mo_choices out of [] \<Rightarrow> None | c # _ \<Rightarrow> Some (ch_message c))"

section \<open>Decisions a person made\<close>

datatype stage = ModelInput | ModelOutputStage | ToolCallStage | ToolResultStage

primrec stage_text :: "stage \<Rightarrow> string" where
  "stage_text ModelInput = ''model_input''"
| "stage_text ModelOutputStage = ''model_output''"
| "stage_text ToolCallStage = ''tool_call''"
| "stage_text ToolResultStage = ''tool_result''"

record human_decision =
  hd_stage :: stage
  hd_step_id :: string
  hd_call_ids :: "string list"
  hd_decided :: "decision reported"

section \<open>The four stages\<close>

record before_generate =
  bg_model :: string
  bg_conversation :: string
  bg_input :: messages
  bg_agent_messages :: "messages option"
  bg_history :: "messages option"
  bg_human_decisions :: "human_decision list option"
  bg_tools :: "json list"
  bg_tool_choice :: tool_choice
  bg_config :: json

record after_generate =
  ag_model :: string
  ag_conversation :: string
  ag_input :: messages
  ag_agent_messages :: "messages option"
  ag_history :: "messages option"
  ag_human_decisions :: "human_decision list option"
  ag_tools :: "json list"
  ag_tool_choice :: tool_choice
  ag_config :: json
  ag_output :: model_output

record truncation =
  tr_original_bytes :: nat
  tr_limit_bytes :: nat

text \<open>Whether the host cut a tool's output: \<open>Cut\<close>, \<open>False\<close> or \<open>None\<close>.\<close>

datatype truncated = TruncatedTo truncation | NotTruncated | TruncationUnknown

record before_tool_call =
  bt_conversation :: string
  bt_message :: string
  bt_message_id :: string
  bt_call :: tool_call
  bt_view :: json
  bt_input :: "messages option"
  bt_agent_messages :: "messages option"
  bt_history :: "messages option"
  bt_human_decisions :: "human_decision list option"
  bt_tools :: "json list option"
  bt_tool_choice :: "tool_choice option"

record after_tool_call =
  at_conversation :: string
  at_message :: string
  at_message_id :: string
  at_call :: tool_call
  at_result :: chat_message
  at_output :: "json option"
  at_view :: json
  at_input :: "messages option"
  at_agent_messages :: "messages option"
  at_history :: "messages option"
  at_human_decisions :: "human_decision list option"
  at_tools :: "json list option"
  at_tool_choice :: "tool_choice option"
  at_truncated :: truncated

datatype step =
    BeforeGenerate before_generate
  | AfterGenerate after_generate
  | BeforeToolCall before_tool_call
  | AfterToolCall after_tool_call

primrec stage_of :: "step \<Rightarrow> stage" where
  "stage_of (BeforeGenerate s) = ModelInput"
| "stage_of (AfterGenerate s) = ModelOutputStage"
| "stage_of (BeforeToolCall s) = ToolCallStage"
| "stage_of (AfterToolCall s) = ToolResultStage"

primrec step_conversation :: "step \<Rightarrow> string" where
  "step_conversation (BeforeGenerate s) = bg_conversation s"
| "step_conversation (AfterGenerate s) = ag_conversation s"
| "step_conversation (BeforeToolCall s) = bt_conversation s"
| "step_conversation (AfterToolCall s) = at_conversation s"

primrec step_input :: "step \<Rightarrow> messages option" where
  "step_input (BeforeGenerate s) = Some (bg_input s)"
| "step_input (AfterGenerate s) = Some (ag_input s)"
| "step_input (BeforeToolCall s) = bt_input s"
| "step_input (AfterToolCall s) = at_input s"

primrec step_history :: "step \<Rightarrow> messages option" where
  "step_history (BeforeGenerate s) = bg_history s"
| "step_history (AfterGenerate s) = ag_history s"
| "step_history (BeforeToolCall s) = bt_history s"
| "step_history (AfterToolCall s) = at_history s"

primrec step_agent_messages :: "step \<Rightarrow> messages option" where
  "step_agent_messages (BeforeGenerate s) = bg_agent_messages s"
| "step_agent_messages (AfterGenerate s) = ag_agent_messages s"
| "step_agent_messages (BeforeToolCall s) = bt_agent_messages s"
| "step_agent_messages (AfterToolCall s) = at_agent_messages s"

primrec step_human_decisions :: "step \<Rightarrow> human_decision list option" where
  "step_human_decisions (BeforeGenerate s) = bg_human_decisions s"
| "step_human_decisions (AfterGenerate s) = ag_human_decisions s"
| "step_human_decisions (BeforeToolCall s) = bt_human_decisions s"
| "step_human_decisions (AfterToolCall s) = at_human_decisions s"

primrec step_tools :: "step \<Rightarrow> json list option" where
  "step_tools (BeforeGenerate s) = Some (bg_tools s)"
| "step_tools (AfterGenerate s) = Some (ag_tools s)"
| "step_tools (BeforeToolCall s) = bt_tools s"
| "step_tools (AfterToolCall s) = at_tools s"

primrec step_tool_choice :: "step \<Rightarrow> tool_choice option" where
  "step_tool_choice (BeforeGenerate s) = Some (bg_tool_choice s)"
| "step_tool_choice (AfterGenerate s) = Some (ag_tool_choice s)"
| "step_tool_choice (BeforeToolCall s) = bt_tool_choice s"
| "step_tool_choice (AfterToolCall s) = at_tool_choice s"

section \<open>The decision covering a call\<close>

definition human_decision_for :: "step \<Rightarrow> string \<Rightarrow> human_decision option" where
  "human_decision_for step call_id =
     find (\<lambda>d. call_id \<in> set (hd_call_ids d))
       (rev (case step_human_decisions step of None \<Rightarrow> [] | Some ds \<Rightarrow> ds))"

lemma find_rev_last:
  "find P (rev xs) = Some x \<longleftrightarrow>
     (\<exists>us vs. xs = us @ x # vs \<and> P x \<and> (\<forall>v\<in>set vs. \<not> P v))"
proof (induction xs rule: rev_induct)
  case (snoc y xs)
  show ?case
  proof (cases "P y")
    case True
    have "\<And>us vs. xs @ [y] = us @ x # vs \<Longrightarrow> \<forall>v\<in>set vs. \<not> P v \<Longrightarrow> vs = [] \<and> x = y"
      using True by (metis append_is_Nil_conv last.simps last_appendR last_in_set list.distinct(1))
    moreover have "xs @ [y] = xs @ y # [] \<and> (\<forall>v\<in>set []. \<not> P v)" by simp
    ultimately show ?thesis using True by (auto 4 3)
  next
    case False
    then have "find P (rev (xs @ [y])) = find P (rev xs)" by simp
    moreover have "(\<exists>us vs. xs @ [y] = us @ x # vs \<and> P x \<and> (\<forall>v\<in>set vs. \<not> P v)) \<longleftrightarrow>
        (\<exists>us vs. xs = us @ x # vs \<and> P x \<and> (\<forall>v\<in>set vs. \<not> P v))" (is "?L \<longleftrightarrow> ?R")
    proof
      assume ?L
      then obtain us vs where e: "xs @ [y] = us @ x # vs" "P x" "\<forall>v\<in>set vs. \<not> P v" by blast
      with False have "vs \<noteq> []" by auto
      then obtain ws z where w: "vs = ws @ [z]" by (cases vs rule: rev_cases) auto
      with e(1) have "xs = us @ x # ws" by simp
      with e w show ?R by auto
    next
      assume ?R
      then obtain us vs where "xs = us @ x # vs" "P x" "\<forall>v\<in>set vs. \<not> P v" by blast
      with False show ?L by (intro exI [of _ us] exI [of _ "vs @ [y]"]) auto
    qed
    ultimately show ?thesis using snoc.IH by simp
  qed
qed simp

section \<open>The shape of a decision\<close>

definition is_generate :: "step \<Rightarrow> bool" where
  "is_generate step \<longleftrightarrow> stage_of step \<in> {ModelInput, ModelOutputStage}"

definition validate_decision_shape :: "decision \<Rightarrow> step \<Rightarrow> shape_error option" where
  "validate_decision_shape d step =
     (if is_generate step \<and> d_action d \<in> {Reject, Modify} then
        Some (GenerateStageCannot (d_action d))
      else if stage_of step = ToolResultStage \<and> d_action d \<in> {Reject, Modify} then
        Some (AfterCallCannot (d_action d))
      else if (d_action d = Modify) \<noteq> (d_modified d \<noteq> None) then
        Some (ModifiedMismatch (d_action d))
      else if (case (d_modified d, step) of
                 (Some m, BeforeToolCall s) \<Rightarrow>
                   tc_id m \<noteq> tc_id (bt_call s) \<or> tc_function m \<noteq> tc_function (bt_call s)
               | _ \<Rightarrow> False) then
        Some ModifyChangesCall
      else if d_message d \<noteq> None \<and> d_action d \<noteq> Reject then
        Some (MessageOnlyOnReject (d_action d))
      else None)"

definition validate_shape :: "decision \<Rightarrow> step \<Rightarrow> string \<Rightarrow> exc option" where
  "validate_shape d step label =
     (case validate_decision_shape d step of None \<Rightarrow> None | Some e \<Rightarrow> Some (BadShape label e))"

lemma validate_shape_None [simp]:
  "validate_shape d step label = None \<longleftrightarrow> validate_decision_shape d step = None"
  by (simp add: validate_shape_def split: option.splits)

text \<open>What a decision that passes may be, stage by stage.\<close>

definition legal_action :: "stage \<Rightarrow> action \<Rightarrow> bool" where
  "legal_action st a \<longleftrightarrow> st = ToolCallStage \<or> a \<in> {Terminate, Escalate, Proceed}"

definition well_shaped :: "decision \<Rightarrow> step \<Rightarrow> bool" where
  "well_shaped d step \<longleftrightarrow>
     legal_action (stage_of step) (d_action d)
     \<and> (d_modified d \<noteq> None \<longleftrightarrow> d_action d = Modify)
     \<and> (d_message d \<noteq> None \<longrightarrow> d_action d = Reject)
     \<and> (\<forall>m s. d_modified d = Some m \<longrightarrow> step = BeforeToolCall s \<longrightarrow>
          tc_id m = tc_id (bt_call s) \<and> tc_function m = tc_function (bt_call s))"

lemma validate_iff_well_shaped: "validate_decision_shape d step = None \<longleftrightarrow> well_shaped d step"
  unfolding validate_decision_shape_def well_shaped_def legal_action_def is_generate_def
  by (cases step; cases "d_action d") (auto split: option.splits)

lemma validate_origin [simp]:
  "validate_decision_shape (with_origin d s n) step = validate_decision_shape d step"
  by (simp only: validate_decision_shape_def with_origin_simps)

end
