(* ===== verification/Invocations.thy ===== *)
theory Invocations
  imports Results Step
begin

text \<open>
  The invocations of a step and where an escalation came from (\<open>_unhandled.py\<close>). The objects
  of the program are an arena: an invocation is its index in the list, made after its parent,
  so a parent's index is lower. A decision says by its origin which invocation returned it
  first.
\<close>

section \<open>Invocations\<close>

record invocation =
  iv_parent :: "nat option"
  iv_function :: string
  iv_path :: string
  iv_decided :: "decision reported option"

type_synonym arena = "invocation list"

definition arena_ok :: "arena \<Rightarrow> bool" where
  "arena_ok nodes \<longleftrightarrow> (\<forall>i<length nodes. \<forall>p. iv_parent (nodes ! i) = Some p \<longrightarrow> p < i)"

text \<open>\<open>_ancestors\<close>: the parent, its parent, and so on. The test \<open>p < n\<close> always holds in the
  arenas the runner makes (\<open>arena_ok\<close>), and makes the loop's end visible here.\<close>

function ancestors :: "arena \<Rightarrow> nat \<Rightarrow> nat list" where
  "ancestors nodes n =
     (case iv_parent (nodes ! n) of
        None \<Rightarrow> []
      | Some p \<Rightarrow> if p < n then p # ancestors nodes p else [])"
  by pat_completeness auto
termination
  by (relation "measure snd") auto

declare ancestors.simps [simp del]

lemma ancestors_less: "a \<in> set (ancestors nodes n) \<Longrightarrow> a < n"
proof (induction nodes n rule: ancestors.induct)
  case (1 nodes n)
  show ?case
  proof (cases "iv_parent (nodes ! n)")
    case None
    with "1.prems" show ?thesis by (simp add: ancestors.simps [of nodes n])
  next
    case (Some p)
    with "1.prems" have "p < n" "a = p \<or> a \<in> set (ancestors nodes p)"
      by (simp_all add: ancestors.simps [of nodes n] split: if_splits)
    then show ?thesis using "1.IH" [OF Some] by fastforce
  qed
qed

lemma ancestors_parent:
  assumes "arena_ok nodes" "n < length nodes"
  shows "ancestors nodes n =
    (case iv_parent (nodes ! n) of None \<Rightarrow> [] | Some p \<Rightarrow> p # ancestors nodes p)"
  using assms by (subst ancestors.simps) (auto simp: arena_ok_def split: option.splits)

definition escalated :: "arena \<Rightarrow> nat \<Rightarrow> bool" where
  "escalated nodes n \<longleftrightarrow>
     (case iv_decided (nodes ! n) of
        None \<Rightarrow> False | Some r \<Rightarrow> d_action (rp_report r) = Escalate)"

definition reaches :: "arena \<Rightarrow> nat \<Rightarrow> bool" where
  "reaches nodes n \<longleftrightarrow> list_all (escalated nodes) (ancestors nodes n)"

definition forwards_up :: "arena \<Rightarrow> nat \<Rightarrow> decision \<Rightarrow> bool" where
  "forwards_up nodes n report \<longleftrightarrow>
     (case d_origin report of
        None \<Rightarrow> False
      | Some (step, returned_by) \<Rightarrow> n \<in> set (ancestors nodes returned_by))"

text \<open>\<open>sources\<close>: what escalated all the way to the root, less what only passed up one from
  below it.\<close>

definition sources :: "arena \<Rightarrow> nat list \<Rightarrow> decision reported list" where
  "sources nodes found =
     List.map_filter
       (\<lambda>n. case iv_decided (nodes ! n) of
              None \<Rightarrow> None
            | Some r \<Rightarrow> if forwards_up nodes n (rp_report r) then None else Some r)
       (filter (\<lambda>n. escalated nodes n \<and> reaches nodes n) found)"

section \<open>Stamps\<close>

text \<open>\<open>stamped\<close>: a decision first returned in the step keeps its origin; any other is a copy
  stamped with this invocation.\<close>

definition stamped :: "nat option \<Rightarrow> decision \<Rightarrow> nat \<Rightarrow> decision" where
  "stamped step d node =
     (case step of
        None \<Rightarrow> d
      | Some t \<Rightarrow>
          (case d_origin d of
             Some (s, n) \<Rightarrow> if s = t then d else with_origin d t node
           | None \<Rightarrow> with_origin d t node))"

lemma stamped_simps [simp]:
  "d_action (stamped step d node) = d_action d"
  "decision_eq (stamped step d node) d"
  "validate_decision_shape (stamped t d node) st = validate_decision_shape d st"
  by (simp_all add: stamped_def split: option.splits prod.splits)

lemma stamped_origin: "\<exists>n. d_origin (stamped (Some t) d node) = Some (t, n)"
  by (auto simp: stamped_def split: option.splits prod.splits)

section \<open>The unhandled escalation\<close>

definition named_reason :: "string \<Rightarrow> decision reported \<Rightarrow> string" where
  "named_reason who e =
     (case d_explanation (rp_report e) of
        Some reason \<Rightarrow> if reason = [] then who else who @ '': '' @ reason
      | None \<Rightarrow> who)"

definition unhandled :: "decision reported list \<Rightarrow> decision" where
  "unhandled escalations =
     decision_terminate
       (Some (''unhandled escalation from ''
          @ join ''; ''
              (map (\<lambda>e. named_reason (if rp_path e = [] then rp_name e else rp_path e) e) escalations)
          @ ''. To say what an escalation means, end the configuration with human() or handle_escalation(''
          @ [CHR 0x27] @ ''terminate'' @ [CHR 0x27] @ '' | '' @ [CHR 0x27] @ ''proceed'' @ [CHR 0x27]
          @ '') in a sequential().''))
       (foldl (\<lambda>refs e. extend_new refs (d_references (rp_report e))) [] escalations)"

lemma unhandled_action [simp]: "d_action (unhandled es) = Terminate"
  by (simp add: unhandled_def decision_makers)

lemma unhandled_well_shaped [simp]: "well_shaped (unhandled es) step"
  by (simp add: unhandled_def decision_makers well_shaped_def legal_action_def)

lemma foldl_extend_new:
  "set (foldl (\<lambda>refs e. extend_new refs (f e)) acc es) = set acc \<union> (\<Union>e\<in>set es. set (f e))"
  by (induction es arbitrary: acc) auto

lemma foldl_extend_new_distinct:
  "distinct acc \<Longrightarrow> distinct (foldl (\<lambda>refs e. extend_new refs (f e)) acc es)"
  by (induction es arbitrary: acc) (auto simp: distinct_extend_new)

text \<open>The references of an unhandled escalation are those of its sources, each once.\<close>

lemma unhandled_references:
  "set (d_references (unhandled es)) = (\<Union>e\<in>set es. set (d_references (rp_report e)))"
  "distinct (d_references (unhandled es))"
  by (simp_all add: unhandled_def decision_makers foldl_extend_new foldl_extend_new_distinct)

section \<open>Where escalations come from\<close>

lemma map_filter_member:
  "y \<in> set (List.map_filter f xs) \<longleftrightarrow> (\<exists>x\<in>set xs. f x = Some y)"
  by (auto simp: List.map_filter_def image_iff intro: bexI)

lemma in_sources:
  "r \<in> set (sources nodes found) \<longleftrightarrow>
     (\<exists>n\<in>set found. iv_decided (nodes ! n) = Some r \<and> escalated nodes n \<and> reaches nodes n
        \<and> \<not> forwards_up nodes n (rp_report r))"
  unfolding sources_def map_filter_member
  by (auto split: option.splits if_splits intro!: bexI)

lemma sources_escalate: "r \<in> set (sources nodes found) \<Longrightarrow> d_action (rp_report r) = Escalate"
  by (auto simp: in_sources escalated_def)

text \<open>The invocation that returned a decision first never passes it up itself.\<close>

lemma not_forwards_own: "d_origin d = Some (t, n) \<Longrightarrow> \<not> forwards_up nodes n d"
  by (auto simp: forwards_up_def dest: ancestors_less)

text \<open>So an escalation that an invocation returned first is one of the sources whenever every
  layer above escalated.\<close>

lemma sources_originator:
  assumes "n \<in> set found" "iv_decided (nodes ! n) = Some r" "escalated nodes n" "reaches nodes n"
    and "d_origin (rp_report r) = Some (t, n)"
  shows "r \<in> set (sources nodes found)"
  using assms not_forwards_own by (auto simp: in_sources)

end
