(* ===== verification/Runner.thy ===== *)
theory Runner
  imports Invocations
begin

text \<open>
  The runner (\<open>_runner.py\<close>, \<open>_final.py\<close>, and the running step of \<open>_host.py\<close>): what a layer
  does with the monitors and protocols it runs together.

  A monitor or protocol function is a \<open>prog\<close>: what it does between its calls into the runner
  and the host, as a tree. The interpreter \<open>exec\<close> gives a \<open>prog\<close> its meaning over the state
  of the running step, and \<open>run_named\<close>, \<open>run_child\<close> and \<open>run_member\<close> are the functions of
  the source of those names over functions already given their meaning.

  The task group is anyio's. What the runner relies on is written out: children arrive in
  some order, a child that raises and a call of \<open>cancel()\<close> cancel the others, and what is
  cancelled stops at an await. Which order, and how many awaits a cancelled child still
  passes, is a parameter, the list \<open>rt_choices\<close> of the state, so what is proved holds for
  every schedule. The records of one child stay together in the log; those of siblings,
  which can interleave, are one child after another.
\<close>

section \<open>Exceptions in flight\<close>

text \<open>\<open>Final\<close>, with the \<open>Origin\<close> the runner gives it; \<open>None\<close> until it has one.\<close>

record final_origin =
  fo_path :: string
  fo_step :: step
  fo_reported :: "decision reported"

record final =
  fx_decision :: decision
  fx_origin :: "final_origin option"

text \<open>What a function raises: an \<open>Exception\<close>, a \<open>Final\<close>, a cancellation, or an exception
  group of a task group of its own.\<close>

datatype exn = XErr exc | XFinal final | XCancelled | XGroup "exn list"

fun leaves :: "exn list \<Rightarrow> exn list" where
  "leaves [] = []"
| "leaves (XGroup xs # ys) = leaves xs @ leaves ys"
| "leaves (XCancelled # ys) = leaves ys"
| "leaves (XErr e # ys) = XErr e # leaves ys"
| "leaves (XFinal f # ys) = XFinal f # leaves ys"

definition leaf_errors :: "exn list \<Rightarrow> exc list" where
  "leaf_errors xs = List.map_filter (\<lambda>x. case x of XErr e \<Rightarrow> Some e | _ \<Rightarrow> None) xs"

definition leaf_finals :: "exn list \<Rightarrow> final list" where
  "leaf_finals xs = List.map_filter (\<lambda>x. case x of XFinal f \<Rightarrow> Some f | _ \<Rightarrow> None) xs"

text \<open>\<open>_partition\<close>: the errors and the finals of a group's leaves.\<close>

definition partition_exns :: "exn list \<Rightarrow> exc list \<times> final list" where
  "partition_exns raised = (leaf_errors (leaves raised), leaf_finals (leaves raised))"

section \<open>The running step\<close>

datatype event =
    Recorded string string step "report reported"
  | MonitorFailed string string step failed
  | Cancelled string string step string
  | Bypassed string string step string
  | Superseded string string step "decision reported"

text \<open>The state of the step: the recorder's events, the factory that runs at each path
  (\<open>StepState.factories\<close>), the invocations, those that decided, those whose \<open>on_success\<close>
  ran, the failures warned of and logged, what the host was asked, and the schedule.
  \<open>rt_cancel\<close> is where the running task stands: nobody cancels it, it will be cancelled
  during the await after the next \<open>n\<close>, or it has been cancelled, when every await raises.\<close>

datatype pending = NoCancel | CancelIn nat | CancelRequested

text \<open>\<open>HumanAnswer\<close>, and what a host was asked for and a person answered, with the path of the
  invocation that asked; an answer holds the position of what was asked.\<close>

record human_answer =
  ha_decision :: string
  ha_reason :: "string option"
  ha_modified :: "tool_call option"

datatype asked =
    HostCall json
  | HumanAsked string step escalations "string list"
  | HumanAnswered nat human_answer

record run_state =
  rt_events :: "event list"
  rt_factories :: "string \<Rightarrow> string option"
  rt_token :: nat
  rt_nodes :: arena
  rt_found :: "nat list"
  rt_succeeded :: "nat list"
  rt_warned :: warned
  rt_logged :: "failed list"
  rt_asked :: "asked list"
  rt_cancel :: pending
  rt_choices :: "nat list"

definition log_event :: "event \<Rightarrow> run_state \<Rightarrow> run_state" where
  "log_event e s = s\<lparr>rt_events := rt_events s @ [e]\<rparr>"

text \<open>\<open>layer\<close> and \<open>enter_layer\<close> of \<open>_host.py\<close>.\<close>

definition layer :: "string \<Rightarrow> string \<Rightarrow> run_state \<Rightarrow> exc + string" where
  "layer path caller s =
     (case rt_factories s path of None \<Rightarrow> Inl (NotALayer caller path) | Some f \<Rightarrow> Inr f)"

definition enter_layer :: "string \<Rightarrow> string \<Rightarrow> run_state \<Rightarrow> exc option \<times> run_state" where
  "enter_layer path factory s =
     (case rt_factories s path of
        None \<Rightarrow> (None, s\<lparr>rt_factories := (rt_factories s)(path \<mapsto> factory)\<rparr>)
      | Some earlier \<Rightarrow>
          (if earlier = factory then None else Some (PathTaken path earlier factory), s))"

text \<open>\<open>invocation\<close>, \<open>decided\<close> and \<open>_succeeded\<close>, over the arena.\<close>

definition new_invocation :: "nat option \<Rightarrow> string \<Rightarrow> string \<Rightarrow> run_state \<Rightarrow> nat \<times> run_state" where
  "new_invocation cur fn path s =
     (length (rt_nodes s),
      s\<lparr>rt_nodes := rt_nodes s @
          [\<lparr>iv_parent = cur, iv_function = fn, iv_path = path, iv_decided = None\<rparr>]\<rparr>)"

definition decided :: "nat \<Rightarrow> decision reported \<Rightarrow> run_state \<Rightarrow> run_state" where
  "decided node r s =
     s\<lparr>rt_nodes := (rt_nodes s)[node := (rt_nodes s ! node)\<lparr>iv_decided := Some r\<rparr>],
       rt_found := rt_found s @ [node]\<rparr>"

definition succeeded_node :: "nat \<Rightarrow> run_state \<Rightarrow> run_state" where
  "succeeded_node node s = s\<lparr>rt_succeeded := rt_succeeded s @ [node]\<rparr>"

definition warn :: "failed list \<Rightarrow> run_state \<Rightarrow> run_state" where
  "warn fs s =
     (case warn_failed (rt_warned s) fs of
        (w, logged) \<Rightarrow> s\<lparr>rt_warned := w, rt_logged := rt_logged s @ logged\<rparr>)"

text \<open>The next choice of the schedule, 0 once it has run out.\<close>

definition take_choice :: "run_state \<Rightarrow> nat \<times> run_state" where
  "take_choice s =
     (case rt_choices s of [] \<Rightarrow> (0, s) | c # cs \<Rightarrow> (c, s\<lparr>rt_choices := cs\<rparr>))"

section \<open>Surfacing one failure of a group\<close>

text \<open>\<open>_supersede\<close>: record each final as superseded; \<open>Some\<close> is the exception it raises.\<close>

fun supersede :: "final list \<Rightarrow> run_state \<Rightarrow> exc option \<times> run_state" where
  "supersede [] s = (None, s)"
| "supersede (f # fs) s =
     (case fx_origin f of
        None \<Rightarrow> (Some (NoOrigin (d_action (fx_decision f))), s)
      | Some og \<Rightarrow>
          (case layer (fo_path og) ''The runner'' s of
             Inl e \<Rightarrow> (Some e, s)
           | Inr factory \<Rightarrow>
               supersede fs (log_event (Superseded (fo_path og) factory (fo_step og) (fo_reported og)) s)))"

text \<open>\<open>_surface\<close>: an error outranks every final, and the finals that were decided are
  superseded; otherwise the first final goes on and the others are superseded. \<open>Inl\<close> is what
  recording a supersession raised.\<close>

definition claimed :: "final \<Rightarrow> bool" where
  "claimed f \<longleftrightarrow> fx_origin f \<noteq> None"

definition surface :: "exc list \<Rightarrow> final list \<Rightarrow> run_state \<Rightarrow> (exc + exn) \<times> run_state" where
  "surface errors finals s =
     (if errors \<noteq> [] then
        (case supersede (filter claimed finals) s of
           (Some e, s') \<Rightarrow> (Inl e, s')
         | (None, s') \<Rightarrow> (Inr (XErr (hd errors)), s'))
      else
        (case supersede (tl finals) s of
           (Some e, s') \<Rightarrow> (Inl e, s')
         | (None, s') \<Rightarrow> (Inr (XFinal (hd finals)), s')))"

section \<open>Sentinels whose functions have a meaning\<close>

datatype kind = MonitorKind | ProtocolKind

primrec kind_text :: "kind \<Rightarrow> string" where
  "kind_text MonitorKind = ''monitor''"
| "kind_text ProtocolKind = ''protocol''"

text \<open>A call of a function: the path of its context, the step, the escalations it is handed,
  and the invocation that runs it.\<close>

type_synonym body =
  "string \<Rightarrow> step \<Rightarrow> escalations \<Rightarrow> nat option \<Rightarrow> run_state \<Rightarrow> (exn + report option) \<times> run_state"

record run_function =
  mb_function :: string
  mb_accepted :: "stage list"
  mb_body :: body

text \<open>A configured instance: its kind, its registry name with and without the package prefix,
  whether it is a \<open>Group\<close>, and its functions.\<close>

record run_instance =
  sn_kind :: kind
  sn_factory :: string
  sn_name :: string
  sn_grouped :: bool
  sn_members :: "run_function list"

definition describe :: "string \<Rightarrow> string \<Rightarrow> bool \<Rightarrow> string" where
  "describe name fn grouped =
     [CHR 0x27] @ name @ [CHR 0x27]
      @ (if grouped then '' (function '' @ [CHR 0x27] @ fn @ [CHR 0x27] @ '')'' else [])"

definition valid_instance_name :: "string \<Rightarrow> exc option" where
  "valid_instance_name name =
     (if name = [] \<or> CHR ''/'' \<in> set name then Some (BadInstanceName name) else None)"

definition child_path :: "string \<Rightarrow> string \<Rightarrow> string" where
  "child_path path name = (if path = [] then name else path @ ''/'' @ name)"

text \<open>\<open>_on_final\<close>: what a function that raised finals comes to.\<close>

definition on_final ::
  "final list \<Rightarrow> kind \<Rightarrow> string \<Rightarrow> step \<Rightarrow> string \<Rightarrow> string \<Rightarrow> string \<Rightarrow> run_state
     \<Rightarrow> (exc + exn) \<times> run_state" where
  "on_final finals kind path step child_name fn label s =
     (if kind = MonitorKind \<and> \<not> list_all claimed finals then
        (case supersede (filter claimed finals) s of
           (Some e, s') \<Rightarrow> (Inl e, s')
         | (None, s') \<Rightarrow> (Inl (MonitorDecidedFinal label), s'))
      else
        (case first_error (map (\<lambda>f. validate_shape (fx_decision f) step label)
                (filter (\<lambda>f. \<not> claimed f) finals)) of
           Some e \<Rightarrow>
             (case supersede (filter claimed finals) s of
                (Some e', s') \<Rightarrow> (Inl e', s')
              | (None, s') \<Rightarrow> (Inl e, s'))
         | None \<Rightarrow>
             (let claim = (\<lambda>f. if claimed f then f else
                 f\<lparr>fx_origin := Some \<lparr>fo_path = path, fo_step = step,
                     fo_reported = \<lparr>rp_name = child_name, rp_path = path,
                       rp_report = fx_decision f, rp_function = fn\<rparr>\<rparr>\<rparr>)
              in if claimed (hd finals) then
                   (case layer path ''The runner'' s of
                      Inl e \<Rightarrow> (Inl e, s)
                    | Inr factory \<Rightarrow>
                        surface [] (map claim finals) (log_event (Bypassed path factory step child_name) s))
                 else surface [] (map claim finals) s)))"

datatype member_result =
    NoReport
  | MemberFailed failed
  | MemberReported "report reported"

text \<open>The failure \<open>_run_member\<close> goes on with when a function raised a group of errors: what
  surfaces, or the first limit among them.\<close>

definition group_failure :: "exc list \<Rightarrow> exn \<Rightarrow> exn" where
  "group_failure errors surfaced =
     (case filter (\<lambda>e. class_of e = LimitExceededError) errors of
        [] \<Rightarrow> surfaced
      | limit # _ \<Rightarrow> XErr limit)"

definition report_fits :: "kind \<Rightarrow> report \<Rightarrow> bool" where
  "report_fits kind r \<longleftrightarrow>
     (case r of RObs _ \<Rightarrow> kind = MonitorKind | RDec _ \<Rightarrow> kind = ProtocolKind)"

text \<open>\<open>_run_member\<close>, once its function failed with an exception.\<close>

definition member_failure ::
  "exn \<Rightarrow> kind \<Rightarrow> string \<Rightarrow> string \<Rightarrow> step \<Rightarrow> string \<Rightarrow> string \<Rightarrow> run_state
     \<Rightarrow> (exn + member_result) \<times> run_state" where
  "member_failure failure kind path factory step child_name fn s =
     (case failure of
        XErr e \<Rightarrow>
          (if kind = MonitorKind \<and> class_of e \<noteq> LimitExceededError then
             (if rt_cancel s = CancelRequested then (Inl XCancelled, s)
              else
                (let failed = \<lparr>f_name = child_name, f_path = path, f_function = fn, f_error = e\<rparr>
                 in (Inr (MemberFailed failed),
                     log_event (MonitorFailed path factory step failed) s)))
           else (Inl failure, s))
      | _ \<Rightarrow> (Inl failure, s))"

text \<open>\<open>_run_member\<close>, once its function raised finals and no error.\<close>

definition member_finals ::
  "final list \<Rightarrow> kind \<Rightarrow> string \<Rightarrow> step \<Rightarrow> string \<Rightarrow> string \<Rightarrow> string \<Rightarrow> nat \<Rightarrow> run_state
     \<Rightarrow> (exn + member_result) \<times> run_state" where
  "member_finals finals kind path step child_name fn label node s =
     (case on_final finals kind path step child_name fn label s of
        (Inl e, s') \<Rightarrow> (Inl (XErr e), s')
      | (Inr x, s') \<Rightarrow>
          (Inl x, if claimed (hd finals) then s' else succeeded_node node s'))"

text \<open>\<open>_run_member\<close>, once its function returned.\<close>

definition member_return ::
  "report option \<Rightarrow> kind \<Rightarrow> string \<Rightarrow> string \<Rightarrow> step \<Rightarrow> string \<Rightarrow> string \<Rightarrow> string \<Rightarrow> nat \<Rightarrow> run_state
     \<Rightarrow> (exn + member_result) \<times> run_state" where
  "member_return report kind path factory step child_name fn label node s =
     (case report of
        None \<Rightarrow> (Inr NoReport, succeeded_node node s)
      | Some r \<Rightarrow>
          if \<not> report_fits kind r then
            (Inl (XErr (WrongReport label (kind_text kind))), s)
          else
            (case r of
               RObs obs \<Rightarrow>
                 (let reported = \<lparr>rp_name = child_name, rp_path = path, rp_report = RObs obs, rp_function = fn\<rparr>
                  in (Inr (MemberReported reported),
                      succeeded_node node (log_event (Recorded path factory step reported) s)))
             | RDec d \<Rightarrow>
                 (case validate_shape d step label of
                    Some e \<Rightarrow> (Inl (XErr e), s)
                  | None \<Rightarrow>
                      (let d' = stamped (Some (rt_token s)) d node;
                           own = \<lparr>rp_name = child_name, rp_path = path, rp_report = d', rp_function = fn\<rparr>;
                           reported = \<lparr>rp_name = child_name, rp_path = path, rp_report = RDec d', rp_function = fn\<rparr>
                       in (Inr (MemberReported reported),
                           decided node own
                             (succeeded_node node (log_event (Recorded path factory step reported) s)))))))"

text \<open>\<open>_run_member\<close>.\<close>

definition run_member ::
  "run_function \<Rightarrow> kind \<Rightarrow> string \<Rightarrow> step \<Rightarrow> escalations \<Rightarrow> string \<Rightarrow> bool \<Rightarrow> nat option \<Rightarrow> run_state
     \<Rightarrow> (exn + member_result) \<times> run_state" where
  "run_member m kind path step escs child_name grouped cur s =
     (case layer path ''The runner'' s of
        Inl e \<Rightarrow> (Inl (XErr e), s)
      | Inr factory \<Rightarrow>
          (let fn = mb_function m; label = describe child_name fn grouped
           in case new_invocation cur fn path s of
             (node, s1) \<Rightarrow>
               (case mb_body m path step (if kind = MonitorKind then [] else escs) (Some node) s1 of
                  (Inl (XFinal f), s2) \<Rightarrow> member_finals [f] kind path step child_name fn label node s2
                | (Inl (XGroup xs), s2) \<Rightarrow>
                    (case partition_exns xs of
                       ([], []) \<Rightarrow> (Inl (XGroup xs), s2)
                     | ([], finals) \<Rightarrow> member_finals finals kind path step child_name fn label node s2
                     | (errors, finals) \<Rightarrow>
                         (case surface errors finals s2 of
                            (Inl e, s3) \<Rightarrow> (Inl (XErr e), s3)
                          | (Inr x, s3) \<Rightarrow>
                              member_failure (group_failure errors x) kind path factory step child_name fn s3))
                | (Inl (XErr e), s2) \<Rightarrow>
                    member_failure (XErr e) kind path factory step child_name fn s2
                | (Inl XCancelled, s2) \<Rightarrow> (Inl XCancelled, s2)
                | (Inr report, s2) \<Rightarrow>
                    member_return report kind path factory step child_name fn label node s2)))"

end
