(* ===== verification/Execution.thy ===== *)
theory Execution
  imports Runner
begin

text \<open>
  Running a step (\<open>_runner.py\<close>): a child of a layer, a layer's task group, and the root.
  \<open>exec\<close> is the meaning of a monitor or protocol function over the state of the running
  step; \<open>run_sentinel\<close> is the operation the hosts call.
\<close>

section \<open>Awaits and cancellation\<close>

text \<open>An await of the running task: whether it raised the cancellation.\<close>

definition await_point :: "run_state \<Rightarrow> bool \<times> run_state" where
  "await_point s =
     (case rt_cancel s of
        NoCancel \<Rightarrow> (False, s)
      | CancelIn 0 \<Rightarrow> (True, s\<lparr>rt_cancel := CancelRequested\<rparr>)
      | CancelIn (Suc n) \<Rightarrow> (False, s\<lparr>rt_cancel := CancelIn n\<rparr>)
      | CancelRequested \<Rightarrow> (True, s))"

text \<open>How a child of a task group starts: \<open>outer\<close> is where the task that opened the group
  stands, and \<open>cancelling\<close> says that a child that arrived before cancelled the group, which
  finds this one after a number of awaits that the schedule gives.\<close>

definition start_child :: "pending \<Rightarrow> bool \<Rightarrow> run_state \<Rightarrow> run_state" where
  "start_child outer cancelling s =
     (if outer = CancelRequested then s\<lparr>rt_cancel := CancelRequested\<rparr>
      else if cancelling \<or> outer = CancelIn 0 then
        (case take_choice s of
           (c, s') \<Rightarrow> s'\<lparr>rt_cancel := (case c of 0 \<Rightarrow> CancelRequested | Suc n \<Rightarrow> CancelIn n)\<rparr>)
      else s\<lparr>rt_cancel := NoCancel\<rparr>)"

text \<open>The order in which the children of a group arrive, from the schedule.\<close>

fun arranged :: "nat list \<Rightarrow> 'a list \<Rightarrow> 'a list" where
  "arranged cs [] = []"
| "arranged [] (x # xs) = x # xs"
| "arranged (c # cs) (x # xs) =
     (let i = c mod Suc (length xs)
      in (x # xs) ! i # arranged cs (take i (x # xs) @ drop (Suc i) (x # xs)))"

lemma mset_arranged [simp]: "mset (arranged cs xs) = mset xs"
proof (induction cs xs rule: arranged.induct)
  case (3 c cs x xs)
  let ?l = "x # xs" let ?i = "c mod Suc (length xs)"
  have i: "?i < length ?l" by simp
  have "mset ?l = mset (take ?i ?l @ ?l ! ?i # drop (Suc ?i) ?l)"
    using id_take_nth_drop [OF i] by simp
  then show ?case using 3 [OF refl] by (simp add: Let_def)
qed simp_all

lemma set_arranged [simp]: "set (arranged cs xs) = set xs"
  by (rule mset_eq_setD) simp

section \<open>A child of a layer\<close>

text \<open>\<open>found\<close> and \<open>failed\<close>, the lists \<open>_run_child\<close> appends to.\<close>

record gathered =
  ga_found :: "report reported list"
  ga_failed :: "failed list"

definition nothing_gathered :: gathered where
  "nothing_gathered = \<lparr>ga_found = [], ga_failed = []\<rparr>"

definition terminates :: "report reported \<Rightarrow> bool" where
  "terminates r \<longleftrightarrow>
     (case rp_report r of RObs _ \<Rightarrow> False | RDec d \<Rightarrow> d_action d = Terminate)"

text \<open>The loop of \<open>_run_child\<close>: a child's functions one after another, up to the first that
  decides \<open>terminate\<close> or raises.\<close>

fun run_functions ::
  "run_function list \<Rightarrow> kind \<Rightarrow> string \<Rightarrow> step \<Rightarrow> escalations \<Rightarrow> string \<Rightarrow> bool \<Rightarrow> nat option
     \<Rightarrow> gathered \<Rightarrow> run_state \<Rightarrow> exn option \<times> gathered \<times> run_state" where
  "run_functions [] kind path step escs child_name grouped cur g s = (None, g, s)"
| "run_functions (m # ms) kind path step escs child_name grouped cur g s =
     (case run_member m kind path step escs child_name grouped cur s of
        (Inl x, s') \<Rightarrow> (Some x, g, s')
      | (Inr NoReport, s') \<Rightarrow> run_functions ms kind path step escs child_name grouped cur g s'
      | (Inr (MemberFailed f), s') \<Rightarrow>
          run_functions ms kind path step escs child_name grouped cur
            (g\<lparr>ga_failed := ga_failed g @ [f]\<rparr>) s'
      | (Inr (MemberReported r), s') \<Rightarrow>
          (let g' = g\<lparr>ga_found := ga_found g @ [r]\<rparr>
           in if terminates r then (None, g', s')
              else run_functions ms kind path step escs child_name grouped cur g' s'))"

text \<open>\<open>_run_child\<close>. \<open>name\<close> is \<open>None\<close> for the root, which runs at the path of its context.\<close>

definition run_child ::
  "run_instance \<Rightarrow> kind \<Rightarrow> string \<Rightarrow> step \<Rightarrow> escalations \<Rightarrow> string option \<Rightarrow> nat option \<Rightarrow> run_state
     \<Rightarrow> exn option \<times> gathered \<times> run_state" where
  "run_child child kind path step escs name cur s =
     (if sn_kind child \<noteq> kind then
        (Some (XErr (ExpectedKind (kind_text kind) (kind_text (sn_kind child)))), nothing_gathered, s)
      else
        case (case name of None \<Rightarrow> None | Some n \<Rightarrow> valid_instance_name n) of
          Some e \<Rightarrow> (Some (XErr e), nothing_gathered, s)
        | None \<Rightarrow>
            (let child_name = (case name of None \<Rightarrow> sn_name child | Some n \<Rightarrow> n);
                 path' = (case name of None \<Rightarrow> path | Some n \<Rightarrow> child_path path n)
             in case enter_layer path' (sn_factory child) s of
                  (Some e, s1) \<Rightarrow> (Some (XErr e), nothing_gathered, s1)
                | (None, s1) \<Rightarrow>
                    (let running = filter (\<lambda>m. stage_of step \<in> set (mb_accepted m)) (sn_members child)
                     in case run_functions running kind path' step escs child_name (sn_grouped child)
                               cur nothing_gathered s1 of
                          (ended, g, s2) \<Rightarrow>
                            (ended, g,
                             if ended = Some XCancelled
                             then log_event (Cancelled path' (sn_factory child) step child_name) s2
                             else s2))))"

section \<open>A layer's task group\<close>

text \<open>The lists \<open>_run_named\<close> collects in, what its children raised, and whether the group is
  being cancelled.\<close>

record collected =
  co_observations :: "(nat \<times> observation reported) list"
  co_failures :: "(nat \<times> failed) list"
  co_decisions :: "(nat \<times> decision reported) list"
  co_terminated :: "(string \<times> decision reported) list"
  co_raised :: "exn list"
  co_cancelling :: bool

definition nothing_collected :: collected where
  "nothing_collected = \<lparr>co_observations = [], co_failures = [], co_decisions = [],
     co_terminated = [], co_raised = [], co_cancelling = False\<rparr>"

definition as_observation :: "report reported \<Rightarrow> observation reported option" where
  "as_observation r =
     (case rp_report r of
        RObs obs \<Rightarrow> Some \<lparr>rp_name = rp_name r, rp_path = rp_path r, rp_report = obs,
                       rp_function = rp_function r\<rparr>
      | RDec _ \<Rightarrow> None)"

definition as_decision :: "report reported \<Rightarrow> decision reported option" where
  "as_decision r =
     (case rp_report r of
        RDec d \<Rightarrow> Some \<lparr>rp_name = rp_name r, rp_path = rp_path r, rp_report = d,
                     rp_function = rp_function r\<rparr>
      | RObs _ \<Rightarrow> None)"

definition terminated_of :: "string \<Rightarrow> decision reported list \<Rightarrow> (string \<times> decision reported) list" where
  "terminated_of factory ds =
     map (Pair factory) (filter (\<lambda>d. d_action (rp_report d) = Terminate) ds)"

text \<open>What one child adds, the \<open>finally\<close> of \<open>run_one\<close>, and whether it cancels the rest.\<close>

definition collect :: "nat \<Rightarrow> run_instance \<Rightarrow> gathered \<Rightarrow> exn option \<Rightarrow> collected \<Rightarrow> collected" where
  "collect index child g ended c =
     (let obs = List.map_filter as_observation (ga_found g);
          ds = List.map_filter as_decision (ga_found g);
          terminating = (ended = None \<and> terminated_of (sn_factory child) ds \<noteq> []);
          raising = (case ended of None \<Rightarrow> False | Some x \<Rightarrow> x \<noteq> XCancelled)
      in c\<lparr>co_observations := co_observations c @ map (Pair index) obs,
           co_failures := co_failures c @ map (Pair index) (ga_failed g),
           co_decisions := co_decisions c @ map (Pair index) ds,
           co_terminated := co_terminated c @ terminated_of (sn_factory child) ds,
           co_raised := co_raised c @ (case ended of None \<Rightarrow> [] | Some x \<Rightarrow> if raising then [x] else []),
           co_cancelling := co_cancelling c \<or> terminating \<or> raising\<rparr>)"

text \<open>The children in the order they arrive.\<close>

fun run_group ::
  "(nat \<times> string \<times> run_instance) list \<Rightarrow> pending \<Rightarrow> string \<Rightarrow> step \<Rightarrow> escalations \<Rightarrow> nat option
     \<Rightarrow> collected \<Rightarrow> run_state \<Rightarrow> collected \<times> run_state" where
  "run_group [] outer path step escs cur c s = (c, s)"
| "run_group ((index, name, child) # rest) outer path step escs cur c s =
     (case run_child child (sn_kind child) path step
             (if sn_kind child = MonitorKind then [] else escs) (Some name) cur
             (start_child outer (co_cancelling c) s) of
        (ended, g, s') \<Rightarrow>
          run_group rest outer path step escs cur (collect index child g ended c) s')"

definition take_order :: "(nat \<times> 'a) list \<Rightarrow> run_state \<Rightarrow> (nat \<times> 'a) list \<times> run_state" where
  "take_order xs s =
     (arranged (take (length xs) (rt_choices s)) xs, s\<lparr>rt_choices := drop (length xs) (rt_choices s)\<rparr>)"

text \<open>A terminate already recorded as a decision, that a final outran.\<close>

fun supersede_terminated ::
  "string \<Rightarrow> step \<Rightarrow> (string \<times> decision reported) list \<Rightarrow> run_state \<Rightarrow> run_state" where
  "supersede_terminated path step [] s = s"
| "supersede_terminated path step ((factory, r) # rest) s =
     supersede_terminated path step rest
       (log_event (Superseded (child_path path (rp_name r)) factory step r) s)"

definition reports_of :: "collected \<Rightarrow> reports" where
  "reports_of c =
     \<lparr>rs_observations = \<lparr>obs_items = by_index (co_observations c),
                          obs_failed = by_index (co_failures c)\<rparr>,
      rs_decisions = by_index (co_decisions c)\<rparr>"

text \<open>\<open>_task_group\<close>: what leaves it once its children are done. \<open>raised\<close> holds what they
  raised, without cancellations; \<open>cancelled\<close> says that the await at its end was cancelled
  from outside.\<close>

definition close_group :: "exn list \<Rightarrow> bool \<Rightarrow> run_state \<Rightarrow> exn option \<times> run_state" where
  "close_group raised cancelled s =
     (if raised = [] then (if cancelled then Some XCancelled else None, s)
      else case partition_exns raised of
        (errors, finals) \<Rightarrow>
          if errors = [] \<and> finals = [] then (Some (XGroup raised), s)
          else (case surface errors finals s of
                  (Inl e, s') \<Rightarrow> (Some (XErr e), s')
                | (Inr x, s') \<Rightarrow> (Some x, s')))"

text \<open>\<open>_run_named\<close>.\<close>

definition run_named ::
  "(string \<times> run_instance) list \<Rightarrow> string \<Rightarrow> step \<Rightarrow> escalations \<Rightarrow> string \<Rightarrow> nat option \<Rightarrow> run_state
     \<Rightarrow> (exn + reports) \<times> run_state" where
  "run_named named path step escs caller cur s =
     (case layer path caller s of
        Inl e \<Rightarrow> (Inl (XErr e), s)
      | Inr _ \<Rightarrow>
          (case take_order (indexed named) s of
             (order, s1) \<Rightarrow>
               (case run_group order (rt_cancel s) path step escs cur nothing_collected s1 of
                  (c, s2) \<Rightarrow>
                    (case await_point (s2\<lparr>rt_cancel := rt_cancel s\<rparr>) of
                       (cancelled, s3) \<Rightarrow>
                         (case close_group (co_raised c) cancelled s3 of
                            (None, s4) \<Rightarrow> (Inr (reports_of c), s4)
                          | (Some (XFinal f), s4) \<Rightarrow>
                              (Inl (XFinal f), supersede_terminated path step (co_terminated c) s4)
                          | (Some x, s4) \<Rightarrow> (Inl x, s4))))))"

section \<open>What a function does\<close>

text \<open>The host: what it answers to its \<open>n\<close>-th call, which may be to raise. A host that asks a
  person can read the path of the running invocation (\<open>current_invocation\<close>).\<close>

record host =
  ho_call :: "nat \<Rightarrow> json \<Rightarrow> exc + json"
  ho_ask :: "nat \<Rightarrow> string \<Rightarrow> step \<Rightarrow> escalations \<Rightarrow> string list \<Rightarrow> exc + human_answer"

text \<open>A function of a monitor or protocol, as its author wrote it: it returns, raises, decides
  final, awaits, calls the host, asks a person, warns of failed monitors, runs children
  (\<open>run_children\<close> and its shortcuts, with the name of the caller), or runs functions of its
  own in its own task group. An author may catch an \<open>Exception\<close> of such a call; a \<open>Final\<close> or
  a cancellation passes, as \<open>decide_final\<close> and the decorators ask.\<close>

datatype prog =
    PReturn "report option"
  | PRaise exc
  | PFinal decision
  | PAwait prog
  | PWarn "failed list" prog
  | PHost json "exc + json \<Rightarrow> prog"
  | PAsk step escalations "string list" "exc + human_answer \<Rightarrow> prog"
  | PRun string string step "(string \<times> sentinel) list" escalations "exc + reports \<Rightarrow> prog"
  | PFan "prog list" "report option list \<Rightarrow> prog"
and sentinel = Sentinel kind string string implementation
and implementation = OneFunction function_def | FunctionGroup "function_def list"
and function_def = Member string "stage list" "string \<Rightarrow> step \<Rightarrow> escalations \<Rightarrow> prog"

type_synonym run = "nat option \<Rightarrow> run_state \<Rightarrow> (exn + report option) \<times> run_state"

text \<open>An await, and what follows it unless it was cancelled.\<close>

definition after_await :: "(run_state \<Rightarrow> (exn + 'a) \<times> run_state) \<Rightarrow> run_state \<Rightarrow> (exn + 'a) \<times> run_state" where
  "after_await k s =
     (case await_point s of (True, s') \<Rightarrow> (Inl XCancelled, s') | (False, s') \<Rightarrow> k s')"

text \<open>A task group an author opened: the functions in the order they arrive, with their
  results in the order they were started, and a group of what they raised.\<close>

fun run_fan ::
  "(nat \<times> run) list \<Rightarrow> pending \<Rightarrow> nat option \<Rightarrow> exn list \<times> (nat \<times> report option) list \<Rightarrow> run_state
     \<Rightarrow> (exn list \<times> (nat \<times> report option) list) \<times> run_state" where
  "run_fan [] outer cur acc s = (acc, s)"
| "run_fan ((index, f) # rest) outer cur (raised, results) s =
     (case f cur (start_child outer (raised \<noteq> []) s) of
        (Inl XCancelled, s') \<Rightarrow> run_fan rest outer cur (raised, results) s'
      | (Inl x, s') \<Rightarrow> run_fan rest outer cur (raised @ [x], results) s'
      | (Inr r, s') \<Rightarrow> run_fan rest outer cur (raised, results @ [(index, r)]) s')"

definition fan_out :: "run list \<Rightarrow> (report option list \<Rightarrow> run) \<Rightarrow> run" where
  "fan_out fs k cur s =
     (case take_order (indexed fs) s of
        (order, s1) \<Rightarrow>
          (case run_fan order (rt_cancel s) cur ([], []) s1 of
             ((raised, results), s2) \<Rightarrow>
               (case await_point (s2\<lparr>rt_cancel := rt_cancel s\<rparr>) of
                  (cancelled, s3) \<Rightarrow>
                    if raised \<noteq> [] then (Inl (XGroup raised), s3)
                    else if cancelled then (Inl XCancelled, s3)
                    else k (by_index results) cur s3)))"

text \<open>What a call that raised an \<open>Exception\<close> or returned hands to what follows it.\<close>

definition caught :: "(exn + 'a) \<times> run_state \<Rightarrow> (exc + 'a \<Rightarrow> run_state \<Rightarrow> (exn + 'b) \<times> run_state)
    \<Rightarrow> (exn + 'b) \<times> run_state" where
  "caught r k =
     (case r of
        (Inl (XErr e), s) \<Rightarrow> k (Inl e) s
      | (Inl x, s) \<Rightarrow> (Inl x, s)
      | (Inr a, s) \<Rightarrow> k (Inr a) s)"

definition asking_path :: "nat option \<Rightarrow> run_state \<Rightarrow> string" where
  "asking_path cur s = (case cur of None \<Rightarrow> [] | Some n \<Rightarrow> iv_path (rt_nodes s ! n))"

definition note_answer :: "nat \<Rightarrow> exc + human_answer \<Rightarrow> run_state \<Rightarrow> run_state" where
  "note_answer n r s =
     (case r of
        Inl e \<Rightarrow> s
      | Inr answer \<Rightarrow> s\<lparr>rt_asked := rt_asked s @ [HumanAnswered n answer]\<rparr>)"

primrec exec :: "host \<Rightarrow> prog \<Rightarrow> run"
  and instance_of :: "host \<Rightarrow> sentinel \<Rightarrow> run_instance"
  and functions_of :: "host \<Rightarrow> implementation \<Rightarrow> bool \<times> run_function list"
  and function_of :: "host \<Rightarrow> function_def \<Rightarrow> run_function" where
  "exec h (PReturn r) = (\<lambda>cur s. (Inr r, s))"
| "exec h (PRaise e) = (\<lambda>cur s. (Inl (XErr e), s))"
| "exec h (PFinal d) = (\<lambda>cur s. (Inl (XFinal \<lparr>fx_decision = d, fx_origin = None\<rparr>), s))"
| "exec h (PAwait p) = (\<lambda>cur. after_await (exec h p cur))"
| "exec h (PWarn fs p) = (\<lambda>cur s. exec h p cur (warn fs s))"
| "exec h (PHost q k) = (\<lambda>cur s.
     after_await (exec h (k (ho_call h (length (rt_asked s)) q)) cur)
       (s\<lparr>rt_asked := rt_asked s @ [HostCall q]\<rparr>))"
| "exec h (PAsk step escs choices k) = (\<lambda>cur s.
     after_await
       (\<lambda>t. exec h (k (ho_ask h (length (rt_asked s)) (asking_path cur s) step escs choices)) cur
          (note_answer (length (rt_asked s))
             (ho_ask h (length (rt_asked s)) (asking_path cur s) step escs choices) t))
       (s\<lparr>rt_asked := rt_asked s @ [HumanAsked (asking_path cur s) step escs choices]\<rparr>))"
| "exec h (PRun caller path step children escs k) = (\<lambda>cur s.
     caught (run_named (map (map_prod id (instance_of h)) children) path step escs caller cur s)
       (\<lambda>r. exec h (k r) cur))"
| "exec h (PFan ps k) = fan_out (map (exec h) ps) (\<lambda>rs. exec h (k rs))"
| "instance_of h (Sentinel kind factory name impl) =
     \<lparr>sn_kind = kind, sn_factory = factory, sn_name = name,
      sn_grouped = fst (functions_of h impl), sn_members = snd (functions_of h impl)\<rparr>"
| "functions_of h (OneFunction m) = (False, [function_of h m])"
| "functions_of h (FunctionGroup ms) = (True, map (function_of h) ms)"
| "function_of h (Member name accepted f) =
     \<lparr>mb_function = name, mb_accepted = accepted,
      mb_body = (\<lambda>path step escs. exec h (f path step escs))\<rparr>"

section \<open>The root\<close>

definition fresh_state :: "nat \<Rightarrow> nat list \<Rightarrow> run_state" where
  "fresh_state token choices =
     \<lparr>rt_events = [], rt_factories = (\<lambda>_. None), rt_token = token, rt_nodes = [], rt_found = [],
      rt_succeeded = [], rt_warned = [], rt_logged = [], rt_asked = [], rt_cancel = NoCancel,
      rt_choices = choices\<rparr>"

text \<open>\<open>run_sentinel\<close>: what a final decision comes to, and then the whole.\<close>

definition root_final :: "final \<Rightarrow> run_state \<Rightarrow> (exn + decision option) \<times> run_state" where
  "root_final f s =
     (case fx_origin f of
        None \<Rightarrow> (Inl (XErr (NoOrigin (d_action (fx_decision f)))), s)
      | Some og \<Rightarrow>
          (case layer (fo_path og) ''The runner'' s of
             Inl e \<Rightarrow> (Inl (XErr e), s)
           | Inr factory \<Rightarrow>
               (let r = fo_reported og
                in (Inr (Some (if d_action (fx_decision f) = Escalate then unhandled [r]
                               else fx_decision f)),
                    log_event (Recorded (fo_path og) factory (fo_step og)
                      \<lparr>rp_name = rp_name r, rp_path = rp_path r, rp_report = RDec (rp_report r),
                       rp_function = rp_function r\<rparr>) s))))"

definition run_sentinel :: "host \<Rightarrow> sentinel \<Rightarrow> step \<Rightarrow> nat \<Rightarrow> nat list
    \<Rightarrow> (exn + decision option) \<times> run_state" where
  "run_sentinel h protocol step token choices =
     (let root = instance_of h protocol; s0 = fresh_state token choices
      in if sn_grouped root then (Inl (XErr GroupAsRoot), s0)
         else case run_child root ProtocolKind [] step [] None None s0 of
           (Some (XFinal f), g, s) \<Rightarrow> root_final f s
         | (Some x, g, s) \<Rightarrow> (Inl x, s)
         | (None, g, s) \<Rightarrow>
             (case List.map_filter as_decision (ga_found g) of
                [] \<Rightarrow> (Inr None, s)
              | r # _ \<Rightarrow>
                  (Inr (Some (if d_action (rp_report r) = Escalate
                              then unhandled (sources (rt_nodes s) (rt_found s))
                              else rp_report r)), s)))"

end
