(* ===== verification/RunnerLaws.thy ===== *)
theory RunnerLaws
  imports Execution
begin

text \<open>
  What the runner keeps, whatever the functions do and however the step is scheduled: the
  log only grows and every event in it is right about its layer, the invocations form an
  arena, and what the runner says decided was recorded.
\<close>

section \<open>Exceptions\<close>

lemma leaves_append [simp]: "leaves (xs @ ys) = leaves xs @ leaves ys"
  by (induction xs rule: leaves.induct) simp_all

lemma leaf_simps [simp]:
  "leaf_errors [] = []" "leaf_finals [] = []"
  "leaf_errors (xs @ ys) = leaf_errors xs @ leaf_errors ys"
  "leaf_finals (xs @ ys) = leaf_finals xs @ leaf_finals ys"
  "leaf_errors (XErr e # xs) = e # leaf_errors xs" "leaf_finals (XErr e # xs) = leaf_finals xs"
  "leaf_errors (XFinal f # xs) = leaf_errors xs" "leaf_finals (XFinal f # xs) = f # leaf_finals xs"
  by (simp_all add: leaf_errors_def leaf_finals_def List.map_filter_def)

text \<open>The finals an exception carries, and what is known of those the runner has claimed.\<close>

definition finals_in :: "exn \<Rightarrow> final list" where
  "finals_in x = leaf_finals (leaves [x])"

lemma finals_in_simps [simp]:
  "finals_in (XErr e) = []" "finals_in (XFinal f) = [f]" "finals_in XCancelled = []"
  "finals_in (XGroup xs) = concat (map finals_in xs)"
proof -
  have "leaf_finals (leaves xs) = concat (map finals_in xs)" for xs
  proof (induction xs)
    case (Cons x xs)
    have "leaf_finals (leaves (x # xs)) = leaf_finals (leaves ([x] @ xs))" by simp
    also have "\<dots> = finals_in x @ leaf_finals (leaves xs)"
      by (simp only: leaves_append leaf_simps finals_in_def)
    finally show ?case using Cons.IH by simp
  qed simp
  then show "finals_in (XGroup xs) = concat (map finals_in xs)" by (simp add: finals_in_def)
qed (simp_all add: finals_in_def)

lemma partition_finals: "snd (partition_exns xs) = concat (map finals_in xs)"
  using finals_in_simps(4) [of xs] by (simp add: partition_exns_def finals_in_def)

definition final_ok :: "(string \<Rightarrow> string option) \<Rightarrow> final \<Rightarrow> bool" where
  "final_ok F f \<longleftrightarrow>
     (case fx_origin f of
        None \<Rightarrow> True
      | Some og \<Rightarrow> F (fo_path og) \<noteq> None \<and> rp_path (fo_reported og) = fo_path og
          \<and> rp_report (fo_reported og) = fx_decision f
          \<and> well_shaped (fx_decision f) (fo_step og))"

definition finals_ok :: "(string \<Rightarrow> string option) \<Rightarrow> exn \<Rightarrow> bool" where
  "finals_ok F x \<longleftrightarrow> list_all (final_ok F) (finals_in x)"

definition all_claimed :: "exn \<Rightarrow> bool" where
  "all_claimed x \<longleftrightarrow> list_all claimed (finals_in x)"

lemma finals_ok_simps [simp]:
  "finals_ok F (XErr e)" "finals_ok F XCancelled"
  "finals_ok F (XFinal f) = final_ok F f"
  "finals_ok F (XGroup xs) = list_all (finals_ok F) xs"
  "all_claimed (XErr e)" "all_claimed XCancelled" "all_claimed (XFinal f) = claimed f"
  "all_claimed (XGroup xs) = list_all all_claimed xs"
  by (auto simp: finals_ok_def all_claimed_def list_all_iff)

lemma final_ok_mono: "final_ok F f \<Longrightarrow> F \<subseteq>\<^sub>m F' \<Longrightarrow> final_ok F' f"
  by (auto simp: final_ok_def map_le_def dom_def split: option.splits)

lemma finals_ok_mono: "finals_ok F x \<Longrightarrow> F \<subseteq>\<^sub>m F' \<Longrightarrow> finals_ok F' x"
  by (auto simp: finals_ok_def list_all_iff intro: final_ok_mono)

section \<open>The log and the arena\<close>

primrec report_ok :: "step \<Rightarrow> report \<Rightarrow> bool" where
  "report_ok step (RObs obs) = True"
| "report_ok step (RDec d) = well_shaped d step"

text \<open>What holds of a recorded event: its factory is the one that runs at its path, and a
  decision in it fits its step.\<close>

primrec event_ok :: "(string \<Rightarrow> string option) \<Rightarrow> event \<Rightarrow> bool" where
  "event_ok F (Recorded p f st r) = (F p = Some f \<and> rp_path r = p \<and> report_ok st (rp_report r))"
| "event_ok F (MonitorFailed p f st x) =
     (F p = Some f \<and> f_path x = p \<and> class_of (f_error x) \<noteq> LimitExceededError)"
| "event_ok F (Cancelled p f st n) = (F p = Some f)"
| "event_ok F (Bypassed p f st n) = (F p = Some f)"
| "event_ok F (Superseded p f st r) = (F p = Some f \<and> rp_path r = p \<and> well_shaped (rp_report r) st)"

lemma event_ok_mono: "event_ok F e \<Longrightarrow> F \<subseteq>\<^sub>m F' \<Longrightarrow> event_ok F' e"
  by (cases e) (auto simp: map_le_def dom_def)

definition as_report :: "decision reported \<Rightarrow> report reported" where
  "as_report r = \<lparr>rp_name = rp_name r, rp_path = rp_path r, rp_report = RDec (rp_report r),
                  rp_function = rp_function r\<rparr>"

definition found_ok :: "event list \<Rightarrow> arena \<Rightarrow> nat \<Rightarrow> bool" where
  "found_ok es nodes n \<longleftrightarrow>
     n < length nodes
     \<and> (case iv_decided (nodes ! n) of
          None \<Rightarrow> False
        | Some r \<Rightarrow> rp_path r = iv_path (nodes ! n)
            \<and> (\<exists>f st. Recorded (rp_path r) f st (as_report r) \<in> set es))"

lemma found_ok_mono:
  "found_ok es nodes n \<Longrightarrow> prefix es es' \<Longrightarrow> prefix nodes nodes' \<Longrightarrow> found_ok es' nodes' n"
  by (cases "iv_decided (nodes ! n)") (fastforce simp: found_ok_def prefix_def nth_append)+

definition state_ok :: "run_state \<Rightarrow> bool" where
  "state_ok s \<longleftrightarrow>
     list_all (event_ok (rt_factories s)) (rt_events s) \<and> arena_ok (rt_nodes s)
     \<and> list_all (found_ok (rt_events s) (rt_nodes s)) (rt_found s)"

definition node_ok :: "nat option \<Rightarrow> run_state \<Rightarrow> bool" where
  "node_ok cur s \<longleftrightarrow> (case cur of None \<Rightarrow> True | Some n \<Rightarrow> n < length (rt_nodes s))"

text \<open>Nothing is taken back: what was logged, which invocation decided what, and which
  factory runs at which path.\<close>

definition grows :: "run_state \<Rightarrow> run_state \<Rightarrow> bool" where
  "grows s s' \<longleftrightarrow>
     prefix (rt_events s) (rt_events s') \<and> prefix (rt_nodes s) (rt_nodes s')
     \<and> prefix (rt_found s) (rt_found s') \<and> rt_factories s \<subseteq>\<^sub>m rt_factories s'
     \<and> prefix (rt_asked s) (rt_asked s') \<and> rt_token s' = rt_token s"

definition advance :: "run_state \<Rightarrow> run_state \<Rightarrow> bool" where
  "advance s s' \<longleftrightarrow> state_ok s' \<and> grows s s'"

lemma grows_refl [simp]: "grows s s"
  by (simp add: grows_def)

lemma grows_trans [trans]: "grows s s' \<Longrightarrow> grows s' s'' \<Longrightarrow> grows s s''"
  by (auto simp: grows_def intro: prefix_order.trans map_le_trans)

lemma advance_refl [simp]: "advance s s = state_ok s"
  by (simp add: advance_def)

lemma advance_trans [trans]: "advance s s' \<Longrightarrow> advance s' s'' \<Longrightarrow> advance s s''"
  by (auto simp: advance_def intro: grows_trans)

lemma advanceD: "advance s s' \<Longrightarrow> state_ok s'" "advance s s' \<Longrightarrow> rt_factories s \<subseteq>\<^sub>m rt_factories s'"
  by (simp_all add: advance_def grows_def)

lemma node_ok_advance: "node_ok cur s \<Longrightarrow> advance s s' \<Longrightarrow> node_ok cur s'"
  by (auto simp: node_ok_def advance_def grows_def prefix_def split: option.splits)

text \<open>The steps that touch neither the log nor the arena.\<close>

definition silent :: "run_state \<Rightarrow> run_state \<Rightarrow> bool" where
  "silent s s' \<longleftrightarrow>
     rt_events s' = rt_events s \<and> rt_nodes s' = rt_nodes s \<and> rt_found s' = rt_found s
     \<and> rt_factories s' = rt_factories s \<and> rt_token s' = rt_token s
     \<and> prefix (rt_asked s) (rt_asked s')"

lemma silent_advance: "state_ok s \<Longrightarrow> silent s s' \<Longrightarrow> advance s s'"
  by (simp add: silent_def advance_def state_ok_def grows_def)

lemma silent_simps [simp]:
  "silent s (s\<lparr>rt_cancel := p\<rparr>)" "silent s (s\<lparr>rt_choices := cs\<rparr>)"
  "silent s (succeeded_node n s)" "silent s (s\<lparr>rt_asked := rt_asked s @ q\<rparr>)"
  "silent s (warn fs s)"
  by (auto simp: silent_def succeeded_node_def warn_def split: prod.splits)

lemma note_answer_silent: "silent s (note_answer n r s)"
  by (auto simp: note_answer_def silent_def split: sum.splits)

lemma silent_trans: "silent s s' \<Longrightarrow> silent s' s'' \<Longrightarrow> silent s s''"
  by (auto simp: silent_def intro: prefix_order.trans)

lemma await_silent: "await_point s = (b, s') \<Longrightarrow> silent s s'"
  by (auto simp: await_point_def silent_def split: pending.splits nat.splits)

lemma start_child_silent: "silent s (start_child outer cancelling s)"
  by (auto simp: start_child_def take_choice_def silent_def split: list.splits)

lemma take_order_silent: "take_order xs s = (ys, s') \<Longrightarrow> silent s s'"
  by (auto simp: take_order_def)

text \<open>The steps that do.\<close>

lemma log_event_advance:
  assumes "state_ok s" "event_ok (rt_factories s) e"
  shows "advance s (log_event e s)"
  using assms
  by (auto simp: advance_def state_ok_def grows_def log_event_def list_all_iff
      intro: found_ok_mono)

lemma enter_layer_advance:
  assumes ok: "state_ok s" and e: "enter_layer path factory s = (x, s')"
  shows "advance s s'" "x = None \<Longrightarrow> rt_factories s' path = Some factory"
proof -
  have "advance s s' \<and> (x = None \<longrightarrow> rt_factories s' path = Some factory)"
  proof (cases "rt_factories s path")
    case None
    then have m: "rt_factories s \<subseteq>\<^sub>m (rt_factories s)(path \<mapsto> factory)"
      by (simp add: map_le_def dom_def)
    from None e have s': "x = None" "s' = s\<lparr>rt_factories := (rt_factories s)(path \<mapsto> factory)\<rparr>"
      by (simp_all add: enter_layer_def)
    from ok m have "state_ok s'"
      unfolding state_ok_def list_all_iff s'(2) by (auto intro: event_ok_mono)
    with m show ?thesis by (simp add: advance_def grows_def s')
  next
    case (Some earlier)
    with e ok show ?thesis by (auto simp: enter_layer_def split: if_splits)
  qed
  then show "advance s s'" "x = None \<Longrightarrow> rt_factories s' path = Some factory" by simp_all
qed

lemma new_invocation_advance:
  assumes "state_ok s" "node_ok cur s" "new_invocation cur fn path s = (node, s')"
  shows "advance s s'" "node = length (rt_nodes s)" "node < length (rt_nodes s')"
    "iv_path (rt_nodes s' ! node) = path"
proof -
  let ?n = "\<lparr>iv_parent = cur, iv_function = fn, iv_path = path, iv_decided = None\<rparr>"
  from assms(3) have s': "node = length (rt_nodes s)" "s' = s\<lparr>rt_nodes := rt_nodes s @ [?n]\<rparr>"
    by (simp_all add: new_invocation_def)
  have "arena_ok (rt_nodes s @ [?n])"
    using assms(1,2)
    by (auto simp: state_ok_def arena_ok_def node_ok_def nth_append less_Suc_eq split: option.splits)
  moreover have "found_ok (rt_events s) (rt_nodes s @ [?n]) i" if "found_ok (rt_events s) (rt_nodes s) i" for i
    using that by (rule found_ok_mono) simp_all
  ultimately show "advance s s'"
    using assms(1) by (auto simp: s' advance_def state_ok_def grows_def list_all_iff)
  show "node = length (rt_nodes s)" "node < length (rt_nodes s')"
    "iv_path (rt_nodes s' ! node) = path"
    by (simp_all add: s')
qed

lemma decided_ok:
  assumes ok: "state_ok s" and n: "node < length (rt_nodes s)"
    and p: "iv_path (rt_nodes s ! node) = rp_path r"
    and e: "Recorded (rp_path r) f st (as_report r) \<in> set (rt_events s)"
  shows "state_ok (decided node r s)"
proof -
  let ?nodes = "(rt_nodes s)[node := (rt_nodes s ! node)\<lparr>iv_decided := Some r\<rparr>]"
  have "arena_ok ?nodes"
    using ok n by (auto simp: state_ok_def arena_ok_def nth_list_update)
  moreover have "found_ok (rt_events s) ?nodes node"
    using n p e by (auto simp: found_ok_def)
  moreover have "found_ok (rt_events s) ?nodes i" if "found_ok (rt_events s) (rt_nodes s) i" for i
    using that n p e by (cases "i = node") (fastforce simp: found_ok_def split: option.splits)+
  ultimately show ?thesis
    using ok by (auto simp: decided_def state_ok_def list_all_iff)
qed

lemma decided_grows:
  assumes "grows s s'" "length (rt_nodes s) \<le> node"
  shows "grows s (decided node r s')"
  using assms by (auto simp: grows_def decided_def prefix_def list_update_append intro: exI)

section \<open>Surfacing\<close>

text \<open>What the runner records of a final that did not take effect.\<close>

definition superseded_event :: "(string \<Rightarrow> string option) \<Rightarrow> final \<Rightarrow> event" where
  "superseded_event F f =
     (case fx_origin f of
        None \<Rightarrow> undefined
      | Some og \<Rightarrow> Superseded (fo_path og) (the (F (fo_path og))) (fo_step og) (fo_reported og))"

lemma superseded_event_ok:
  "claimed f \<Longrightarrow> final_ok F f \<Longrightarrow> event_ok F (superseded_event F f)"
  by (auto simp: claimed_def final_ok_def superseded_event_def)

text \<open>Recording supersessions never fails, and records each final in turn.\<close>

lemma supersede_claimed:
  "list_all claimed fs \<Longrightarrow> list_all (final_ok (rt_factories s)) fs \<Longrightarrow>
     supersede fs s =
       (None, s\<lparr>rt_events := rt_events s @ map (superseded_event (rt_factories s)) fs\<rparr>)"
proof (induction fs arbitrary: s)
  case (Cons f fs)
  then obtain og where og: "fx_origin f = Some og" by (auto simp: claimed_def)
  with Cons.prems obtain factory where "rt_factories s (fo_path og) = Some factory"
    by (auto simp: final_ok_def)
  moreover from this og have "superseded_event (rt_factories s) f =
      Superseded (fo_path og) factory (fo_step og) (fo_reported og)"
    by (simp add: superseded_event_def)
  ultimately show ?case
    using og Cons.prems Cons.IH [of "s\<lparr>rt_events := rt_events s @ [superseded_event (rt_factories s) f]\<rparr>"]
    by (simp add: layer_def log_event_def)
qed simp

lemma superseded_advance:
  assumes "state_ok s" "list_all claimed fs" "list_all (final_ok (rt_factories s)) fs"
  shows "advance s (s\<lparr>rt_events := rt_events s @ map (superseded_event (rt_factories s)) fs\<rparr>)"
  using assms
  by (auto simp: advance_def state_ok_def grows_def list_all_iff
      intro: superseded_event_ok found_ok_mono)

lemma surface_claimed:
  assumes "list_all (final_ok (rt_factories s)) finals"
    and "errors = [] \<Longrightarrow> finals \<noteq> [] \<and> list_all claimed finals"
  shows "surface errors finals s =
    (Inr (if errors \<noteq> [] then XErr (hd errors) else XFinal (hd finals)),
     s\<lparr>rt_events := rt_events s @ map (superseded_event (rt_factories s))
         (if errors \<noteq> [] then filter claimed finals else tl finals)\<rparr>)"
proof (cases "errors = []")
  case True
  with assms have "list_all claimed (tl finals)" "list_all (final_ok (rt_factories s)) (tl finals)"
    by (cases finals; simp)+
  with True show ?thesis by (simp add: surface_def supersede_claimed)
next
  case False
  have "list_all claimed (filter claimed finals)"
    "list_all (final_ok (rt_factories s)) (filter claimed finals)"
    using assms(1) by (auto simp: list_all_iff)
  with False show ?thesis by (simp add: surface_def supersede_claimed)
qed

lemma surface_ok:
  assumes ok: "state_ok s" and f: "list_all (final_ok (rt_factories s)) finals"
    and c: "errors = [] \<Longrightarrow> finals \<noteq> [] \<and> list_all claimed finals"
    and r: "surface errors finals s = (r, s')"
  shows "advance s s'"
    "\<exists>x. r = Inr x \<and> finals_ok (rt_factories s') x \<and> all_claimed x
       \<and> (errors \<noteq> [] \<longrightarrow> x = XErr (hd errors))"
proof -
  let ?fs = "if errors \<noteq> [] then filter claimed finals else tl finals"
  have fs: "list_all claimed ?fs" "list_all (final_ok (rt_factories s)) ?fs"
    using f c by (auto simp: list_all_iff dest: list.set_sel(2))
  from surface_claimed [OF f c] r
  have r': "r = Inr (if errors \<noteq> [] then XErr (hd errors) else XFinal (hd finals))"
    and s': "s' = s\<lparr>rt_events := rt_events s @ map (superseded_event (rt_factories s)) ?fs\<rparr>"
    by auto
  from superseded_advance [OF ok fs] s' show "advance s s'" by simp
  have "errors = [] \<Longrightarrow> final_ok (rt_factories s') (hd finals) \<and> claimed (hd finals)"
    using f c s' by (auto simp: list_all_iff)
  then show "\<exists>x. r = Inr x \<and> finals_ok (rt_factories s') x \<and> all_claimed x
       \<and> (errors \<noteq> [] \<longrightarrow> x = XErr (hd errors))"
    using r' by auto
qed

section \<open>One function of a child\<close>

text \<open>What the runner relies on of a function's meaning.\<close>

definition body_ok :: "body \<Rightarrow> bool" where
  "body_ok b \<longleftrightarrow>
     (\<forall>path step escs cur s r s'. state_ok s \<longrightarrow> node_ok cur s \<longrightarrow> b path step escs cur s = (r, s') \<longrightarrow>
        advance s s' \<and> (\<forall>x. r = Inl x \<longrightarrow> finals_ok (rt_factories s') x))"

lemma body_okD:
  assumes "body_ok b" "state_ok s" "node_ok cur s" "b path step escs cur s = (r, s')"
  shows "advance s s'" "\<And>x. r = Inl x \<Longrightarrow> finals_ok (rt_factories s') x"
  using assms unfolding body_ok_def by blast+

lemma layer_Inr: "layer path caller s = Inr f \<longleftrightarrow> rt_factories s path = Some f"
  by (auto simp: layer_def split: option.splits)

lemma supersede_filter:
  assumes "state_ok s" "list_all (final_ok (rt_factories s)) finals"
    "supersede (filter claimed finals) s = (e, s')"
  shows "advance s s'" "e = None"
proof -
  have "list_all claimed (filter claimed finals)"
    "list_all (final_ok (rt_factories s)) (filter claimed finals)"
    using assms(2) by (auto simp: list_all_iff)
  from supersede_claimed [OF this] superseded_advance [OF assms(1) this] assms(3)
  show "advance s s'" "e = None" by auto
qed

text \<open>\<open>_on_final\<close> claims every final, for the protocol whose function raised it.\<close>

definition claim_final :: "string \<Rightarrow> step \<Rightarrow> string \<Rightarrow> string \<Rightarrow> final \<Rightarrow> final" where
  "claim_final path step child_name fn f =
     (if claimed f then f else
        f\<lparr>fx_origin := Some \<lparr>fo_path = path, fo_step = step,
            fo_reported = \<lparr>rp_name = child_name, rp_path = path,
              rp_report = fx_decision f, rp_function = fn\<rparr>\<rparr>\<rparr>)"

lemma claim_final_ok:
  assumes "final_ok F f" "F path \<noteq> None" "\<not> claimed f \<Longrightarrow> well_shaped (fx_decision f) step"
  shows "claimed (claim_final path step child_name fn f)"
    "final_ok F (claim_final path step child_name fn f)"
  using assms by (auto simp: claim_final_def claimed_def final_ok_def)

lemma on_final_ok:
  assumes ok: "state_ok s" and path: "rt_factories s path \<noteq> None"
    and f: "list_all (final_ok (rt_factories s)) finals" "finals \<noteq> []"
    and r: "on_final finals kind path step child_name fn label s = (r, s')"
  shows "advance s s'" "\<And>x. r = Inr x \<Longrightarrow> finals_ok (rt_factories s') x \<and> all_claimed x"
proof -
  let ?bad = "first_error (map (\<lambda>f. validate_shape (fx_decision f) step label)
                (filter (\<lambda>f. \<not> claimed f) finals))"
  let ?claimed = "map (claim_final path step child_name fn) finals"
  have claim: "(\<lambda>f. if claimed f then f else
                 f\<lparr>fx_origin := Some \<lparr>fo_path = path, fo_step = step,
                     fo_reported = \<lparr>rp_name = child_name, rp_path = path,
                       rp_report = fx_decision f, rp_function = fn\<rparr>\<rparr>\<rparr>) = claim_final path step child_name fn"
    by (simp add: claim_final_def fun_eq_iff)
  have "advance s s' \<and> (\<forall>x. r = Inr x \<longrightarrow> finals_ok (rt_factories s') x \<and> all_claimed x)"
  proof (cases "(kind = MonitorKind \<and> \<not> list_all claimed finals) \<or> ?bad \<noteq> None")
    case True
    obtain e t where sup: "supersede (filter claimed finals) s = (e, t)" by force
    from True r sup have "s' = t" "\<exists>e. r = Inl e"
      by (auto simp: on_final_def Let_def split: if_splits option.splits)
    with supersede_filter [OF ok f(1) sup] show ?thesis by auto
  next
    case False
    then have "\<And>f. f \<in> set finals \<Longrightarrow> \<not> claimed f \<Longrightarrow> well_shaped (fx_decision f) step"
      by (auto simp: first_error_None validate_iff_well_shaped)
    with f path have c: "list_all (final_ok (rt_factories s)) ?claimed" "list_all claimed ?claimed"
      by (auto simp: list_all_iff intro!: claim_final_ok)
    obtain factory where fac: "rt_factories s path = Some factory" using path by auto
    let ?t = "if claimed (hd finals) then log_event (Bypassed path factory step child_name) s else s"
    have t: "advance s ?t" "rt_factories ?t = rt_factories s"
      using log_event_advance [OF ok, of "Bypassed path factory step child_name"] fac ok
      by (auto simp: log_event_def)
    from False r fac have r': "surface [] ?claimed ?t = (r, s')"
      by (auto simp: on_final_def Let_def layer_def claim split: if_splits option.splits)
    from surface_ok [OF _ _ _ r'] advanceD(1) [OF t(1)] c f(2) t(2)
    have "advance ?t s'" "\<exists>x. r = Inr x \<and> finals_ok (rt_factories s') x \<and> all_claimed x"
      by fastforce+
    with t(1) advance_trans show ?thesis by blast
  qed
  then show "advance s s'" "\<And>x. r = Inr x \<Longrightarrow> finals_ok (rt_factories s') x \<and> all_claimed x"
    by blast+
qed

text \<open>What a function's run may come to.\<close>

definition reported_ok :: "string \<Rightarrow> string \<Rightarrow> kind \<Rightarrow> step \<Rightarrow> report reported \<Rightarrow> bool" where
  "reported_ok path child_name kind step r \<longleftrightarrow>
     rp_path r = path \<and> rp_name r = child_name \<and> report_fits kind (rp_report r)
     \<and> report_ok step (rp_report r)"

definition member_ok ::
  "string \<Rightarrow> string \<Rightarrow> kind \<Rightarrow> step \<Rightarrow> run_state \<Rightarrow> exn + member_result \<Rightarrow> bool" where
  "member_ok path child_name kind step s r \<longleftrightarrow>
     (case r of
        Inl x \<Rightarrow> finals_ok (rt_factories s) x \<and> all_claimed x
      | Inr (MemberReported rr) \<Rightarrow> reported_ok path child_name kind step rr
      | Inr _ \<Rightarrow> True)"

lemma member_failure_ok:
  assumes "state_ok s" "rt_factories s path = Some factory"
    "finals_ok (rt_factories s) x" "all_claimed x"
    "member_failure x kind path factory step child_name fn s = (r, s')"
  shows "advance s s'" "member_ok path child_name kind step s' r"
proof -
  have "advance s s' \<and> member_ok path child_name kind step s' r"
  proof (cases "\<exists>e. x = XErr e \<and> kind = MonitorKind \<and> class_of e \<noteq> LimitExceededError")
    case True
    then obtain e where e: "x = XErr e" "kind = MonitorKind" "class_of e \<noteq> LimitExceededError" by blast
    let ?f = "\<lparr>f_name = child_name, f_path = path, f_function = fn, f_error = e\<rparr>"
    have "advance s (log_event (MonitorFailed path factory step ?f) s)"
      using assms(1,2) e(3) by (intro log_event_advance) simp_all
    with e assms show ?thesis
      by (auto simp: member_failure_def member_ok_def Let_def split: if_splits)
  next
    case False
    with assms(5) have "r = Inl x" "s' = s"
      by (auto simp: member_failure_def split: exn.splits if_splits)
    with assms show ?thesis by (simp add: member_ok_def)
  qed
  then show "advance s s'" "member_ok path child_name kind step s' r" by simp_all
qed

lemma member_finals_ok:
  assumes ok: "state_ok s" and path: "rt_factories s path \<noteq> None"
    and f: "list_all (final_ok (rt_factories s)) finals" "finals \<noteq> []"
    and r: "member_finals finals kind path step child_name fn label node s = (r, s')"
  shows "advance s s'" "member_ok path child_name kind step s' r"
proof -
  obtain q t where t: "on_final finals kind path step child_name fn label s = (q, t)" by force
  note on = on_final_ok [OF ok path f t]
  have "silent t s'"
    using r t by (auto simp: member_finals_def silent_def succeeded_node_def split: sum.splits if_splits)
  then have "advance t s'" "rt_factories s' = rt_factories t"
    using on(1) advanceD silent_advance by (blast, simp add: silent_def)
  then show "advance s s'" "member_ok path child_name kind step s' r"
    using on r t by (auto simp: member_finals_def member_ok_def intro: advance_trans split: sum.splits)
qed

text \<open>A decision that was recorded and then noted as its invocation's.\<close>

lemma recorded_decided_advance:
  assumes ok: "state_ok s" and path: "rt_factories s path = Some factory"
    and n: "length (rt_nodes s0) \<le> node" "node < length (rt_nodes s)" "iv_path (rt_nodes s ! node) = path"
    and g: "grows s0 s" and w: "well_shaped d step"
    and own: "own = \<lparr>rp_name = child_name, rp_path = path, rp_report = d, rp_function = fn\<rparr>"
    and r: "reported = \<lparr>rp_name = child_name, rp_path = path, rp_report = RDec d, rp_function = fn\<rparr>"
  shows "advance s0 (decided node own (succeeded_node node (log_event (Recorded path factory step reported) s)))"
proof -
  let ?t = "succeeded_node node (log_event (Recorded path factory step reported) s)"
  have "advance s (log_event (Recorded path factory step reported) s)"
    using ok path w r by (intro log_event_advance) simp_all
  moreover from this have "advance (log_event (Recorded path factory step reported) s) ?t"
    by (intro silent_advance) (simp_all add: advanceD)
  ultimately have t: "advance s ?t" by (rule advance_trans)
  have "state_ok (decided node own ?t)"
    by (rule decided_ok [where f = factory and st = step])
      (use t n own r in \<open>auto simp: advance_def log_event_def succeeded_node_def as_report_def\<close>)
  moreover have "grows s0 (decided node own ?t)"
    using t g n(1) by (intro decided_grows) (auto simp: advance_def intro: grows_trans)
  ultimately show ?thesis by (simp add: advance_def)
qed

lemma member_return_ok:
  assumes ok: "state_ok s" and path: "rt_factories s path = Some factory"
    and n: "length (rt_nodes s0) \<le> node" "node < length (rt_nodes s)" "iv_path (rt_nodes s ! node) = path"
    and g: "grows s0 s"
    and r: "member_return report kind path factory step child_name fn label node s = (r, s')"
  shows "advance s0 s'" "member_ok path child_name kind step s' r"
proof -
  have s0: "advance s0 s" using ok g by (simp add: advance_def)
  have "advance s0 s' \<and> member_ok path child_name kind step s' r"
  proof (cases report)
    case None
    with r have "r = Inr NoReport" "s' = succeeded_node node s"
      by (simp_all add: member_return_def)
    with s0 silent_advance [OF ok] show ?thesis
      by (auto simp: member_ok_def intro: advance_trans)
  next
    case (Some rep)
    show ?thesis
    proof (cases "report_fits kind rep")
      case False
      with Some r s0 show ?thesis by (auto simp: member_return_def member_ok_def)
    next
      case fits: True
      show ?thesis
      proof (cases rep)
        case (RObs obs)
        let ?r = "\<lparr>rp_name = child_name, rp_path = path, rp_report = RObs obs, rp_function = fn\<rparr>"
        let ?t = "log_event (Recorded path factory step ?r) s"
        have "advance s ?t" using ok path by (intro log_event_advance) simp_all
        moreover from this have "advance ?t (succeeded_node node ?t)"
          by (intro silent_advance) (simp_all add: advanceD)
        ultimately have "advance s0 (succeeded_node node ?t)" using s0 advance_trans by blast
        with Some fits RObs r show ?thesis
          by (auto simp: member_return_def member_ok_def reported_ok_def Let_def)
      next
        case (RDec d)
        show ?thesis
        proof (cases "validate_shape d step label")
          case None
          let ?d = "stamped (Some (rt_token s)) d node"
          have w: "well_shaped ?d step" using None by (simp flip: validate_iff_well_shaped)
          let ?own = "\<lparr>rp_name = child_name, rp_path = path, rp_report = ?d, rp_function = fn\<rparr>"
          let ?r = "\<lparr>rp_name = child_name, rp_path = path, rp_report = RDec ?d, rp_function = fn\<rparr>"
          from Some fits RDec None r have "r = Inr (MemberReported ?r)"
            "s' = decided node ?own (succeeded_node node (log_event (Recorded path factory step ?r) s))"
            by (simp_all add: member_return_def Let_def validate_shape_def)
          moreover have "report_fits kind (RDec ?d)" using fits RDec by (simp add: report_fits_def)
          ultimately show ?thesis
            using recorded_decided_advance [OF ok path n g w, of ?own child_name fn ?r] w
            by (simp add: member_ok_def reported_ok_def)
        next
          case (Some e)
          with \<open>report = Some rep\<close> fits RDec r s0 show ?thesis
            by (auto simp: member_return_def member_ok_def)
        qed
      qed
    qed
  qed
  then show "advance s0 s'" "member_ok path child_name kind step s' r" by simp_all
qed

lemma run_member_ok:
  assumes b: "body_ok (mb_body m)" and ok: "state_ok s" and cur: "node_ok cur s"
    and r: "run_member m kind path step escs child_name grouped cur s = (r, s')"
  shows "advance s s'" "member_ok path child_name kind step s' r"
proof -
  have "advance s s' \<and> member_ok path child_name kind step s' r"
  proof (cases "rt_factories s path")
    case None
    with r ok show ?thesis by (auto simp: run_member_def layer_def member_ok_def)
  next
    case (Some factory)
    obtain node s1 where n1: "new_invocation cur (mb_function m) path s = (node, s1)" by force
    note inv = new_invocation_advance [OF ok cur n1]
    obtain q s2 where q: "mb_body m path step (if kind = MonitorKind then [] else escs) (Some node) s1 = (q, s2)"
      by force
    have s1: "state_ok s1" "node_ok (Some node) s1"
      using inv by (simp_all add: advanceD node_ok_def)
    note body = body_okD [OF b s1 q]
    have "advance s s2" using inv(1) body(1) by (rule advance_trans)
    with Some have s2: "state_ok s2" "advance s s2" "rt_factories s2 path = Some factory" "grows s s2"
      by (auto simp: advance_def grows_def map_le_def dom_def)
    have node: "length (rt_nodes s) \<le> node" "node < length (rt_nodes s2)" "iv_path (rt_nodes s2 ! node) = path"
      using inv body(1) by (auto simp: advance_def grows_def prefix_def nth_append)
    show ?thesis
    proof (cases q)
      case (Inr rep)
      with r Some n1 q have "member_return rep kind path factory step child_name (mb_function m)
          (describe child_name (mb_function m) grouped) node s2 = (r, s')"
        by (simp add: run_member_def layer_def Let_def)
      from member_return_ok [OF s2(1,3) node s2(4) this] show ?thesis by simp
    next
      case (Inl x)
      note fin = body(2) [OF Inl]
      show ?thesis
      proof (cases x)
        case (XErr e)
        with r Some n1 q Inl have "member_failure (XErr e) kind path factory step child_name (mb_function m) s2 = (r, s')"
          by (simp add: run_member_def layer_def Let_def)
        from member_failure_ok [OF s2(1,3) _ _ this] s2(2) show ?thesis by (auto intro: advance_trans)
      next
        case (XFinal f)
        with r Some n1 q Inl have "member_finals [f] kind path step child_name (mb_function m)
            (describe child_name (mb_function m) grouped) node s2 = (r, s')"
          by (simp add: run_member_def layer_def Let_def)
        from member_finals_ok [OF s2(1) _ _ _ this] s2 fin XFinal show ?thesis by (auto intro: advance_trans)
      next
        case XCancelled
        with r Some n1 q Inl s2(2) show ?thesis
          by (auto simp: run_member_def layer_def Let_def member_ok_def)
      next
        case (XGroup xs)
        obtain errors finals where p: "partition_exns xs = (errors, finals)" by force
        have f: "list_all (final_ok (rt_factories s2)) finals"
          using fin XGroup partition_finals [of xs] p by (auto simp: finals_ok_def list_all_iff)
        consider "errors = []" "finals = []" | "errors = []" "finals \<noteq> []" | "errors \<noteq> []" by blast
        then show ?thesis
        proof cases
          case 1
          with r Some n1 q Inl XGroup p have "r = Inl x" "s' = s2"
            by (simp_all add: run_member_def layer_def Let_def)
          moreover have "all_claimed x"
            using partition_finals [of xs] p 1 XGroup by (auto simp: all_claimed_def list_all_iff)
          ultimately show ?thesis using fin s2(2) by (simp add: member_ok_def)
        next
          case 2
          then obtain f fs where "finals = f # fs" by (cases finals) auto
          with r Some n1 q Inl XGroup p 2 have "member_finals finals kind path step child_name (mb_function m)
              (describe child_name (mb_function m) grouped) node s2 = (r, s')"
            by (simp add: run_member_def layer_def Let_def)
          from member_finals_ok [OF s2(1) _ f 2(2) this] s2 show ?thesis by (auto intro: advance_trans)
        next
          case 3
          then obtain e es where es: "errors = e # es" by (cases errors) auto
          obtain u s3 where u: "surface errors finals s2 = (u, s3)" by force
          from surface_ok [OF s2(1) f _ u] 3 have s3: "advance s2 s3"
            and "\<exists>x. u = Inr x \<and> x = XErr e" using es by auto
          then have u': "u = Inr (XErr e)" by blast
          let ?x = "group_failure errors (XErr e)"
          from r Some n1 q Inl XGroup p es u u'
          have m: "member_failure ?x kind path factory step child_name (mb_function m) s3 = (r, s')"
            by (simp add: run_member_def layer_def Let_def)
          have "finals_ok F ?x" "all_claimed ?x" for F
            by (auto simp: group_failure_def split: list.splits)
          moreover have "rt_factories s3 path = Some factory"
            using s2(3) advanceD(2) [OF s3] by (auto simp: map_le_def dom_def)
          ultimately have "advance s3 s'" "member_ok path child_name kind step s' r"
            using member_failure_ok [OF _ _ _ _ m] advanceD(1) [OF s3] by blast+
          with s2(2) s3 advance_trans show ?thesis by blast
        qed
      qed
    qed
  qed
  then show "advance s s'" "member_ok path child_name kind step s' r" by simp_all
qed

section \<open>A child\<close>

definition functions_ok :: "run_function list \<Rightarrow> bool" where
  "functions_ok ms \<longleftrightarrow> list_all (\<lambda>m. body_ok (mb_body m)) ms"

definition gathered_ok :: "string \<Rightarrow> string \<Rightarrow> kind \<Rightarrow> step \<Rightarrow> gathered \<Rightarrow> bool" where
  "gathered_ok path child_name kind step g \<longleftrightarrow>
     list_all (reported_ok path child_name kind step) (ga_found g)"

definition ending_ok :: "run_state \<Rightarrow> exn option \<Rightarrow> bool" where
  "ending_ok s ended \<longleftrightarrow>
     (case ended of None \<Rightarrow> True | Some x \<Rightarrow> finals_ok (rt_factories s) x \<and> all_claimed x)"

lemma run_functions_ok:
  "functions_ok ms \<Longrightarrow> state_ok s \<Longrightarrow> node_ok cur s \<Longrightarrow> gathered_ok path child_name kind step g \<Longrightarrow>
     run_functions ms kind path step escs child_name grouped cur g s = (ended, g', s') \<Longrightarrow>
     advance s s' \<and> gathered_ok path child_name kind step g' \<and> ending_ok s' ended"
proof (induction ms arbitrary: g s)
  case Nil
  then show ?case by (auto simp: ending_ok_def)
next
  case (Cons m ms)
  obtain r t where t: "run_member m kind path step escs child_name grouped cur s = (r, t)" by force
  from Cons.prems have b: "body_ok (mb_body m)" and ms: "functions_ok ms" by (simp_all add: functions_ok_def)
  note m = run_member_ok [OF b Cons.prems(2,3) t]
  note next_ok = Cons.IH [OF ms advanceD(1) [OF m(1)] node_ok_advance [OF Cons.prems(3) m(1)]]
  show ?case
  proof (cases r)
    case (Inl x)
    with Cons.prems t m show ?thesis by (auto simp: ending_ok_def member_ok_def)
  next
    case (Inr mr)
    show ?thesis
    proof (cases mr)
      case NoReport
      with Cons.prems t Inr next_ok m(1) advance_trans show ?thesis by fastforce
    next
      case (MemberFailed f)
      with Cons.prems t Inr
      have "run_functions ms kind path step escs child_name grouped cur
          (g\<lparr>ga_failed := ga_failed g @ [f]\<rparr>) t = (ended, g', s')" by simp
      from next_ok [OF _ this] Cons.prems(4) m(1) advance_trans show ?thesis
        by (fastforce simp: gathered_ok_def)
    next
      case (MemberReported rr)
      let ?g = "g\<lparr>ga_found := ga_found g @ [rr]\<rparr>"
      have g: "gathered_ok path child_name kind step ?g"
        using Cons.prems(4) m(2) Inr MemberReported by (simp add: gathered_ok_def member_ok_def)
      show ?thesis
      proof (cases "terminates rr")
        case True
        with Cons.prems t Inr MemberReported g m(1) show ?thesis by (auto simp: ending_ok_def Let_def)
      next
        case False
        with Cons.prems t Inr MemberReported
        have "run_functions ms kind path step escs child_name grouped cur ?g t = (ended, g', s')"
          by (simp add: Let_def)
        from next_ok [OF g this] m(1) advance_trans show ?thesis by blast
      qed
    qed
  qed
qed

lemma nothing_gathered_ok [simp]: "gathered_ok path child_name kind step nothing_gathered"
  by (simp add: gathered_ok_def nothing_gathered_def)

definition place_of :: "string \<Rightarrow> string option \<Rightarrow> string" where
  "place_of path name = (case name of None \<Rightarrow> path | Some n \<Rightarrow> child_path path n)"

text \<open>A child keeps the step's state in order, everything it reported is its own and fits the
  step, and every final that leaves it has an origin.\<close>

lemma run_child_ok:
  assumes child: "functions_ok (sn_members child)" and ok: "state_ok s" and cur: "node_ok cur s"
    and r: "run_child child kind path step escs name cur s = (ended, g, s')"
  shows "advance s s'" "ending_ok s' ended"
    "gathered_ok (place_of path name) (case name of None \<Rightarrow> sn_name child | Some n \<Rightarrow> n) kind step g"
    "ga_found g \<noteq> [] \<Longrightarrow> rt_factories s' (place_of path name) = Some (sn_factory child)"
proof -
  let ?p = "place_of path name" let ?n = "case name of None \<Rightarrow> sn_name child | Some n \<Rightarrow> n"
  let ?ms = "filter (\<lambda>m. stage_of step \<in> set (mb_accepted m)) (sn_members child)"
  let ?bad = "case name of None \<Rightarrow> None | Some n \<Rightarrow> valid_instance_name n"
  obtain e s1 where e: "enter_layer ?p (sn_factory child) s = (e, s1)" by force
  note enter = enter_layer_advance [OF ok e]
  have "advance s s' \<and> ending_ok s' ended \<and> gathered_ok ?p ?n kind step g
     \<and> (ga_found g \<noteq> [] \<longrightarrow> rt_factories s' ?p = Some (sn_factory child))"
  proof (cases "sn_kind child \<noteq> kind \<or> ?bad \<noteq> None \<or> e \<noteq> None")
    case True
    then have "(\<exists>x. ended = Some (XErr x)) \<and> g = nothing_gathered \<and> (s' = s \<or> s' = s1)"
      using r e by (auto simp: run_child_def place_of_def Let_def split: option.splits if_splits)
    with ok enter(1) show ?thesis by (auto simp: ending_ok_def nothing_gathered_def gathered_ok_def)
  next
    case False
    obtain x g2 s2 where f: "run_functions ?ms kind ?p step escs ?n (sn_grouped child) cur nothing_gathered s1
        = (x, g2, s2)" by (metis prod_cases3)
    have ms: "functions_ok ?ms" using child by (auto simp: functions_ok_def list_all_iff)
    from run_functions_ok [OF ms advanceD(1) [OF enter(1)] node_ok_advance [OF cur enter(1)] _ f]
    have s2: "advance s1 s2" "gathered_ok ?p ?n kind step g2" "ending_ok s2 x" by simp_all
    have fac: "rt_factories s2 ?p = Some (sn_factory child)"
      using enter(2) False advanceD(2) [OF s2(1)] by (auto simp: map_le_def dom_def)
    from False r e f have res: "ended = x" "g = g2"
      "s' = (if x = Some XCancelled then log_event (Cancelled ?p (sn_factory child) step ?n) s2 else s2)"
      by (auto simp: run_child_def place_of_def Let_def)
    have "advance s2 s'" "rt_factories s' = rt_factories s2"
      using res(3) fac advanceD(1) [OF s2(1)]
        log_event_advance [of s2 "Cancelled ?p (sn_factory child) step ?n"]
      by (auto simp: log_event_def)
    moreover from this s2(3) have "ending_ok s' x" by (cases x) (simp_all add: ending_ok_def)
    moreover have "advance s s2" using enter(1) s2(1) by (rule advance_trans)
    ultimately show ?thesis using s2(2) fac res(1,2) advance_trans by auto
  qed
  then show "advance s s'" "ending_ok s' ended" "gathered_ok ?p ?n kind step g"
    "ga_found g \<noteq> [] \<Longrightarrow> rt_factories s' ?p = Some (sn_factory child)" by simp_all
qed

section \<open>A layer's group\<close>

definition terminated_ok :: "(string \<Rightarrow> string option) \<Rightarrow> string \<Rightarrow> step \<Rightarrow> string \<times> decision reported \<Rightarrow> bool" where
  "terminated_ok F path step t \<longleftrightarrow>
     F (child_path path (rp_name (snd t))) = Some (fst t)
     \<and> rp_path (snd t) = child_path path (rp_name (snd t))
     \<and> well_shaped (rp_report (snd t)) step"

definition collected_ok :: "(string \<Rightarrow> string option) \<Rightarrow> string \<Rightarrow> step \<Rightarrow> collected \<Rightarrow> bool" where
  "collected_ok F path step c \<longleftrightarrow>
     list_all (terminated_ok F path step) (co_terminated c)
     \<and> list_all (\<lambda>x. finals_ok F x \<and> all_claimed x) (co_raised c)"

lemma collected_ok_mono:
  "collected_ok F path step c \<Longrightarrow> F \<subseteq>\<^sub>m F' \<Longrightarrow> collected_ok F' path step c"
  by (auto simp: collected_ok_def terminated_ok_def list_all_iff map_le_def dom_def
      intro: finals_ok_mono [unfolded map_le_def dom_def])

lemma nothing_collected_ok [simp]: "collected_ok F path step nothing_collected"
  by (simp add: collected_ok_def nothing_collected_def)

lemma as_decision_Some:
  "as_decision r = Some d \<longleftrightarrow>
     rp_report r = RDec (rp_report d) \<and> rp_name d = rp_name r \<and> rp_path d = rp_path r
     \<and> rp_function d = rp_function r"
  by (cases "rp_report r"; cases d) (auto simp: as_decision_def)

lemma collect_ok:
  assumes c: "collected_ok (rt_factories s) path step c" and e: "ending_ok s ended"
    and g: "gathered_ok (child_path path name) name kind step g"
    and f: "ga_found g \<noteq> [] \<Longrightarrow> rt_factories s (child_path path name) = Some (sn_factory child)"
  shows "collected_ok (rt_factories s) path step (collect index child g ended c)"
proof -
  have "terminated_ok (rt_factories s) path step t"
    if "t \<in> set (terminated_of (sn_factory child) (List.map_filter as_decision (ga_found g)))" for t
  proof -
    from that obtain r where r: "r \<in> set (ga_found g)" and d: "as_decision r = Some (snd t)"
      and "fst t = sn_factory child"
      by (auto simp: terminated_of_def map_filter_member)
    moreover from r g have "reported_ok (child_path path name) name kind step r"
      by (auto simp: gathered_ok_def list_all_iff)
    moreover from r f have "rt_factories s (child_path path name) = Some (sn_factory child)" by force
    ultimately show ?thesis
      by (auto simp: terminated_ok_def reported_ok_def as_decision_Some)
  qed
  with c e show ?thesis
    by (auto simp: collect_def collected_ok_def ending_ok_def list_all_iff Let_def split: option.splits)
qed

definition children_ok :: "(string \<times> run_instance) list \<Rightarrow> bool" where
  "children_ok named \<longleftrightarrow> list_all (\<lambda>p. functions_ok (sn_members (snd p))) named"

lemma run_group_ok:
  "children_ok (map snd order) \<Longrightarrow> state_ok s \<Longrightarrow> node_ok cur s \<Longrightarrow>
     collected_ok (rt_factories s) path step c \<Longrightarrow>
     run_group order outer path step escs cur c s = (c', s') \<Longrightarrow>
     advance s s' \<and> collected_ok (rt_factories s') path step c'"
proof (induction order outer path step escs cur c s rule: run_group.induct)
  case (1 outer path step escs cur c s)
  then show ?case by auto
next
  case (2 index name child rest outer path step escs cur c s)
  let ?s = "start_child outer (co_cancelling c) s"
  let ?escs = "if sn_kind child = MonitorKind then [] else escs"
  obtain ended g t where t: "run_child child (sn_kind child) path step ?escs (Some name) cur ?s
      = (ended, g, t)" by (metis prod_cases3)
  from 2(2,6) have child: "functions_ok (sn_members child)" "children_ok (map snd rest)"
    by (simp_all add: children_ok_def)
  have s: "advance s ?s" using 2(3) start_child_silent by (rule silent_advance)
  note child_ok = run_child_ok [OF child(1) advanceD(1) [OF s] node_ok_advance [OF 2(4) s] t]
  have st: "advance s t" using s child_ok(1) by (rule advance_trans)
  have "collected_ok (rt_factories t) path step (collect index child g ended c)"
    by (rule collect_ok [OF collected_ok_mono [OF 2(5) advanceD(2) [OF st]] child_ok(2)])
      (use child_ok(3,4) in \<open>simp_all add: place_of_def\<close>)
  with "2.IH" [OF t [symmetric] refl child(2) advanceD(1) [OF st] node_ok_advance [OF 2(4) st]]
    2(6) t st advance_trans
  show ?case by fastforce
qed

lemma supersede_terminated_advance:
  "list_all (terminated_ok (rt_factories s) path step) ts \<Longrightarrow> state_ok s \<Longrightarrow>
     advance s (supersede_terminated path step ts s)
     \<and> rt_factories (supersede_terminated path step ts s) = rt_factories s"
proof (induction path step ts s rule: supersede_terminated.induct)
  case (2 path step factory r rest s)
  let ?t = "log_event (Superseded (child_path path (rp_name r)) factory step r) s"
  have "advance s ?t" using 2(2,3) by (intro log_event_advance) (simp_all add: terminated_ok_def)
  moreover from this 2 have "advance ?t (supersede_terminated path step rest ?t)"
    "rt_factories (supersede_terminated path step rest ?t) = rt_factories s"
    by (simp_all add: advanceD log_event_def)
  ultimately show ?case using advance_trans by auto
qed simp

lemma close_group_ok:
  assumes ok: "state_ok s" and x: "list_all (\<lambda>x. finals_ok (rt_factories s) x \<and> all_claimed x) raised"
    and r: "close_group raised cancelled s = (ended, s')"
  shows "advance s s'" "ending_ok s' ended"
proof -
  obtain errors finals where p: "partition_exns raised = (errors, finals)" by force
  have f: "list_all (final_ok (rt_factories s)) finals" "list_all claimed finals"
    using x partition_finals [of raised] p
    by (auto simp: finals_ok_def all_claimed_def list_all_iff)
  have "advance s s' \<and> ending_ok s' ended"
  proof (cases "raised = [] \<or> errors = [] \<and> finals = []")
    case True
    with ok x r p show ?thesis
      by (auto simp: close_group_def ending_ok_def list_all_iff split: if_splits)
  next
    case False
    obtain u t where u: "surface errors finals s = (u, t)" by force
    from surface_ok [OF ok f(1) _ u] f(2) False
    have "advance s t" "\<exists>x. u = Inr x \<and> finals_ok (rt_factories t) x \<and> all_claimed x" by auto
    with False r p u show ?thesis by (auto simp: close_group_def ending_ok_def)
  qed
  then show "advance s s'" "ending_ok s' ended" by simp_all
qed

lemma run_named_ok:
  assumes named: "children_ok named" and ok: "state_ok s" and cur: "node_ok cur s"
    and r: "run_named named path step escs caller cur s = (r, s')"
  shows "advance s s'" "\<And>x. r = Inl x \<Longrightarrow> finals_ok (rt_factories s') x \<and> all_claimed x"
proof -
  have "advance s s' \<and> (\<forall>x. r = Inl x \<longrightarrow> finals_ok (rt_factories s') x \<and> all_claimed x)"
  proof (cases "layer path caller s")
    case (Inl e)
    with r ok show ?thesis by (auto simp: run_named_def)
  next
    case (Inr f)
    obtain order s1 where o: "take_order (indexed named) s = (order, s1)" by force
    obtain c s2 where g: "run_group order (rt_cancel s) path step escs cur nothing_collected s1 = (c, s2)"
      by force
    obtain cancelled s3 where a: "await_point (s2\<lparr>rt_cancel := rt_cancel s\<rparr>) = (cancelled, s3)" by force
    obtain ended s4 where cl: "close_group (co_raised c) cancelled s3 = (ended, s4)" by force
    have s1: "advance s s1" using ok take_order_silent [OF o] by (rule silent_advance)
    have "set order = set (indexed named)" using o by (auto simp: take_order_def)
    then have "children_ok (map snd order)"
      using named indexed_member by (fastforce simp: children_ok_def list_all_iff)
    from run_group_ok [OF this advanceD(1) [OF s1] node_ok_advance [OF cur s1] nothing_collected_ok g]
    have s2: "advance s1 s2" "collected_ok (rt_factories s2) path step c" by simp_all
    have "silent s2 s3"
      using silent_trans [OF silent_simps(1) await_silent [OF a]] .
    then have s3: "advance s2 s3" "rt_factories s3 = rt_factories s2"
      using silent_advance [OF advanceD(1) [OF s2(1)]] by (blast, simp add: silent_def)
    from s2(2) s3(2) have c: "collected_ok (rt_factories s3) path step c" by simp
    then have "list_all (\<lambda>x. finals_ok (rt_factories s3) x \<and> all_claimed x) (co_raised c)"
      by (simp add: collected_ok_def)
    note s4 = close_group_ok [OF advanceD(1) [OF s3(1)] this cl]
    have adv: "advance s s4" using s1 s2(1) s3(1) s4(1) advance_trans by blast
    have fin: "ended = Some (XFinal f) \<Longrightarrow> final_ok (rt_factories s4) f \<and> claimed f" for f
      using s4(2) by (simp add: ending_ok_def)
    have t: "list_all (terminated_ok (rt_factories s4) path step) (co_terminated c)"
      using collected_ok_mono [OF c advanceD(2) [OF s4(1)]] by (simp add: collected_ok_def)
    note sup = supersede_terminated_advance [OF t advanceD(1) [OF s4(1)]]
    show ?thesis
    proof (cases "\<exists>f. ended = Some (XFinal f)")
      case True
      then obtain f where f: "ended = Some (XFinal f)" by blast
      with r Inr o g a cl have "r = Inl (XFinal f)" "s' = supersede_terminated path step (co_terminated c) s4"
        by (simp_all add: run_named_def)
      with sup adv fin [OF f] advance_trans show ?thesis by auto
    next
      case False
      with r Inr o g a cl have "s' = s4" "r = (case ended of None \<Rightarrow> Inr (reports_of c) | Some x \<Rightarrow> Inl x)"
        by (auto simp: run_named_def split: option.splits exn.splits)
      with adv s4(2) show ?thesis by (auto simp: ending_ok_def split: option.splits)
    qed
  qed
  then show "advance s s'" "\<And>x. r = Inl x \<Longrightarrow> finals_ok (rt_factories s') x \<and> all_claimed x" by simp_all
qed

section \<open>Every function\<close>

definition run_ok :: "run \<Rightarrow> bool" where
  "run_ok f \<longleftrightarrow>
     (\<forall>cur s r s'. state_ok s \<longrightarrow> node_ok cur s \<longrightarrow> f cur s = (r, s') \<longrightarrow>
        advance s s' \<and> (\<forall>x. r = Inl x \<longrightarrow> finals_ok (rt_factories s') x))"

lemma run_okI:
  assumes "\<And>cur s r s'. state_ok s \<Longrightarrow> node_ok cur s \<Longrightarrow> f cur s = (r, s') \<Longrightarrow>
    advance s s' \<and> (\<forall>x. r = Inl x \<longrightarrow> finals_ok (rt_factories s') x)"
  shows "run_ok f"
  using assms unfolding run_ok_def by blast

lemma run_okD:
  assumes "run_ok f" "state_ok s" "node_ok cur s" "f cur s = (r, s')"
  shows "advance s s'" "\<And>x. r = Inl x \<Longrightarrow> finals_ok (rt_factories s') x"
  using assms unfolding run_ok_def by blast+

text \<open>A run that follows steps that already advanced the state.\<close>

lemma run_ok_after:
  assumes f: "run_ok f" and t: "advance s t" and cur: "node_ok cur s" and r: "f cur t = (r, s')"
  shows "advance s s' \<and> (\<forall>x. r = Inl x \<longrightarrow> finals_ok (rt_factories s') x)"
  using run_okD [OF f advanceD(1) [OF t] node_ok_advance [OF cur t] r] t advance_trans by blast

lemma after_await_ok:
  assumes f: "run_ok f" and ok: "advance s0 s" and cur: "node_ok cur s0"
    and r: "after_await (f cur) s = (r, s')"
  shows "advance s0 s' \<and> (\<forall>x. r = Inl x \<longrightarrow> finals_ok (rt_factories s') x)"
proof -
  obtain b t where a: "await_point s = (b, t)" by force
  have t: "advance s0 t"
    using ok silent_advance [OF advanceD(1) [OF ok] await_silent [OF a]] by (rule advance_trans)
  show ?thesis
  proof (cases b)
    case True
    with r a t show ?thesis by (auto simp: after_await_def)
  next
    case False
    with r a have "f cur t = (r, s')" by (simp add: after_await_def)
    with run_ok_after [OF f t cur] show ?thesis .
  qed
qed

lemma await_then_ok:
  assumes f: "\<And>s. run_ok (f s)" and g: "\<And>s. silent s (g s)"
  shows "run_ok (\<lambda>cur s. after_await (f s cur) (g s))"
proof (rule run_okI)
  fix cur s r s'
  assume "state_ok s" "node_ok cur s" "after_await (f s cur) (g s) = (r, s')"
  then show "advance s s' \<and> (\<forall>x. r = Inl x \<longrightarrow> finals_ok (rt_factories s') x)"
    using after_await_ok [OF f silent_advance [OF _ g]] by blast
qed

lemma run_fan_ok:
  "list_all (\<lambda>p. run_ok (snd p)) fs \<Longrightarrow> state_ok s \<Longrightarrow> node_ok cur s \<Longrightarrow>
     list_all (finals_ok (rt_factories s)) raised \<Longrightarrow>
     run_fan fs outer cur (raised, results) s = ((raised', results'), s') \<Longrightarrow>
     advance s s' \<and> list_all (finals_ok (rt_factories s')) raised'"
proof (induction fs arbitrary: raised results s)
  case (Cons p fs)
  obtain i f where p: "p = (i, f)" by force
  let ?s = "start_child outer (raised \<noteq> []) s"
  obtain r t where t: "f cur ?s = (r, t)" by force
  have s: "advance s ?s" using Cons.prems(2) start_child_silent by (rule silent_advance)
  have f: "run_ok f" using Cons.prems(1) p by simp
  note st = run_ok_after [OF f s Cons.prems(3) t]
  have rs: "list_all (finals_ok (rt_factories t)) raised"
    using Cons.prems(4) st advanceD(2) by (auto simp: list_all_iff intro: finals_ok_mono)
  note IH = Cons.IH [OF _ advanceD(1) [OF conjunct1 [OF st]] node_ok_advance [OF Cons.prems(3) conjunct1 [OF st]]]
  show ?case
  proof (cases "\<exists>x. r = Inl x \<and> x \<noteq> XCancelled")
    case True
    then obtain x where x: "r = Inl x" "x \<noteq> XCancelled" by blast
    with Cons.prems(5) p t have "run_fan fs outer cur (raised @ [x], results) t = ((raised', results'), s')"
      by (auto split: exn.splits)
    moreover have "list_all (finals_ok (rt_factories t)) (raised @ [x])" using rs st x by simp
    ultimately show ?thesis using IH Cons.prems(1) st advance_trans by fastforce
  next
    case False
    with Cons.prems(5) p t obtain results2
      where "run_fan fs outer cur (raised, results2) t = ((raised', results'), s')"
      by (cases r) auto
    with IH Cons.prems(1) rs st advance_trans show ?thesis by fastforce
  qed
qed simp

lemma fan_out_ok:
  assumes fs: "list_all run_ok fs" and k: "\<And>rs. run_ok (k rs)"
  shows "run_ok (fan_out fs k)"
proof (rule run_okI)
  fix cur s r s'
  assume ok: "state_ok s" and cur: "node_ok cur s" and r: "fan_out fs k cur s = (r, s')"
  obtain order s1 where o: "take_order (indexed fs) s = (order, s1)" by force
  obtain raised results s2 where g: "run_fan order (rt_cancel s) cur ([], []) s1 = ((raised, results), s2)"
    by (metis prod.collapse)
  obtain b s3 where a: "await_point (s2\<lparr>rt_cancel := rt_cancel s\<rparr>) = (b, s3)" by force
  have s1: "advance s s1" using ok take_order_silent [OF o] by (rule silent_advance)
  have "set order = set (indexed fs)" using o by (auto simp: take_order_def)
  then have "list_all (\<lambda>p. run_ok (snd p)) order"
    using fs indexed_member by (fastforce simp: list_all_iff)
  from run_fan_ok [OF this advanceD(1) [OF s1] node_ok_advance [OF cur s1] _ g]
  have s2: "advance s1 s2" "list_all (finals_ok (rt_factories s2)) raised" by simp_all
  have "silent s2 s3" using silent_trans [OF silent_simps(1) await_silent [OF a]] .
  then have s3: "advance s2 s3" "rt_factories s3 = rt_factories s2"
    using silent_advance [OF advanceD(1) [OF s2(1)]] by (blast, simp add: silent_def)
  have adv: "advance s s3" using s1 s2(1) s3(1) advance_trans by blast
  show "advance s s' \<and> (\<forall>x. r = Inl x \<longrightarrow> finals_ok (rt_factories s') x)"
  proof (cases "raised \<noteq> [] \<or> b")
    case True
    with r o g a adv s2(2) s3(2) show ?thesis
      by (auto simp: fan_out_def split: if_splits)
  next
    case False
    with r o g a have "k (by_index results) cur s3 = (r, s')" by (simp add: fan_out_def)
    with run_ok_after [OF k adv cur] show ?thesis .
  qed
qed

lemma functions_okI: "list_all (\<lambda>m. \<forall>p st es. run_ok (mb_body m p st es)) ms \<Longrightarrow> functions_ok ms"
  by (auto simp: functions_ok_def body_ok_def list_all_iff run_ok_def)

lemma run_prog_ok:
  assumes named: "children_ok named" and k: "\<And>x. run_ok (k x)"
  shows "run_ok (\<lambda>cur s. caught (run_named named path step escs caller cur s) (\<lambda>r. k r cur))"
proof (rule run_okI)
  fix cur s r s'
  assume ok: "state_ok s" and cur: "node_ok cur s"
    and r: "caught (run_named named path step escs caller cur s) (\<lambda>r. k r cur) = (r, s')"
  obtain q t where q: "run_named named path step escs caller cur s = (q, t)" by force
  note n = run_named_ok [OF named ok cur q]
  show "advance s s' \<and> (\<forall>x. r = Inl x \<longrightarrow> finals_ok (rt_factories s') x)"
  proof (cases "\<exists>y. k y cur t = (r, s')")
    case True
    with run_ok_after [OF k n(1) cur] show ?thesis by blast
  next
    case False
    with r q have "\<exists>x. q = Inl x \<and> r = Inl x \<and> s' = t"
      by (auto simp: caught_def split: sum.splits exn.splits)
    with n show ?thesis by blast
  qed
qed

text \<open>Every function an author can write keeps what the runner relies on, and so does every
  configured instance.\<close>

theorem exec_ok:
  shows "run_ok (exec h p)"
    and "functions_ok (sn_members (instance_of h child))"
    and "list_all (\<lambda>m. \<forall>p st es. run_ok (mb_body m p st es)) (snd (functions_of h impl))"
    and "\<forall>p st es. run_ok (mb_body (function_of h m) p st es)"
proof (induction p and child and impl and m)
  case (PReturn r)
  show ?case by (rule run_okI) auto
next
  case (PRaise e)
  show ?case by (rule run_okI) auto
next
  case (PFinal d)
  show ?case by (rule run_okI) (auto simp: final_ok_def)
next
  case (PAwait p)
  from await_then_ok [of "\<lambda>_. exec h p" id, OF PAwait] show ?case
    by (simp add: silent_def)
next
  case (PWarn fs p)
  show ?case unfolding exec.simps
    by (rule run_okI, rule run_ok_after [OF PWarn silent_advance [OF _ silent_simps(5)]])
next
  case (PHost q k)
  then have k: "run_ok (exec h (k y))" for y by blast
  show ?case unfolding exec.simps by (rule await_then_ok) (simp_all add: k)
next
  case (PAsk step escs choices k)
  then have k: "run_ok (exec h (k y))" for y by blast
  have f: "run_ok (\<lambda>cur t. exec h (k y) cur (note_answer n y t))" for n y
    by (rule run_okI, rule run_ok_after [OF k silent_advance [OF _ note_answer_silent]])
  show ?case unfolding exec.simps
    by (rule run_okI, rule after_await_ok [OF f silent_advance [OF _ silent_simps(4)]])
next
  case (PRun caller path step children escs k)
  have "children_ok (map (map_prod id (instance_of h)) children)"
    using PRun(1) by (fastforce simp: children_ok_def list_all_iff)
  moreover have "run_ok (exec h (k y))" for y using PRun(2) by blast
  ultimately show ?case by (simp add: run_prog_ok)
next
  case (PFan ps k)
  then show ?case by (auto simp: list_all_iff intro!: fan_out_ok)
next
  case (Sentinel kind factory name impl)
  then show ?case by (simp add: functions_okI)
next
  case (OneFunction m)
  then show ?case by simp
next
  case (FunctionGroup ms)
  then show ?case by (simp add: list_all_iff)
next
  case (Member name accepted f)
  then have "run_ok (exec h (f p st es))" for p st es by (meson rangeI)
  then show ?case by simp
qed

lemma instance_members_ok [simp]: "functions_ok (sn_members (instance_of h child))"
  by (rule exec_ok(2))

end
