(* ===== verification/RunnerProps.thy ===== *)
theory RunnerProps
  imports RunnerLaws
begin

text \<open>
  What the runner promises a host and a protocol author: the outcome of a step, the log it
  leaves, the finals and cancellations, and the order of a layer's reports.
\<close>

section \<open>What a reported function leaves\<close>

lemma run_member_reported:
  assumes "run_member m kind path step escs child_name grouped cur s = (Inr (MemberReported r), s')"
  obtains factory node s2 rep where
    "rt_factories s path = Some factory"
    "member_return (Some rep) kind path factory step child_name (mb_function m)
       (describe child_name (mb_function m) grouped) node s2 = (Inr (MemberReported r), s')"
proof -
  from assms obtain factory where f: "rt_factories s path = Some factory"
    by (auto simp: run_member_def layer_def split: option.splits)
  obtain node s1 where n: "new_invocation cur (mb_function m) path s = (node, s1)" by force
  obtain q s2 where q: "mb_body m path step (if kind = MonitorKind then [] else escs) (Some node) s1 = (q, s2)"
    by force
  have no_failure: "member_failure x kind path factory step child_name fn t \<noteq> (Inr (MemberReported r), s')"
    for x fn t
    by (auto simp: member_failure_def Let_def split: exn.splits if_splits)
  have no_finals: "member_finals fs kind path step child_name fn label node t \<noteq> (Inr (MemberReported r), s')"
    for fs fn label t
    by (auto simp: member_finals_def split: prod.splits sum.splits)
  show thesis
  proof (cases q)
    case (Inl x)
    with assms f n q no_failure no_finals show ?thesis
      by (auto simp: run_member_def layer_def Let_def split: exn.splits prod.splits list.splits sum.splits)
  next
    case (Inr rep)
    with assms f n q have "member_return rep kind path factory step child_name (mb_function m)
       (describe child_name (mb_function m) grouped) node s2 = (Inr (MemberReported r), s')"
      by (simp add: run_member_def layer_def Let_def)
    moreover from this obtain rep' where "rep = Some rep'"
      by (cases rep) (auto simp: member_return_def)
    ultimately show ?thesis using that f by blast
  qed
qed

lemma member_return_reported:
  assumes "member_return (Some rep) kind path factory step child_name fn label node s = (Inr (MemberReported r), s')"
  shows "rp_name r = child_name" "report_fits kind (rp_report r)"
    "rt_events s' = rt_events s @ [Recorded path factory step r]"
  using assms
  by (auto simp: member_return_def report_fits_def Let_def succeeded_node_def decided_def log_event_def
      split: if_splits report.splits option.splits)

lemma run_member_reported_facts:
  assumes "run_member m kind path step escs child_name grouped cur s = (Inr (MemberReported r), s')"
  shows "rp_name r = child_name" "report_fits kind (rp_report r)"
    "\<exists>es factory. rt_events s' = es @ [Recorded path factory step r]"
  using run_member_reported [OF assms] member_return_reported by metis+

definition named_reports :: "string \<Rightarrow> kind \<Rightarrow> gathered \<Rightarrow> bool" where
  "named_reports child_name kind g \<longleftrightarrow>
     list_all (\<lambda>r. rp_name r = child_name \<and> report_fits kind (rp_report r)) (ga_found g)"

lemma run_functions_named:
  "run_functions ms kind path step escs child_name grouped cur g s = (ended, g', s') \<Longrightarrow>
     named_reports child_name kind g \<Longrightarrow> named_reports child_name kind g'"
proof (induction ms arbitrary: g s)
  case (Cons m ms)
  obtain r t where t: "run_member m kind path step escs child_name grouped cur s = (r, t)" by force
  show ?case
  proof (cases r)
    case (Inl x)
    with Cons.prems t show ?thesis by simp
  next
    case (Inr mr)
    show ?thesis
    proof (cases mr)
      case (MemberReported rr)
      let ?g = "g\<lparr>ga_found := ga_found g @ [rr]\<rparr>"
      from t Inr MemberReported have "rp_name rr = child_name" "report_fits kind (rp_report rr)"
        by (auto dest: run_member_reported_facts)
      with Cons.prems(2) have "named_reports child_name kind ?g" by (simp add: named_reports_def)
      with Cons t Inr MemberReported show ?thesis
        by (cases "terminates rr") (auto simp: Let_def)
    next
      case NoReport
      with Cons t Inr show ?thesis by simp
    next
      case (MemberFailed f)
      have "named_reports child_name kind (g\<lparr>ga_failed := ga_failed g @ [f]\<rparr>)"
        using Cons.prems(2) by (simp add: named_reports_def)
      with Cons t Inr MemberFailed show ?thesis by simp
    qed
  qed
qed simp

lemma run_child_named:
  assumes "run_child child kind path step escs name cur s = (ended, g, s')"
  shows "named_reports (case name of None \<Rightarrow> sn_name child | Some n \<Rightarrow> n) kind g"
proof -
  have "named_reports n kind nothing_gathered" for n
    by (simp add: named_reports_def nothing_gathered_def)
  with assms show ?thesis
    by (auto simp: run_child_def Let_def split: if_splits option.splits prod.splits
        intro: run_functions_named)
qed

section \<open>The order of a layer's reports\<close>

definition in_place :: "(string \<times> run_instance) list \<Rightarrow> nat \<times> 'r reported \<Rightarrow> bool" where
  "in_place named p \<longleftrightarrow> fst p < length named \<and> rp_name (snd p) = fst (named ! fst p)"

definition collected_named :: "(string \<times> run_instance) list \<Rightarrow> collected \<Rightarrow> bool" where
  "collected_named named c \<longleftrightarrow>
     list_all (in_place named) (co_observations c) \<and> list_all (in_place named) (co_decisions c)"

lemma collect_named:
  assumes "collected_named named c" "named_reports name kind g"
    and "index < length named" "fst (named ! index) = name"
  shows "collected_named named (collect index child g ended c)"
proof -
  have "rp_name o' = name" if "r \<in> set (ga_found g)" "as_observation r = Some o'" for r o'
    using that assms(2)
    by (auto simp: named_reports_def list_all_iff as_observation_def split: report.splits)
  moreover have "rp_name d = name" if "r \<in> set (ga_found g)" "as_decision r = Some d" for r d
    using that assms(2) by (auto simp: named_reports_def list_all_iff as_decision_Some)
  ultimately show ?thesis
    using assms(1,3,4)
    by (auto simp: collected_named_def collect_def in_place_def list_all_iff Let_def map_filter_member)
qed

lemma run_group_named:
  "run_group order outer path step escs cur c s = (c', s') \<Longrightarrow>
     \<forall>(i, name, child) \<in> set order. i < length named \<and> fst (named ! i) = name \<Longrightarrow>
     collected_named named c \<Longrightarrow> collected_named named c'"
proof (induction order outer path step escs cur c s rule: run_group.induct)
  case (2 index name child rest outer path step escs cur c s)
  obtain ended g t where t: "run_child child (sn_kind child) path step
      (if sn_kind child = MonitorKind then [] else escs) (Some name) cur
      (start_child outer (co_cancelling c) s) = (ended, g, t)" by (metis prod_cases3)
  from run_child_named [OF t] have "named_reports name (sn_kind child) g" by simp
  from collect_named [OF 2(4) this] 2(3)
  have "collected_named named (collect index child g ended c)" by simp
  with "2.IH" [OF t [symmetric] refl] 2(2,3) t show ?case by simp
qed simp

lemma by_index_named:
  assumes "list_all (in_place named) ps"
  shows "\<exists>is. sorted is \<and> list_all (\<lambda>i. i < length named) is
           \<and> map rp_name (by_index ps) = map (\<lambda>i. fst (named ! i)) is"
proof (intro exI conjI)
  show "sorted (map fst (sort_key fst ps))" by simp
  show "list_all (\<lambda>i. i < length named) (map fst (sort_key fst ps))"
    using assms by (auto simp: list_all_iff in_place_def)
  show "map rp_name (by_index ps) = map (\<lambda>i. fst (named ! i)) (map fst (sort_key fst ps))"
    using assms by (auto simp: by_index_def list_all_iff in_place_def)
qed

lemma close_group_Inr: "run_named named path step escs caller cur s = (Inr rs, s') \<Longrightarrow>
  \<exists>order c s1 s2. take_order (indexed named) s = (order, s1)
     \<and> run_group order (rt_cancel s) path step escs cur nothing_collected s1 = (c, s2)
     \<and> rs = reports_of c"
  unfolding run_named_def
  by (auto split: sum.splits prod.splits option.splits exn.splits)

end
