(* ===== verification/Root.thy ===== *)
theory Root
  imports RunnerProps
begin

text \<open>
  The outcome of a step and the log it leaves: the properties of the runner, each with a
  concrete run.
\<close>

section \<open>Concrete runs\<close>

definition sample_call :: tool_call where
  "sample_call = \<lparr>tc_id = ''c1'', tc_function = ''bash'', tc_arguments = [], tc_parse_error = None,
     tc_view = None\<rparr>"

definition sample_step :: step where
  "sample_step = BeforeToolCall \<lparr>bt_conversation = ''k'', bt_message = [], bt_message_id = ''m1'',
     bt_call = sample_call, bt_view = JNull, bt_input = None, bt_agent_messages = None,
     bt_history = None, bt_human_decisions = None, bt_tools = None, bt_tool_choice = None\<rparr>"

definition silent_host :: host where
  "silent_host = \<lparr>ho_call = (\<lambda>n q. Inr JNull),
     ho_ask = (\<lambda>n path st es cs. Inr \<lparr>ha_decision = ''approve'', ha_reason = None, ha_modified = None\<rparr>)\<rparr>"

definition always :: "string \<Rightarrow> decision \<Rightarrow> sentinel" where
  "always name d = Sentinel ProtocolKind (''pkg/'' @ name) name
     (OneFunction (Member ''run'' [ToolCallStage] (\<lambda>path step es. PReturn (Some (RDec d)))))"

definition finally_does :: "string \<Rightarrow> decision \<Rightarrow> sentinel" where
  "finally_does name d = Sentinel ProtocolKind (''pkg/'' @ name) name
     (OneFunction (Member ''run'' [ToolCallStage] (\<lambda>path step es. PFinal d)))"

text \<open>A protocol that runs children and returns what \<open>f\<close> makes of their reports.\<close>

definition over :: "string \<Rightarrow> (string \<times> sentinel) list \<Rightarrow> (reports \<Rightarrow> decision option) \<Rightarrow> sentinel" where
  "over name children f = Sentinel ProtocolKind (''pkg/'' @ name) name
     (OneFunction (Member ''run'' [ToolCallStage] (\<lambda>path step es.
        PRun ''run_protocols'' path step children []
          (\<lambda>r. case r of Inl e \<Rightarrow> PRaise e | Inr rs \<Rightarrow> PReturn (map_option RDec (f rs))))))"

definition first_decision :: "reports \<Rightarrow> decision option" where
  "first_decision rs = (case rs_decisions rs of [] \<Rightarrow> None | d # _ \<Rightarrow> Some (rp_report d))"

lemmas concrete = sample_call_def sample_step_def silent_host_def always_def finally_does_def over_def
  first_decision_def

lemmas runner_defs = run_sentinel_def run_child_def run_member_def run_named_def member_return_def
  member_finals_def member_failure_def on_final_def close_group_def surface_def take_order_def
  fresh_state_def enter_layer_def layer_def new_invocation_def decided_def succeeded_node_def
  log_event_def await_point_def start_child_def take_choice_def collect_def reports_of_def
  as_decision_def as_observation_def terminates_def terminated_of_def partition_exns_def
  nothing_gathered_def nothing_collected_def report_fits_def caught_def valid_instance_name_def
  child_path_def root_final_def claimed_def


lemmas concrete_run = concrete runner_defs decision_makers Let_def indexed_def by_index_def
  List.map_filter_def validate_shape_def validate_decision_shape_def is_generate_def stamped_def
  with_origin_def describe_def

section \<open>The outcome of a step\<close>

text \<open>What the last record of a step says was decided.\<close>

definition outcome_recorded :: "decision \<Rightarrow> event list \<Rightarrow> bool" where
  "outcome_recorded d es \<longleftrightarrow>
     (\<exists>before p f st r D. es = before @ [Recorded p f st r] \<and> rp_report r = RDec D \<and> well_shaped D st
        \<and> (if d_action D = Escalate then \<exists>sources. d = unhandled sources else d = D))"

lemma root_final_recorded:
  assumes "final_ok (rt_factories s) f" "root_final f s = (Inr (Some d), s')"
  shows "outcome_recorded d (rt_events s')"
  using assms
  by (fastforce simp: root_final_def final_ok_def outcome_recorded_def log_event_def Let_def
      split: option.splits sum.splits if_splits)

lemma root_found:
  assumes "run_functions [m] ProtocolKind path step escs child_name False cur nothing_gathered s
      = (None, g, s')" "as_decision r = Some d" "r # rs = ga_found g"
  shows "\<exists>es f. rt_events s' = es @ [Recorded path f step r]"
proof -
  obtain q t where q: "run_member m ProtocolKind path step escs child_name False cur s = (q, t)" by force
  with assms have "q = Inr (MemberReported r)" "t = s'"
    by (auto simp: nothing_gathered_def Let_def split: sum.splits member_result.splits if_splits)
  with q have "run_member m ProtocolKind path step escs child_name False cur s = (Inr (MemberReported r), s')"
    by simp
  from run_member_reported_facts(3) [OF this] show ?thesis .
qed

lemma root_child_found:
  assumes "run_child (instance_of h p) ProtocolKind path step escs None cur s = (None, g, s')"
    and "\<not> sn_grouped (instance_of h p)" "ga_found g = r # rs" "as_decision r = Some d"
  shows "\<exists>es f. rt_events s' = es @ [Recorded path f step r]"
proof -
  obtain kind factory name impl where p: "p = Sentinel kind factory name impl" by (cases p)
  with assms(2) obtain m where m: "impl = OneFunction m" by (cases impl) auto
  obtain e s1 where e: "enter_layer path factory s = (e, s1)" by force
  from assms p m e obtain
    "run_functions (filter (\<lambda>m. stage_of step \<in> set (mb_accepted m)) [function_of h m]) ProtocolKind
       path step escs name False cur nothing_gathered s1 = (None, g, s')"
    by (auto simp: run_child_def Let_def split: if_splits option.splits prod.splits)
  with assms(3) have "run_functions [function_of h m] ProtocolKind path step escs name False cur
      nothing_gathered s1 = (None, g, s')"
    by (auto simp: nothing_gathered_def split: if_splits)
  from root_found [OF this assms(4), of rs] assms(3) show ?thesis by simp
qed

lemma fresh_state_ok [simp]: "state_ok (fresh_state token choices)" "node_ok None s"
  by (simp_all add: state_ok_def fresh_state_def arena_ok_def node_ok_def)

text \<open>What becomes of a run of the root.\<close>

lemma run_sentinel_cases:
  assumes "run_sentinel h p step token choices = (r, s)" "\<not> sn_grouped (instance_of h p)"
  obtains ended g t where
    "run_child (instance_of h p) ProtocolKind [] step [] None None (fresh_state token choices) = (ended, g, t)"
    "advance (fresh_state token choices) t" "ending_ok t ended"
    "(r, s) = (case ended of
        Some (XFinal f) \<Rightarrow> root_final f t
      | Some x \<Rightarrow> (Inl x, t)
      | None \<Rightarrow> (case List.map_filter as_decision (ga_found g) of
          [] \<Rightarrow> (Inr None, t)
        | d # _ \<Rightarrow> (Inr (Some (if d_action (rp_report d) = Escalate
                         then unhandled (sources (rt_nodes t) (rt_found t)) else rp_report d)), t)))"
proof -
  obtain ended g t where c:
    "run_child (instance_of h p) ProtocolKind [] step [] None None (fresh_state token choices) = (ended, g, t)"
    by (metis prod_cases3)
  note ok = run_child_ok [OF instance_members_ok fresh_state_ok c]
  show thesis
    by (rule that [OF c ok(1,2)])
      (use assms c in \<open>auto simp: run_sentinel_def Let_def split: option.splits exn.splits list.splits\<close>)
qed

text \<open>C1: When a step has an outcome, it is the last thing the step recorded, a decision whose
  shape fits the step it was made about; only an escalation is replaced, by a terminate that
  says where it came from, so the host is never handed one.\<close>

theorem run_sentinel_outcome:
  assumes "run_sentinel h p step token choices = (Inr (Some d), s)"
  shows "outcome_recorded d (rt_events s) \<and> d_action d \<noteq> Escalate"
proof -
  from assms have "\<not> sn_grouped (instance_of h p)" by (auto simp: run_sentinel_def Let_def)
  from run_sentinel_cases [OF assms this] obtain ended g t where
    c: "run_child (instance_of h p) ProtocolKind [] step [] None None (fresh_state token choices) = (ended, g, t)"
    and ok: "advance (fresh_state token choices) t" "ending_ok t ended"
    and r: "(Inr (Some d), s) = (case ended of
        Some (XFinal f) \<Rightarrow> root_final f t
      | Some x \<Rightarrow> (Inl x, t)
      | None \<Rightarrow> (case List.map_filter as_decision (ga_found g) of
          [] \<Rightarrow> (Inr None, t)
        | d # _ \<Rightarrow> (Inr (Some (if d_action (rp_report d) = Escalate
                         then unhandled (sources (rt_nodes t) (rt_found t)) else rp_report d)), t)))" .
  have rec: "outcome_recorded d (rt_events s)"
  proof (cases ended)
    case (Some x)
    with r obtain f where "x = XFinal f" "root_final f t = (Inr (Some d), s)"
      by (cases x) auto
    with ok(2) Some show ?thesis by (auto simp: ending_ok_def intro: root_final_recorded)
  next
    case None
    with r obtain d1 ds where ds: "List.map_filter as_decision (ga_found g) = d1 # ds"
      and d: "s = t" "d = (if d_action (rp_report d1) = Escalate
                then unhandled (sources (rt_nodes t) (rt_found t)) else rp_report d1)"
      by (auto split: list.splits)
    from run_child_named [OF c] have "list_all (\<lambda>r. as_decision r \<noteq> None) (ga_found g)"
      by (auto simp: named_reports_def list_all_iff report_fits_def as_decision_def split: report.splits)
    with ds obtain r1 rs where r1: "ga_found g = r1 # rs" "as_decision r1 = Some d1"
      by (cases "ga_found g") (auto simp: List.map_filter_def)
    from run_child_ok(3) [OF instance_members_ok fresh_state_ok c] r1
    have "report_ok step (rp_report r1)" by (simp add: gathered_ok_def reported_ok_def)
    moreover from c None have "run_child (instance_of h p) ProtocolKind [] step [] None None
        (fresh_state token choices) = (None, g, t)" by simp
    from root_child_found [OF this \<open>\<not> sn_grouped _\<close> r1]
    obtain es f where "rt_events t = es @ [Recorded [] f step r1]" by blast
    ultimately show ?thesis using d r1(2) by (auto simp: outcome_recorded_def as_decision_Some)
  qed
  moreover have "d_action d \<noteq> Escalate" if "outcome_recorded d es" for es
    using that by (auto simp: outcome_recorded_def split: if_splits)
  ultimately show ?thesis by blast
qed

theorem run_sentinel_outcome_witness:
  "outcome_recorded (decision_terminate (Some ''x'') [])
     (rt_events (snd (run_sentinel silent_host
        (over ''root'' [(''a'', finally_does ''a'' (decision_terminate (Some ''x'') []))] first_decision)
        sample_step 0 [])))"
proof -
  let ?run = "run_sentinel silent_host
        (over ''root'' [(''a'', finally_does ''a'' (decision_terminate (Some ''x'') []))] first_decision)
        sample_step 0 []"
  have "fst ?run = Inr (Some (decision_terminate (Some ''x'') []))" by (simp add: concrete_run)
  then have "?run = (Inr (Some (decision_terminate (Some ''x'') [])), snd ?run)"
    by (metis prod.collapse)
  from run_sentinel_outcome [OF this] show ?thesis by simp
qed

lemma run_sentinel_state_ok:
  "state_ok (snd (run_sentinel h p step token choices))"
proof (cases "sn_grouped (instance_of h p)")
  case True
  then show ?thesis by (simp add: run_sentinel_def Let_def)
next
  case False
  obtain r s where r: "run_sentinel h p step token choices = (r, s)" by force
  from run_sentinel_cases [OF this False] obtain ended g t where
    "run_child (instance_of h p) ProtocolKind [] step [] None None (fresh_state token choices) = (ended, g, t)"
    and ok: "advance (fresh_state token choices) t" "ending_ok t ended"
    and r': "(r, s) = (case ended of
        Some (XFinal f) \<Rightarrow> root_final f t
      | Some x \<Rightarrow> (Inl x, t)
      | None \<Rightarrow> (case List.map_filter as_decision (ga_found g) of
          [] \<Rightarrow> (Inr None, t)
        | d # _ \<Rightarrow> (Inr (Some (if d_action (rp_report d) = Escalate
                         then unhandled (sources (rt_nodes t) (rt_found t)) else rp_report d)), t)))" .
  show ?thesis
  proof (cases "\<exists>f. ended = Some (XFinal f)")
    case True
    then obtain f where f: "ended = Some (XFinal f)" by blast
    with ok(2) have "claimed f" "final_ok (rt_factories t) f" by (simp_all add: ending_ok_def)
    then obtain og factory where og: "fx_origin f = Some og" "rt_factories t (fo_path og) = Some factory"
      by (auto simp: claimed_def final_ok_def)
    let ?e = "Recorded (fo_path og) factory (fo_step og)
      \<lparr>rp_name = rp_name (fo_reported og), rp_path = rp_path (fo_reported og),
       rp_report = RDec (rp_report (fo_reported og)), rp_function = rp_function (fo_reported og)\<rparr>"
    from r' f og have "s = log_event ?e t" by (simp add: root_final_def layer_def Let_def)
    moreover have "event_ok (rt_factories t) ?e"
      using \<open>final_ok _ f\<close> og by (simp add: final_ok_def)
    ultimately have "advance t s" using log_event_advance [OF advanceD(1) [OF ok(1)]] by simp
    with r show ?thesis by (simp add: advanceD)
  next
    case False
    with r' have "s = t" by (auto split: option.splits exn.splits list.splits)
    with r advanceD(1) [OF ok(1)] show ?thesis by simp
  qed
qed

text \<open>C2: Every event of every step is right: the factory it names is the one that ran at its
  path for the whole step, a report in it carries that path, and a decision in it fits its
  step, whatever the monitors and protocols do, the host answers and the schedule is.\<close>

theorem run_sentinel_log:
  "list_all (event_ok (rt_factories (snd (run_sentinel h p step token choices))))
     (rt_events (snd (run_sentinel h p step token choices)))"
  using run_sentinel_state_ok [of h p step token choices] by (simp add: state_ok_def)

text \<open>C3: A final that leaves a child always has its origin: the layer it came from is one of
  the step's, its record carries that layer's path and the decision itself, and the decision
  fits the step it was made about. So the runner's own checks of that never fail.\<close>

theorem final_leaving_child:
  assumes "state_ok s" "node_ok cur s"
    and "run_child (instance_of h child) kind path step escs name cur s = (Some (XFinal f), g, s')"
  shows "\<exists>og. fx_origin f = Some og \<and> rt_factories s' (fo_path og) \<noteq> None
           \<and> rp_path (fo_reported og) = fo_path og \<and> rp_report (fo_reported og) = fx_decision f
           \<and> well_shaped (fx_decision f) (fo_step og)"
  using run_child_ok(2) [OF instance_members_ok assms]
  by (auto simp: ending_ok_def claimed_def final_ok_def)

theorem final_leaving_child_witness:
  "\<exists>f g s'. run_child (instance_of silent_host (finally_does ''a'' (decision_proceed None []))) ProtocolKind []
       sample_step [] (Some ''a'') None (fresh_state 0 []) = (Some (XFinal f), g, s')
     \<and> fx_origin f \<noteq> None"
proof -
  let ?run = "run_child (instance_of silent_host (finally_does ''a'' (decision_proceed None []))) ProtocolKind []
       sample_step [] (Some ''a'') None (fresh_state 0 [])"
  have "\<exists>f. fst ?run = Some (XFinal f)" by (simp add: concrete_run)
  then obtain f where "?run = (Some (XFinal f), fst (snd ?run), snd (snd ?run))" by (metis prod.collapse)
  with final_leaving_child [OF fresh_state_ok this] show ?thesis by blast
qed


section \<open>A layer\<close>

text \<open>C13: A layer's decisions, and its observations, come in configuration order, whatever
  order its children arrived in: their names are those of the children at ascending
  positions.\<close>

theorem reports_in_configuration_order:
  assumes "run_named named path step escs caller cur s = (Inr rs, s')"
  shows "(\<exists>is. sorted is \<and> list_all (\<lambda>i. i < length named) is
            \<and> map rp_name (rs_decisions rs) = map (\<lambda>i. fst (named ! i)) is)
       \<and> (\<exists>is. sorted is \<and> list_all (\<lambda>i. i < length named) is
            \<and> map rp_name (obs_items (rs_observations rs)) = map (\<lambda>i. fst (named ! i)) is)"
proof -
  from close_group_Inr [OF assms] obtain order c s1 s2 where
    o: "take_order (indexed named) s = (order, s1)"
    and g: "run_group order (rt_cancel s) path step escs cur nothing_collected s1 = (c, s2)"
    and rs: "rs = reports_of c" by blast
  have "set order = set (indexed named)" using o by (auto simp: take_order_def)
  then have "\<forall>(i, name, child) \<in> set order. i < length named \<and> fst (named ! i) = name"
    by (auto simp: set_indexed)
  moreover have "collected_named named nothing_collected"
    by (simp add: collected_named_def nothing_collected_def)
  ultimately have "collected_named named c" by (rule run_group_named [OF g])
  then have "list_all (in_place named) (co_observations c)" "list_all (in_place named) (co_decisions c)"
    by (simp_all add: collected_named_def)
  from this [THEN by_index_named] rs show ?thesis by (simp add: reports_of_def)
qed

definition two_links :: "(string \<times> run_instance) list" where
  "two_links = map (map_prod id (instance_of silent_host))
     [(''a'', always ''a'' (decision_proceed None [])), (''b'', always ''b'' (decision_escalate None []))]"

definition in_layer :: "nat list \<Rightarrow> run_state" where
  "in_layer choices = (fresh_state 0 choices)\<lparr>rt_factories := [[] \<mapsto> ''pkg/root'']\<rparr>"

lemma in_layer_ok [simp]: "state_ok (in_layer choices)"
  by (simp add: in_layer_def state_ok_def fresh_state_def arena_ok_def)

theorem reports_in_configuration_order_witness:
  "\<exists>is. sorted is \<and> map (\<lambda>i. fst (two_links ! i)) is = [''a'', ''b'']"
proof -
  let ?run = "run_named two_links [] sample_step [] ''run_protocols'' None (in_layer [1])"
  have "\<exists>rs. fst ?run = Inr rs \<and> map rp_name (rs_decisions rs) = [''a'', ''b'']"
    by (simp add: concrete_run two_links_def in_layer_def)
  then obtain rs where rs: "?run = (Inr rs, snd ?run)" "map rp_name (rs_decisions rs) = [''a'', ''b'']"
    by (metis prod.collapse)
  from reports_in_configuration_order [OF rs(1)] rs(2) show ?thesis by metis
qed

lemma run_functions_terminate_last:
  "run_functions ms kind path step escs child_name grouped cur g s = (ended, g', s') \<Longrightarrow>
     list_all (\<lambda>r. \<not> terminates r) (ga_found g) \<Longrightarrow>
     list_all (\<lambda>r. \<not> terminates r) (butlast (ga_found g'))"
proof (induction ms arbitrary: g s)
  case Nil
  then show ?case by (auto simp: list_all_iff dest: in_set_butlastD)
next
  case (Cons m ms)
  obtain r t where t: "run_member m kind path step escs child_name grouped cur s = (r, t)" by force
  show ?case
  proof (cases r)
    case (Inl x)
    with Cons.prems t show ?thesis by (auto simp: list_all_iff dest: in_set_butlastD)
  next
    case (Inr mr)
    with Cons t show ?thesis
      by (cases mr) (auto simp: Let_def split: if_splits)
  qed
qed


text \<open>C15: An error of a layer's children outranks every final decision: it is what leaves the
  group, whatever finals came before it, and each of those is recorded as superseded, in the
  order they came.\<close>

theorem error_outranks_finals:
  assumes "list_all (\<lambda>x. finals_ok (rt_factories s) x \<and> all_claimed x) raised"
    and "leaf_errors (leaves raised) = e # es"
  shows "close_group raised cancelled s =
    (Some (XErr e),
     s\<lparr>rt_events := rt_events s @ map (superseded_event (rt_factories s)) (leaf_finals (leaves raised))\<rparr>)"
proof -
  let ?finals = "leaf_finals (leaves raised)"
  have f: "list_all (final_ok (rt_factories s)) ?finals" "list_all claimed ?finals"
    using assms(1) partition_finals [of raised]
    by (auto simp: partition_exns_def finals_ok_def all_claimed_def list_all_iff)
  from f(2) have "filter claimed ?finals = ?finals" by (simp add: list_all_iff)
  with surface_claimed [OF f(1), of "e # es"] assms(2) show ?thesis
    by (auto simp: close_group_def partition_exns_def)
qed

definition sample_final :: final where
  "sample_final = \<lparr>fx_decision = decision_proceed None [],
     fx_origin = Some \<lparr>fo_path = [], fo_step = sample_step,
       fo_reported = \<lparr>rp_name = ''a'', rp_path = [], rp_report = decision_proceed None [],
         rp_function = ''run''\<rparr>\<rparr>\<rparr>"

theorem error_outranks_finals_witness:
  "fst (close_group [XFinal sample_final, XErr (UserRaised RuntimeError ''boom'')] False (in_layer []))
     = Some (XErr (UserRaised RuntimeError ''boom''))"
proof -
  have "list_all (\<lambda>x. finals_ok (rt_factories (in_layer [])) x \<and> all_claimed x)
      [XFinal sample_final, XErr (UserRaised RuntimeError ''boom'')]"
    by (simp add: final_ok_def claimed_def sample_final_def in_layer_def well_shaped_def legal_action_def
        sample_step_def decision_makers)
  from error_outranks_finals [OF this, of _ "[]"] show ?thesis by simp
qed

text \<open>C16: A child that ends cancelled leaves a record of it, the last one it makes, at its own
  path and under its own factory.\<close>

theorem cancelled_child_recorded:
  assumes "run_child child kind path step escs name cur s = (Some XCancelled, g, s')"
  shows "last (rt_events s') =
    Cancelled (place_of path name) (sn_factory child) step
      (case name of None \<Rightarrow> sn_name child | Some n \<Rightarrow> n)"
  using assms
  by (auto simp: run_child_def place_of_def Let_def log_event_def
      split: if_splits option.splits prod.splits)

definition waits :: sentinel where
  "waits = Sentinel MonitorKind ''pkg/w'' ''w''
     (OneFunction (Member ''watch'' [ToolCallStage] (\<lambda>path step es. PAwait (PReturn None))))"

theorem cancelled_child_recorded_witness:
  "last (rt_events (snd (snd (run_child (instance_of silent_host waits) MonitorKind [] sample_step []
      (Some ''w'') None ((in_layer [])\<lparr>rt_cancel := CancelRequested\<rparr>)))))
    = Cancelled ''w'' ''pkg/w'' sample_step ''w''"
proof -
  let ?run = "run_child (instance_of silent_host waits) MonitorKind [] sample_step [] (Some ''w'') None
      ((in_layer [])\<lparr>rt_cancel := CancelRequested\<rparr>)"
  have "fst ?run = Some XCancelled"
    by (simp add: concrete_run waits_def in_layer_def after_await_def)
  then have "?run = (Some XCancelled, fst (snd ?run), snd (snd ?run))" by (metis prod.collapse)
  from cancelled_child_recorded [OF this] show ?thesis by (simp add: place_of_def child_path_def waits_def)
qed


definition broken :: function_def where
  "broken = Member ''watch'' [ToolCallStage] (\<lambda>path step es. PRaise (UserRaised ValueError ''bad''))"


section \<open>Escalations\<close>


text \<open>An escalation can be attributed to nobody: a root that passes on a child's
  \<open>proceed\<close>, changed to \<open>escalate\<close>, is taken to have passed an escalation up, and the
  terminate the host gets names no source.\<close>

theorem escalation_without_source:
  "fst (run_sentinel silent_host
     (over ''root'' [(''a'', always ''a'' (decision_proceed None []))]
        (\<lambda>rs. map_option (\<lambda>d. d\<lparr>d_action := Escalate\<rparr>) (first_decision rs)))
     sample_step 0 []) = Inr (Some (unhandled []))"
  by code_simp

end
