(* ===== verification/Children.thy ===== *)
theory Children
  imports Execution
begin

text \<open>
  The children a layer is configured with (\<open>named_children\<close> and \<open>check_child\<close> of
  \<open>_validate.py\<close>, \<open>Group\<close> of \<open>_types.py\<close>) and the stages an instance watches
  (\<open>check_stages\<close>, \<open>_own_stages\<close> and \<open>_watched\<close> of \<open>_decorators.py\<close>).
\<close>

section \<open>Configured instances\<close>

primrec sentinel_kind :: "sentinel \<Rightarrow> kind" where
  "sentinel_kind (Sentinel k f n impl) = k"

text \<open>\<open>registry_unqualified_name\<close>.\<close>

primrec sentinel_name :: "sentinel \<Rightarrow> string" where
  "sentinel_name (Sentinel k f n impl) = n"

primrec implementation_of :: "sentinel \<Rightarrow> implementation" where
  "implementation_of (Sentinel k f n impl) = impl"

primrec function_name :: "function_def \<Rightarrow> string" where
  "function_name (Member n acc f) = n"

primrec accepted_stages :: "function_def \<Rightarrow> stage list" where
  "accepted_stages (Member n acc f) = acc"

text \<open>\<open>members\<close>.\<close>

fun members :: "sentinel \<Rightarrow> function_def list" where
  "members (Sentinel k f n (OneFunction m)) = [m]"
| "members (Sentinel k f n (FunctionGroup ms)) = ms"

fun is_group :: "sentinel \<Rightarrow> bool" where
  "is_group (Sentinel k f n (OneFunction m)) = False"
| "is_group (Sentinel k f n (FunctionGroup ms)) = True"

lemma instance_of_members:
  "sn_members (instance_of h c) = map (function_of h) (members c)"
  "sn_grouped (instance_of h c) = is_group c"
  "sn_kind (instance_of h c) = sentinel_kind c"
  "sn_name (instance_of h c) = sentinel_name c"
  by (cases c; cases "implementation_of c"; simp)+

text \<open>\<open>Group.__init__\<close>: at least one function, with distinct names.\<close>

fun first_repeat :: "'a list \<Rightarrow> 'a list \<Rightarrow> 'a option" where
  "first_repeat seen [] = None"
| "first_repeat seen (x # xs) = (if x \<in> set seen then Some x else first_repeat (x # seen) xs)"

lemma first_repeat_None:
  "first_repeat seen xs = None \<longleftrightarrow> distinct xs \<and> set seen \<inter> set xs = {}"
  by (induction seen xs rule: first_repeat.induct) auto

definition new_group :: "string \<Rightarrow> function_def list \<Rightarrow> exc + implementation" where
  "new_group type_name functions =
     (if functions = [] then Inl (NoFunctions type_name)
      else case first_repeat [] (map function_name functions) of
        Some n \<Rightarrow> Inl (DuplicateFunctionName n)
      | None \<Rightarrow> Inr (FunctionGroup functions))"

lemma new_group_Inr:
  "new_group t fs = Inr impl \<longleftrightarrow> fs \<noteq> [] \<and> distinct (map function_name fs) \<and> impl = FunctionGroup fs"
  using first_repeat_None [of "[]" "map function_name fs"]
  by (auto simp: new_group_def split: option.splits)

section \<open>Names\<close>

text \<open>What a layer is given: one child, a mapping of names to children, or a sequence.\<close>

datatype children_spec =
    OneChild sentinel
  | Keyed "(string \<times> sentinel) list"
  | Listed "sentinel list"

text \<open>\<open>check_child\<close>, for an instance its factory configured.\<close>

definition check_child :: "sentinel \<Rightarrow> kind option \<Rightarrow> exc option" where
  "check_child child expected =
     (case expected of
        None \<Rightarrow> None
      | Some k \<Rightarrow>
          if sentinel_kind child \<noteq> k
          then Some (ExpectedKind (kind_text k) (kind_text (sentinel_kind child))) else None)"

fun name_pairs :: "kind option \<Rightarrow> string list \<Rightarrow> (string \<times> sentinel) list \<Rightarrow> exc + (string \<times> sentinel) list" where
  "name_pairs expected seen [] = Inr []"
| "name_pairs expected seen ((name, child) # rest) =
     (case check_child child expected of
        Some e \<Rightarrow> Inl e
      | None \<Rightarrow>
          (case valid_instance_name name of
             Some e \<Rightarrow> Inl e
           | None \<Rightarrow>
               if name \<in> set seen then Inl (DuplicateInstanceName name)
               else bind_err (name_pairs expected (name # seen) rest)
                      (\<lambda>named. Inr ((name, child) # named))))"

primrec given_pairs :: "children_spec \<Rightarrow> (string \<times> sentinel) list" where
  "given_pairs (OneChild c) = [(sentinel_name c, c)]"
| "given_pairs (Keyed ps) = ps"
| "given_pairs (Listed cs) = map (\<lambda>c. (sentinel_name c, c)) cs"

definition named_children :: "children_spec \<Rightarrow> kind option \<Rightarrow> exc + (string \<times> sentinel) list" where
  "named_children spec expected = name_pairs expected [] (given_pairs spec)"

definition good_child :: "kind option \<Rightarrow> string \<times> sentinel \<Rightarrow> bool" where
  "good_child expected p \<longleftrightarrow>
     check_child (snd p) expected = None \<and> valid_instance_name (fst p) = None"

lemma name_pairs_Inr:
  "name_pairs expected seen ps = Inr named \<longleftrightarrow>
     named = ps \<and> list_all (good_child expected) ps \<and> distinct (map fst ps)
     \<and> set seen \<inter> fst ` set ps = {}"
proof (induction expected seen ps arbitrary: named rule: name_pairs.induct)
  case (2 expected seen name child rest)
  show ?case
  proof (cases "check_child child expected = None \<and> valid_instance_name name = None \<and> name \<notin> set seen")
    case True
    with 2 show ?thesis by (auto simp: bind_err_Inr good_child_def)
  next
    case False
    then show ?thesis
      by (auto simp: good_child_def split: option.splits)
  qed
qed auto

lemma named_children_Inr:
  "named_children spec expected = Inr named \<longleftrightarrow>
     named = given_pairs spec \<and> list_all (good_child expected) named \<and> distinct (map fst named)"
  by (auto simp: named_children_def name_pairs_Inr)

text \<open>A layer's children are named exactly as configured and in that order, and only when
  each is of the expected kind, each name can be a path segment, and no two names are equal.\<close>

theorem named_children_iff:
  "named_children spec expected = Inr named \<longleftrightarrow>
     named = given_pairs spec \<and> list_all (good_child expected) named \<and> distinct (map fst named)"
  by (rule named_children_Inr)

text \<open>So two children of one layer never share a path.\<close>

lemma child_path_inj:
  assumes "valid_instance_name a = None" "valid_instance_name b = None"
  shows "child_path p a = child_path p b \<longleftrightarrow> a = b"
  by (auto simp: child_path_def)

lemma named_children_paths:
  "named_children spec expected = Inr named \<Longrightarrow> distinct (map (\<lambda>p. child_path path (fst p)) named)"
  by (simp add: named_children_Inr distinct_map) (auto simp: inj_on_def child_path_def split: if_splits)

section \<open>Stages\<close>

definition every_stage :: "stage list" where
  "every_stage = [ModelInput, ModelOutputStage, ToolCallStage, ToolResultStage]"

lemma set_every_stage [simp]: "set every_stage = UNIV"
  by (auto simp: every_stage_def intro: stage.exhaust)

datatype stages_error = WatchesSeveral | SomeButNotAll

text \<open>\<open>check_stages\<close>: a monitor function watches one stage, a protocol function one or all.\<close>

definition check_stages :: "kind \<Rightarrow> stage set \<Rightarrow> stages_error option" where
  "check_stages kind declared =
     (if card declared = 1 then None
      else if kind = MonitorKind then Some WatchesSeveral
      else if declared \<noteq> set every_stage then Some SomeButNotAll
      else None)"

text \<open>What the decorators note on a function and its instance: the stages it was found to watch
  when another factory configured it, whether it only forwards the step, whether it only
  answers escalations, and the stages it accepts.\<close>

record watcher =
  wa_inherited :: "stage set option"
  wa_forwards :: bool
  wa_answers :: bool
  wa_accepted :: "stage set"

definition own_stages :: "watcher \<Rightarrow> bool \<Rightarrow> stage set" where
  "own_stages f has_children =
     (case wa_inherited f of
        Some stages \<Rightarrow> stages
      | None \<Rightarrow>
          if has_children \<and> wa_forwards f then {}
          else if wa_answers f then {}
          else wa_accepted f)"

definition watched :: "watcher list \<Rightarrow> stage set list \<Rightarrow> stage set" where
  "watched functions given =
     \<Union> (set (map (\<lambda>f. own_stages f (given \<noteq> [])) functions)) \<union> \<Union> (set given)"

text \<open>A composition that only forwards watches what its children watch, and one without
  children what it accepts.\<close>

lemma composition_watches:
  assumes "\<forall>f\<in>set functions. wa_inherited f = None \<and> wa_forwards f" "given \<noteq> []"
  shows "watched functions given = \<Union> (set given)"
  using assms by (auto simp: watched_def own_stages_def)

lemma answering_watches_nothing:
  assumes "\<forall>f\<in>set functions. wa_inherited f = None \<and> wa_answers f"
  shows "watched functions [] = {}"
  using assms by (auto simp: watched_def own_stages_def)

end
