(* ===== verification/Compositions.thy ===== *)
theory Compositions
  imports Children Root
begin

text \<open>
  The built-in protocols that combine children (\<open>_protocols/concurrent.py\<close>,
  \<open>sequential.py\<close>, \<open>handle_escalation.py\<close>, \<open>observe_only.py\<close>, \<open>human.py\<close>) and the root they
  resolve to (\<open>_resolve.py\<close>). Each is a program of the runner over its named children.
\<close>

section \<open>concurrent\<close>

definition label_of :: "string list \<Rightarrow> decision reported \<Rightarrow> string" where
  "label_of grouped r =
     (if rp_name r \<in> set grouped then rp_name r @ ''.'' @ rp_function r else rp_name r)"

definition nonempty :: "string option \<Rightarrow> string option" where
  "nonempty t = (case t of Some [] \<Rightarrow> None | _ \<Rightarrow> t)"

text \<open>The vote: what the layer decides from its protocols' decisions.\<close>

definition position_of :: "decision reported \<Rightarrow> decision reported list \<Rightarrow> nat" where
  "position_of r voters = length (takeWhile (\<lambda>v. v \<noteq> r) voters)"

definition contesting :: "decision reported \<Rightarrow> decision reported list \<Rightarrow> decision reported list" where
  "contesting winner voters =
     (let i = position_of winner voters
      in filter (\<lambda>d. d_action (rp_report d) = Modify) (take i voters @ drop (Suc i) voters))"

definition concurrent_vote :: "string list \<Rightarrow> decision reported list \<Rightarrow> decision option" where
  "concurrent_vote grouped voters =
     (case strongest voters of
        None \<Rightarrow> None
      | Some winner \<Rightarrow>
          if length voters = 1 \<or> list_all (\<lambda>v. d_action (rp_report v) = Proceed) voters
          then Some (rp_report winner)
          else
            (let own = d_explanation (rp_report winner);
                 rivals = (if d_action (rp_report winner) = Modify
                           then contesting winner voters else []);
                 rewrite = label_of grouped winner @ '' modified the call but so did ''
                             @ join '', '' (map (label_of grouped) rivals);
                 own' = (if rivals = [] then nonempty own
                         else Some (case nonempty own of None \<Rightarrow> rewrite | Some t \<Rightarrow> rewrite @ '': '' @ t));
                 summary = join ''; '' (map (\<lambda>v. label_of grouped v @ '': '' @ action_text (d_action (rp_report v))) voters);
                 base = (if rivals = [] then rp_report winner
                         else (rp_report winner)\<lparr>d_action := Reject, d_modified := None\<rparr>)
             in Some (base\<lparr>d_explanation :=
                  Some (case own' of None \<Rightarrow> summary | Some t \<Rightarrow> t @ '' ('' @ summary @ '')'')\<rparr>)))"

definition passing :: "(reports \<Rightarrow> report option) \<Rightarrow> exc + reports \<Rightarrow> prog" where
  "passing f r =
     (case r of
        Inl e \<Rightarrow> PRaise e
      | Inr rs \<Rightarrow> PWarn (obs_failed (rs_observations rs)) (PReturn (f rs)))"

definition concurrent :: "children_spec \<Rightarrow> exc + sentinel" where
  "concurrent children =
     bind_err (named_children children None) (\<lambda>named.
       if named = [] then Inl (NoChildren ''concurrent'')
       else Inr (Sentinel ProtocolKind ''inspect_sentinel/concurrent'' ''concurrent''
         (OneFunction (Member ''run'' every_stage (\<lambda>path step escs.
            PRun ''run_children'' path step named []
              (passing (\<lambda>rs. map_option RDec
                 (concurrent_vote (map fst (filter (\<lambda>p. is_group (snd p)) named)) (rs_decisions rs)))))))))"

section \<open>sequential\<close>

definition escalates :: "decision reported list \<Rightarrow> decision reported list" where
  "escalates ds = filter (\<lambda>d. d_action (rp_report d) = Escalate) ds"

definition took_part :: "observations \<Rightarrow> bool" where
  "took_part o' \<longleftrightarrow> obs_failed o' \<noteq> [] \<or> obs_items o' \<noteq> []"

definition chain_end :: "decision reported list \<Rightarrow> bool \<Rightarrow> decision option" where
  "chain_end handed participated =
     (if handed \<noteq> [] then Some (rp_report (last handed))
      else if participated then Some (decision_proceed None []) else None)"

text \<open>The links in order, each handed the escalations so far.\<close>

primrec chain :: "(string \<times> sentinel) list \<Rightarrow> string \<Rightarrow> step \<Rightarrow> escalations \<Rightarrow> bool \<Rightarrow> prog" where
  "chain [] path step handed participated = PReturn (map_option RDec (chain_end handed participated))"
| "chain (link # links) path step handed participated =
     PRun ''run_children'' path step [link] handed (\<lambda>r.
       case r of
         Inl e \<Rightarrow> PRaise e
       | Inr rs \<Rightarrow> PWarn (obs_failed (rs_observations rs))
           (case strongest (rs_decisions rs) of
              None \<Rightarrow> chain links path step handed (participated \<or> took_part (rs_observations rs))
            | Some d \<Rightarrow>
                if d_action (rp_report d) \<noteq> Escalate then PReturn (Some (RDec (rp_report d)))
                else chain links path step (handed @ escalates (rs_decisions rs)) True))"

definition sequential :: "children_spec \<Rightarrow> exc + sentinel" where
  "sequential children =
     bind_err (named_children children None) (\<lambda>named.
       if named = [] then Inl (NoChildren ''sequential'')
       else Inr (Sentinel ProtocolKind ''inspect_sentinel/sequential'' ''sequential''
         (OneFunction (Member ''run'' every_stage (\<lambda>path step escs. chain named path step [] False)))))"

section \<open>handle_escalation\<close>

text \<open>\<open>_handle\<close>; \<open>end\<close> says that the action is \<open>terminate\<close>.\<close>

definition handle :: "bool \<Rightarrow> escalations \<Rightarrow> decision option" where
  "handle ends escs =
     (if escs = [] then None
      else
        (let explanation = ''escalated by '' @ join ''; '' (map (\<lambda>e. named_reason (rp_name e) e) escs);
             references = concat (map (\<lambda>e. d_references (rp_report e)) escs)
         in Some (if ends then decision_terminate (Some explanation) references
                  else decision_proceed (Some explanation) references)))"

definition handle_escalation :: "string \<Rightarrow> exc + sentinel" where
  "handle_escalation act =
     (if act \<notin> {''terminate'', ''proceed''} then Inl (UserRaised ValueError ''handle_escalation'')
      else
        (let answer = (\<lambda>path step escs. PReturn (map_option RDec (handle (act = ''terminate'') escs)))
         in bind_err (new_group ''ProtocolGroup''
              [Member ''tool_call'' [ToolCallStage] answer, Member ''tool_result'' [ToolResultStage] answer,
               Member ''model_input'' [ModelInput] answer, Member ''model_output'' [ModelOutputStage] answer])
              (\<lambda>impl. Inr (Sentinel ProtocolKind ''inspect_sentinel/handle_escalation'' ''handle_escalation'' impl))))"

section \<open>observe_only\<close>

definition observe_only :: "children_spec \<Rightarrow> exc + sentinel" where
  "observe_only monitors =
     bind_err (named_children monitors (Some MonitorKind)) (\<lambda>named.
       if named = [] then Inl (NoChildren ''observe_only'')
       else Inr (Sentinel ProtocolKind ''inspect_sentinel/observe_only'' ''observe_only''
         (OneFunction (Member ''run'' every_stage (\<lambda>path step escs.
            PRun ''run_monitors'' path step named [] (passing (\<lambda>rs. None)))))))"

section \<open>human\<close>

datatype human_error =
    NoStages
  | UnsupportedStage string
  | StageTwice
  | NoChoices
  | UnknownChoice string
  | IllegalChoice string string

definition all_choices :: "string list" where
  "all_choices = [''approve'', ''reject'', ''terminate'', ''modify'']"

text \<open>\<open>_LEGAL\<close> and \<open>_DEFAULTS\<close>.\<close>

definition legal_choices :: "(string \<times> string list) list" where
  "legal_choices = [(''tool_call'', all_choices), (''tool_result'', [''approve'', ''terminate'']),
     (''model_output'', [''approve'', ''terminate''])]"

definition default_choices :: "(string \<times> string list) list" where
  "default_choices = [(''tool_call'', [''approve'', ''reject'', ''terminate'']),
     (''tool_result'', [''approve'', ''terminate'']), (''model_output'', [''approve'', ''terminate''])]"

definition supported_stage :: "string \<Rightarrow> bool" where
  "supported_stage st \<longleftrightarrow> st \<in> fst ` set legal_choices"

text \<open>\<open>_choices\<close>, for a supported stage.\<close>

fun check_choices :: "string \<Rightarrow> string list \<Rightarrow> human_error option" where
  "check_choices st [] = None"
| "check_choices st (c # cs) =
     (if c \<notin> set all_choices then Some (UnknownChoice c)
      else if c \<notin> set (the (map_of legal_choices st)) then Some (IllegalChoice c st)
      else check_choices st cs)"

definition offered_choices :: "string \<Rightarrow> string list option \<Rightarrow> human_error + string list" where
  "offered_choices st choices =
     (case choices of
        None \<Rightarrow> Inr (the (map_of default_choices st))
      | Some cs \<Rightarrow>
          if cs = [] then Inl NoChoices
          else (case check_choices st cs of Some e \<Rightarrow> Inl e | None \<Rightarrow> Inr cs))"

text \<open>\<open>_decision\<close>.\<close>

definition decision_of_answer :: "human_answer \<Rightarrow> string list \<Rightarrow> exc + decision" where
  "decision_of_answer answer choices =
     (if ha_decision answer \<notin> set choices \<and> ha_decision answer \<noteq> ''terminate''
      then Inl (BadAnswer (ha_decision answer))
      else if ha_modified answer \<noteq> None \<and> ha_decision answer \<noteq> ''modify''
      then Inl (BadAnswer (ha_decision answer))
      else
        (let reason = nonempty (ha_reason answer)
         in Inr (if ha_decision answer = ''approve'' then decision_proceed reason []
                 else if ha_decision answer = ''reject'' then decision_reject reason reason []
                 else if ha_decision answer = ''terminate'' then decision_terminate reason []
                 else (plain_decision Modify None [])\<lparr>d_modified := ha_modified answer\<rparr>)))"

definition ask_function :: "string \<Rightarrow> string list \<Rightarrow> function_def" where
  "ask_function st offered =
     Member st [if st = ''tool_call'' then ToolCallStage else if st = ''tool_result'' then ToolResultStage
                else ModelOutputStage]
       (\<lambda>path step escs. PAsk step escs offered (\<lambda>r.
          case r of
            Inl e \<Rightarrow> PRaise e
          | Inr answer \<Rightarrow>
              (case decision_of_answer answer offered of
                 Inl e \<Rightarrow> PRaise e | Inr d \<Rightarrow> PReturn (Some (RDec d)))))"

fun offered_at :: "string list \<Rightarrow> string list option \<Rightarrow> human_error + (string \<times> string list) list" where
  "offered_at [] choices = Inr []"
| "offered_at (st # sts) choices =
     bind_err (offered_choices st choices) (\<lambda>cs.
       bind_err (offered_at sts choices) (\<lambda>rest. Inr ((st, cs) # rest)))"

definition human :: "string list \<Rightarrow> string list option \<Rightarrow> human_error + sentinel" where
  "human stages choices =
     (if stages = [] then Inl NoStages
      else case find (\<lambda>st. \<not> supported_stage st) stages of
        Some st \<Rightarrow> Inl (UnsupportedStage st)
      | None \<Rightarrow>
          if \<not> distinct stages then Inl StageTwice
          else bind_err (offered_at stages choices) (\<lambda>offered.
            let functions = map (\<lambda>(st, cs). ask_function st cs) offered
            in Inr (Sentinel ProtocolKind ''inspect_sentinel/human'' ''human''
                 (case functions of [f] \<Rightarrow> OneFunction f | _ \<Rightarrow> FunctionGroup functions))))"

section \<open>The root\<close>

text \<open>\<open>resolve_sentinel\<close>; \<open>Inl (Inr names)\<close> are the names of a configuration of monitors only.\<close>

definition resolve_sentinel :: "children_spec \<Rightarrow> (exc + string list) + sentinel" where
  "resolve_sentinel spec =
     (let children = (case spec of OneChild c \<Rightarrow> Listed [c] | _ \<Rightarrow> spec);
          lone = (case spec of
             OneChild c \<Rightarrow> if \<not> is_group c \<and> sentinel_kind c = ProtocolKind then Some c else None
           | _ \<Rightarrow> None)
      in case named_children children None of
        Inl e \<Rightarrow> Inl (Inl e)
      | Inr named \<Rightarrow>
          if named = [] then Inl (Inl (NoChildren ''sentinel''))
          else case lone of
            Some c \<Rightarrow> Inr c
          | None \<Rightarrow>
              if list_ex (\<lambda>p. sentinel_kind (snd p) = ProtocolKind) named
              then (case concurrent children of Inl e \<Rightarrow> Inl (Inl e) | Inr c \<Rightarrow> Inr c)
              else Inl (Inr (map fst named)))"

section \<open>The vote\<close>

lemma voters_split:
  assumes "w \<in> set voters"
  obtains us vs where "voters = us @ w # vs" "position_of w voters = length us"
proof -
  from assms obtain us vs where "voters = us @ w # vs" "w \<notin> set us" by (meson split_list_first)
  moreover from this have "takeWhile (\<lambda>v. v \<noteq> w) voters = us"
    by (auto simp: takeWhile_append)
  ultimately show ?thesis using that by (simp add: position_of_def)
qed

definition rewriters :: "decision reported list \<Rightarrow> decision reported list" where
  "rewriters voters = filter (\<lambda>d. d_action (rp_report d) = Modify) voters"

lemma contesting_length:
  assumes "w \<in> set voters" "d_action (rp_report w) = Modify"
  shows "length (rewriters voters) = Suc (length (contesting w voters))"
proof -
  from voters_split [OF assms(1)] obtain us vs
    where v: "voters = us @ w # vs" and p: "position_of w voters = length us" .
  then have "contesting w voters = rewriters us @ rewriters vs"
    by (simp add: contesting_def rewriters_def)
  with v assms(2) show ?thesis by (simp add: rewriters_def)
qed

lemma strongest_Max:
  assumes "strongest voters = Some w"
  shows "d_action (rp_report w) = Max ((d_action \<circ> rp_report) ` set voters)"
  by (rule Max_eqI [symmetric]) (use strongest_top [OF assms] strongest_member [OF assms] in auto)

lemma concurrent_vote_action:
  assumes "strongest voters = Some w" "concurrent_vote grouped voters = Some d"
  shows "d_action d = (if d_action (rp_report w) = Modify \<and> length (rewriters voters) > 1
                       then Reject else d_action (rp_report w))"
proof -
  have w: "w \<in> set voters" using assms(1) by (rule strongest_member)
  have one: "length voters = 1 \<Longrightarrow> length (rewriters voters) \<le> 1"
    using length_filter_le [of "\<lambda>d. d_action (rp_report d) = Modify" voters] by (simp add: rewriters_def)
  have all: "list_all (\<lambda>v. d_action (rp_report v) = Proceed) voters \<Longrightarrow> d_action (rp_report w) = Proceed"
    using w by (simp add: list_all_iff)
  show ?thesis
  proof (cases "length voters = 1 \<or> list_all (\<lambda>v. d_action (rp_report v) = Proceed) voters")
    case True
    with assms have "d = rp_report w" by (simp add: concurrent_vote_def)
    with True one all show ?thesis by auto
  next
    case False
    with assms show ?thesis
      using contesting_length [OF w]
      by (auto simp: concurrent_vote_def Let_def split: if_splits)
  qed
qed


text \<open>When every vote fits the step, so does the layer's decision, conflicts of rewrites
  included, so a layer of sound protocols never fails its own shape check.\<close>

theorem concurrent_well_shaped:
  assumes "list_all (\<lambda>v. well_shaped (rp_report v) step) voters"
    and "concurrent_vote grouped voters = Some d"
  shows "well_shaped d step"
proof -
  from assms(2) obtain w where w: "strongest voters = Some w"
    by (auto simp: concurrent_vote_def split: option.splits)
  with assms(1) have ok: "well_shaped (rp_report w) step"
    by (auto simp: list_all_iff dest: strongest_member)
  show ?thesis
  proof (cases "length voters = 1 \<or> list_all (\<lambda>v. d_action (rp_report v) = Proceed) voters")
    case True
    with assms(2) w ok show ?thesis by (simp add: concurrent_vote_def)
  next
    case False
    with assms(2) w ok show ?thesis
      by (auto simp: concurrent_vote_def Let_def well_shaped_def legal_action_def split: if_splits)
  qed
qed

definition vote :: "string \<Rightarrow> decision \<Rightarrow> decision reported" where
  "vote name d = \<lparr>rp_name = name, rp_path = name, rp_report = d, rp_function = ''run''\<rparr>"

definition rewriting :: decision where
  "rewriting = (plain_decision Modify None [])\<lparr>d_modified := Some sample_call\<rparr>"

theorem concurrent_well_shaped_witness:
  "\<exists>d. concurrent_vote [] [vote ''a'' rewriting, vote ''b'' rewriting] = Some d \<and> d_action d = Reject
     \<and> well_shaped d sample_step"
proof -
  let ?v = "[vote ''a'' rewriting, vote ''b'' rewriting]"
  have ok: "list_all (\<lambda>v. well_shaped (rp_report v) sample_step) ?v"
    by (simp add: vote_def rewriting_def sample_step_def well_shaped_def legal_action_def plain_decision_def)
  have "map_option d_action (concurrent_vote [] ?v) = Some Reject" by code_simp
  then obtain d where "concurrent_vote [] ?v = Some d" "d_action d = Reject" by auto
  with concurrent_well_shaped [OF ok] show ?thesis by blast
qed

section \<open>The root a configuration resolves to\<close>

lemma concurrent_Inr:
  assumes "concurrent children = Inr c"
  shows "sentinel_kind c = ProtocolKind" "\<not> is_group c"
  using assms by (auto simp: concurrent_def bind_err_Inr split: if_splits)

text \<open>What a configuration resolves to is always a protocol of one function, the only kind
  of root the runner accepts.\<close>

theorem resolved_root:
  assumes "resolve_sentinel spec = Inr proto"
  shows "sn_kind (instance_of h proto) = ProtocolKind \<and> \<not> sn_grouped (instance_of h proto)"
  using assms concurrent_Inr
  by (auto simp: resolve_sentinel_def instance_of_members Let_def
      split: sum.splits if_splits children_spec.splits option.splits)

theorem resolved_root_witness:
  "\<exists>proto. resolve_sentinel (Listed [always ''a'' (decision_proceed None []), waits]) = Inr proto
     \<and> \<not> sn_grouped (instance_of silent_host proto)"
proof -
  have "isl (resolve_sentinel (Listed [always ''a'' (decision_proceed None []), waits])) = False"
    by (simp add: resolve_sentinel_def named_children_def check_child_def valid_instance_name_def
        always_def waits_def concurrent_def)
  then obtain proto where r: "resolve_sentinel (Listed [always ''a'' (decision_proceed None []), waits]) = Inr proto"
    by (cases "resolve_sentinel (Listed [always ''a'' (decision_proceed None []), waits])") auto
  with resolved_root [OF r] show ?thesis by blast
qed

section \<open>The chain\<close>

definition decisive :: "reports \<Rightarrow> bool" where
  "decisive rs \<longleftrightarrow>
     (case strongest (rs_decisions rs) of
        None \<Rightarrow> False | Some d \<Rightarrow> d_action (rp_report d) \<noteq> Escalate)"

text \<open>What a chain comes to, from the reports of the links it seen: the decision of a decisive
  last one, else the last escalation, else a \<open>proceed\<close> if anything took part.\<close>

fun chain_outcome :: "escalations \<Rightarrow> bool \<Rightarrow> reports list \<Rightarrow> decision option" where
  "chain_outcome handed participated [] = chain_end handed participated"
| "chain_outcome handed participated (rs # rest) =
     (if decisive rs then map_option rp_report (strongest (rs_decisions rs))
      else chain_outcome (handed @ escalates (rs_decisions rs))
             (participated \<or> took_part (rs_observations rs) \<or> rs_decisions rs \<noteq> []) rest)"

text \<open>The links a chain runs one after another: each in its own layer, handed every escalation
  of those before it, up to the first that decides.\<close>

fun links_ran ::
  "host \<Rightarrow> (string \<times> sentinel) list \<Rightarrow> string \<Rightarrow> step \<Rightarrow> escalations \<Rightarrow> nat option \<Rightarrow> run_state
     \<Rightarrow> reports list \<Rightarrow> run_state \<Rightarrow> bool" where
  "links_ran h [] path step handed cur s seen s' \<longleftrightarrow> seen = [] \<and> s' = s"
| "links_ran h (link # links) path step handed cur s [] s' \<longleftrightarrow> False"
| "links_ran h (link # links) path step handed cur s (rs # rest) s' \<longleftrightarrow>
     (\<exists>t. run_named [map_prod id (instance_of h) link] path step handed ''run_children'' cur s = (Inr rs, t)
        \<and> (if decisive rs then rest = [] \<and> s' = warn (obs_failed (rs_observations rs)) t
           else links_ran h links path step (handed @ escalates (rs_decisions rs)) cur
                  (warn (obs_failed (rs_observations rs)) t) rest s'))"

lemma escalates_Nil [simp]: "escalates [] = []"
  by (simp add: escalates_def)

lemma chain_refines:
  "exec h (chain links path step handed participated) cur s = (Inr r, s') \<longleftrightarrow>
     (\<exists>seen. links_ran h links path step handed cur s seen s'
        \<and> r = map_option RDec (chain_outcome handed participated seen))"
proof (induction links arbitrary: handed participated s)
  case Nil
  show ?case by auto
next
  case (Cons link links)
  obtain q t where q: "run_named [map_prod id (instance_of h) link] path step handed ''run_children'' cur s = (q, t)"
    by force
  show ?case
  proof (cases q)
    case (Inl x)
    have "\<not> links_ran h (link # links) path step handed cur s seen s'" for seen
      using q Inl by (cases seen) auto
    with q Inl show ?thesis by (cases x) (auto simp: caught_def)
  next
    case (Inr rs)
    have seen: "links_ran h (link # links) path step handed cur s seen s' \<longleftrightarrow>
        (\<exists>rest. seen = rs # rest \<and>
          (if decisive rs then rest = [] \<and> s' = warn (obs_failed (rs_observations rs)) t
           else links_ran h links path step (handed @ escalates (rs_decisions rs)) cur
                  (warn (obs_failed (rs_observations rs)) t) rest s'))" for seen
      using q Inr by (cases seen) auto
    show ?thesis
    proof (cases "decisive rs")
      case True
      then obtain d where "strongest (rs_decisions rs) = Some d" "d_action (rp_report d) \<noteq> Escalate"
        by (auto simp: decisive_def split: option.splits)
      with q Inr True show ?thesis by (auto simp: seen caught_def)
    next
      case False
      note IH = Cons.IH [of "handed @ escalates (rs_decisions rs)"
          "participated \<or> took_part (rs_observations rs) \<or> rs_decisions rs \<noteq> []"
          "warn (obs_failed (rs_observations rs)) t"]
      from False consider "rs_decisions rs = []"
        | d where "strongest (rs_decisions rs) = Some d" "d_action (rp_report d) = Escalate" "rs_decisions rs \<noteq> []"
        by (auto simp: decisive_def split: option.splits)
      then have "exec h (chain (link # links) path step handed participated) cur s =
          exec h (chain links path step (handed @ escalates (rs_decisions rs))
             (participated \<or> took_part (rs_observations rs) \<or> rs_decisions rs \<noteq> [])) cur
             (warn (obs_failed (rs_observations rs)) t)"
        using q Inr by cases (simp_all add: caught_def)
      with IH False show ?thesis by (auto simp: seen)
    qed
  qed
qed


section \<open>Answers to escalations\<close>

lemma handle_None [simp]: "handle ends escs = None \<longleftrightarrow> escs = []"
  by (simp add: handle_def Let_def)

lemma handle_Some:
  "handle ends escs = Some d \<Longrightarrow>
     d_action d = (if ends then Terminate else Proceed) \<and> well_shaped d step
     \<and> d_references d = concat (map (\<lambda>e. d_references (rp_report e)) escs)"
  by (auto simp: handle_def Let_def decision_makers well_shaped_def legal_action_def split: if_splits)

definition handler :: "bool \<Rightarrow> sentinel" where
  "handler ends =
     (let answer = (\<lambda>path step escs. PReturn (map_option RDec (handle ends escs)))
      in Sentinel ProtocolKind ''inspect_sentinel/handle_escalation'' ''handle_escalation''
           (FunctionGroup [Member ''tool_call'' [ToolCallStage] answer, Member ''tool_result'' [ToolResultStage] answer,
               Member ''model_input'' [ModelInput] answer, Member ''model_output'' [ModelOutputStage] answer]))"

lemma handle_escalation_Inr:
  "handle_escalation act = Inr c \<longleftrightarrow> act \<in> {''terminate'', ''proceed''} \<and> c = handler (act = ''terminate'')"
  by (auto simp: handle_escalation_def handler_def bind_err_Inr new_group_Inr Let_def)

text \<open>A layer of one child: its decisions are what the child reported.\<close>

lemma one_child:
  assumes "run_named [(n, i)] path step escs caller cur s = (Inr rs, s')"
  shows "\<exists>ended g t t'. run_child i (sn_kind i) path step (if sn_kind i = MonitorKind then [] else escs)
       (Some n) cur t = (ended, g, t')
     \<and> (ended = None \<or> ended = Some XCancelled)
     \<and> rs_decisions rs = List.map_filter as_decision (ga_found g)"
proof -
  from close_group_Inr [OF assms] obtain order c s1 s2 where
    o: "take_order (indexed [(n, i)]) s = (order, s1)"
    and g: "run_group order (rt_cancel s) path step escs cur nothing_collected s1 = (c, s2)"
    and rs: "rs = reports_of c" by blast
  have "set order = {(0, n, i)}" "length order = 1"
    using o by (auto simp: take_order_def indexed_def simp flip: size_mset)
  then have order: "order = [(0, n, i)]" by (cases order) auto
  obtain ended g' t' where c: "run_child i (sn_kind i) path step (if sn_kind i = MonitorKind then [] else escs)
      (Some n) cur (start_child (rt_cancel s) False s1) = (ended, g', t')"
    by (metis prod_cases3)
  with g order have c': "c = collect 0 i g' ended nothing_collected" "s2 = t'"
    by (simp_all add: nothing_collected_def)
  have "co_raised c = []"
    using assms o g unfolding run_named_def
    by (auto simp: close_group_def split: sum.splits prod.splits option.splits exn.splits if_splits)
  with c' have "ended = None \<or> ended = Some XCancelled"
    by (auto simp: collect_def nothing_collected_def Let_def split: option.splits if_splits)
  moreover have "rs_decisions rs = List.map_filter as_decision (ga_found g')"
    using rs c' by (simp add: reports_of_def collect_def nothing_collected_def Let_def)
  ultimately show ?thesis using c by blast
qed

lemma handler_functions:
  "filter (\<lambda>m. stage_of step \<in> set (mb_accepted m)) (sn_members (instance_of h (handler ends))) =
     [function_of h (Member (case stage_of step of ToolCallStage \<Rightarrow> ''tool_call'' | ToolResultStage \<Rightarrow> ''tool_result''
          | ModelInput \<Rightarrow> ''model_input'' | ModelOutputStage \<Rightarrow> ''model_output'') [stage_of step]
        (\<lambda>path step escs. PReturn (map_option RDec (handle ends escs))))]"
  by (cases "stage_of step") (simp_all add: handler_def Let_def)

lemma returning_member:
  assumes "mb_body m path step escs = (\<lambda>cur s. (Inr r, s))"
  shows "run_member m ProtocolKind path step escs child_name grouped cur s =
    (case layer path ''The runner'' s of
       Inl e \<Rightarrow> (Inl (XErr e), s)
     | Inr factory \<Rightarrow>
         (case new_invocation cur (mb_function m) path s of
            (node, s1) \<Rightarrow> member_return r ProtocolKind path factory step child_name (mb_function m)
               (describe child_name (mb_function m) grouped) node s1))"
  using assms by (auto simp: run_member_def Let_def split: sum.splits prod.splits)

lemma run_child_inner:
  assumes "run_child child kind path step escs (Some n) cur s = (ended, g, s')"
    and "ended = None \<or> ended = Some XCancelled"
  shows "\<exists>t t'. run_functions (filter (\<lambda>m. stage_of step \<in> set (mb_accepted m)) (sn_members child))
       kind (child_path path n) step escs n (sn_grouped child) cur nothing_gathered t = (ended, g, t')"
proof -
  obtain x t where x: "enter_layer (child_path path n) (sn_factory child) s = (x, t)" by force
  obtain a b d where r: "run_functions (filter (\<lambda>m. stage_of step \<in> set (mb_accepted m)) (sn_members child))
       kind (child_path path n) step escs n (sn_grouped child) cur nothing_gathered t = (a, b, d)"
    by (metis prod_cases3)
  from assms x r have "a = ended" "b = g"
    by (auto simp: run_child_def Let_def split: if_splits option.splits)
  with r show ?thesis by blast
qed

lemma handler_layer:
  assumes r: "run_named [(n, instance_of h (handler ends))] path step escs caller cur s = (Inr rs, s')"
  shows "(if escs = [] then rs_decisions rs = [] else
     \<exists>d. rs_decisions rs = [d] \<and> d_action (rp_report d) = (if ends then Terminate else Proceed))"
proof -
  let ?i = "instance_of h (handler ends)"
  have k: "sn_kind ?i = ProtocolKind" by (simp add: handler_def Let_def)
  from one_child [OF r] obtain ended g t t' where
    c: "run_child ?i ProtocolKind path step escs (Some n) cur t = (ended, g, t')"
    and e: "ended = None \<or> ended = Some XCancelled"
    and d: "rs_decisions rs = List.map_filter as_decision (ga_found g)"
    using k by auto
  define m where "m = function_of h (Member (case stage_of step of ToolCallStage \<Rightarrow> ''tool_call'' | ToolResultStage \<Rightarrow> ''tool_result''
          | ModelInput \<Rightarrow> ''model_input'' | ModelOutputStage \<Rightarrow> ''model_output'') [stage_of step]
        (\<lambda>path step escs. PReturn (map_option RDec (handle ends escs))))"
  from run_child_inner [OF c e] obtain t1 t2 where
    fs: "run_functions [m] ProtocolKind (child_path path n) step escs n (sn_grouped ?i) cur nothing_gathered t1
      = (ended, g, t2)"
    unfolding handler_functions m_def by blast
  have body: "mb_body m p st es = (\<lambda>cur s. (Inr (map_option RDec (handle ends es)), s))" for p st es
    by (simp add: m_def)
  have fit: "report_fits ProtocolKind (RDec d)" for d by (simp add: report_fits_def)
  have ok: "handle ends escs = Some d \<Longrightarrow> validate_decision_shape d step = None" for d
    by (simp add: handle_Some validate_iff_well_shaped)
  show ?thesis
  proof (cases "handle ends escs")
    case None
    with fs e d body show ?thesis
      by (auto simp: returning_member member_return_def nothing_gathered_def List.map_filter_def
          split: sum.splits prod.splits)
  next
    case (Some d1)
    then have "escs \<noteq> []" by (auto simp: handle_def)
    with fs e d body Some fit ok [OF Some] handle_Some [OF Some] show ?thesis
      by (auto simp: returning_member member_return_def nothing_gathered_def List.map_filter_def as_decision_def
          validate_shape_def terminates_def Let_def split: sum.splits prod.splits if_splits)
  qed
qed

text \<open>A chain that ends with a handler decides every escalation: after any links, whatever they
  escalated, its outcome is not an escalation.\<close>

lemma answered_chain_ran:
  "links_ran h (links @ [(n, handler ends)]) path step handed cur s seen s' \<Longrightarrow>
     chain_outcome handed participated seen = Some d \<Longrightarrow> d_action d \<noteq> Escalate"
proof (induction links arbitrary: handed participated s seen)
  case Nil
  then obtain rs rest t where s: "seen = rs # rest"
    and r: "run_named [(n, instance_of h (handler ends))] path step handed ''run_children'' cur s = (Inr rs, t)"
    and rest: "decisive rs \<or> rest = []"
    by (cases seen) (auto split: if_splits)
  show ?case
  proof (cases "handed = []")
    case True
    with handler_layer [OF r] have "rs_decisions rs = []" by simp
    then have "\<not> decisive rs" by (simp add: decisive_def)
    with Nil.prems(2) rest True \<open>rs_decisions rs = []\<close> s show ?thesis
      by (auto simp: chain_end_def decision_makers split: if_splits)
  next
    case False
    with handler_layer [OF r] obtain d1 where d1: "rs_decisions rs = [d1]"
      "d_action (rp_report d1) = (if ends then Terminate else Proceed)" by auto
    then have "strongest (rs_decisions rs) = Some d1" by (simp add: strongest_def)
    with d1 Nil.prems(2) s show ?thesis by (auto simp: decisive_def split: if_splits)
  qed
next
  case (Cons link links)
  then obtain rs rest where s: "seen = rs # rest" by (cases seen) auto
  show ?case
  proof (cases "decisive rs")
    case True
    with Cons.prems(2) s show ?thesis by (auto simp: decisive_def split: option.splits)
  next
    case False
    with Cons s show ?thesis by auto
  qed
qed

text \<open>C23: A chain whose last link is \<open>handle_escalation\<close> never escalates, whatever its other
  links do: the advice an unhandled escalation gives is sound.\<close>

theorem answered_chain:
  assumes "handle_escalation act = Inr last_link"
    and "exec h (chain (links @ [(n, last_link)]) path step [] False) cur s = (Inr (Some (RDec d)), s')"
  shows "d_action d \<noteq> Escalate"
proof -
  from assms(1) obtain ends where e: "last_link = handler ends" by (auto simp: handle_escalation_Inr)
  from chain_refines [THEN iffD1, OF assms(2)] obtain seen where
    r: "links_ran h (links @ [(n, handler ends)]) path step [] cur s seen s'"
    and "Some (RDec d) = map_option RDec (chain_outcome [] False seen)"
    unfolding e by blast
  then have "chain_outcome [] False seen = Some d" by (cases "chain_outcome [] False seen") auto
  with r show ?thesis by (rule answered_chain_ran)
qed

definition answered_links :: "(string \<times> sentinel) list" where
  "answered_links = [(''a'', always ''a'' (decision_escalate (Some ''x'') []))]"

theorem answered_chain_witness:
  "\<exists>d. fst (exec silent_host (chain (answered_links @ [(''h'', handler True)]) [] sample_step [] False) None (in_layer []))
     = Inr (Some (RDec d)) \<and> d_action d \<noteq> Escalate"
proof -
  let ?run = "exec silent_host (chain (answered_links @ [(''h'', handler True)]) [] sample_step [] False) None (in_layer [])"
  have "(case fst ?run of Inr (Some (RDec d)) \<Rightarrow> True | _ \<Rightarrow> False)" by code_simp
  then obtain d where "fst ?run = Inr (Some (RDec d))" by (auto split: sum.splits option.splits report.splits)
  moreover from this have "?run = (Inr (Some (RDec d)), snd ?run)" by (metis prod.collapse)
  moreover have "handle_escalation ''terminate'' = Inr (handler True)" by (simp add: handle_escalation_Inr)
  ultimately show ?thesis using answered_chain by blast
qed

section \<open>Asking a person\<close>

definition human_stage :: "string \<Rightarrow> stage" where
  "human_stage st = (if st = ''tool_call'' then ToolCallStage else if st = ''tool_result'' then ToolResultStage
                     else ModelOutputStage)"

lemma check_choices_None:
  "check_choices st cs = None \<Longrightarrow> set cs \<subseteq> set (the (map_of legal_choices st))"
  by (induction st cs rule: check_choices.induct) (auto split: if_splits)

lemma supported_stages: "supported_stage st \<longleftrightarrow> st \<in> {''tool_call'', ''tool_result'', ''model_output''}"
  by (simp add: supported_stage_def legal_choices_def)

lemma offered_legal:
  assumes "supported_stage st" "offered_choices st choices = Inr cs"
  shows "set cs \<subseteq> set (the (map_of legal_choices st))"
  using assms check_choices_None [of st cs]
  by (auto simp: offered_choices_def supported_stages default_choices_def legal_choices_def all_choices_def
      split: option.splits if_splits)

text \<open>Whatever a person answers, the decision \<open>human\<close> returns is legal at the stage it asked
  at, and carries a message only when it rejects.\<close>

theorem human_decision_legal:
  assumes "supported_stage st" "offered_choices st choices = Inr cs"
    and "decision_of_answer answer cs = Inr d"
  shows "legal_action (human_stage st) (d_action d) \<and> (d_message d \<noteq> None \<longrightarrow> d_action d = Reject)
     \<and> (d_modified d \<noteq> None \<longrightarrow> d_action d = Modify)"
proof -
  have "st = ''tool_call'' \<or> ha_decision answer \<in> {''approve'', ''terminate''}"
    using offered_legal [OF assms(1,2)] assms(1,3)
    by (auto simp: supported_stages legal_choices_def all_choices_def decision_of_answer_def split: if_splits)
  with assms(3) show ?thesis
    by (auto simp: decision_of_answer_def Let_def decision_makers legal_action_def human_stage_def split: if_splits)
qed

theorem human_decision_legal_witness:
  "legal_action ToolResultStage (d_action (decision_proceed None []))"
proof -
  have "decision_of_answer \<lparr>ha_decision = ''approve'', ha_reason = Some [], ha_modified = None\<rparr> [''approve'', ''terminate'']
      = Inr (decision_proceed None [])"
    by (simp add: decision_of_answer_def nonempty_def)
  from human_decision_legal [OF _ _ this, of "''tool_result''" None] show ?thesis
    by (simp add: supported_stages offered_choices_def default_choices_def human_stage_def)
qed

end
