(* ===== verification/Threshold.thy ===== *)
theory Threshold
  imports Compositions "HOL-Library.AList" "HOL-Library.List_Lexorder" "HOL-Library.Char_ord"
begin

text \<open>
  Acting on suspicion scores (\<open>_protocols/threshold.py\<close>): the thresholds a configuration sets
  and what each covers, the check that every one of them can apply, and the decision from a
  layer's observations.
\<close>

section \<open>Thresholds\<close>

record limit =
  li_key :: string
  li_value :: rat

text \<open>\<open>_Thresholds\<close>: the dicts keep the order their keys were given in.\<close>

record thresholds =
  th_parameter :: string
  th_shorthand :: bool
  th_qualified :: "((string \<times> string) \<times> limit) list"
  th_bare :: "(string \<times> limit) list"
  th_default :: "limit option"

definition limits :: "thresholds \<Rightarrow> limit list" where
  "limits th = map snd (th_qualified th) @ map snd (th_bare th)
     @ (case th_default th of None \<Rightarrow> [] | Some l \<Rightarrow> [l])"

definition covering :: "thresholds \<Rightarrow> string \<Rightarrow> string option \<Rightarrow> limit option" where
  "covering th name dmn =
     (let found = (case dmn of
                     None \<Rightarrow> map_of (th_bare th) name
                   | Some d \<Rightarrow> (case map_of (th_qualified th) (name, d) of
                                Some l \<Rightarrow> Some l | None \<Rightarrow> map_of (th_bare th) d))
      in case found of None \<Rightarrow> th_default th | Some l \<Rightarrow> Some l)"

record level =
  lv_thresholds :: thresholds
  lv_action :: action

datatype threshold_error =
    NothingSet string
  | MalformedKey string string
  | NotANumber string string
  | NamesNoMonitor string string
  | NeverApplies "string \<times> limit" "string \<times> limit"
  | NoLevels
  | NeverWatchesCall string
  | BadMonitors exc

text \<open>What a caller gives for a parameter: one number, or a mapping of keys. A value that is not
  a number is \<open>None\<close>.\<close>

datatype given = OneNumber "rat option" | PerKey "(string \<times> rat option) list"

definition default_key :: string where
  "default_key = ''*''"

fun segments :: "char \<Rightarrow> string \<Rightarrow> string list" where
  "segments c [] = [[]]"
| "segments c (x # xs) =
     (if x = c then [] # segments c xs
      else case segments c xs of [] \<Rightarrow> [[x]] | s # ss \<Rightarrow> (x # s) # ss)"

definition well_formed :: "string \<Rightarrow> bool" where
  "well_formed key \<longleftrightarrow>
     key = default_key
     \<or> (CHR ''*'' \<notin> set key \<and> list_all (\<lambda>s. s \<noteq> []) (segments CHR ''.'' key))"

definition qualify :: "string \<Rightarrow> string \<Rightarrow> string list \<Rightarrow> threshold_error + string \<times> string" where
  "qualify parameter key names =
     (case first_max length (filter (\<lambda>n. starts_with key (n @ ''.'')) names) of
        None \<Rightarrow> Inl (NamesNoMonitor parameter key)
      | Some n \<Rightarrow> Inr (n, drop (length n + 1) key))"

fun add_thresholds ::
  "string list \<Rightarrow> (string \<times> rat option) list \<Rightarrow> thresholds \<Rightarrow> threshold_error + thresholds" where
  "add_thresholds names [] th = Inr th"
| "add_thresholds names ((key, v) # rest) th =
     (if \<not> well_formed key then Inl (MalformedKey (th_parameter th) key)
      else case v of
        None \<Rightarrow> Inl (NotANumber (th_parameter th) key)
      | Some x \<Rightarrow>
          (let entry = \<lparr>li_key = key, li_value = x\<rparr>
           in if key = default_key then add_thresholds names rest (th\<lparr>th_default := Some entry\<rparr>)
              else if CHR ''.'' \<in> set key then
                bind_err (qualify (th_parameter th) key names) (\<lambda>q.
                  add_thresholds names rest
                    (th\<lparr>th_qualified := AList.update q entry (th_qualified th)\<rparr>))
              else add_thresholds names rest
                     (th\<lparr>th_bare := AList.update key entry (th_bare th)\<rparr>)))"

definition read_thresholds :: "string \<Rightarrow> given \<Rightarrow> string list \<Rightarrow> threshold_error + thresholds" where
  "read_thresholds parameter value names =
     (let shorthand = (case value of OneNumber _ \<Rightarrow> True | PerKey _ \<Rightarrow> False);
          pairs = (case value of OneNumber x \<Rightarrow> [(default_key, x)] | PerKey ps \<Rightarrow> ps)
      in if pairs = [] then Inl (NothingSet parameter)
         else add_thresholds names pairs
                \<lparr>th_parameter = parameter, th_shorthand = shorthand, th_qualified = [], th_bare = [],
                 th_default = None\<rparr>)"

section \<open>Whether every threshold can apply\<close>

text \<open>The classes of scores that \<open>_check_live\<close> tries: each monitor's single number, each
  dimension a key names, and a dimension no key names.\<close>

definition score_classes :: "level list \<Rightarrow> string list \<Rightarrow> (string \<times> string option) list" where
  "score_classes levels names =
     (let shared = [] # concat (map (\<lambda>l. map fst (th_bare (lv_thresholds l))) levels)
      in concat (map (\<lambda>name.
           (let own = concat (map (\<lambda>l. map snd (filter (\<lambda>q. fst q = name)
                        (map fst (th_qualified (lv_thresholds l))))) levels)
            in (name, None) # map (\<lambda>d. (name, Some d)) (sort (remdups (shared @ own)))))
         (sort names)))"

fun blocking :: "level list \<Rightarrow> string \<times> string option \<Rightarrow> rat \<Rightarrow> (level \<times> limit) option" where
  "blocking [] score value = None"
| "blocking (level # rest) score value =
     (case covering (lv_thresholds level) (fst score) (snd score) of
        Some l \<Rightarrow> if li_value l \<le> value then Some (level, l) else blocking rest score value
      | None \<Rightarrow> blocking rest score value)"

definition dead_limit ::
  "level list \<Rightarrow> (string \<times> string option) list \<Rightarrow> level \<Rightarrow> limit \<Rightarrow> threshold_error option" where
  "dead_limit stronger scores weaker l =
     (let covered = filter (\<lambda>sc. covering (lv_thresholds weaker) (fst sc) (snd sc) = Some l) scores;
          blocks = map (\<lambda>sc. blocking stronger sc (li_value l)) covered
      in if covered \<noteq> [] \<and> list_all (\<lambda>b. b \<noteq> None) blocks
         then (case hd blocks of
                 Some (level, b) \<Rightarrow> Some (NeverApplies (th_parameter (lv_thresholds weaker), l)
                                           (th_parameter (lv_thresholds level), b))
               | None \<Rightarrow> None)
         else None)"

fun check_levels ::
  "level list \<Rightarrow> (string \<times> string option) list \<Rightarrow> level list \<Rightarrow> threshold_error option" where
  "check_levels stronger scores [] = None"
| "check_levels stronger scores (weaker # rest) =
     (case first_error (map (dead_limit stronger scores weaker) (limits (lv_thresholds weaker))) of
        Some e \<Rightarrow> Some e
      | None \<Rightarrow> check_levels (stronger @ [weaker]) scores rest)"

definition check_live :: "level list \<Rightarrow> string list \<Rightarrow> threshold_error option" where
  "check_live levels names = check_levels [] (score_classes levels names) levels"

section \<open>The decision\<close>

record crossing =
  cr_reported :: "observation reported"
  cr_dimension :: "string option"
  cr_score :: rat
  cr_limit :: limit

definition explain :: "crossing \<Rightarrow> string" where
  "explain c =
     (let reason = (case cr_dimension c of
            Some d \<Rightarrow> if li_key (cr_limit c) = default_key
                      then ''suspicion '' @ two_places (cr_score c) @ '' from '' @ rp_name (cr_reported c)
                      else d @ '' '' @ two_places (cr_score c) @ '' '' @ [CHR 0xE2, CHR 0x89, CHR 0xA5]
                           @ '' '' @ two_places (li_value (cr_limit c)) @ '' from '' @ rp_name (cr_reported c)
          | None \<Rightarrow> ''suspicion '' @ two_places (cr_score c) @ '' from '' @ rp_name (cr_reported c))
      in case nonempty (o_explanation (rp_report (cr_reported c))) of
           Some t \<Rightarrow> reason @ '': '' @ t
         | None \<Rightarrow> reason)"

definition scores_of :: "observation reported \<Rightarrow> (string option \<times> rat) list" where
  "scores_of r =
     (case o_suspicion (rp_report r) of
        Single x \<Rightarrow> [(None, x)]
      | Dims ds \<Rightarrow> map (\<lambda>(d, x). (Some d, x)) ds)"

text \<open>The two loops of \<open>_crossing\<close>: the highest score so far that reached a threshold.\<close>

fun cross_scores ::
  "thresholds \<Rightarrow> observation reported \<Rightarrow> (string option \<times> rat) list \<Rightarrow> crossing option \<Rightarrow> crossing option" where
  "cross_scores th r [] highest = highest"
| "cross_scores th r ((d, x) # rest) highest =
     cross_scores th r rest
       (case covering th (rp_name r) d of
          None \<Rightarrow> highest
        | Some l \<Rightarrow>
            if x < li_value l then highest
            else if (case highest of None \<Rightarrow> True | Some c \<Rightarrow> x > cr_score c)
              then Some \<lparr>cr_reported = r, cr_dimension = d, cr_score = x, cr_limit = l\<rparr>
              else highest)"

fun cross_observations ::
  "thresholds \<Rightarrow> observation reported list \<Rightarrow> crossing option \<Rightarrow> crossing option" where
  "cross_observations th [] highest = highest"
| "cross_observations th (r # rs) highest =
     cross_observations th rs (cross_scores th r (scores_of r) highest)"

definition find_crossing :: "observation reported list \<Rightarrow> thresholds \<Rightarrow> crossing option" where
  "find_crossing obs th = cross_observations th obs None"

definition crossing_references :: "crossing \<Rightarrow> observation reported list \<Rightarrow> reference list" where
  "crossing_references c obs =
     foldl (\<lambda>refs r. extend_new refs (o_references (rp_report r)))
       (o_references (rp_report (cr_reported c))) obs"

definition suspicion_json :: "suspicion \<Rightarrow> json" where
  "suspicion_json s = (case s of Single x \<Rightarrow> JNum x | Dims ds \<Rightarrow> JObj (map (\<lambda>(d, x). (d, JNum x)) ds))"

definition observations_json :: "observation reported list \<Rightarrow> json" where
  "observations_json obs = JList (map (\<lambda>r. JObj
     [(''monitor'', JStr (rp_name r)), (''suspicion'', suspicion_json (o_suspicion (rp_report r))),
      (''explanation'', case o_explanation (rp_report r) of None \<Rightarrow> JNull | Some t \<Rightarrow> JStr t)]) obs)"

fun decide_level :: "level list \<Rightarrow> observation reported list \<Rightarrow> decision" where
  "decide_level [] obs = decision_proceed None []"
| "decide_level (level # rest) obs =
     (case find_crossing obs (lv_thresholds level) of
        None \<Rightarrow> decide_level rest obs
      | Some c \<Rightarrow>
          (plain_decision (lv_action level) (Some (explain c)) (crossing_references c obs))
            \<lparr>d_metadata := Some [(''observations'', observations_json obs)]\<rparr>)"

definition decide :: "level list \<Rightarrow> observations \<Rightarrow> exc + decision" where
  "decide levels observations =
     bind_err (obs_read observations) (\<lambda>obs.
       Inr (if obs = [] then decision_proceed (Some ''no monitor reported'') [] else decide_level levels obs))"

section \<open>The configured protocol\<close>

fun read_levels ::
  "string list \<Rightarrow> (string \<times> action \<times> given option) list \<Rightarrow> threshold_error + level list" where
  "read_levels names [] = Inr []"
| "read_levels names ((parameter, act, None) # rest) = read_levels names rest"
| "read_levels names ((parameter, act, Some g) # rest) =
     bind_err (read_thresholds parameter g names) (\<lambda>th.
       bind_err (read_levels names rest) (\<lambda>levels.
         Inr (\<lparr>lv_thresholds = th, lv_action = act\<rparr> # levels)))"

definition rejects_where_watched :: "bool \<Rightarrow> (string \<times> sentinel) list \<Rightarrow> threshold_error option" where
  "rejects_where_watched rejecting named =
     first_error (concat (map (\<lambda>(name, child). map (\<lambda>m.
        if rejecting \<and> ToolCallStage \<notin> set (accepted_stages m)
        then Some (NeverWatchesCall (describe name (function_name m) (is_group child))) else None)
        (members child)) named))"

definition threshold ::
  "children_spec \<Rightarrow> given option \<Rightarrow> given option \<Rightarrow> given option \<Rightarrow> threshold_error + sentinel" where
  "threshold monitors escalate_at reject_at terminate_at =
     (case named_children monitors (Some MonitorKind) of
        Inl e \<Rightarrow> Inl (BadMonitors e)
      | Inr [] \<Rightarrow> Inl (BadMonitors (NoChildren ''threshold''))
      | Inr named \<Rightarrow>
          bind_err (read_levels (map fst named)
              [(''terminate_at'', Terminate, terminate_at), (''reject_at'', Reject, reject_at),
               (''escalate_at'', Escalate, escalate_at)]) (\<lambda>levels.
            if levels = [] then Inl NoLevels
            else case check_live levels (map fst named) of
              Some e \<Rightarrow> Inl e
            | None \<Rightarrow>
                (case rejects_where_watched (reject_at \<noteq> None) named of
                   Some e \<Rightarrow> Inl e
                 | None \<Rightarrow>
                     (let watched = concat (map (\<lambda>(n, c). concat (map accepted_stages (members c))) named);
                          body = (\<lambda>path step escs. PRun ''run_monitors'' path step named [] (\<lambda>r.
                            case r of
                              Inl e \<Rightarrow> PRaise e
                            | Inr rs \<Rightarrow> (case decide levels (rs_observations rs) of
                                Inl e \<Rightarrow> PRaise e | Inr d \<Rightarrow> PReturn (Some (RDec d)))));
                          functions = map (\<lambda>(st, n). Member n [st] body)
                            (filter (\<lambda>(st, n). st \<in> set watched)
                              [(ToolCallStage, ''tool_call''), (ToolResultStage, ''tool_result''),
                               (ModelInput, ''model_input''), (ModelOutputStage, ''model_output'')])
                      in Inr (Sentinel ProtocolKind ''inspect_sentinel/threshold'' ''threshold''
                           (case functions of [f] \<Rightarrow> OneFunction f | _ \<Rightarrow> FunctionGroup functions))))))"

section \<open>The highest score\<close>

text \<open>Every score of a report, or of a layer, that reaches its threshold.\<close>

definition crossings :: "thresholds \<Rightarrow> observation reported \<Rightarrow> crossing list" where
  "crossings th r =
     List.map_filter (\<lambda>(d, x). case covering th (rp_name r) d of
         None \<Rightarrow> None
       | Some l \<Rightarrow> if x < li_value l then None
                   else Some \<lparr>cr_reported = r, cr_dimension = d, cr_score = x, cr_limit = l\<rparr>) (scores_of r)"

definition all_crossings :: "thresholds \<Rightarrow> observation reported list \<Rightarrow> crossing list" where
  "all_crossings th obs = concat (map (crossings th) obs)"

lemma cross_scores_foldl:
  "cross_scores th r xs highest =
     foldl (keep_higher cr_score) highest
       (List.map_filter (\<lambda>(d, x). case covering th (rp_name r) d of
         None \<Rightarrow> None
       | Some l \<Rightarrow> if x < li_value l then None
                   else Some \<lparr>cr_reported = r, cr_dimension = d, cr_score = x, cr_limit = l\<rparr>) xs)"
proof (induction xs arbitrary: highest)
  case (Cons p xs)
  then show ?case
    by (cases p) (auto simp: keep_higher_def List.map_filter_def split: option.splits)
qed (simp add: List.map_filter_def)

lemma cross_observations_foldl:
  "cross_observations th obs highest = foldl (keep_higher cr_score) highest (all_crossings th obs)"
  by (induction obs arbitrary: highest)
    (simp_all add: all_crossings_def cross_scores_foldl crossings_def)

interpretation highest_crossing: strongest_by cr_score "first_max cr_score"
  by unfold_locales (auto dest: first_max_Some)

lemma find_crossing_first_max: "find_crossing obs th = first_max cr_score (all_crossings th obs)"
  by (simp add: find_crossing_def cross_observations_foldl foldl_keep_higher)

lemma find_crossing_None: "find_crossing obs th = None \<longleftrightarrow> all_crossings th obs = []"
  by (simp add: find_crossing_first_max)

text \<open>The two loops over a layer's scores name the highest score that reached a threshold,
  the first in configuration order on a tie.\<close>

theorem crossing_highest:
  "find_crossing obs th = first_max cr_score (all_crossings th obs)"
  by (rule find_crossing_first_max)

section \<open>The strongest level\<close>

lemma decide_level_action:
  "d_action (decide_level levels obs) =
     (case find (\<lambda>l. all_crossings (lv_thresholds l) obs \<noteq> []) levels of
        None \<Rightarrow> Proceed | Some l \<Rightarrow> lv_action l)"
proof (induction levels)
  case (Cons l levels)
  show ?case
  proof (cases "all_crossings (lv_thresholds l) obs = []")
    case True
    with find_crossing_None have "find_crossing obs (lv_thresholds l) = None" by blast
    with True Cons show ?thesis by simp
  next
    case False
    then obtain c where "find_crossing obs (lv_thresholds l) = Some c"
      using find_crossing_None by fastforce
    with False show ?thesis by (simp add: plain_decision_def)
  qed
qed (simp add: decision_makers)

text \<open>The decision is the action of the first level, terminate before reject before
  escalate, that any score reaches, and to proceed when none is reached.\<close>

theorem decide_strongest_level:
  "map_sum id d_action (decide levels \<lparr>obs_items = r # rs, obs_failed = []\<rparr>) =
     Inr (case find (\<lambda>l. all_crossings (lv_thresholds l) (r # rs) \<noteq> []) levels of
            None \<Rightarrow> Proceed | Some l \<Rightarrow> lv_action l)"
  by (simp add: decide_def obs_read_def obs_check_def decide_level_action)

text \<open>A failed monitor fails the decision: nothing is decided without one of the monitors.\<close>

theorem decide_needs_every_monitor:
  "decide levels \<lparr>obs_items = items, obs_failed = f # fs\<rparr> = Inl (MonitorsFailed (Suc (length fs)))"
  by (simp add: decide_def obs_read_def obs_check_def)

section \<open>Thresholds that can apply\<close>

lemma blocking_None:
  "blocking stronger score v = None \<longleftrightarrow>
     (\<forall>level\<in>set stronger. \<forall>l. covering (lv_thresholds level) (fst score) (snd score) = Some l \<longrightarrow> v < li_value l)"
  by (induction stronger score v rule: blocking.induct) (auto split: option.splits)

lemma dead_limit_None:
  assumes "dead_limit stronger scores weaker l = None"
    and "sc \<in> set scores" "covering (lv_thresholds weaker) (fst sc) (snd sc) = Some l"
  shows "\<exists>sc\<in>set scores. covering (lv_thresholds weaker) (fst sc) (snd sc) = Some l
           \<and> blocking stronger sc (li_value l) = None"
proof -
  let ?covered = "filter (\<lambda>sc. covering (lv_thresholds weaker) (fst sc) (snd sc) = Some l) scores"
  let ?blocks = "map (\<lambda>sc. blocking stronger sc (li_value l)) ?covered"
  have ne: "?covered \<noteq> []" using assms(2,3) by (auto simp: filter_empty_conv)
  have "\<not> list_all (\<lambda>b. b \<noteq> None) ?blocks"
  proof
    assume all: "list_all (\<lambda>b. b \<noteq> None) ?blocks"
    with ne have "hd ?blocks \<noteq> None" by (cases ?covered) auto
    with all ne assms(1) show False by (auto simp: dead_limit_def Let_def split: prod.splits)
  qed
  then have "None \<in> set ?blocks" unfolding list_all_iff by metis
  then obtain sc' where "sc' \<in> set ?covered" "None = blocking stronger sc' (li_value l)"
    by (auto simp only: set_map image_iff)
  then show ?thesis by (intro bexI [of _ sc']) simp_all
qed

lemma check_levels_None:
  "check_levels stronger scores levels = None \<Longrightarrow> i < length levels \<Longrightarrow>
     l \<in> set (limits (lv_thresholds (levels ! i))) \<Longrightarrow>
     dead_limit (stronger @ take i levels) scores (levels ! i) l = None"
proof (induction stronger scores levels arbitrary: i rule: check_levels.induct)
  case (2 stronger scores weaker rest)
  then have none: "first_error (map (dead_limit stronger scores weaker) (limits (lv_thresholds weaker))) = None"
    and rest: "check_levels (stronger @ [weaker]) scores rest = None"
    by (simp_all split: option.splits)
  show ?case
  proof (cases i)
    case 0
    with none 2(4) show ?thesis by (simp add: first_error_None)
  next
    case (Suc j)
    with 2(1) [OF none rest, of j] 2(3,4) show ?thesis by simp
  qed
qed simp

text \<open>A report of one score of a class.\<close>

definition probe :: "string \<times> string option \<Rightarrow> rat \<Rightarrow> observation reported" where
  "probe sc v = \<lparr>rp_name = fst sc, rp_path = fst sc,
     rp_report = observation_score (case snd sc of None \<Rightarrow> Single v | Some d \<Rightarrow> Dims [(d, v)]) None [] None,
     rp_function = ''probe''\<rparr>"

lemma probe_scores: "scores_of (probe sc v) = [(snd sc, v)]"
  by (simp add: probe_def scores_of_def observation_score_def split: option.splits)

lemma probe_crossings:
  "all_crossings th [probe sc v] \<noteq> [] \<longleftrightarrow>
     (\<exists>l. covering th (fst sc) (snd sc) = Some l \<and> li_value l \<le> v)"
proof -
  have "rp_name (probe sc v) = fst sc" by (simp add: probe_def)
  then show ?thesis
    by (auto simp: all_crossings_def crossings_def probe_scores List.map_filter_def split: option.splits)
qed

lemma find_at:
  "i < length xs \<Longrightarrow> P (xs ! i) \<Longrightarrow> \<forall>j<i. \<not> P (xs ! j) \<Longrightarrow> find P xs = Some (xs ! i)"
  by (auto simp: find_Some_iff)


definition two_levels :: "level list" where
  "two_levels =
     [\<lparr>lv_thresholds = \<lparr>th_parameter = ''terminate_at'', th_shorthand = True, th_qualified = [], th_bare = [],
        th_default = Some \<lparr>li_key = ''*'', li_value = 9 / 10\<rparr>\<rparr>, lv_action = Terminate\<rparr>,
      \<lparr>lv_thresholds = \<lparr>th_parameter = ''escalate_at'', th_shorthand = True, th_qualified = [], th_bare = [],
        th_default = Some \<lparr>li_key = ''*'', li_value = 3 / 5\<rparr>\<rparr>, lv_action = Escalate\<rparr>]"


section \<open>Keys\<close>

text \<open>A dotted key is read as one monitor's dimension, and the monitor is the longest
  instance name that prefixes it.\<close>

theorem qualify_longest:
  assumes "qualify parameter key names = Inr (n, d)"
  shows "key = n @ ''.'' @ d \<and> n \<in> set names
     \<and> list_all (\<lambda>m. \<not> starts_with key (m @ ''.'') \<or> length m \<le> length n) names"
proof -
  let ?qs = "filter (\<lambda>n. starts_with key (n @ ''.'')) names"
  from assms have f: "first_max length ?qs = Some n" and d: "d = drop (length n + 1) key"
    by (auto simp: qualify_def split: option.splits)
  from first_max_Some [OF f] have n: "n \<in> set names" "starts_with key (n @ ''.'')"
    and max: "\<forall>m\<in>set ?qs. length m \<le> length n" by auto
  from n(2) obtain rest where "key = (n @ ''.'') @ rest" by (auto simp: starts_with_iff)
  with d have "key = n @ ''.'' @ d" by simp
  with n max show ?thesis by (auto simp: list_all_iff)
qed

theorem qualify_longest_witness:
  "''a.b.c'' = ''a.b'' @ ''.'' @ ''c''"
proof -
  have "qualify ''terminate_at'' ''a.b.c'' [''a'', ''a.b''] = Inr (''a.b'', ''c'')"
    by (simp add: qualify_def starts_with_def)
  from qualify_longest [OF this] show ?thesis by blast
qed

end
