(* ===== verification/Preprocess.thy ===== *)
theory Preprocess
  imports Execution
begin

text \<open>
  What a monitor shows a model of a step (\<open>_preprocess.py\<close>): the windows over the
  conversations, the marks an incremental window keeps, the omissions, the messages a cut to
  fit a context window drops, and the blocks a step is rendered in. The numbering of
  messages is inspect_scout's and the JSON of the tools pydantic's: they are parameters, as
  is the text inspect_ai derives from a message's content.
\<close>

section \<open>Windows\<close>

datatype window =
    AllMessages
  | LastTurns nat
  | LastMessages nat
  | NewSinceLastReport string

datatype source = InputList | HistoryList | AgentMessagesList

text \<open>\<open>_turns_start\<close>: the loop runs over the positions from the last to the first; \<open>start\<close> is the
  earliest of the turns counted so far, with \<open>n\<close> left to count.\<close>

fun turns_from :: "messages \<Rightarrow> nat \<Rightarrow> nat \<Rightarrow> nat \<Rightarrow> nat" where
  "turns_from ms 0 n start = 0"
| "turns_from ms (Suc i) n start =
     (if cm_role (ms ! i) = Assistant then
        (if n = 0 then start else turns_from ms i (n - 1) i)
      else turns_from ms i n start)"

definition turns_start :: "messages \<Rightarrow> nat \<Rightarrow> nat" where
  "turns_start ms n = (if n = 0 then length ms else turns_from ms (length ms) n 0)"

text \<open>A mark: the id of the last message shown, how many messages had that id then, and the
  position after it.\<close>

type_synonym mark = "string \<times> nat \<times> nat"

definition has_id :: "string \<Rightarrow> chat_message \<Rightarrow> bool" where
  "has_id i m \<longleftrightarrow> cm_id m = Some i"

fun last_with_id_below :: "messages \<Rightarrow> nat \<Rightarrow> (nat \<times> string) option" where
  "last_with_id_below ms 0 = None"
| "last_with_id_below ms (Suc i) =
     (case cm_id (ms ! i) of Some x \<Rightarrow> Some (i, x) | None \<Rightarrow> last_with_id_below ms i)"

definition last_with_id :: "messages \<Rightarrow> (nat \<times> string) option" where
  "last_with_id ms = last_with_id_below ms (length ms)"

definition positions_of_id :: "string \<Rightarrow> messages \<Rightarrow> nat list" where
  "positions_of_id i ms = filter (\<lambda>k. has_id i (ms ! k)) [0..<length ms]"

text \<open>\<open>_resumed\<close>: where to show from, and whether the list only grew. Every mark that is stored
  counts at least one copy (\<open>new_mark_copies\<close>), so the index is never negative.\<close>

definition resumed :: "source \<Rightarrow> messages \<Rightarrow> mark option \<Rightarrow> nat \<times> bool" where
  "resumed source ms seen =
     (case seen of
        None \<Rightarrow> (0, False)
      | Some (i, copies, len) \<Rightarrow>
          if source = HistoryList \<and> 0 < len \<and> len \<le> length ms \<and> has_id i (ms ! (len - 1))
          then (len, True)
          else
            (let found = positions_of_id i ms
             in (if copies \<le> length found then found ! (copies - 1) + 1 else 0, False)))"

text \<open>\<open>_after_mark\<close>: what is shown, and the mark to keep once the function succeeds.\<close>

definition new_mark :: "messages \<Rightarrow> mark option \<Rightarrow> nat \<times> bool \<Rightarrow> mark option" where
  "new_mark ms seen r =
     (case last_with_id ms of
        None \<Rightarrow> None
      | Some (index, i) \<Rightarrow>
          Some (i,
            (case (snd r, seen) of
               (True, Some (j, copies, len)) \<Rightarrow>
                 (if i = j then copies else 0)
                   + length (filter (has_id i) (drop (fst r) (take (index + 1) ms)))
             | _ \<Rightarrow> length (filter (has_id i) ms)),
            index + 1))"

definition after_mark :: "source \<Rightarrow> messages \<Rightarrow> mark option \<Rightarrow> messages \<times> mark option" where
  "after_mark source ms seen =
     (let r = resumed source ms seen in (drop (fst r) ms, new_mark ms seen r))"

text \<open>The store entry of a mark: the monitor's path, the conversation, the list and the function.
  \<open>_mark_key\<close> writes the four as JSON, which keeps them apart.\<close>

type_synonym mark_key = "string \<times> string \<times> source \<times> string"

text \<open>\<open>_cut\<close>: what a window keeps, and the mark it will store. \<open>running\<close> is the function of the
  current invocation.\<close>

definition cut_window ::
  "(mark_key \<Rightarrow> mark option) \<Rightarrow> string option \<Rightarrow> step \<Rightarrow> source \<Rightarrow> messages \<Rightarrow> window
     \<Rightarrow> exc + messages \<times> (mark_key \<times> mark) list" where
  "cut_window marks running step source ms w =
     (case w of
        AllMessages \<Rightarrow> Inr (ms, [])
      | LastTurns n \<Rightarrow> Inr (drop (turns_start ms n) ms, [])
      | LastMessages n \<Rightarrow> Inr (drop (length ms - min n (length ms)) ms, [])
      | NewSinceLastReport path \<Rightarrow>
          (case running of
             None \<Rightarrow> Inl (UserRaised RuntimeError ''NewSinceLastReport'')
           | Some fn \<Rightarrow>
               (let key = (path, step_conversation step, source, fn);
                    shown = after_mark source ms (marks key)
                in Inr (fst shown, case snd shown of None \<Rightarrow> [] | Some m \<Rightarrow> [(key, m)]))))"

section \<open>What every window keeps\<close>

text \<open>The client of a window: what it keeps is the end of the list it is given.\<close>

locale suffix_window =
  fixes keep :: "'a list \<Rightarrow> 'a list"
  assumes keep_suffix: "suffix (keep xs) xs"
begin

lemma keep_set: "set (keep xs) \<subseteq> set xs"
  using keep_suffix by (rule set_mono_suffix)

lemma keep_order: "subseq (keep xs) xs"
  using keep_suffix by (rule suffix_imp_subseq)

lemma keep_Nil: "keep [] = []"
  using keep_suffix [of "[]"] by simp

lemma keep_dropped: "keep xs = drop (length xs - length (keep xs)) xs"
proof -
  obtain zs where "xs = zs @ keep xs" using keep_suffix [of xs] by (auto simp: suffix_def)
  then have "length xs - length (keep xs) = length zs" "drop (length zs) xs = keep xs"
    by (metis add_diff_cancel_right' length_append, metis append_eq_conv_conj)
  then show ?thesis by simp
qed

lemma keep_last: "keep xs \<noteq> [] \<Longrightarrow> last (keep xs) = last xs"
  by (metis keep_suffix last_appendR suffixE)

end

interpretation last_turns: suffix_window "\<lambda>ms. drop (turns_start ms n) ms" for n
  by unfold_locales (rule suffix_drop)

interpretation last_messages: suffix_window "\<lambda>ms. drop (length ms - min n (length ms)) ms" for n
  by unfold_locales (rule suffix_drop)

interpretation new_since: suffix_window "\<lambda>ms. fst (after_mark source ms seen)" for source seen
  by unfold_locales (simp add: after_mark_def Let_def suffix_drop)

text \<open>The turns of a list are its assistant messages.\<close>

definition turns :: "messages \<Rightarrow> nat" where
  "turns ms = length (filter (\<lambda>m. cm_role m = Assistant) ms)"

lemma turns_append [simp]: "turns (xs @ ys) = turns xs + turns ys"
  by (simp add: turns_def)

lemma turns_simps [simp]: "turns [] = 0"
  "turns (m # ms) = (if cm_role m = Assistant then 1 else 0) + turns ms"
  by (simp_all add: turns_def)

lemma take_Suc_turns:
  "i < length ms \<Longrightarrow> turns (take (Suc i) ms) = turns (take i ms) + (if cm_role (ms ! i) = Assistant then 1 else 0)"
  by (simp add: take_Suc_conv_app_nth)

lemma drop_turns: "turns (drop i ms) = turns ms - turns (take i ms)"
  using turns_append [of "take i ms" "drop i ms"] by simp

lemma turns_from_correct:
  "i \<le> length ms \<Longrightarrow> start \<le> length ms \<Longrightarrow> i \<le> start \<Longrightarrow> turns (drop i ms) = turns (drop start ms) \<Longrightarrow>
     (let k = turns_from ms i n start
      in k \<le> length ms
         \<and> (if turns (take i ms) \<le> n then k = 0
            else turns (drop k ms) = turns (drop start ms) + n
                 \<and> (k = start \<or> (k < length ms \<and> cm_role (ms ! k) = Assistant))))"
proof (induction ms i n start rule: turns_from.induct)
  case (1 ms n start)
  then show ?case by (simp add: Let_def)
next
  case (2 ms i n start)
  from "2.prems" have i: "i < length ms" by simp
  have d: "turns (drop i ms) = (if cm_role (ms ! i) = Assistant then 1 else 0) + turns (drop (Suc i) ms)"
    using i by (simp add: Cons_nth_drop_Suc [symmetric])
  show ?case
  proof (cases "cm_role (ms ! i) = Assistant")
    case False
    have "let k = turns_from ms i n start in k \<le> length ms
         \<and> (if turns (take i ms) \<le> n then k = 0
            else turns (drop k ms) = turns (drop start ms) + n
                 \<and> (k = start \<or> (k < length ms \<and> cm_role (ms ! k) = Assistant)))"
      by (rule "2.IH"(2) [OF False]) (use "2.prems" d False i in simp_all)
    with False i show ?thesis by (simp add: take_Suc_turns)
  next
    case True
    show ?thesis
    proof (cases "n = 0")
      case n: True
      with True i "2.prems" show ?thesis by (simp add: take_Suc_turns Let_def)
    next
      case n: False
      have "let k = turns_from ms i (n - 1) i in k \<le> length ms
         \<and> (if turns (take i ms) \<le> n - 1 then k = 0
            else turns (drop k ms) = turns (drop i ms) + (n - 1)
                 \<and> (k = i \<or> (k < length ms \<and> cm_role (ms ! k) = Assistant)))"
        by (rule "2.IH"(1) [OF True n]) (use i in simp_all)
      with True n i d "2.prems" show ?thesis
        by (auto simp: take_Suc_turns Let_def split: if_splits)
    qed
  qed
qed

text \<open>\<open>LastTurns n\<close> keeps a conversation of at most \<open>n\<close> turns whole, and of a longer one
  exactly \<open>n\<close> turns, starting at an assistant message, so a call is never cut from its result.\<close>

theorem last_turns_exact:
  "turns (drop (turns_start ms n) ms) = min n (turns ms)
   \<and> (if turns ms \<le> n \<and> n \<noteq> 0 then drop (turns_start ms n) ms = ms
      else drop (turns_start ms n) ms = [] \<or> cm_role (hd (drop (turns_start ms n) ms)) = Assistant)"
proof (cases "n = 0")
  case True
  then show ?thesis by (simp add: turns_start_def)
next
  case False
  obtain m where n: "n = Suc m" using False by (cases n) auto
  define k where "k = turns_from ms (length ms) n 0"
  have start: "turns_start ms n = k" using False by (simp add: turns_start_def k_def)
  show ?thesis
  proof (cases "turns ms = 0")
    case True
    have "turns_from ms i n 0 = 0" if "i \<le> length ms" for i
      using that True
    proof (induction i)
      case (Suc i)
      then have "cm_role (ms ! i) \<noteq> Assistant"
        by (auto simp: turns_def filter_empty_conv)
      with Suc show ?case by simp
    qed simp
    with start True n show ?thesis by (simp add: k_def)
  next
    case False
    have "let k = turns_from ms (length ms) n (length ms)
      in k \<le> length ms \<and> (if turns (take (length ms) ms) \<le> n then k = 0
            else turns (drop k ms) = turns (drop (length ms) ms) + n
                 \<and> (k = length ms \<or> (k < length ms \<and> cm_role (ms ! k) = Assistant)))"
      by (rule turns_from_correct) simp_all
    moreover have "turns_from ms i n 0 = turns_from ms i n (length ms)" for i
      by (induction i) (simp_all add: n)
    ultimately have "k \<le> length ms" "turns ms \<le> n \<Longrightarrow> k = 0"
      "\<not> turns ms \<le> n \<Longrightarrow> turns (drop k ms) = n \<and> (k = length ms \<or> (k < length ms \<and> cm_role (ms ! k) = Assistant))"
      by (simp_all add: k_def Let_def split: if_splits)
    then show ?thesis unfolding start using n by (auto simp: hd_drop_conv_nth)
  qed
qed

section \<open>Showing only what is new\<close>

lemma last_with_id_below_Some:
  "last_with_id_below ms k = Some (i, x) \<longleftrightarrow>
     i < k \<and> cm_id (ms ! i) = Some x \<and> (\<forall>j. i < j \<longrightarrow> j < k \<longrightarrow> cm_id (ms ! j) = None)"
proof (induction ms k rule: last_with_id_below.induct)
  case (2 ms k)
  then show ?case
    by (auto simp: less_Suc_eq split: option.splits)
qed simp

lemma last_with_id_Some:
  "last_with_id ms = Some (i, x) \<longleftrightarrow>
     i < length ms \<and> has_id x (ms ! i) \<and> (\<forall>j. i < j \<longrightarrow> j < length ms \<longrightarrow> cm_id (ms ! j) = None)"
  by (simp add: last_with_id_def last_with_id_below_Some has_id_def)

lemma copies_upto_last:
  assumes "last_with_id ms = Some (i, x)"
  shows "length (filter (has_id x) ms) = length (filter (has_id x) (take (Suc i) ms))"
proof -
  have "filter (has_id x) (drop (Suc i) ms) = []"
    using assms by (auto simp: last_with_id_Some filter_empty_conv in_set_conv_nth has_id_def)
  then have "filter (has_id x) (take (Suc i) ms @ drop (Suc i) ms) = filter (has_id x) (take (Suc i) ms)"
    by (simp only: filter_append append_Nil2)
  then show ?thesis by simp
qed

lemma filter_index_length:
  "length (filter (\<lambda>k. P (ms ! k)) [0..<length ms]) = length (filter P ms)"
proof -
  have "map ((!) ms) (filter (\<lambda>k. P (ms ! k)) [0..<length ms]) = filter P (map ((!) ms) [0..<length ms])"
    by (simp add: filter_map comp_def)
  then have "map ((!) ms) (filter (\<lambda>k. P (ms ! k)) [0..<length ms]) = filter P ms" by (simp add: map_nth)
  then show ?thesis by (metis length_map)
qed

text \<open>The copies of an id in a list and its continuation: those of the list come first, and the
  last of them is where it was.\<close>

lemma positions_split:
  assumes "i < length ms" "has_id x (ms ! i)"
  shows "\<exists>rest. positions_of_id x ms = filter (\<lambda>k. has_id x (ms ! k)) [0..<i] @ i # rest
     \<and> length (filter (\<lambda>k. has_id x (ms ! k)) [0..<i]) = length (filter (has_id x) (take i ms))"
proof -
  have up: "[0..<length ms] = [0..<i] @ i # [Suc i..<length ms]"
    using upt_add_eq_append [of 0 i "length ms - i"] assms(1) by (simp add: upt_conv_Cons)
  have "length (filter (\<lambda>k. has_id x (ms ! k)) [0..<i]) = length (filter (has_id x) (take i ms))"
  proof -
    have "filter (\<lambda>k. has_id x (ms ! k)) [0..<i] = filter (\<lambda>k. has_id x (take i ms ! k)) [0..<length (take i ms)]"
      using assms(1) by (auto intro: filter_cong)
    then show ?thesis by (simp only: filter_index_length)
  qed
  with assms(2) show ?thesis
    unfolding positions_of_id_def up by auto
qed

lemma resumed_marked:
  assumes l: "last_with_id ms = Some (i, x)" and c: "copies = length (filter (has_id x) ms)"
  shows "fst (resumed source (ms @ new) (Some (x, copies, i + 1))) = i + 1"
proof -
  from l have i: "i < length ms" "has_id x (ms ! i)" by (simp_all add: last_with_id_Some)
  let ?ms = "ms @ new"
  from i have i': "i < length ?ms" "has_id x (?ms ! i)" by (simp_all add: nth_append)
  from positions_split [OF i'] obtain rest where
    pos: "positions_of_id x ?ms = filter (\<lambda>k. has_id x (?ms ! k)) [0..<i] @ i # rest"
    and len: "length (filter (\<lambda>k. has_id x (?ms ! k)) [0..<i]) = length (filter (has_id x) (take i ms))"
    using i(1) by auto
  have "copies = Suc (length (filter (has_id x) (take i ms)))"
    using copies_upto_last [OF l] i c by (simp add: take_Suc_conv_app_nth)
  with pos len i' show ?thesis
    by (auto simp: resumed_def Let_def nth_append)
qed

text \<open>A mark made from a whole list: what a function that had no mark before, or whose list was
  rewritten, stores.\<close>

lemma new_mark_whole:
  "new_mark ms seen (start, False) =
     (case last_with_id ms of None \<Rightarrow> None
      | Some (i, x) \<Rightarrow> Some (x, length (filter (has_id x) ms), i + 1))"
  by (simp add: new_mark_def split: option.splits prod.splits)

lemma new_mark_copies:
  assumes "new_mark ms seen r = Some (x, copies, len)" "\<not> snd r"
  shows "1 \<le> copies \<and> 0 < len \<and> len \<le> length ms \<and> has_id x (ms ! (len - 1))"
proof -
  from assms have "new_mark ms seen (fst r, False) = Some (x, copies, len)" by (cases r) auto
  then obtain i where i: "last_with_id ms = Some (i, x)" "copies = length (filter (has_id x) ms)" "len = i + 1"
    by (auto simp: new_mark_whole split: option.splits)
  then have "ms ! i \<in> set (filter (has_id x) ms)" by (auto simp: last_with_id_Some)
  then have "1 \<le> length (filter (has_id x) ms)" by (simp only: One_nat_def Suc_le_eq length_pos_if_in_set)
  with i show ?thesis by (auto simp: last_with_id_Some)
qed

text \<open>Over a list that only grew since a report, an incremental window shows exactly what came
  after the last message it showed that has an id: nothing it showed before that is shown
  again, and nothing new is missed. It holds for every list, the rewritable ones included.\<close>

theorem incremental_window:
  assumes "last_with_id ms = Some (i, x)"
    and "snd (after_mark source ms None) = Some m"
  shows "fst (after_mark source (ms @ new) (Some m)) = drop (i + 1) (ms @ new)"
proof -
  have "resumed source ms None = (0, False)" by (simp add: resumed_def)
  with assms(2) have "new_mark ms None (0, False) = Some m" by (simp add: after_mark_def)
  with assms(1) have "m = (x, length (filter (has_id x) ms), i + 1)" by (simp add: new_mark_whole)
  with resumed_marked [OF assms(1) refl] show ?thesis by (simp add: after_mark_def Let_def)
qed

definition plain_message :: "role \<Rightarrow> string \<Rightarrow> chat_message" where
  "plain_message r i = \<lparr>cm_role = r, cm_id = Some i, cm_content = Text [], cm_text = [], cm_content_list = [],
     cm_model = None, cm_tool_calls = None, cm_tool_call_id = None, cm_error = None\<rparr>"

theorem incremental_window_witness:
  "fst (after_mark InputList ([plain_message User ''a'', plain_message Assistant ''a''] @ [plain_message User ''b''])
     (Some (''a'', 2, 2))) = [plain_message User ''b'']"
proof -
  let ?ms = "[plain_message User ''a'', plain_message Assistant ''a'']"
  have l: "last_with_id ?ms = Some (1, ''a'')"
    by (simp add: last_with_id_def plain_message_def numeral_2_eq_2)
  have m: "snd (after_mark InputList ?ms None) = Some (''a'', 2, 2)"
    by (simp add: after_mark_def resumed_def new_mark_whole l) (simp add: has_id_def plain_message_def)
  from incremental_window [OF l m] show ?thesis by simp
qed

text \<open>Over \<open>history\<close>, step after step: the list a step shows, and its mark for the next.\<close>

fun shown_over :: "messages \<Rightarrow> mark option \<Rightarrow> messages list \<Rightarrow> messages list" where
  "shown_over ms seen [] = []"
| "shown_over ms seen (new # news) =
     (let r = after_mark HistoryList (ms @ new) seen
      in fst r # shown_over (ms @ new) (case snd r of None \<Rightarrow> seen | Some m \<Rightarrow> Some m) news)"

definition mark_at :: "messages \<Rightarrow> mark option \<Rightarrow> bool" where
  "mark_at ms seen \<longleftrightarrow>
     (case seen of
        None \<Rightarrow> ms = []
      | Some (x, copies, len) \<Rightarrow> len = length ms \<and> 0 < len \<and> has_id x (ms ! (len - 1)))"

lemma last_with_id_all:
  assumes "\<forall>m\<in>set ms. cm_id m \<noteq> None" "ms \<noteq> []"
  shows "\<exists>x. last_with_id ms = Some (length ms - 1, x)"
proof -
  from assms have "ms ! (length ms - 1) \<in> set ms" by simp
  with assms(1) obtain x where "cm_id (ms ! (length ms - 1)) = Some x" by blast
  with assms(2) show ?thesis by (auto simp: last_with_id_Some has_id_def intro!: exI [of _ x])
qed

lemma shown_over_all:
  "mark_at ms seen \<Longrightarrow> \<forall>m\<in>set ms. cm_id m \<noteq> None \<Longrightarrow> \<forall>new\<in>set news. \<forall>m\<in>set new. cm_id m \<noteq> None \<Longrightarrow>
     shown_over ms seen news = news"
proof (induction news arbitrary: ms seen)
  case (Cons new news)
  let ?ms = "ms @ new"
  have r: "resumed HistoryList ?ms seen = (length ms, seen \<noteq> None)"
    using Cons.prems(1) by (auto simp: mark_at_def resumed_def nth_append split: option.splits)
  have ids: "\<forall>m\<in>set ?ms. cm_id m \<noteq> None" using Cons.prems(2,3) by auto
  let ?m = "new_mark ?ms seen (length ms, seen \<noteq> None)"
  let ?seen = "case ?m of None \<Rightarrow> seen | Some m \<Rightarrow> Some m"
  have "mark_at ?ms ?seen"
  proof (cases "?ms = []")
    case True
    then have "last_with_id ?ms = None" by (simp add: last_with_id_def)
    then have "?m = None" by (simp add: new_mark_def)
    with True Cons.prems(1) show ?thesis by (auto simp: mark_at_def split: option.splits)
  next
    case False
    from last_with_id_all [OF ids False] obtain x where x: "last_with_id ?ms = Some (length ?ms - 1, x)" by blast
    then obtain c where "?m = Some (x, c, length ?ms)"
      using False by (auto simp: new_mark_def)
    moreover from x have "has_id x (?ms ! (length ?ms - 1))" unfolding last_with_id_Some by blast
    ultimately show ?thesis using False by (simp add: mark_at_def)
  qed
  from Cons.IH [OF this ids] Cons.prems(3) r show ?case
    by (simp add: after_mark_def Let_def)
qed simp



section \<open>Omissions\<close>

text \<open>\<open>StepPreprocessor\<close>.\<close>

record preprocessor =
  pp_input_window :: "window option"
  pp_history_window :: "window option"
  pp_agent_messages_window :: "window option"
  pp_omit_system :: bool
  pp_omit_reasoning :: bool
  pp_omit_tool_usage :: bool
  pp_transform :: "(step \<Rightarrow> exc + step) option"

definition default_preprocessor :: preprocessor where
  "default_preprocessor = \<lparr>pp_input_window = Some AllMessages, pp_history_window = None,
     pp_agent_messages_window = None, pp_omit_system = True, pp_omit_reasoning = False,
     pp_omit_tool_usage = False, pp_transform = None\<rparr>"

definition kept_item :: "preprocessor \<Rightarrow> content_item \<Rightarrow> bool" where
  "kept_item p c \<longleftrightarrow>
     \<not> (pp_omit_reasoning p \<and> item_type c = ''reasoning'')
     \<and> \<not> (pp_omit_tool_usage p \<and> item_type c = ''tool_use'')"

text \<open>\<open>derive\<close> gives the text and the content list that inspect_ai reads off a content.\<close>

definition thin_message :: "(content \<Rightarrow> string \<times> content_item list) \<Rightarrow> preprocessor \<Rightarrow> chat_message \<Rightarrow> chat_message" where
  "thin_message derive p m =
     (case cm_content m of
        Text t \<Rightarrow> m
      | Items cs \<Rightarrow>
          if \<not> pp_omit_reasoning p \<and> \<not> pp_omit_tool_usage p then m
          else (let c = Items (filter (kept_item p) cs)
                in m\<lparr>cm_content := c, cm_text := fst (derive c), cm_content_list := snd (derive c)\<rparr>))"

definition omitted :: "(content \<Rightarrow> string \<times> content_item list) \<Rightarrow> preprocessor \<Rightarrow> messages \<Rightarrow> messages" where
  "omitted derive p ms =
     map (thin_message derive p) (filter (\<lambda>m. \<not> (pp_omit_system p \<and> cm_role m = System)) ms)"

lemma thin_message_keeps [simp]:
  "cm_role (thin_message derive p m) = cm_role m" "cm_id (thin_message derive p m) = cm_id m"
  "cm_tool_calls (thin_message derive p m) = cm_tool_calls m"
  by (simp_all add: thin_message_def Let_def split: content.splits)

text \<open>Two passes leave out what one does.\<close>

lemma kept_item_idem: "filter (kept_item p) (filter (kept_item p) cs) = filter (kept_item p) cs"
  by simp

lemma thin_message_idem: "thin_message derive p (thin_message derive p m) = thin_message derive p m"
  by (simp add: thin_message_def Let_def split: content.splits)

lemma omitted_idem: "omitted derive p (omitted derive p ms) = omitted derive p ms"
  by (induction ms) (simp_all add: omitted_def thin_message_idem)

section \<open>The preprocessed step\<close>

definition thin_list ::
  "(content \<Rightarrow> string \<times> content_item list) \<Rightarrow> preprocessor \<Rightarrow> (mark_key \<Rightarrow> mark option) \<Rightarrow> string option
     \<Rightarrow> step \<Rightarrow> source \<Rightarrow> messages option \<Rightarrow> window option
     \<Rightarrow> exc + messages option \<times> (mark_key \<times> mark) list" where
  "thin_list derive p marks running step source ms w =
     (case w of
        None \<Rightarrow> Inr (Some [], [])
      | Some w' \<Rightarrow>
          (case ms of
             None \<Rightarrow> Inr (None, [])
           | Some ms' \<Rightarrow>
               bind_err (cut_window marks running step source ms' w')
                 (\<lambda>(shown, saves). Inr (Some (omitted derive p shown), saves))))"

definition known :: "messages option \<Rightarrow> messages" where
  "known ms = (case ms of None \<Rightarrow> [] | Some xs \<Rightarrow> xs)"

fun with_lists :: "step \<Rightarrow> messages option \<Rightarrow> messages option \<Rightarrow> messages option \<Rightarrow> step" where
  "with_lists (BeforeGenerate s) i hist a =
     BeforeGenerate (s\<lparr>bg_input := known i, bg_history := hist, bg_agent_messages := a\<rparr>)"
| "with_lists (AfterGenerate s) i hist a =
     AfterGenerate (s\<lparr>ag_input := known i, ag_history := hist, ag_agent_messages := a\<rparr>)"
| "with_lists (BeforeToolCall s) i hist a =
     BeforeToolCall (s\<lparr>bt_input := i, bt_history := hist, bt_agent_messages := a\<rparr>)"
| "with_lists (AfterToolCall s) i hist a =
     AfterToolCall (s\<lparr>at_input := i, at_history := hist, at_agent_messages := a\<rparr>)"

text \<open>The omissions on a call's result and a reply. \<open>None\<close> is the error of Python's unpacking,
  when an omitted system message leaves nothing.\<close>

fun omit_payload ::
  "(content \<Rightarrow> string \<times> content_item list) \<Rightarrow> preprocessor \<Rightarrow> step \<Rightarrow> step option" where
  "omit_payload derive p (AfterToolCall s) =
     (case omitted derive p [at_result s] of
        [r] \<Rightarrow> Some (AfterToolCall (s\<lparr>at_result := r\<rparr>))
      | _ \<Rightarrow> None)"
| "omit_payload derive p (AfterGenerate s) =
     (let out = ag_output s
      in if list_all (\<lambda>c. omitted derive p [ch_message c] \<noteq> []) (mo_choices out)
         then Some (AfterGenerate (s\<lparr>ag_output :=
                out\<lparr>mo_choices := map (\<lambda>c. c\<lparr>ch_message := hd (omitted derive p [ch_message c])\<rparr>) (mo_choices out)\<rparr>\<rparr>))
         else None)"
| "omit_payload derive p step = Some step"

definition preprocess_step ::
  "(content \<Rightarrow> string \<times> content_item list) \<Rightarrow> (mark_key \<Rightarrow> mark option) \<Rightarrow> string option
     \<Rightarrow> step \<Rightarrow> preprocessor \<Rightarrow> exc + step \<times> (mark_key \<times> mark) list" where
  "preprocess_step derive marks running step p =
     bind_err (thin_list derive p marks running step InputList (step_input step) (pp_input_window p)) (\<lambda>(i, a).
     bind_err (thin_list derive p marks running step HistoryList (step_history step) (pp_history_window p)) (\<lambda>(hist, b).
     bind_err (thin_list derive p marks running step AgentMessagesList (step_agent_messages step)
                 (pp_agent_messages_window p)) (\<lambda>(agents, c).
       case omit_payload derive p (with_lists step i hist agents) of
         None \<Rightarrow> Inl (UserRaised ValueError ''unpack'')
       | Some thinned \<Rightarrow>
           (case pp_transform p of
              None \<Rightarrow> Inr (thinned, a @ b @ c)
            | Some f \<Rightarrow> bind_err (f thinned) (\<lambda>changed. Inr (changed, a @ b @ c))))))"

lemma stage_of_with_lists [simp]: "stage_of (with_lists step i hist a) = stage_of step"
  by (cases step) simp_all

lemma omit_payload_stage: "omit_payload derive p step = Some step' \<Longrightarrow> stage_of step' = stage_of step"
  by (cases step) (auto simp: Let_def split: list.splits if_splits)

text \<open>Without a transform, a step keeps its stage, whatever is left out of it.\<close>

lemma preprocess_stage:
  assumes "preprocess_step derive marks running step p = Inr (step', saves)" "pp_transform p = None"
  shows "stage_of step' = stage_of step"
proof -
  from assms obtain i hist a where "omit_payload derive p (with_lists step i hist a) = Some step'"
    by (auto simp: preprocess_step_def bind_err_Inr split: option.splits)
  from omit_payload_stage [OF this] show ?thesis by simp
qed

section \<open>Cutting the head\<close>

definition shown_list :: "step \<Rightarrow> source \<Rightarrow> messages" where
  "shown_list step source =
     known (case source of InputList \<Rightarrow> step_input step | HistoryList \<Rightarrow> step_history step
              | AgentMessagesList \<Rightarrow> step_agent_messages step)"

definition cut_order :: "source list" where
  "cut_order = [HistoryList, AgentMessagesList, InputList]"

definition cuttable_in :: "step \<Rightarrow> source \<Rightarrow> nat" where
  "cuttable_in step source =
     (let shown = length (shown_list step source)
      in if source = InputList \<and> stage_of step = ModelInput then shown - 1 else shown)"

definition keeps_newest_input :: "step \<Rightarrow> bool" where
  "keeps_newest_input step \<longleftrightarrow> stage_of step = ModelInput \<and> shown_list step InputList \<noteq> []"

definition cuttable :: "step \<Rightarrow> nat" where
  "cuttable step = sum_list (map (cuttable_in step) cut_order)"

type_synonym head_cut = "(source \<times> nat) list"

fun cut_sources :: "step \<Rightarrow> source list \<Rightarrow> nat \<Rightarrow> head_cut" where
  "cut_sources step [] k = []"
| "cut_sources step (src # srcs) k =
     (let taken = min k (cuttable_in step src)
      in if taken = 0 then cut_sources step srcs k
         else (src, taken) # cut_sources step srcs (k - taken))"

definition head_cut :: "step \<Rightarrow> nat \<Rightarrow> head_cut" where
  "head_cut step k = cut_sources step cut_order k"

definition dropped_from :: "head_cut \<Rightarrow> source \<Rightarrow> nat" where
  "dropped_from hc source = (case map_of hc source of None \<Rightarrow> 0 | Some k \<Rightarrow> k)"

lemma dropped_from_other: "src \<notin> set srcs \<Longrightarrow> dropped_from (cut_sources step srcs k) src = 0"
  by (induction step srcs k rule: cut_sources.induct) (auto simp: dropped_from_def Let_def)

lemma dropped_from_first:
  "src \<notin> set srcs \<Longrightarrow> dropped_from (cut_sources step (src # srcs) k) src = min k (cuttable_in step src)"
  using dropped_from_other [of src srcs step k] by (simp add: Let_def) (simp add: dropped_from_def)

lemma dropped_from_rest:
  assumes "src \<noteq> first"
  shows "dropped_from (cut_sources step (first # srcs) k) src
     = dropped_from (cut_sources step srcs (k - cuttable_in step first)) src"
proof -
  have "k - min k (cuttable_in step first) = k - cuttable_in step first" by simp
  with assms show ?thesis by (auto simp: Let_def dropped_from_def min_def)
qed

lemma head_cut_counts:
  "dropped_from (head_cut step k) HistoryList = min k (cuttable_in step HistoryList)"
  "dropped_from (head_cut step k) AgentMessagesList =
     min (k - cuttable_in step HistoryList) (cuttable_in step AgentMessagesList)"
  "dropped_from (head_cut step k) InputList =
     min (k - cuttable_in step HistoryList - cuttable_in step AgentMessagesList) (cuttable_in step InputList)"
  by (simp_all only: head_cut_def cut_order_def dropped_from_first dropped_from_rest source.distinct
      list.set insert_iff empty_iff not_False_eq_True simp_thms diff_diff_left)

text \<open>Cutting \<open>k\<close> messages drops exactly \<open>k\<close> of those that can be cut, from the head of each
  list: HISTORY first, AGENT MESSAGES only once HISTORY is gone and INPUT last; and before a
  generate the newest message of the request is never dropped.\<close>

theorem head_cut_exact:
  "dropped_from (head_cut step k) HistoryList + dropped_from (head_cut step k) AgentMessagesList
     + dropped_from (head_cut step k) InputList = min k (cuttable step)
   \<and> (dropped_from (head_cut step k) AgentMessagesList = 0
      \<or> dropped_from (head_cut step k) HistoryList = length (shown_list step HistoryList))
   \<and> (dropped_from (head_cut step k) InputList = 0
      \<or> dropped_from (head_cut step k) AgentMessagesList = length (shown_list step AgentMessagesList))
   \<and> (keeps_newest_input step \<le> (dropped_from (head_cut step k) InputList < length (shown_list step InputList)))"
proof -
  have c: "cuttable_in step HistoryList = length (shown_list step HistoryList)"
    "cuttable_in step AgentMessagesList = length (shown_list step AgentMessagesList)"
    "cuttable_in step InputList \<le> length (shown_list step InputList)"
    "keeps_newest_input step \<Longrightarrow> cuttable_in step InputList < length (shown_list step InputList)"
    by (auto simp: cuttable_in_def keeps_newest_input_def Let_def)
  have "cuttable step = cuttable_in step HistoryList + cuttable_in step AgentMessagesList + cuttable_in step InputList"
    by (simp add: cuttable_def cut_order_def)
  with c show ?thesis unfolding head_cut_counts by (auto simp: le_fun_def min_def)
qed

section \<open>Rendering\<close>

text \<open>What a step is rendered with: inspect_scout's numbering of messages, over a state that
  counts them; the JSON of the tools; and JSON quoting.\<close>

record 'n renderer =
  rn_numbered :: "'n \<Rightarrow> messages \<Rightarrow> string \<times> 'n"
  rn_tools :: "json list \<Rightarrow> string"
  rn_quote :: "string \<Rightarrow> string"

definition mark_text :: "string option \<Rightarrow> string" where
  "mark_text nonce = (case nonce of None \<Rightarrow> [] | Some n \<Rightarrow> '' ('' @ n @ '')'')"

definition blocks :: "string option \<Rightarrow> (string \<times> string) list \<Rightarrow> string" where
  "blocks nonce parts =
     join (newline @ newline)
       (map (\<lambda>(name, body). ''[BEGIN '' @ name @ mark_text nonce @ '']'' @ newline @ body @ newline
               @ ''[END '' @ name @ mark_text nonce @ '']'')
         (filter (\<lambda>(name, body). body \<noteq> []) parts))"

definition text_of :: "'n renderer \<Rightarrow> 'n \<Rightarrow> messages option \<Rightarrow> string \<Rightarrow> string \<times> 'n" where
  "text_of r n ms unknown =
     (case ms of None \<Rightarrow> (unknown, n) | Some xs \<Rightarrow> if xs = [] then ([], n) else rn_numbered r n xs)"

definition listed ::
  "'n renderer \<Rightarrow> string option \<Rightarrow> head_cut \<Rightarrow> 'n \<Rightarrow> source \<Rightarrow> messages option \<Rightarrow> string \<Rightarrow> string \<times> 'n" where
  "listed r nonce hc n source ms unknown =
     (case ms of
        None \<Rightarrow> (unknown, n)
      | Some xs \<Rightarrow>
          (let dropped = dropped_from hc source
           in case text_of r n (Some (drop dropped xs)) unknown of
                (kept, n') \<Rightarrow>
                  (if dropped = 0 then kept
                   else
                     (let marker = ''['' @ nat_text dropped @ '' earlier messages left out to fit the context window''
                                     @ mark_text nonce @ '']''
                      in if kept = [] then marker else marker @ newline @ kept), n')))"

text \<open>What stands for a list the host could not provide.\<close>

definition no_history :: string where
  "no_history = ''The messages the agent has sent are not available.''"

definition no_agent_messages :: string where
  "no_agent_messages = ''The agent'' @ [CHR 0x27] @ ''s own message list is not available.''"

definition no_input :: string where
  "no_input = ''The model input for this call is not available.''"

definition step_block :: "step \<Rightarrow> string" where
  "step_block step =
     (case step of BeforeToolCall s \<Rightarrow> ''TOOL CALL REQUEST'' | AfterToolCall s \<Rightarrow> ''TOOL CALL RESULT''
        | BeforeGenerate s \<Rightarrow> ''MODEL REQUEST'' | AfterGenerate s \<Rightarrow> ''MODEL REPLY'')"

definition tools_text :: "'n renderer \<Rightarrow> json list option \<Rightarrow> string" where
  "tools_text r tools = (case tools of None \<Rightarrow> [] | Some ts \<Rightarrow> if ts = [] then [] else rn_tools r ts)"

definition tool_choice_text :: "'n renderer \<Rightarrow> tool_choice \<Rightarrow> string" where
  "tool_choice_text r c =
     (case c of
        ChoiceText t \<Rightarrow> rn_quote r t
      | ChoiceFunction t \<Rightarrow> ''{'' @ rn_quote r ''name'' @ '': '' @ rn_quote r t @ ''}'')"

text \<open>\<open>_call\<close> and \<open>_reply\<close>: the message a tool stage shows, and the reply after a generate.\<close>

definition assistant_message ::
  "string option \<Rightarrow> string \<Rightarrow> tool_call list option \<Rightarrow> chat_message" where
  "assistant_message i text calls =
     \<lparr>cm_role = Assistant, cm_id = i, cm_content = Text text, cm_text = text,
      cm_content_list = [TextItem text], cm_model = None, cm_tool_calls = calls,
      cm_tool_call_id = None, cm_error = None\<rparr>"

definition call_message :: "string \<Rightarrow> string \<Rightarrow> tool_call \<Rightarrow> chat_message" where
  "call_message i message call = assistant_message (Some i) message (Some [call])"

definition reply_messages :: "after_generate \<Rightarrow> messages" where
  "reply_messages s =
     [case output_message (ag_output s) of Some m \<Rightarrow> m | None \<Rightarrow> assistant_message None [] None]"

definition render_step :: "'n renderer \<Rightarrow> 'n \<Rightarrow> string option \<Rightarrow> head_cut \<Rightarrow> step \<Rightarrow> string \<times> 'n" where
  "render_step r n0 nonce hc step =
     (let tools = (if step_input step = None then None else step_tools step);
          choice = (if step_input step = None then None else step_tool_choice step)
      in case listed r nonce hc n0 HistoryList (step_history step) no_history of (hist, n1) \<Rightarrow>
         (case listed r nonce hc n1 AgentMessagesList (step_agent_messages step) no_agent_messages of (agents, n2) \<Rightarrow>
         (case listed r nonce hc n2 InputList (step_input step) no_input of (input, n3) \<Rightarrow>
         (case (case step of
                  BeforeGenerate s \<Rightarrow> ([], n3)
                | AfterGenerate s \<Rightarrow>
                    (case text_of r n3 (Some (reply_messages s)) [] of (t, n4) \<Rightarrow> ([blocks nonce [(''REPLY'', t)]], n4))
                | BeforeToolCall s \<Rightarrow>
                    (case text_of r n3 (Some [call_message (bt_message_id s) (bt_message s) (bt_call s)]) [] of
                       (t, n4) \<Rightarrow> ([blocks nonce [(''CALL'', t)]], n4))
                | AfterToolCall s \<Rightarrow>
                    (case text_of r n3 (Some [call_message (at_message_id s) (at_message s) (at_call s)]) [] of
                       (t, n4) \<Rightarrow>
                       (case text_of r n4 (Some [at_result s]) [] of
                          (u, n5) \<Rightarrow> ([blocks nonce [(''CALL'', t)], blocks nonce [(''RESULT'', u)]], n5)))) of
            (own, n6) \<Rightarrow>
              (blocks nonce [(''AGENT STEP - '' @ step_block step,
                 join (newline @ newline) (filter (\<lambda>p. p \<noteq> [])
                   ([blocks nonce [(''HISTORY'', hist), (''AGENT MESSAGES'', agents)],
                     blocks nonce [(''INPUT'', input), (''TOOLS'', tools_text r tools)],
                     (case choice of None \<Rightarrow> []
                      | Some c \<Rightarrow> ''[TOOL CHOICE'' @ mark_text nonce @ ''] '' @ tool_choice_text r c)] @ own)))],
               n6)))))"

text \<open>Which messages a rendering numbers, in order: with the renderer that collects them.\<close>

definition collecting :: "messages renderer" where
  "collecting = \<lparr>rn_numbered = (\<lambda>n ms. (''m'', n @ ms)), rn_tools = (\<lambda>_. ''t''), rn_quote = id\<rparr>"

definition own_messages :: "step \<Rightarrow> messages" where
  "own_messages step =
     (case step of
        BeforeGenerate s \<Rightarrow> []
      | AfterGenerate s \<Rightarrow> reply_messages s
      | BeforeToolCall s \<Rightarrow> [call_message (bt_message_id s) (bt_message s) (bt_call s)]
      | AfterToolCall s \<Rightarrow> [call_message (at_message_id s) (at_message s) (at_call s), at_result s])"

lemma text_of_collecting: "snd (text_of collecting n ms u) = n @ known ms"
  by (simp add: text_of_def collecting_def known_def split: option.splits)

lemma listed_collecting:
  "snd (listed collecting nonce hc n src ms u) = n @ drop (dropped_from hc src) (known ms)"
  using text_of_collecting [of n "Some (drop (dropped_from hc src) (known ms))" u]
  by (auto simp: listed_def known_def Let_def split: option.splits prod.splits)

text \<open>A rendering with a head cut numbers exactly the messages the cut keeps, each list from
  where the cut ends, in the order HISTORY, AGENT MESSAGES, INPUT, and then the step's own; so
  a number a model cites is that of a message it was shown.\<close>

theorem render_numbers_kept:
  "snd (render_step collecting [] nonce (head_cut step k) step) =
     drop (dropped_from (head_cut step k) HistoryList) (shown_list step HistoryList)
     @ drop (dropped_from (head_cut step k) AgentMessagesList) (shown_list step AgentMessagesList)
     @ drop (dropped_from (head_cut step k) InputList) (shown_list step InputList)
     @ own_messages step"
proof -
  let ?c = "head_cut step k"
  define a where "a = listed collecting nonce ?c [] HistoryList (step_history step) no_history"
  define b where "b = listed collecting nonce ?c (snd a) AgentMessagesList (step_agent_messages step) no_agent_messages"
  define d where "d = listed collecting nonce ?c (snd b) InputList (step_input step) no_input"
  have lists: "snd d = drop (dropped_from ?c HistoryList) (shown_list step HistoryList)
     @ drop (dropped_from ?c AgentMessagesList) (shown_list step AgentMessagesList)
     @ drop (dropped_from ?c InputList) (shown_list step InputList)"
    by (simp add: a_def b_def d_def listed_collecting shown_list_def)
  have own: "snd (text_of collecting n (Some ms) u) = n @ ms" for n ms u
    by (simp add: text_of_collecting known_def)
  have "snd (render_step collecting [] nonce ?c step) =
      snd (case step of
                  BeforeGenerate s \<Rightarrow> ([], snd d)
                | AfterGenerate s \<Rightarrow>
                    (case text_of collecting (snd d) (Some (reply_messages s)) [] of (t, n4) \<Rightarrow> ([blocks nonce [(''REPLY'', t)]], n4))
                | BeforeToolCall s \<Rightarrow>
                    (case text_of collecting (snd d) (Some [call_message (bt_message_id s) (bt_message s) (bt_call s)]) [] of
                       (t, n4) \<Rightarrow> ([blocks nonce [(''CALL'', t)]], n4))
                | AfterToolCall s \<Rightarrow>
                    (case text_of collecting (snd d) (Some [call_message (at_message_id s) (at_message s) (at_call s)]) [] of
                       (t, n4) \<Rightarrow>
                       (case text_of collecting n4 (Some [at_result s]) [] of
                          (u, n5) \<Rightarrow> ([blocks nonce [(''CALL'', t)], blocks nonce [(''RESULT'', u)]], n5))))"
    unfolding render_step_def Let_def prod.case_eq_if snd_conv a_def [symmetric] b_def [symmetric] d_def [symmetric] ..
  also have "\<dots> = snd d @ own_messages step"
    by (cases step) (simp_all add: prod.case_eq_if own own_messages_def)
  finally show ?thesis using lists by simp
qed

end
