(* ===== verification/Score.thy ===== *)
theory Score
  imports Preprocess "HOL-Library.List_Lexorder" "HOL-Library.Char_ord"
begin

text \<open>
  Asking a model to score a step (\<open>_score.py\<close>): the checks of the template and of the
  dimensions, the cut that fits the prompt to the model's context window, the attempts, and
  the observation. The host's model and its token counts, Jinja's reading of a template and
  pydantic's validation of an answer are parameters.
\<close>

section \<open>The template and the dimensions\<close>

datatype score_error =
    NegativeRetries
  | ReservedVariables "string list"
  | MissingVariables "string list"
  | UnknownVariables "string list"
  | NoDimensions
  | BadDimensions "string list"
  | PromptTooBig "string list" nat nat
  | ModelLength
  | Refused nat
  | NoValidAnswer string
  | HostFailed exc

definition built_in :: "string list" where
  "built_in = [''instructions'', ''policy'', ''task'', ''eval'', ''step'', ''sentinel_nonce'',
     ''dimensions'', ''answer_format'']"

definition required_variables :: "string list" where
  "required_variables = [''step'', ''answer_format'']"

definition sorted_set :: "string list \<Rightarrow> string list" where
  "sorted_set xs = sort (remdups xs)"

lemma sorted_set_Nil [simp]: "sorted_set xs = [] \<longleftrightarrow> xs = []"
  by (metis set_empty set_remdups set_sort sorted_set_def)

text \<open>\<open>used\<close> are the variables Jinja finds in the template, \<open>extra\<close> the names of
  \<open>template_variables\<close>.\<close>

definition check_template :: "string list \<Rightarrow> string list \<Rightarrow> score_error option" where
  "check_template extra used =
     (let extra' = filter (\<lambda>n. n \<noteq> ''sentinel_nonce'') extra;
          clashes = sorted_set (filter (\<lambda>n. n \<in> set built_in) extra');
          missing = filter (\<lambda>n. n \<notin> set used) required_variables;
          unknown = sorted_set (filter (\<lambda>n. n \<notin> set built_in \<and> n \<notin> set extra') used)
      in if clashes \<noteq> [] then Some (ReservedVariables clashes)
         else if missing \<noteq> [] then Some (MissingVariables missing)
         else if unknown \<noteq> [] then Some (UnknownVariables unknown)
         else None)"

text \<open>A template that passes fills every variable it uses.\<close>

lemma check_template_None:
  "check_template extra used = None \<Longrightarrow>
     set required_variables \<subseteq> set used \<and> set used \<subseteq> set built_in \<union> set extra"
  by (auto simp: check_template_def Let_def filter_empty_conv split: if_splits)

definition name_char :: "char \<Rightarrow> bool" where
  "name_char c \<longleftrightarrow>
     (let n = of_char c :: nat
      in (97 \<le> n \<and> n \<le> 122) \<or> (65 \<le> n \<and> n \<le> 90) \<or> (48 \<le> n \<and> n \<le> 57) \<or> c \<in> {CHR ''_'', CHR ''.'', CHR ''-''})"

definition single_name :: string where
  "single_name = ''suspicion''"

text \<open>\<open>base_attribute\<close> says whether pydantic's \<open>BaseModel\<close> has an attribute of a name.\<close>

definition bad_name :: "(string \<Rightarrow> bool) \<Rightarrow> string \<Rightarrow> bool" where
  "bad_name base_attribute n \<longleftrightarrow>
     \<not> (list_all name_char n \<and> 1 \<le> length n \<and> length n \<le> 64)
     \<or> starts_with n ''_'' \<or> n = ''explanation'' \<or> base_attribute n"

datatype dimensions = OneScore string | ByName "(string \<times> string) list"

definition dimension_names :: "dimensions \<Rightarrow> string list" where
  "dimension_names ds = (case ds of OneScore t \<Rightarrow> [single_name] | ByName ps \<Rightarrow> map fst ps)"

definition check_dimensions :: "(string \<Rightarrow> bool) \<Rightarrow> dimensions \<Rightarrow> score_error option" where
  "check_dimensions base_attribute ds =
     (let names = dimension_names ds; reserved = filter (bad_name base_attribute) names
      in if names = [] then Some NoDimensions
         else if reserved \<noteq> [] then Some (BadDimensions reserved)
         else None)"

definition dimensions_text :: "dimensions \<Rightarrow> string" where
  "dimensions_text ds =
     (case ds of
        OneScore t \<Rightarrow> t
      | ByName ps \<Rightarrow> join (newline @ newline) (map (\<lambda>(n, t). n @ '':'' @ newline @ t) ps))"

section \<open>Fitting the prompt\<close>

text \<open>What \<open>_fit\<close> asks of the host: the input budget and the count of a prompt; and the prompt
  for a head cut with what reads references from an answer.\<close>

record 'refs fitting =
  ft_budget :: nat
  ft_count :: "string \<Rightarrow> nat"
  ft_render :: "head_cut \<Rightarrow> string \<times> 'refs"

text \<open>\<open>int(budget * 0.95)\<close>: the float product is within its rounding of the exact one, and the two
  have the same integer part for budgets far beyond any model's.\<close>

definition budget_limit :: "nat \<Rightarrow> nat" where
  "budget_limit budget = budget * 19 div 20"

definition prompt_fits :: "'refs fitting \<Rightarrow> head_cut \<Rightarrow> bool" where
  "prompt_fits ft hc \<longleftrightarrow> ft_count ft (fst (ft_render ft hc)) \<le> budget_limit (ft_budget ft)"

text \<open>The binary search: \<open>best\<close> is the smallest cut found to fit so far.\<close>

function bisect :: "(nat \<Rightarrow> bool) \<Rightarrow> nat \<Rightarrow> nat \<Rightarrow> nat \<Rightarrow> nat" where
  "bisect fits best low high =
     (if low \<le> high \<and> 0 < low then
        (if fits ((low + high) div 2) then bisect fits ((low + high) div 2) low ((low + high) div 2 - 1)
         else bisect fits best ((low + high) div 2 + 1) high)
      else best)"
  by pat_completeness auto
termination
  by (relation "measure (\<lambda>(fits, best, low, high). Suc high - low)") auto

declare bisect.simps [simp del]

lemma bisect_stop: "high < low \<Longrightarrow> bisect fits best low high = best"
  by (subst bisect.simps) simp

lemma bisect_fits: "fits best \<Longrightarrow> fits (bisect fits best low high)"
proof (induction fits best low high rule: bisect.induct)
  case (1 fits best low high)
  then show ?case by (subst bisect.simps) simp
qed

lemma bisect_le: "high \<le> best \<Longrightarrow> bisect fits best low high \<le> best"
proof (induction fits best low high rule: bisect.induct)
  case (1 fits best low high)
  let ?m = "(low + high) div 2"
  show ?case
  proof (cases "low \<le> high \<and> 0 < low \<and> fits ?m")
    case True
    then have "bisect fits ?m low (?m - 1) \<le> ?m" using "1.IH"(1) by simp
    with True "1.prems" show ?thesis by (subst bisect.simps) auto
  next
    case False
    with 1 show ?thesis by (subst bisect.simps) auto
  qed
qed

lemma bisect_least:
  "(\<forall>j k. fits j \<longrightarrow> j \<le> k \<longrightarrow> fits k) \<Longrightarrow> 0 < low \<Longrightarrow> best \<le> Suc high \<Longrightarrow>
     \<forall>j. 0 < j \<longrightarrow> fits j \<longrightarrow> low \<le> j \<Longrightarrow> 0 < j \<Longrightarrow> fits j \<Longrightarrow> bisect fits best low high \<le> j"
proof (induction fits best low high rule: bisect.induct)
  case (1 fits best low high)
  let ?m = "(low + high) div 2"
  from "1.prems" have low: "low \<le> j" by blast
  show ?case
  proof (cases "low \<le> high")
    case False
    with low "1.prems"(3) have "best \<le> j" by linarith
    with False show ?thesis by (simp add: bisect_stop)
  next
    case True
    have m: "low \<le> ?m" "?m \<le> high" "0 < ?m" using True "1.prems"(2) by auto
    show ?thesis
    proof (cases "fits ?m")
      case fits: True
      have "bisect fits ?m low (?m - 1) \<le> j"
        by (rule "1.IH"(1)) (use True "1.prems" fits m in auto)
      with True fits "1.prems"(2) show ?thesis by (subst bisect.simps) simp
    next
      case nofit: False
      have above: "?m + 1 \<le> i" if "fits i" for i
        using that nofit "1.prems"(1) by (metis Suc_eq_plus1 Suc_leI leI)
      have "bisect fits best (?m + 1) high \<le> j"
        by (rule "1.IH"(2)) (use True "1.prems" nofit above in auto)
      with True nofit "1.prems"(2) show ?thesis by (subst bisect.simps) simp
    qed
  qed
qed

definition and_list :: "string list \<Rightarrow> string" where
  "and_list parts =
     (if length parts = 1 then hd parts else join '', '' (butlast parts) @ '' and '' @ last parts)"

definition the_steps :: string where
  "the_steps = ''the step'' @ [CHR 0x27] @ ''s ''"

definition step_parts :: "step \<Rightarrow> string list" where
  "step_parts step =
     (if step_input step \<noteq> None then
        (if step_tools step \<noteq> None \<and> step_tools step \<noteq> Some [] then [the_steps @ ''TOOLS''] else [])
        @ (if step_tool_choice step \<noteq> None then [the_steps @ ''TOOL CHOICE''] else [])
      else [])
     @ (case step of
          AfterGenerate s \<Rightarrow> [the_steps @ ''REPLY'']
        | AfterToolCall s \<Rightarrow> [the_steps @ ''CALL'', the_steps @ ''RESULT'']
        | BeforeToolCall s \<Rightarrow> [the_steps @ ''CALL'']
        | BeforeGenerate s \<Rightarrow> [])"

text \<open>\<open>_too_big\<close>: the parts its message names.\<close>

definition fixed_parts :: "bool \<Rightarrow> bool \<Rightarrow> step \<Rightarrow> string list" where
  "fixed_parts policy has_task step =
     [''the instructions''] @ (if policy then [''the policy''] else [])
     @ (if has_task then [''the task''] else []) @ [''the dimensions''] @ step_parts step
     @ (if keeps_newest_input step then [''the newest INPUT message''] else []) @ [''the answer tool'']"

text \<open>\<open>_fit\<close>: the prompt to send, what reads its references, and what each list lost.\<close>

definition fit :: "'refs fitting \<Rightarrow> bool \<Rightarrow> bool \<Rightarrow> step \<Rightarrow> score_error + string \<times> 'refs \<times> head_cut" where
  "fit ft policy has_task step =
     (let limit = budget_limit (ft_budget ft); whole = ft_render ft []
      in if ft_count ft (fst whole) \<le> limit then Inr (fst whole, snd whole, [])
         else
           (let total = cuttable step; fixed = ft_count ft (fst (ft_render ft (head_cut step total)))
            in if fixed > limit then Inl (PromptTooBig (fixed_parts policy has_task step) fixed limit)
               else
                 (let k = bisect (\<lambda>k. prompt_fits ft (head_cut step k)) total 1 total; found = ft_render ft (head_cut step k)
                  in Inr (fst found, snd found, head_cut step k))))"

text \<open>A prompt that is sent fits the budget, whatever the host counts; it is the whole
  prompt, or the prompt with the head cut it reports; and a whole prompt that fits is sent
  unchanged.\<close>

theorem fit_fits:
  assumes "fit ft policy has_task step = Inr (content, refs, hc)"
  shows "ft_count ft content \<le> budget_limit (ft_budget ft) \<and> (content, refs) = ft_render ft hc
     \<and> (if ft_count ft (fst (ft_render ft [])) \<le> budget_limit (ft_budget ft) then hc = []
        else \<exists>k\<le>cuttable step. hc = head_cut step k)"
proof (cases "ft_count ft (fst (ft_render ft [])) \<le> budget_limit (ft_budget ft)")
  case True
  with assms show ?thesis by (auto simp: fit_def Let_def)
next
  case False
  let ?P = "\<lambda>k. prompt_fits ft (head_cut step k)"
  let ?k = "bisect ?P (cuttable step) 1 (cuttable step)"
  from False assms have total: "?P (cuttable step)"
    and r: "hc = head_cut step ?k" "content = fst (ft_render ft hc)" "refs = snd (ft_render ft hc)"
    by (auto simp: fit_def Let_def prompt_fits_def split: if_splits)
  from bisect_fits [of ?P, OF total, of 1 "cuttable step"] have "?P ?k" .
  moreover have "?k \<le> cuttable step" by (rule bisect_le) simp
  ultimately show ?thesis using False r by (auto simp: prompt_fits_def)
qed

text \<open>When cutting more never counts more, the cut is the smallest that fits: the monitor is
  shown every message it can be.\<close>

theorem fit_smallest:
  assumes "fit ft policy has_task step = Inr (content, refs, hc)"
    and "\<forall>j k. prompt_fits ft (head_cut step j) \<longrightarrow> j \<le> k \<longrightarrow> prompt_fits ft (head_cut step k)"
    and "0 < j" "prompt_fits ft (head_cut step j)"
  shows "\<exists>k\<le>j. hc = head_cut step k"
proof (cases "ft_count ft (fst (ft_render ft [])) \<le> budget_limit (ft_budget ft)")
  case True
  with assms(1) have "hc = head_cut step 0"
    by (auto simp: fit_def Let_def head_cut_def cut_order_def)
  then show ?thesis by blast
next
  case False
  let ?P = "\<lambda>k. prompt_fits ft (head_cut step k)"
  let ?k = "bisect ?P (cuttable step) 1 (cuttable step)"
  have "?k \<le> j" by (rule bisect_least) (use assms in auto)
  moreover from False assms(1) have "hc = head_cut step ?k"
    by (auto simp: fit_def Let_def split: if_splits)
  ultimately show ?thesis by blast
qed

definition halving :: "unit fitting" where
  "halving = \<lparr>ft_budget = 40, ft_count = length,
     ft_render = (\<lambda>hc. (replicate (60 - dropped_from hc HistoryList * 10) CHR ''x'', ()))\<rparr>"

definition long_step :: step where
  "long_step = BeforeToolCall \<lparr>bt_conversation = ''k'', bt_message = [], bt_message_id = ''m1'',
     bt_call = \<lparr>tc_id = ''c1'', tc_function = ''bash'', tc_arguments = [], tc_parse_error = None, tc_view = None\<rparr>,
     bt_view = JNull, bt_input = None, bt_agent_messages = None,
     bt_history = Some (replicate 4 (plain_message User ''a'')), bt_human_decisions = None, bt_tools = None,
     bt_tool_choice = None\<rparr>"

lemma long_step_cuts:
  "cuttable long_step = 4"
  "dropped_from (head_cut long_step k) HistoryList = min k 4"
  by (simp_all add: cuttable_def cut_order_def cuttable_in_def shown_list_def known_def long_step_def head_cut_counts)

lemma halving_fits: "prompt_fits halving (head_cut long_step k) \<longleftrightarrow> 3 \<le> k"
  by (auto simp: prompt_fits_def halving_def long_step_cuts budget_limit_def min_def)

lemma halving_fit: "fit halving False False long_step = Inr (replicate 30 CHR ''x'', (), head_cut long_step 3)"
proof -
  have b: "bisect ((\<le>) 3) 4 (Suc 0) 4 = 3"
    by code_simp
  have "ft_count halving (fst (ft_render halving [])) = 60" "budget_limit (ft_budget halving) = 38"
    "ft_count halving (fst (ft_render halving (head_cut long_step 4))) = 20"
    "ft_render halving (head_cut long_step 3) = (replicate 30 CHR ''x'', ())"
    by (simp_all add: halving_def budget_limit_def dropped_from_def long_step_cuts [unfolded dropped_from_def])
  then show ?thesis by (simp add: fit_def Let_def long_step_cuts(1) halving_fits b)
qed

theorem fit_fits_witness:
  "ft_count halving (replicate 30 CHR ''x'') \<le> budget_limit (ft_budget halving)"
  using fit_fits [OF halving_fit] by blast

theorem fit_smallest_witness: "\<exists>k\<le>3. head_cut long_step 3 = head_cut long_step k"
  by (rule fit_smallest [OF halving_fit]) (simp_all add: halving_fits)

section \<open>Asking the model\<close>

definition stop_reason :: "model_output \<Rightarrow> string" where
  "stop_reason out = (case mo_choices out of [] \<Rightarrow> [] | c # _ \<Rightarrow> ch_stop_reason c)"

text \<open>\<open>_generate\<close>: \<open>gen n\<close> is what the host's model answers to the \<open>n\<close>-th request; the number
  of requests made by then is returned too.\<close>

type_synonym model_host = "nat \<Rightarrow> messages \<Rightarrow> exc + model_output"

fun generate :: "model_host \<Rightarrow> nat \<Rightarrow> nat \<Rightarrow> messages \<Rightarrow> nat \<Rightarrow> (score_error + model_output) \<times> nat" where
  "generate gen refusals 0 ms n = (Inl (Refused refusals), n)"
| "generate gen refusals (Suc left) ms n =
     (case gen n ms of
        Inl e \<Rightarrow> (Inl (HostFailed e), Suc n)
      | Inr out \<Rightarrow>
          if mo_choices out \<noteq> [] \<and> stop_reason out = ''model_length'' then (Inl ModelLength, Suc n)
          else if mo_choices out = [] \<or> stop_reason out \<noteq> ''content_filter'' then (Inr out, Suc n)
          else generate gen (Suc refusals) left ms (Suc n))"

text \<open>An answer that passes validation: the explanation and the score of each dimension.\<close>

type_synonym answer = "string \<times> (string \<times> rat) list"

definition answer_name :: string where
  "answer_name = ''answer''"

text \<open>\<open>_check\<close>.\<close>

definition check_call :: "((string \<times> json) list \<Rightarrow> string + answer) \<Rightarrow> tool_call \<Rightarrow> string + answer" where
  "check_call validate call =
     (if tc_function call \<noteq> answer_name then
        Inl (''There is no '' @ tc_function call @ ''() tool. Use the '' @ answer_name
             @ ''() tool to report your answer.'')
      else case tc_parse_error call of
        Some (c # cs) \<Rightarrow> Inl (c # cs)
      | _ \<Rightarrow> validate (tc_arguments call))"

definition first_valid :: "(string + answer) list \<Rightarrow> answer option" where
  "first_valid rs = (case filter (\<lambda>r. \<not> isl r) rs of Inr a # _ \<Rightarrow> Some a | _ \<Rightarrow> None)"

definition user_message :: "string \<Rightarrow> chat_message" where
  "user_message t = \<lparr>cm_role = User, cm_id = None, cm_content = Text t, cm_text = t,
     cm_content_list = [TextItem t], cm_model = None, cm_tool_calls = None, cm_tool_call_id = None,
     cm_error = None\<rparr>"

definition error_message :: "tool_call \<Rightarrow> string \<Rightarrow> chat_message" where
  "error_message call e = \<lparr>cm_role = Tool, cm_id = None, cm_content = Text [], cm_text = [],
     cm_content_list = [TextItem []], cm_model = None, cm_tool_calls = None,
     cm_tool_call_id = Some (tc_id call), cm_error = Some (''parsing'', e)\<rparr>"

definition calls_of :: "chat_message option \<Rightarrow> tool_call list" where
  "calls_of reply = (case reply of None \<Rightarrow> [] | Some m \<Rightarrow>
     (case cm_tool_calls m of None \<Rightarrow> [] | Some cs \<Rightarrow> cs))"

definition corrections :: "(tool_call \<times> (string + answer)) list \<Rightarrow> messages" where
  "corrections checked =
     (if checked = [] then [user_message (''Please use the '' @ answer_name @ ''() tool to report your answer.'')]
      else map (\<lambda>(call, r). error_message call (case r of Inl e \<Rightarrow> e | Inr _ \<Rightarrow> [])) checked)"

text \<open>The attempts: \<open>left\<close> of them, with the text of the last reply.\<close>

fun attempts ::
  "model_host \<Rightarrow> ((string \<times> json) list \<Rightarrow> string + answer) \<Rightarrow> nat \<Rightarrow> nat \<Rightarrow> string \<Rightarrow> messages \<Rightarrow> nat
     \<Rightarrow> (score_error + answer) \<times> nat" where
  "attempts gen validate retries 0 last_text ms n = (Inl (NoValidAnswer last_text), n)"
| "attempts gen validate retries (Suc left) last_text ms n =
     (case generate gen 0 (retries + 1) ms n of
        (Inl e, n') \<Rightarrow> (Inl e, n')
      | (Inr out, n') \<Rightarrow>
          (let reply = output_message out;
               checked = map (\<lambda>c. (c, check_call validate c)) (calls_of reply)
           in case first_valid (map snd checked) of
                Some a \<Rightarrow> (Inr a, n')
              | None \<Rightarrow>
                  attempts gen validate retries left (case reply of None \<Rightarrow> [] | Some m \<Rightarrow> cm_text m)
                    (ms @ (case reply of None \<Rightarrow> [] | Some m \<Rightarrow> [m]) @ corrections checked) n'))"

definition source_name :: "source \<Rightarrow> string" where
  "source_name src = (case src of InputList \<Rightarrow> ''input'' | HistoryList \<Rightarrow> ''history''
     | AgentMessagesList \<Rightarrow> ''agent_messages'')"

definition scored ::
  "dimensions \<Rightarrow> answer \<Rightarrow> (string \<Rightarrow> reference list) \<Rightarrow> head_cut \<Rightarrow> observation" where
  "scored ds a reader hc =
     observation_score
       (case ds of OneScore t \<Rightarrow> Single (the (map_of (snd a) single_name)) | ByName ps \<Rightarrow> Dims (snd a))
       (Some (fst a)) (reader (fst a))
       (if hc = [] then None
        else Some [(''left_out'', JObj (map (\<lambda>(src, k). (source_name src, JInt (int k))) hc))])"

text \<open>\<open>score_step\<close>, for a preprocessed step whose prompt \<open>ft\<close> renders.\<close>

definition score_step ::
  "model_host \<Rightarrow> ((string \<times> json) list \<Rightarrow> string + answer) \<Rightarrow> (string \<Rightarrow> bool)
     \<Rightarrow> (string \<Rightarrow> reference list) fitting \<Rightarrow> string list \<Rightarrow> string list \<Rightarrow> dimensions \<Rightarrow> bool \<Rightarrow> bool
     \<Rightarrow> int \<Rightarrow> step \<Rightarrow> (score_error + observation) \<times> nat" where
  "score_step gen validate base_attribute ft extra used ds policy has_task retries step =
     (if retries < 0 then (Inl NegativeRetries, 0)
      else case check_template extra used of
        Some e \<Rightarrow> (Inl e, 0)
      | None \<Rightarrow>
          (case check_dimensions base_attribute ds of
             Some e \<Rightarrow> (Inl e, 0)
           | None \<Rightarrow>
               (case fit ft policy has_task step of
                  Inl e \<Rightarrow> (Inl e, 0)
                | Inr (content, reader, hc) \<Rightarrow>
                    (case attempts gen validate (nat retries) 3 [] [user_message content] 0 of
                       (Inl e, n) \<Rightarrow> (Inl e, n)
                     | (Inr a, n) \<Rightarrow> (Inr (scored ds a reader hc), n)))))"

lemma generate_count: "snd (generate gen refusals left ms n) \<le> n + left \<and> n \<le> snd (generate gen refusals left ms n)"
proof (induction gen refusals left ms n rule: generate.induct)
  case (2 gen refusals left ms n)
  then show ?case by (cases "gen n ms") (fastforce split: if_splits)+
qed simp

lemma attempts_count:
  "snd (attempts gen validate retries left last_text ms n) \<le> n + left * (retries + 1)"
proof (induction left arbitrary: last_text ms n)
  case (Suc left)
  obtain r n' where g: "generate gen 0 (retries + 1) ms n = (r, n')" by force
  from generate_count [of gen 0 "retries + 1" ms n] g have n': "n' \<le> n + (retries + 1)" by simp
  have IH: "snd (attempts gen validate retries left t ms' n') \<le> n + Suc left * (retries + 1)" for t ms'
    using Suc [of t ms' n'] n' by simp
  show ?case
  proof (cases r)
    case (Inl e)
    with g n' show ?thesis by simp
  next
    case (Inr out)
    have le: "n' \<le> n + Suc left * (retries + 1)" using n' by simp
    show ?thesis
      unfolding attempts.simps g Inr
      using le IH by (auto simp: Let_def simp del: mult_Suc split: option.splits)
  qed
qed simp

text \<open>Scoring asks the model at most three times as often as it may be refused, whatever the
  model answers.\<close>

theorem score_requests_bounded:
  "snd (score_step gen validate base_attribute ft extra used ds policy has_task retries step)
     \<le> 3 * (nat retries + 1)"
proof -
  have "snd (attempts gen validate (nat retries) 3 [] ms 0) \<le> 3 * (nat retries + 1)" for ms
    using attempts_count [of gen validate "nat retries" 3 "[]" ms 0] by simp
  then show ?thesis
    unfolding score_step_def
    by (auto split: option.splits sum.splits prod.splits) (metis snd_conv)+
qed

lemma first_valid_Some: "first_valid rs = Some a \<Longrightarrow> Inr a \<in> set rs"
proof -
  assume f: "first_valid rs = Some a"
  then obtain r rest where "filter (\<lambda>r. \<not> isl r) rs = r # rest" "r = Inr a"
    by (cases "filter (\<lambda>r. \<not> isl r) rs") (auto simp: first_valid_def split: sum.splits)
  then have "Inr a \<in> set (filter (\<lambda>r. \<not> isl r) rs)" by simp
  then show ?thesis by simp
qed

lemma check_call_Inr: "check_call validate call = Inr a \<Longrightarrow> validate (tc_arguments call) = Inr a"
  by (auto simp: check_call_def split: if_splits option.splits list.splits)

lemma attempts_valid:
  "attempts gen validate retries left last_text ms n = (Inr a, n') \<Longrightarrow> \<exists>args. validate args = Inr a"
proof (induction left arbitrary: last_text ms n)
  case (Suc left)
  from Suc.prems obtain out m where g: "generate gen 0 (retries + 1) ms n = (Inr out, m)"
    by (auto split: prod.splits sum.splits)
  show ?case
  proof (cases "first_valid (map snd (map (\<lambda>c. (c, check_call validate c)) (calls_of (output_message out))))")
    case None
    with Suc g show ?thesis by (auto simp: Let_def)
  next
    case (Some b)
    with Suc.prems g have "b = a" by (simp add: Let_def)
    with first_valid_Some [OF Some] show ?thesis by (auto dest: check_call_Inr sym)
  qed
qed simp

definition score_in_range :: "suspicion \<Rightarrow> bool" where
  "score_in_range s = (case s of Single x \<Rightarrow> 0 \<le> x \<and> x \<le> 1 | Dims ds \<Rightarrow> list_all (\<lambda>(d, x). 0 \<le> x \<and> x \<le> 1) ds)"


definition half_answer :: "(string \<times> json) list \<Rightarrow> string + answer" where
  "half_answer args = (if args = [] then Inl ''missing'' else Inr (''fine'', [(single_name, 1 / 2)]))"

definition answering :: model_host where
  "answering n ms = Inr \<lparr>mo_model = ''m'', mo_choices = [\<lparr>ch_message = assistant_message None [] (Some
     [\<lparr>tc_id = ''t'', tc_function = answer_name, tc_arguments = (if n = 0 then [] else [(''suspicion'', JNum (1 / 2))]),
       tc_parse_error = None, tc_view = None\<rparr>]), ch_stop_reason = ''tool_calls''\<rparr>]\<rparr>"

definition plain_fitting :: "(string \<Rightarrow> reference list) fitting" where
  "plain_fitting = \<lparr>ft_budget = 40, ft_count = length, ft_render = (\<lambda>hc. (''p'', (\<lambda>_. [])))\<rparr>"


end
