(* ===== verification/FromMessages.thy ===== *)
theory FromMessages
  imports Runner
begin

text \<open>
  Steps rebuilt from a conversation's messages (\<open>_from_messages.py\<close>) and the steps of a replay
  (\<open>_replay_step.py\<close>).
\<close>

section \<open>A list that only grows, read up to a length\<close>

text \<open>\<open>Cut\<close> shares the list it is cut from.\<close>

record 'a prefix_view =
  pv_items :: "'a list"
  pv_length :: nat

text \<open>\<open>xs[i]\<close> of a Python list; \<open>None\<close> is the \<open>IndexError\<close>.\<close>

definition py_index :: "'a list \<Rightarrow> int \<Rightarrow> 'a option" where
  "py_index xs i =
     (let j = (if i < 0 then i + int (length xs) else i)
      in if 0 \<le> j \<and> j < int (length xs) then Some (xs ! nat j) else None)"

definition cut_get :: "'a prefix_view \<Rightarrow> int \<Rightarrow> 'a option" where
  "cut_get c i =
     (let j = (if i < 0 then i + int (pv_length c) else i)
      in if 0 \<le> j \<and> j < int (pv_length c) then py_index (pv_items c) j else None)"

text \<open>\<open>slice.indices(n)\<close>: the start, the stop and the step of a slice of \<open>n\<close> items, and the
  numbers of a \<open>range\<close>. A step of 0 is a \<open>ValueError\<close>.\<close>

record slice =
  sl_start :: "int option"
  sl_stop :: "int option"
  sl_step :: "int option"

definition slice_step :: "slice \<Rightarrow> int" where
  "slice_step sl = (case sl_step sl of None \<Rightarrow> 1 | Some s \<Rightarrow> s)"

definition clamped :: "int \<Rightarrow> int \<Rightarrow> int \<Rightarrow> int \<Rightarrow> int" where
  "clamped n lower upper v = (if v < 0 then max (v + n) lower else min v upper)"

definition slice_indices :: "slice \<Rightarrow> int \<Rightarrow> (int \<times> int \<times> int) option" where
  "slice_indices sl n =
     (let s = slice_step sl;
          lower = (if s < 0 then -1 else 0);
          upper = (if s < 0 then n - 1 else n)
      in if s = 0 then None
         else Some
           (case sl_start sl of None \<Rightarrow> if s < 0 then upper else lower | Some v \<Rightarrow> clamped n lower upper v,
            case sl_stop sl of None \<Rightarrow> if s < 0 then lower else upper | Some v \<Rightarrow> clamped n lower upper v,
            s))"

definition range_count :: "int \<Rightarrow> int \<Rightarrow> int \<Rightarrow> nat" where
  "range_count start stop s =
     (if 0 < s then nat ((stop - start + s - 1) div s) else nat ((start - stop - s - 1) div - s))"

definition range_list :: "int \<Rightarrow> int \<Rightarrow> int \<Rightarrow> int list" where
  "range_list start stop s = map (\<lambda>k. start + int k * s) [0..<range_count start stop s]"

text \<open>A slice reads the shared list at each index; \<open>None\<close> is an error at any of them.\<close>

fun all_some :: "'a option list \<Rightarrow> 'a list option" where
  "all_some [] = Some []"
| "all_some (None # xs) = None"
| "all_some (Some x # xs) = map_option (Cons x) (all_some xs)"

definition cut_slice :: "'a prefix_view \<Rightarrow> slice \<Rightarrow> 'a list option" where
  "cut_slice c sl =
     (case slice_indices sl (int (pv_length c)) of
        None \<Rightarrow> None
      | Some (start, stop, s) \<Rightarrow> all_some (map (py_index (pv_items c)) (range_list start stop s)))"

definition cut_items :: "'a prefix_view \<Rightarrow> 'a list option" where
  "cut_items c = all_some (map (\<lambda>i. py_index (pv_items c) (int i)) [0..<pv_length c])"

text \<open>What a slice of a list reads.\<close>

definition py_slice :: "'a list \<Rightarrow> slice \<Rightarrow> 'a list option" where
  "py_slice xs sl =
     (case slice_indices sl (int (length xs)) of
        None \<Rightarrow> None
      | Some (start, stop, s) \<Rightarrow> Some (map (\<lambda>i. xs ! nat i) (range_list start stop s)))"

lemma all_some_map: "\<forall>x\<in>set xs. f x = Some (g x) \<Longrightarrow> all_some (map f xs) = Some (map g xs)"
  by (induction xs) auto

lemma mult_le_of_div:
  assumes "0 < (s::int)" "int k < a div s"
  shows "int k * s + s \<le> a"
proof -
  from assms have "(int k + 1) * s \<le> a div s * s" by (intro mult_right_mono) auto
  also have "\<dots> \<le> a" using assms(1) by (simp add: minus_mod_eq_div_mult [symmetric])
  finally show ?thesis by (simp add: algebra_simps)
qed

text \<open>The indices of a slice of \<open>n\<close> items are below \<open>n\<close>.\<close>

lemma range_within:
  assumes "slice_indices sl n = Some (start, stop, s)" "0 \<le> n" "i \<in> set (range_list start stop s)"
  shows "0 \<le> i \<and> i < n"
proof -
  from assms(3) have "\<exists>k. i = start + int k * s \<and> k < range_count start stop s"
    by (auto simp: range_list_def)
  then obtain k where i: "i = start + int k * s" and k: "k < range_count start stop s" by blast
  from assms(1) have s: "s \<noteq> 0" "s = slice_step sl" by (auto simp: slice_indices_def Let_def split: if_splits)
  show ?thesis
  proof (cases "0 < s")
    case True
    with assms(1,2) have b: "0 \<le> start" "stop \<le> n"
      by (auto simp: slice_indices_def Let_def clamped_def split: if_splits option.splits)
    from True k have "int k < (stop - start + s - 1) div s" by (simp add: range_count_def)
    from mult_le_of_div [OF True this] have "int k * s < stop - start" by simp
    moreover have "0 \<le> int k * s" using True by simp
    ultimately show ?thesis using b i by simp
  next
    case False
    with s have neg: "0 < - s" by simp
    with assms(1,2) have b: "start \<le> n - 1" "-1 \<le> stop"
      by (auto simp: slice_indices_def Let_def clamped_def split: if_splits option.splits)
    from False k have "int k < (start - stop - s - 1) div - s" by (simp add: range_count_def)
    from mult_le_of_div [OF neg this] have "int k * - s < start - stop" by simp
    moreover have "0 \<le> int k * - s" using neg by (intro mult_nonneg_nonneg) auto
    ultimately have "stop < i" "i \<le> start" unfolding i by auto
    with b show ?thesis by simp
  qed
qed

lemma cut_prefix:
  "cut_get \<lparr>pv_items = xs @ later, pv_length = length xs\<rparr> i = py_index xs i"
  "cut_slice \<lparr>pv_items = xs @ later, pv_length = length xs\<rparr> sl = py_slice xs sl"
  "cut_items \<lparr>pv_items = xs @ later, pv_length = length xs\<rparr> = Some xs"
proof -
  have py: "py_index (xs @ later) j = Some (xs ! nat j)" if "0 \<le> j" "j < int (length xs)" for j
    using that by (auto simp: py_index_def nth_append)
  then show "cut_get \<lparr>pv_items = xs @ later, pv_length = length xs\<rparr> i = py_index xs i"
    by (auto simp: cut_get_def Let_def) (simp_all add: py_index_def)
  show "cut_slice \<lparr>pv_items = xs @ later, pv_length = length xs\<rparr> sl = py_slice xs sl"
  proof (cases "slice_indices sl (int (length xs))")
    case None
    then show ?thesis by (simp add: cut_slice_def py_slice_def)
  next
    case (Some r)
    obtain start stop s where r: "r = (start, stop, s)" by (cases r)
    have "\<forall>j\<in>set (range_list start stop s). py_index (xs @ later) j = Some (xs ! nat j)"
      using range_within [OF Some [unfolded r]] py by simp
    from all_some_map [OF this] show ?thesis using Some r by (simp add: cut_slice_def py_slice_def)
  qed
  have "all_some (map (\<lambda>j. py_index (xs @ later) (int j)) [0..<length xs]) = Some (map (nth xs) [0..<length xs])"
    by (rule all_some_map) (simp add: py)
  then show "cut_items \<lparr>pv_items = xs @ later, pv_length = length xs\<rparr> = Some xs"
    by (simp add: cut_items_def map_nth)
qed

text \<open>A cut reads like the list of its first items, at every index, for every slice and when
  iterated, however the list it shares grows.\<close>

theorem cut_reads_prefix:
  "cut_get \<lparr>pv_items = xs @ later, pv_length = length xs\<rparr> i = py_index xs i
   \<and> cut_slice \<lparr>pv_items = xs @ later, pv_length = length xs\<rparr> sl = py_slice xs sl
   \<and> cut_items \<lparr>pv_items = xs @ later, pv_length = length xs\<rparr> = Some xs"
  by (simp add: cut_prefix)

section \<open>The steps of a replay\<close>

datatype replay_error = WrongStage string string string | WrongSegment string string string

record replay_step =
  re_id :: string
  re_stage :: string
  re_step :: step
  re_segment :: "string \<times> nat"
  re_answers :: "(string \<times> human_answer) list"
  re_depth :: "nat option"

text \<open>\<open>ReplayStep.__post_init__\<close>.\<close>

definition new_replay_step ::
  "string \<Rightarrow> string \<Rightarrow> step \<Rightarrow> string \<times> nat \<Rightarrow> (string \<times> human_answer) list \<Rightarrow> nat option
     \<Rightarrow> replay_error + replay_step" where
  "new_replay_step i st s seg answers depth =
     (if st \<noteq> stage_text (stage_of s) then Inl (WrongStage i st (stage_text (stage_of s)))
      else if fst seg \<noteq> step_conversation s then Inl (WrongSegment i (fst seg) (step_conversation s))
      else Inr \<lparr>re_id = i, re_stage = st, re_step = s, re_segment = seg, re_answers = answers,
                re_depth = depth\<rparr>)"


section \<open>Rebuilding the steps\<close>

text \<open>What \<open>Cut(sent, n)\<close> reads: the first \<open>n\<close> messages.\<close>

definition first_messages :: "messages \<Rightarrow> nat \<Rightarrow> messages" where
  "first_messages sent n = take n sent"

lemma first_messages_cut:
  "n \<le> length sent \<Longrightarrow> cut_items \<lparr>pv_items = sent, pv_length = n\<rparr> = Some (first_messages sent n)"
  using cut_prefix(3) [of "take n sent" "drop n sent"] by (simp add: first_messages_def min_absorb2)

text \<open>\<open>_answers\<close> and \<open>_answer\<close>: each call id's tool messages by position, and the first after an
  assistant message.\<close>

type_synonym answer_index = "string \<Rightarrow> (nat \<times> chat_message) list"

definition add_answer :: "answer_index \<Rightarrow> nat \<times> chat_message \<Rightarrow> answer_index" where
  "add_answer found p =
     (case (cm_role (snd p), cm_tool_call_id (snd p)) of
        (Tool, Some c) \<Rightarrow> found(c := found c @ [p])
      | _ \<Rightarrow> found)"

definition answers :: "messages \<Rightarrow> answer_index" where
  "answers ms = foldl add_answer (\<lambda>_. []) (indexed ms)"

definition answer_after :: "answer_index \<Rightarrow> string \<Rightarrow> nat \<Rightarrow> chat_message option" where
  "answer_after found call_id after = map_option snd (find (\<lambda>p. after < fst p) (found call_id))"

definition answers_call :: "string \<Rightarrow> chat_message \<Rightarrow> bool" where
  "answers_call call_id m \<longleftrightarrow> cm_role m = Tool \<and> cm_tool_call_id m = Some call_id"

lemma answers_filter:
  "foldl add_answer acc ps c = acc c @ filter (\<lambda>p. answers_call c (snd p)) ps"
proof (induction ps arbitrary: acc)
  case (Cons p ps)
  have "add_answer acc p c = acc c @ (if answers_call c (snd p) then [p] else [])"
    by (cases "cm_role (snd p)") (auto simp: add_answer_def answers_call_def split: option.splits)
  then show ?case using Cons by simp
qed simp

lemma find_filter: "find P (filter Q xs) = find (\<lambda>x. Q x \<and> P x) xs"
  by (induction xs) auto

lemma find_indexed_after:
  "map_option snd (find (\<lambda>p. P (snd p) \<and> n \<le> fst p) (zip [k..<k + length xs] xs)) = find P (drop (n - k) xs)"
proof (induction xs arbitrary: k)
  case (Cons x xs)
  have z: "zip [k..<k + length (x # xs)] (x # xs) = (k, x) # zip [Suc k..<Suc k + length xs] xs"
    by (simp add: upt_conv_Cons del: upt_Suc)
  show ?case
  proof (cases "n \<le> k")
    case True
    then show ?thesis using Cons [of "Suc k"] unfolding z by simp
  next
    case False
    then have "n - k = Suc (n - Suc k)" by simp
    with False show ?thesis using Cons [of "Suc k"] unfolding z by simp
  qed
qed simp

lemma answer_after_first:
  "answer_after (answers ms) call_id after = find (answers_call call_id) (drop (Suc after) ms)"
  using find_indexed_after [of "answers_call call_id" "Suc after" 0 ms]
  by (simp add: answer_after_def answers_def answers_filter find_filter indexed_def Suc_le_eq)

text \<open>A call's result is the first tool message after its assistant message that answers the
  call, found through the index as by searching the messages.\<close>

theorem answer_is_first_after:
  "answer_after (answers ms) call_id after = find (answers_call call_id) (drop (Suc after) ms)"
  by (rule answer_after_first)

text \<open>The steps of one assistant message.\<close>

definition or_empty :: "string option \<Rightarrow> string" where
  "or_empty t = (case t of None \<Rightarrow> [] | Some u \<Rightarrow> u)"

definition message_id_or :: "string \<Rightarrow> chat_message \<Rightarrow> string" where
  "message_id_or fallback m = (if or_empty (cm_id m) = [] then fallback else or_empty (cm_id m))"

definition made_calls :: "chat_message \<Rightarrow> tool_call list" where
  "made_calls m = (case cm_tool_calls m of None \<Rightarrow> [] | Some cs \<Rightarrow> cs)"

definition generate_before :: "messages \<Rightarrow> string \<Rightarrow> nat \<Rightarrow> nat \<Rightarrow> chat_message \<Rightarrow> before_generate" where
  "generate_before sent conversation previous_input index m =
     \<lparr>bg_model = or_empty (cm_model m), bg_conversation = conversation,
      bg_input = first_messages sent index, bg_agent_messages = None,
      bg_history = Some (first_messages sent previous_input), bg_human_decisions = None,
      bg_tools = [], bg_tool_choice = ChoiceText ''auto'', bg_config = JObj []\<rparr>"

definition generate_after :: "messages \<Rightarrow> nat \<Rightarrow> chat_message \<Rightarrow> before_generate \<Rightarrow> after_generate" where
  "generate_after sent index m before =
     \<lparr>ag_model = bg_model before, ag_conversation = bg_conversation before, ag_input = bg_input before,
      ag_agent_messages = None, ag_history = Some (first_messages sent index),
      ag_human_decisions = None, ag_tools = bg_tools before, ag_tool_choice = bg_tool_choice before,
      ag_config = bg_config before,
      ag_output = \<lparr>mo_model = or_empty (cm_model m), mo_choices = [\<lparr>ch_message = m,
        ch_stop_reason = (if made_calls m \<noteq> [] then ''tool_calls'' else ''stop'')\<rparr>]\<rparr>\<rparr>"

definition call_view :: "tool_call \<Rightarrow> json" where
  "call_view call = JObj [(''call'', case tc_view call of None \<Rightarrow> JNull | Some v \<Rightarrow> v)]"

definition call_before :: "messages \<Rightarrow> string \<Rightarrow> nat \<Rightarrow> string \<Rightarrow> chat_message \<Rightarrow> tool_call \<Rightarrow> before_tool_call" where
  "call_before sent conversation index step_id m call =
     \<lparr>bt_conversation = conversation, bt_message = cm_text m, bt_message_id = message_id_or step_id m,
      bt_call = call, bt_view = call_view call, bt_input = None, bt_agent_messages = None,
      bt_history = Some (first_messages sent index), bt_human_decisions = None, bt_tools = None,
      bt_tool_choice = None\<rparr>"

definition call_after :: "messages \<Rightarrow> string \<Rightarrow> nat \<Rightarrow> string \<Rightarrow> chat_message \<Rightarrow> tool_call \<Rightarrow> chat_message \<Rightarrow> after_tool_call" where
  "call_after sent conversation index step_id m call result =
     \<lparr>at_conversation = conversation, at_message = cm_text m, at_message_id = message_id_or step_id m,
      at_call = call, at_result = result, at_output = None, at_view = call_view call, at_input = None,
      at_agent_messages = None, at_history = Some (first_messages sent index),
      at_human_decisions = None, at_tools = None, at_tool_choice = None, at_truncated = TruncationUnknown\<rparr>"

definition emit :: "string \<Rightarrow> string \<Rightarrow> step \<Rightarrow> string \<Rightarrow> replay_error + replay_step" where
  "emit i st s conversation = new_replay_step i st s (conversation, 0) [] None"

definition steps_of_call ::
  "messages \<Rightarrow> answer_index \<Rightarrow> string \<Rightarrow> nat \<Rightarrow> string \<Rightarrow> chat_message \<Rightarrow> tool_call
     \<Rightarrow> (replay_error + replay_step) list" where
  "steps_of_call sent found conversation index step_id m call =
     emit (tc_id call) ''tool_call''
       (BeforeToolCall (call_before sent conversation index step_id m call)) conversation
     # (case answer_after found (tc_id call) index of
          None \<Rightarrow> []
        | Some result \<Rightarrow>
            [emit (tc_id call) ''tool_result''
               (AfterToolCall (call_after sent conversation index step_id m call result)) conversation])"

definition steps_of_message ::
  "messages \<Rightarrow> answer_index \<Rightarrow> string \<Rightarrow> nat \<Rightarrow> nat \<Rightarrow> chat_message \<Rightarrow> (replay_error + replay_step) list" where
  "steps_of_message sent found conversation previous_input index m =
     (let step_id = message_id_or (CHR ''m'' # nat_text index) m;
          before = generate_before sent conversation previous_input index m
      in emit step_id ''model_input'' (BeforeGenerate before) conversation
         # emit step_id ''model_output'' (AfterGenerate (generate_after sent index m before)) conversation
         # concat (map (steps_of_call sent found conversation index step_id m) (made_calls m)))"

text \<open>The generator: it stops at the first step that is refused.\<close>

fun yielded :: "('e + 'a) list \<Rightarrow> 'e + 'a list" where
  "yielded [] = Inr []"
| "yielded (Inl e # xs) = Inl e"
| "yielded (Inr x # xs) = bind_err (yielded xs) (\<lambda>ys. Inr (x # ys))"

fun message_steps ::
  "messages \<Rightarrow> answer_index \<Rightarrow> string \<Rightarrow> nat \<Rightarrow> (nat \<times> chat_message) list \<Rightarrow> (replay_error + replay_step) list" where
  "message_steps sent found conversation previous_input [] = []"
| "message_steps sent found conversation previous_input ((index, m) # rest) =
     (if cm_role m \<noteq> Assistant then message_steps sent found conversation previous_input rest
      else steps_of_message sent found conversation previous_input index m
           @ message_steps sent found conversation index rest)"

definition steps_from_messages :: "messages \<Rightarrow> string \<Rightarrow> replay_error + replay_step list" where
  "steps_from_messages ms conversation =
     yielded (message_steps ms (answers ms) conversation 0 (indexed ms))"

section \<open>What the steps hold\<close>

text \<open>The steps as \<open>ReplayStep\<close> accepts them.\<close>

definition accepted :: "string \<Rightarrow> step \<Rightarrow> replay_step" where
  "accepted i s =
     \<lparr>re_id = i, re_stage = stage_text (stage_of s), re_step = s,
      re_segment = (step_conversation s, 0), re_answers = [], re_depth = None\<rparr>"

definition call_steps :: "messages \<Rightarrow> string \<Rightarrow> nat \<Rightarrow> string \<Rightarrow> chat_message \<Rightarrow> tool_call \<Rightarrow> replay_step list" where
  "call_steps sent conversation index step_id m call =
     accepted (tc_id call) (BeforeToolCall (call_before sent conversation index step_id m call))
     # (case find (answers_call (tc_id call)) (drop (Suc index) sent) of
          None \<Rightarrow> []
        | Some result \<Rightarrow>
            [accepted (tc_id call) (AfterToolCall (call_after sent conversation index step_id m call result))])"

lemma steps_of_call_accepted:
  "steps_of_call sent (answers sent) conversation index step_id m
     = (\<lambda>call. map Inr (call_steps sent conversation index step_id m call))"
  by (rule ext) (simp add: steps_of_call_def call_steps_def emit_def new_replay_step_def accepted_def
      call_before_def call_after_def answer_after_first split: option.splits)

definition generate_steps :: "messages \<Rightarrow> string \<Rightarrow> nat \<Rightarrow> nat \<Rightarrow> chat_message \<Rightarrow> replay_step list" where
  "generate_steps sent conversation previous_input index m =
     (let step_id = message_id_or (CHR ''m'' # nat_text index) m;
          before = generate_before sent conversation previous_input index m
      in [accepted step_id (BeforeGenerate before),
          accepted step_id (AfterGenerate (generate_after sent index m before))]
         @ concat (map (call_steps sent conversation index step_id m) (made_calls m)))"

lemma steps_of_message_accepted:
  "steps_of_message sent (answers sent) conversation previous_input index m
     = map Inr (generate_steps sent conversation previous_input index m)"
  by (simp add: steps_of_message_def generate_steps_def Let_def map_concat comp_def steps_of_call_accepted
      emit_def new_replay_step_def accepted_def generate_before_def generate_after_def)

fun rebuilt :: "messages \<Rightarrow> string \<Rightarrow> nat \<Rightarrow> (nat \<times> chat_message) list \<Rightarrow> replay_step list" where
  "rebuilt sent conversation previous_input [] = []"
| "rebuilt sent conversation previous_input ((index, m) # rest) =
     (if cm_role m \<noteq> Assistant then rebuilt sent conversation previous_input rest
      else generate_steps sent conversation previous_input index m @ rebuilt sent conversation index rest)"

lemma yielded_Inr: "yielded (map Inr xs) = Inr xs"
  by (induction xs) auto

lemma steps_from_messages_rebuilt:
  "steps_from_messages ms conversation = Inr (rebuilt ms conversation 0 (indexed ms))"
proof -
  have "message_steps ms (answers ms) conversation p ps = map Inr (rebuilt ms conversation p ps)" for p ps
    by (induction ms conversation p ps rule: rebuilt.induct) (simp_all add: steps_of_message_accepted)
  then show ?thesis by (simp add: steps_from_messages_def yielded_Inr)
qed

text \<open>The generates of the steps, and the messages that are new at one.\<close>

definition generates :: "replay_step list \<Rightarrow> before_generate list" where
  "generates steps =
     List.map_filter (\<lambda>r. case re_step r of BeforeGenerate b \<Rightarrow> Some b | _ \<Rightarrow> None) steps"

definition past :: "before_generate \<Rightarrow> messages" where
  "past b = (case bg_history b of None \<Rightarrow> [] | Some ms \<Rightarrow> ms)"

definition new_messages :: "before_generate \<Rightarrow> messages" where
  "new_messages b = drop (length (past b)) (bg_input b)"

definition reply_positions :: "(nat \<times> chat_message) list \<Rightarrow> nat list" where
  "reply_positions ps = map fst (filter (\<lambda>p. cm_role (snd p) = Assistant) ps)"

lemma generates_append: "generates (xs @ ys) = generates xs @ generates ys"
  by (simp add: generates_def List.map_filter_def)

lemma generates_calls: "generates (concat (map (call_steps sent conversation index step_id m) cs)) = []"
proof (induction cs)
  case (Cons c cs)
  have "generates (call_steps sent conversation index step_id m c) = []"
    by (simp add: call_steps_def generates_def accepted_def List.map_filter_def split: option.splits)
  with Cons show ?case by (simp add: generates_append)
qed (simp add: generates_def List.map_filter_def)

lemma generates_of:
  "generates (generate_steps sent conversation p index m) = [generate_before sent conversation p index m]"
proof -
  have "generates [accepted i (BeforeGenerate b), accepted i (AfterGenerate a)] = [b]" for i b a
    by (simp add: generates_def accepted_def List.map_filter_def)
  then show ?thesis
    by (simp only: generate_steps_def Let_def generates_append generates_calls append_Nil2)
qed

lemma take_drop_split: "p \<le> i \<Longrightarrow> i \<le> n \<Longrightarrow> drop p (take i xs) @ drop i (take n xs) = drop p (take n xs)"
proof -
  assume "p \<le> i" "i \<le> n"
  then have "take n xs = take i xs @ drop i (take n xs)"
    by (metis append_take_drop_id min.absorb1 take_take)
  moreover have "drop p (take i xs @ ys) = drop p (take i xs) @ ys" if "p \<le> length (take i xs)" for ys
    using that by simp
  ultimately show ?thesis using \<open>p \<le> i\<close>
    by (cases "i \<le> length xs") (metis length_take min.absorb2, simp)
qed

lemma rebuilt_new:
  "sorted (p # map fst ps) \<Longrightarrow> list_all (\<lambda>q. fst q < length sent) ps \<Longrightarrow>
     list_all (\<lambda>b. prefix (past b) (bg_input b)) (generates (rebuilt sent conversation p ps))
     \<and> concat (map new_messages (generates (rebuilt sent conversation p ps)))
         = drop p (take (last (p # reply_positions ps)) sent)
     \<and> p \<le> last (p # reply_positions ps)"
proof (induction sent conversation p ps rule: rebuilt.induct)
  case (1 sent conversation p)
  then show ?case by (simp add: generates_def List.map_filter_def reply_positions_def)
next
  case (2 sent conversation p i m rest)
  show ?case
  proof (cases "cm_role m = Assistant")
    case False
    with 2 show ?thesis by (simp add: reply_positions_def)
  next
    case True
    let ?b = "generate_before sent conversation p i m"
    have i: "p \<le> i" "i < length sent" "sorted (i # map fst rest)" "list_all (\<lambda>q. fst q < length sent) rest"
      using "2.prems" by auto
    note IH = "2.IH"(2) [OF _ i(3,4)]
    have b: "past ?b = take p sent" "bg_input ?b = take i sent"
      by (simp_all add: generate_before_def past_def first_messages_def)
    have "new_messages ?b = drop p (take i sent)"
      using i by (simp add: new_messages_def b min_absorb2)
    moreover have "prefix (past ?b) (bg_input ?b)"
      unfolding b using i(1) by (metis min.absorb1 take_is_prefix take_take)
    ultimately show ?thesis
      using True IH i(1) take_drop_split [OF i(1), of "last (i # reply_positions rest)" sent]
      by (auto simp: generates_append generates_of reply_positions_def)
  qed
qed

text \<open>C29: Every conversation can be rebuilt, and between them the generates are handed each message
  before the last reply as new exactly once, in order: a generate's history is the start of its
  input, and the rest is what no earlier generate was sent.\<close>

theorem generates_cover_messages:
  "\<exists>steps. steps_from_messages ms conversation = Inr steps
     \<and> list_all (\<lambda>b. prefix (past b) (bg_input b)) (generates steps)
     \<and> concat (map new_messages (generates steps)) = take (last (0 # reply_positions (indexed ms))) ms"
proof -
  have "sorted (0 # map fst (indexed ms))" "list_all (\<lambda>q. fst q < length ms) (indexed ms)"
    by (auto simp: list_all_iff set_indexed)
  from rebuilt_new [OF this] show ?thesis by (simp add: steps_from_messages_rebuilt)
qed

end
