(* ===== verification/Replay.thy ===== *)
theory Replay
  imports Threshold FromMessages
begin

text \<open>
  What a host keeps of a person's decisions (\<open>_human_decisions.py\<close>), and the replay of a
  sentinel over steps rebuilt from a transcript (\<open>_replay.py\<close>): the recorder with its marks,
  the host that answers for the person, and the loop over the steps, each of which is a run of
  \<open>run_sentinel\<close>.
\<close>

section \<open>Decisions a host keeps\<close>

definition human_factory :: string where
  "human_factory = ''inspect_sentinel/human''"

definition covered_calls :: "step \<Rightarrow> string list" where
  "covered_calls step =
     (case step of
        AfterGenerate s \<Rightarrow>
          (case output_message (ag_output s) of
             None \<Rightarrow> []
           | Some m \<Rightarrow> map tc_id (case cm_tool_calls m of None \<Rightarrow> [] | Some cs \<Rightarrow> cs))
      | BeforeGenerate s \<Rightarrow> []
      | BeforeToolCall s \<Rightarrow> [tc_id (bt_call s)]
      | AfterToolCall s \<Rightarrow> [tc_id (at_call s)])"

text \<open>The record holds a fresh decision, without the origin the runner stamped on it.\<close>

definition kept_human_decision :: "string \<Rightarrow> step \<Rightarrow> string \<Rightarrow> report reported \<Rightarrow> human_decision option" where
  "kept_human_decision factory step step_id r =
     (if factory \<noteq> human_factory then None
      else case rp_report r of
        RObs obs \<Rightarrow> None
      | RDec d \<Rightarrow> Some
          \<lparr>hd_stage = stage_of step, hd_step_id = step_id, hd_call_ids = covered_calls step,
           hd_decided = \<lparr>rp_name = rp_name r, rp_path = rp_path r,
             rp_report = d\<lparr>d_origin := None\<rparr>, rp_function = rp_function r\<rparr>\<rparr>)"

definition at_or_above :: "string \<Rightarrow> string \<Rightarrow> bool" where
  "at_or_above path own \<longleftrightarrow> path = [] \<or> own = path \<or> starts_with own (path @ ''/'')"

definition supersedes :: "string \<Rightarrow> decision reported \<Rightarrow> human_decision \<Rightarrow> bool" where
  "supersedes path r kept \<longleftrightarrow>
     at_or_above path (rp_path (hd_decided kept))
     \<and> d_action (rp_report (hd_decided kept)) = d_action (rp_report r)"

text \<open>The path of the instances named on the way from the root.\<close>

definition path_of :: "string list \<Rightarrow> string" where
  "path_of names = foldl child_path [] names"

lemma path_of_snoc: "path_of (names @ [n]) = child_path (path_of names) n"
  by (simp add: path_of_def)

lemma segments_split: "segments c (xs @ c # ys) = segments c xs @ segments c ys"
proof (induction xs)
  case (Cons x xs)
  have "segments c xs \<noteq> []" for xs
    by (induction xs) (auto split: list.splits)
  then obtain s ss where "segments c xs = s # ss" by (meson list.exhaust)
  with Cons show ?case by simp
qed simp

lemma segments_one: "c \<notin> set xs \<Longrightarrow> segments c xs = [xs]"
  by (induction xs) auto

lemma valid_name_iff: "valid_instance_name n = None \<longleftrightarrow> n \<noteq> [] \<and> CHR ''/'' \<notin> set n"
  by (simp add: valid_instance_name_def)

lemma path_of_Nil_iff:
  "list_all (\<lambda>n. valid_instance_name n = None) names \<Longrightarrow> path_of names = [] \<longleftrightarrow> names = []"
  by (induction names rule: rev_induct) (auto simp: path_of_snoc child_path_def valid_name_iff, simp add: path_of_def)

lemma segments_path_of:
  "list_all (\<lambda>n. valid_instance_name n = None) names \<Longrightarrow> names \<noteq> [] \<Longrightarrow>
     segments CHR ''/'' (path_of names) = names"
proof (induction names rule: rev_induct)
  case (snoc n names)
  then show ?case
    using path_of_Nil_iff [of names]
    by (cases "names = []") (simp_all add: path_of_snoc child_path_def segments_split segments_one valid_name_iff path_of_def)
qed simp

lemma path_of_append: "names \<noteq> [] \<Longrightarrow> list_all (\<lambda>n. valid_instance_name n = None) names \<Longrightarrow> rest \<noteq> [] \<Longrightarrow>
    \<exists>r. path_of (names @ rest) = path_of names @ CHR ''/'' # r"
proof (induction rest rule: rev_induct)
  case (snoc n rest)
  show ?case
  proof (cases "rest = []")
    case True
    with snoc show ?thesis
      using path_of_Nil_iff [of names] by (simp add: path_of_snoc child_path_def)
  next
    case False
    with snoc obtain r where r: "path_of (names @ rest) = path_of names @ CHR ''/'' # r" by blast
    have "path_of (names @ rest @ [n]) = child_path (path_of (names @ rest)) n"
      using path_of_snoc [of "names @ rest" n] by simp
    with r show ?thesis by (simp add: child_path_def)
  qed
qed simp

lemma at_or_above_prefix:
  assumes "list_all (\<lambda>n. valid_instance_name n = None) outer"
    and "list_all (\<lambda>n. valid_instance_name n = None) inner"
  shows "at_or_above (path_of outer) (path_of inner) \<longleftrightarrow> prefix outer inner"
proof
  assume r: "prefix outer inner"
  then obtain rest where b: "inner = outer @ rest" by (auto simp: prefix_def)
  show "at_or_above (path_of outer) (path_of inner)"
  proof (cases "outer = [] \<or> rest = []")
    case True
    then show ?thesis using b by (auto simp: at_or_above_def path_of_def)
  next
    case False
    with path_of_append assms(1) b show ?thesis
      by (metis (no_types, lifting) append.assoc append_Cons append_Nil at_or_above_def starts_with_append)
  qed
next
  assume l: "at_or_above (path_of outer) (path_of inner)"
  show "prefix outer inner"
  proof (cases "outer = []")
    case False
    then have a: "path_of outer \<noteq> []" using path_of_Nil_iff [OF assms(1)] by simp
    from l a have "path_of inner \<noteq> []" by (auto simp: at_or_above_def starts_with_iff)
    then have b: "inner \<noteq> []" by (auto simp: path_of_def)
    consider "path_of inner = path_of outer"
      | r where "path_of inner = path_of outer @ CHR ''/'' # r"
      using l a by (auto simp: at_or_above_def starts_with_iff)
    then have "prefix (segments CHR ''/'' (path_of outer)) (segments CHR ''/'' (path_of inner))"
      by cases (simp_all add: segments_split)
    then show ?thesis by (simp add: segments_path_of assms False b)
  qed simp
qed

text \<open>A supersession withdraws a person's decision of the same action exactly when it was
  made at the deciding instance or at a layer above it: the paths say who is above whom.\<close>

theorem supersedes_above:
  assumes "list_all (\<lambda>n. valid_instance_name n = None) outer"
    and "list_all (\<lambda>n. valid_instance_name n = None) inner"
    and "rp_path (hd_decided kept) = path_of inner"
  shows "supersedes (path_of outer) r kept \<longleftrightarrow>
     prefix outer inner \<and> d_action (rp_report (hd_decided kept)) = d_action (rp_report r)"
  using assms by (simp add: supersedes_def at_or_above_prefix)

definition kept_sample :: human_decision where
  "kept_sample = \<lparr>hd_stage = ToolCallStage, hd_step_id = ''c1'', hd_call_ids = [''c1''],
     hd_decided = \<lparr>rp_name = ''human'', rp_path = ''gate/human'',
       rp_report = decision_reject None None [], rp_function = ''tool_call''\<rparr>\<rparr>"

theorem supersedes_above_witness:
  "supersedes ''gate'' (hd_decided kept_sample) kept_sample
   \<and> \<not> supersedes ''gat'' (hd_decided kept_sample) kept_sample"
proof -
  have v: "list_all (\<lambda>n. valid_instance_name n = None) [''gate'']" "list_all (\<lambda>n. valid_instance_name n = None) [''gat'']"
      "list_all (\<lambda>n. valid_instance_name n = None) [''gate'', ''human'']"
      "rp_path (hd_decided kept_sample) = path_of [''gate'', ''human'']"
      "path_of [''gate''] = ''gate''" "path_of [''gat''] = ''gat''"
    by (simp_all add: valid_instance_name_def kept_sample_def path_of_def child_path_def)
  show ?thesis
    using supersedes_above [OF v(1) v(3) v(4), of "hd_decided kept_sample"]
      supersedes_above [OF v(2) v(3) v(4), of "hd_decided kept_sample"] v(5,6) by simp
qed


section \<open>The recorder of a replay\<close>

record recorder =
  rc_reports :: "report reported list"
  rc_failures :: "failed list"
  rc_supersessions :: "decision reported list"

definition no_records :: recorder where
  "no_records = \<lparr>rc_reports = [], rc_failures = [], rc_supersessions = []\<rparr>"

text \<open>The methods the runner calls: \<open>record\<close>, \<open>failed\<close>, \<open>cancelled\<close>, \<open>bypassed\<close> and
  \<open>superseded\<close>.\<close>

definition record_event :: "recorder \<Rightarrow> event \<Rightarrow> recorder" where
  "record_event rc e =
     (case e of
        Recorded path factory step r \<Rightarrow> rc\<lparr>rc_reports := rc_reports rc @ [r]\<rparr>
      | MonitorFailed path factory step f \<Rightarrow> rc\<lparr>rc_failures := rc_failures rc @ [f]\<rparr>
      | Cancelled path factory step name \<Rightarrow> rc
      | Bypassed path factory step name \<Rightarrow> rc
      | Superseded path factory step r \<Rightarrow> rc\<lparr>rc_supersessions := rc_supersessions rc @ [r]\<rparr>)"

definition record_all :: "event list \<Rightarrow> recorder \<Rightarrow> recorder" where
  "record_all es rc = foldl record_event rc es"

definition mark_of :: "recorder \<Rightarrow> nat \<times> nat \<times> nat" where
  "mark_of rc = (length (rc_reports rc), length (rc_failures rc), length (rc_supersessions rc))"

definition since :: "nat \<times> nat \<times> nat \<Rightarrow> recorder \<Rightarrow> recorder" where
  "since m rc =
     (case m of (reports, failures, supersessions) \<Rightarrow>
        \<lparr>rc_reports = drop reports (rc_reports rc), rc_failures = drop failures (rc_failures rc),
         rc_supersessions = drop supersessions (rc_supersessions rc)\<rparr>)"

definition joined :: "recorder \<Rightarrow> recorder \<Rightarrow> recorder" where
  "joined a b =
     \<lparr>rc_reports = rc_reports a @ rc_reports b, rc_failures = rc_failures a @ rc_failures b,
      rc_supersessions = rc_supersessions a @ rc_supersessions b\<rparr>"

lemma record_all_joined: "record_all es rc = joined rc (record_all es no_records)"
proof (induction es rule: rev_induct)
  case (snoc e es)
  have "record_event (joined a b) e = joined a (record_event b e)" for a b
    by (cases e) (simp_all add: record_event_def joined_def)
  then show ?case using snoc by (simp add: record_all_def)
qed (simp add: record_all_def joined_def no_records_def)

lemma since_mark: "since (mark_of rc) (record_all es rc) = record_all es no_records"
  by (subst record_all_joined) (simp add: since_def mark_of_def joined_def)

section \<open>Answering for the person\<close>

datatype human_source = FromRecord | Unanswered | Simulated

text \<open>How a replay answers where nothing was recorded: \<open>human=\<close>. A stand-in is a parameter; it is
  told how often the host was called before.\<close>

datatype fallback =
    FixedAnswer string
  | StandIn "nat \<Rightarrow> replay_step \<Rightarrow> escalations \<Rightarrow> string list \<Rightarrow> exc + human_answer"

text \<open>\<open>_ReplayHost.ask_human\<close>: the answer and where it came from.\<close>

definition replay_answer ::
  "fallback \<Rightarrow> replay_step \<Rightarrow> nat \<Rightarrow> string \<Rightarrow> escalations \<Rightarrow> string list
     \<Rightarrow> exc + human_source \<times> human_answer" where
  "replay_answer fb r n path escs choices =
     (let asked_person =
        (case fb of
           StandIn f \<Rightarrow> bind_err (f n r escs choices) (\<lambda>a. Inr (Simulated, a))
         | FixedAnswer fixed \<Rightarrow>
             (let d = (if fixed \<in> set choices then fixed else ''terminate'')
              in Inr (Unanswered, \<lparr>ha_decision = d,
                   ha_reason = Some (''No person can be asked in a replay, and no answer was recorded here; answered ''
                     @ [CHR 0x27] @ d @ [CHR 0x27] @ '' for the replay.''),
                   ha_modified = None\<rparr>)))
      in case map_of (re_answers r) path of
           Some a \<Rightarrow>
             if ha_decision a \<in> set choices \<or> ha_decision a = ''terminate'' then Inr (FromRecord, a)
             else asked_person
         | None \<Rightarrow> asked_person)"

definition replay_host :: "(nat \<Rightarrow> json \<Rightarrow> exc + json) \<Rightarrow> fallback \<Rightarrow> replay_step \<Rightarrow> host" where
  "replay_host calls fb r =
     \<lparr>ho_call = calls,
      ho_ask = (\<lambda>n path step escs choices.
        bind_err (replay_answer fb r n path escs choices) (\<lambda>p. Inr (snd p)))\<rparr>"

text \<open>What \<open>_asked\<close> and \<open>_sources\<close> hold once the step has run.\<close>

definition asked_paths :: "asked list \<Rightarrow> string list" where
  "asked_paths asked =
     List.map_filter (\<lambda>a. case a of HumanAsked path step escs choices \<Rightarrow> Some path | _ \<Rightarrow> None) asked"

definition source_of :: "fallback \<Rightarrow> replay_step \<Rightarrow> asked list \<Rightarrow> asked \<Rightarrow> (human_source \<times> string) option" where
  "source_of fb r asked a =
     (case a of
        HumanAnswered n answer \<Rightarrow>
          (case asked ! n of
             HumanAsked path step escs choices \<Rightarrow>
               (case replay_answer fb r n path escs choices of
                  Inr (src, b) \<Rightarrow> Some (src, ha_decision answer)
                | Inl e \<Rightarrow> None)
           | _ \<Rightarrow> None)
      | _ \<Rightarrow> None)"

definition answer_sources :: "fallback \<Rightarrow> replay_step \<Rightarrow> asked list \<Rightarrow> (human_source \<times> string) list" where
  "answer_sources fb r asked = List.map_filter (source_of fb r asked) asked"

text \<open>\<open>_WEAKEST\<close> and \<open>answered\<close>.\<close>

definition weakest :: "human_source list" where
  "weakest = [Unanswered, Simulated, FromRecord]"

fun first_source ::
  "human_source list \<Rightarrow> (human_source \<times> string) list \<Rightarrow> human_source option \<times> string option" where
  "first_source [] given = (None, None)"
| "first_source (w # ws) given =
     (case find (\<lambda>p. fst p = w) given of
        Some p \<Rightarrow> (Some (fst p), if fst p = Unanswered then Some (snd p) else None)
      | None \<Rightarrow> first_source ws given)"

definition answered :: "(human_source \<times> string) list \<Rightarrow> human_source option \<times> string option" where
  "answered given = first_source weakest given"

section \<open>The replay\<close>

record replay_report =
  rr_step :: replay_step
  rr_name :: string
  rr_path :: string
  rr_records :: recorder
  rr_decision :: "decision option"
  rr_human :: "human_source option"
  rr_human_answer :: "string option"
  rr_human_paths :: "string list"

text \<open>\<open>ReplayReport.report\<close>.\<close>

definition own_report :: "replay_report \<Rightarrow> report reported option" where
  "own_report rr = find (\<lambda>r. rp_path r = rr_path rr) (rev (rc_reports (rr_records rr)))"

text \<open>\<open>_root\<close>: the protocol that runs, and the name and path of what is replayed.\<close>

definition replay_root :: "children_spec \<Rightarrow> (exc + string list) + sentinel \<times> string \<times> string" where
  "replay_root spec =
     (case named_children spec None of
        Inl e \<Rightarrow> Inl (Inl e)
      | Inr named \<Rightarrow>
          if named \<noteq> [] \<and> list_all (\<lambda>p. sentinel_kind (snd p) = MonitorKind) named then
            (case observe_only spec of
               Inl e \<Rightarrow> Inl (Inl e)
             | Inr protocol \<Rightarrow>
                 if length named = 1 then Inr (protocol, fst (hd named), fst (hd named))
                 else Inr (protocol, sentinel_name protocol, []))
          else
            (case resolve_sentinel spec of
               Inl e \<Rightarrow> Inl e
             | Inr protocol \<Rightarrow> Inr (protocol, sentinel_name protocol, [])))"

datatype replay_failure =
    BadSentinel "exc + string list"
  | DuplicateStep string string string
  | StepRaised exn

definition step_key :: "replay_step \<Rightarrow> string \<times> string \<times> string" where
  "step_key r = (step_conversation (re_step r), re_stage r, re_id r)"

definition not_run :: "replay_step \<Rightarrow> string \<Rightarrow> string \<Rightarrow> replay_report" where
  "not_run r name path =
     \<lparr>rr_step = r, rr_name = name, rr_path = path, rr_records = no_records, rr_decision = None,
      rr_human = None, rr_human_answer = None, rr_human_paths = []\<rparr>"

text \<open>What the steps of a transcript share: the instance, what the host's model answers, by step
  and call, the fallback, the stages \<open>watched_stages\<close> finds, \<open>select\<close>, and the schedule of
  each step.\<close>

record replay =
  rl_root :: sentinel
  rl_name :: string
  rl_path :: string
  rl_calls :: "nat \<Rightarrow> nat \<Rightarrow> json \<Rightarrow> exc + json"
  rl_human :: fallback
  rl_watched :: "stage list"
  rl_select :: "replay_step \<Rightarrow> bool"
  rl_schedule :: "nat \<Rightarrow> nat list"

definition replayed_run :: "replay \<Rightarrow> nat \<Rightarrow> replay_step \<Rightarrow> (exn + decision option) \<times> run_state" where
  "replayed_run rl n r =
     run_sentinel (replay_host (rl_calls rl n) (rl_human rl) r) (rl_root rl) (re_step r) n (rl_schedule rl n)"

text \<open>One step: its report, and the recorder after it.\<close>

definition replay_one ::
  "replay \<Rightarrow> nat \<Rightarrow> replay_step \<Rightarrow> recorder \<Rightarrow> replay_failure + replay_report \<times> recorder" where
  "replay_one rl n r rc =
     (if stage_of (re_step r) \<notin> set (rl_watched rl) then Inr (not_run r (rl_name rl) (rl_path rl), rc)
      else
        (let start = mark_of rc; run = replayed_run rl n r; rc' = record_all (rt_events (snd run)) rc;
             asked = rt_asked (snd run)
         in case fst run of
              Inl x \<Rightarrow> Inl (StepRaised x)
            | Inr d \<Rightarrow>
                Inr (\<lparr>rr_step = r, rr_name = rl_name rl, rr_path = rl_path rl, rr_records = since start rc',
                      rr_decision = d, rr_human = fst (answered (answer_sources (rl_human rl) r asked)),
                      rr_human_answer = snd (answered (answer_sources (rl_human rl) r asked)),
                      rr_human_paths = asked_paths asked\<rparr>, rc')))"

text \<open>The loop of \<open>replay_monitor\<close>; \<open>n\<close> counts the steps.\<close>

fun replay_loop ::
  "replay \<Rightarrow> nat \<Rightarrow> replay_step list \<Rightarrow> (string \<times> string \<times> string) list \<Rightarrow> recorder
     \<Rightarrow> replay_failure + replay_report list" where
  "replay_loop rl n [] seen rc = Inr []"
| "replay_loop rl n (r # rs) seen rc =
     (if step_key r \<in> set seen
      then Inl (DuplicateStep (re_stage r) (step_conversation (re_step r)) (re_id r))
      else if \<not> rl_select rl r then replay_loop rl (Suc n) rs (step_key r # seen) rc
      else case replay_one rl n r rc of
        Inl e \<Rightarrow> Inl e
      | Inr (report, rc') \<Rightarrow>
          (case replay_loop rl (Suc n) rs (step_key r # seen) rc' of
             Inl e \<Rightarrow> Inl e
           | Inr reports \<Rightarrow> Inr (report # reports)))"

definition replay_monitor ::
  "children_spec \<Rightarrow> replay_step list \<Rightarrow> (nat \<Rightarrow> nat \<Rightarrow> json \<Rightarrow> exc + json) \<Rightarrow> stage list
     \<Rightarrow> (replay_step \<Rightarrow> bool) \<Rightarrow> fallback \<Rightarrow> (nat \<Rightarrow> nat list) \<Rightarrow> replay_failure + replay_report list" where
  "replay_monitor spec steps calls watched_by select fb schedule =
     (case replay_root spec of
        Inl e \<Rightarrow> Inl (BadSentinel e)
      | Inr (protocol, name, path) \<Rightarrow>
          replay_loop \<lparr>rl_root = protocol, rl_name = name, rl_path = path, rl_calls = calls,
            rl_human = fb, rl_watched = watched_by, rl_select = select, rl_schedule = schedule\<rparr>
            0 steps [] no_records)"


section \<open>Each step's report is that step's run\<close>

text \<open>The report of a step run on its own, with a recorder of its own.\<close>

definition standalone :: "replay \<Rightarrow> nat \<Rightarrow> replay_step \<Rightarrow> replay_report" where
  "standalone rl n r =
     (if stage_of (re_step r) \<notin> set (rl_watched rl) then not_run r (rl_name rl) (rl_path rl)
      else
        (let run = replayed_run rl n r; asked = rt_asked (snd run)
         in \<lparr>rr_step = r, rr_name = rl_name rl, rr_path = rl_path rl,
             rr_records = record_all (rt_events (snd run)) no_records,
             rr_decision = (case fst run of Inl x \<Rightarrow> None | Inr d \<Rightarrow> d),
             rr_human = fst (answered (answer_sources (rl_human rl) r asked)),
             rr_human_answer = snd (answered (answer_sources (rl_human rl) r asked)),
             rr_human_paths = asked_paths asked\<rparr>))"

definition runs_through :: "replay \<Rightarrow> nat \<Rightarrow> replay_step \<Rightarrow> bool" where
  "runs_through rl n r \<longleftrightarrow>
     stage_of (re_step r) \<notin> set (rl_watched rl) \<or> \<not> isl (fst (replayed_run rl n r))"

lemma replay_one_standalone:
  "replay_one rl n r rc = Inr (report, rc') \<Longrightarrow> report = standalone rl n r \<and> runs_through rl n r"
  by (auto simp: replay_one_def standalone_def runs_through_def Let_def since_mark
      split: if_splits sum.splits)

lemma replay_loop_standalone:
  "replay_loop rl n steps seen rc = Inr reports \<Longrightarrow>
     distinct (map step_key steps) \<and> set seen \<inter> step_key ` set steps = {}
     \<and> reports = map (\<lambda>(k, r). standalone rl k r)
         (filter (\<lambda>p. rl_select rl (snd p)) (zip [n..<n + length steps] steps))
     \<and> list_all (\<lambda>(k, r). runs_through rl k r)
         (filter (\<lambda>p. rl_select rl (snd p)) (zip [n..<n + length steps] steps))"
proof (induction steps arbitrary: n seen rc reports)
  case (Cons r rs)
  have z: "zip [n..<n + length (r # rs)] (r # rs) = (n, r) # zip [Suc n..<Suc n + length rs] rs"
    by (simp add: upt_conv_Cons del: upt_Suc)
  from Cons.prems have new: "step_key r \<notin> set seen" by (auto split: if_splits)
  show ?case
  proof (cases "rl_select rl r")
    case False
    with Cons.prems new have "replay_loop rl (Suc n) rs (step_key r # seen) rc = Inr reports" by simp
    from Cons.IH [OF this] False new show ?thesis unfolding z by auto
  next
    case True
    with Cons.prems new obtain report rc' reports' where one: "replay_one rl n r rc = Inr (report, rc')"
      and rest: "replay_loop rl (Suc n) rs (step_key r # seen) rc' = Inr reports'"
      and reports: "reports = report # reports'"
      by (auto split: sum.splits prod.splits)
    from Cons.IH [OF rest] replay_one_standalone [OF one] True new reports show ?thesis
      unfolding z by auto
  qed
qed simp


definition person :: sentinel where
  "person = (case human [''tool_call''] None of Inr s \<Rightarrow> s | Inl e \<Rightarrow> always ''a'' (decision_proceed None []))"

definition answered_step :: "string \<Rightarrow> (string \<times> human_answer) list \<Rightarrow> replay_step" where
  "answered_step i given =
     \<lparr>re_id = i, re_stage = ''tool_call'', re_step = sample_step, re_segment = (''k'', 0),
      re_answers = given, re_depth = None\<rparr>"

definition two_steps :: "replay_step list" where
  "two_steps =
     [answered_step ''c1'' [([], \<lparr>ha_decision = ''approve'', ha_reason = None, ha_modified = None\<rparr>)],
      answered_step ''c2'' []]"


section \<open>Where an answer came from\<close>

primrec weakness :: "human_source \<Rightarrow> nat" where
  "weakness FromRecord = 0"
| "weakness Simulated = 1"
| "weakness Unanswered = 2"

lemma weakness_le: "weakness s \<le> 2" "weakness s = weakness t \<longleftrightarrow> s = t"
  by (cases s; simp) (cases s; cases t; simp)

lemma find_first: "xs = us @ y # vs \<Longrightarrow> P y \<Longrightarrow> \<forall>u\<in>set us. \<not> P u \<Longrightarrow> find P xs = Some y"
  by (induction us arbitrary: xs) auto

text \<open>The source reported for a step is the weakest of its answers', the first of them where
  several are: \<open>recorded\<close> is reported only when nothing was made up.\<close>

theorem human_source_weakest:
  "answered given =
     (case first_max (\<lambda>p. weakness (fst p)) given of
        None \<Rightarrow> (None, None)
      | Some p \<Rightarrow> (Some (fst p), if fst p = Unanswered then Some (snd p) else None))"
proof (cases "first_max (\<lambda>p. weakness (fst p)) given")
  case None
  then show ?thesis by (simp add: answered_def weakest_def)
next
  case (Some p)
  note le = first_max_Some [OF Some]
  from first_max_first [OF Some] obtain us vs where g: "given = us @ p # vs"
    and us: "\<forall>u\<in>set us. weakness (fst u) < weakness (fst p)" by blast
  have this_one: "find (\<lambda>q. fst q = fst p) given = Some p"
    by (rule find_first [OF g]) (use us in auto)
  have higher: "find (\<lambda>q. fst q = w) given = None" if "weakness (fst p) < weakness w" for w
    using that le by (fastforce simp: find_None_iff)
  show ?thesis
    by (cases "fst p") (use Some this_one higher in \<open>simp_all add: answered_def weakest_def\<close>)
qed

text \<open>C28: A replay with a fixed answer never fails at \<open>human()\<close>: whatever was recorded and
  whatever the replayed \<open>human()\<close> offers, the answer makes a decision.\<close>

theorem replay_human_decides:
  assumes "fixed \<in> {''approve'', ''reject'', ''terminate''}"
    and "list_all (\<lambda>(path, a). ha_modified a \<noteq> None \<longrightarrow> ha_decision a = ''modify'') (re_answers r)"
  shows "\<exists>src a d. replay_answer (FixedAnswer fixed) r n path escs choices = Inr (src, a)
     \<and> decision_of_answer a choices = Inr d
     \<and> (src = FromRecord \<longleftrightarrow> map_of (re_answers r) path = Some a)"
proof (cases "\<exists>a. map_of (re_answers r) path = Some a \<and> (ha_decision a \<in> set choices \<or> ha_decision a = ''terminate'')")
  case True
  then obtain a where a: "map_of (re_answers r) path = Some a"
      "ha_decision a \<in> set choices \<or> ha_decision a = ''terminate''" by blast
  from map_of_SomeD [OF a(1)] assms(2) have "ha_modified a \<noteq> None \<longrightarrow> ha_decision a = ''modify''"
    by (auto simp: list_all_iff)
  with a show ?thesis by (auto simp: replay_answer_def decision_of_answer_def Let_def)
next
  case False
  then have "\<exists>a. replay_answer (FixedAnswer fixed) r n path escs choices = Inr (Unanswered, a)
      \<and> (ha_decision a \<in> set choices \<or> ha_decision a = ''terminate'') \<and> ha_modified a = None"
    by (auto simp: replay_answer_def Let_def split: option.splits)
  then obtain a where a: "replay_answer (FixedAnswer fixed) r n path escs choices = Inr (Unanswered, a)"
      "ha_decision a \<in> set choices \<or> ha_decision a = ''terminate''" "ha_modified a = None" by blast
  with False have "map_of (re_answers r) path \<noteq> Some a" by auto
  with a show ?thesis by (auto simp: decision_of_answer_def Let_def)
qed

theorem replay_human_decides_witness:
  "\<exists>src a d. replay_answer (FixedAnswer ''reject'') (answered_step ''c2'' []) 0 [] [] [''approve'', ''terminate'']
       = Inr (src, a) \<and> decision_of_answer a [''approve'', ''terminate''] = Inr d \<and> src \<noteq> FromRecord"
  using replay_human_decides [of "''reject''" "answered_step ''c2'' []" 0 "[]" "[]" "[''approve'', ''terminate'']"]
  by (auto simp: answered_step_def)

end
