(* ===== verification/Streams.thy ===== *)
theory Streams
  imports Report
begin

text \<open>
  The events of a provider's reply stream: read from the whole stream (\<open>written_events\<close>,
  \<open>stream_event\<close> and \<open>write_events\<close> of \<open>sidecar/_wire.py\<close>) and read as its bytes arrive
  (\<open>EventReader\<close> of \<open>sidecar/_release.py\<close>). Text is kept as its UTF-8 bytes, so decoding checks
  the bytes and holds back a character that is not complete yet. \<open>json.loads\<close> and
  \<open>json.dumps\<close> are parameters: \<open>loads t = None\<close> is the \<open>ValueError\<close>.
\<close>

section \<open>Decoding UTF-8 as it arrives\<close>

text \<open>The ranges of the bytes that must follow a first byte; \<open>None\<close> is a byte no character starts
  with.\<close>

definition continuation :: "nat \<times> nat" where
  "continuation = (128, 191)"

definition lead_byte :: "nat \<Rightarrow> (nat \<times> nat) list option" where
  "lead_byte b =
     (if b < 128 then Some []
      else if 194 \<le> b \<and> b \<le> 223 then Some [continuation]
      else if b = 224 then Some [(160, 191), continuation]
      else if b = 237 then Some [(128, 159), continuation]
      else if 225 \<le> b \<and> b \<le> 239 then Some [continuation, continuation]
      else if b = 240 then Some [(144, 191), continuation, continuation]
      else if 241 \<le> b \<and> b \<le> 243 then Some [continuation, continuation, continuation]
      else if b = 244 then Some [(128, 143), continuation, continuation]
      else None)"

text \<open>The incremental decoder: the bytes of a character that has begun, and the ranges of those it
  still needs.\<close>

record decoder =
  de_pending :: string
  de_needed :: "(nat \<times> nat) list"

definition fresh_decoder :: decoder where
  "fresh_decoder = \<lparr>de_pending = [], de_needed = []\<rparr>"

definition decode_byte :: "decoder \<Rightarrow> char \<Rightarrow> (string \<times> decoder) option" where
  "decode_byte d c =
     (let b = of_char c :: nat; begun = de_pending d @ [c]
      in case de_needed d of
           [] \<Rightarrow>
             (case lead_byte b of
                None \<Rightarrow> None
              | Some [] \<Rightarrow> Some (begun, fresh_decoder)
              | Some needed \<Rightarrow> Some ([], \<lparr>de_pending = begun, de_needed = needed\<rparr>))
         | (lo, hi) # needed \<Rightarrow>
             if b < lo \<or> hi < b then None
             else if needed = [] then Some (begun, fresh_decoder)
             else Some ([], \<lparr>de_pending = begun, de_needed = needed\<rparr>))"

fun decode_bytes :: "decoder \<Rightarrow> string \<Rightarrow> (string \<times> decoder) option" where
  "decode_bytes d [] = Some ([], d)"
| "decode_bytes d (c # cs) =
     (case decode_byte d c of
        None \<Rightarrow> None
      | Some (out, d') \<Rightarrow>
          (case decode_bytes d' cs of
             None \<Rightarrow> None
           | Some (out', d'') \<Rightarrow> Some (out @ out', d'')))"

text \<open>\<open>decode(data, final=...)\<close>.\<close>

definition decode :: "decoder \<Rightarrow> string \<Rightarrow> bool \<Rightarrow> (string \<times> decoder) option" where
  "decode d data final_part =
     (case decode_bytes d data of
        None \<Rightarrow> None
      | Some (out, d') \<Rightarrow> if final_part \<and> de_needed d' \<noteq> [] then None else Some (out, d'))"

lemma decode_bytes_append:
  "decode_bytes d (xs @ ys) =
     (case decode_bytes d xs of
        None \<Rightarrow> None
      | Some (out, d') \<Rightarrow>
          (case decode_bytes d' ys of None \<Rightarrow> None | Some (out', d'') \<Rightarrow> Some (out @ out', d'')))"
  by (induction xs arbitrary: d) (auto split: option.splits prod.splits)

lemma decode_bytes_None: "decode_bytes d xs = None \<Longrightarrow> decode_bytes d (xs @ ys) = None"
  by (simp add: decode_bytes_append)

text \<open>Decoding only holds bytes back: what it gives and holds is what it was given.\<close>

definition decoder_ok :: "decoder \<Rightarrow> bool" where
  "decoder_ok d \<longleftrightarrow> (de_needed d = [] \<longrightarrow> de_pending d = [])"

lemma decoder_ok_fresh [simp]: "decoder_ok fresh_decoder"
  by (simp add: decoder_ok_def fresh_decoder_def)

lemma decode_byte_keeps:
  "decode_byte d c = Some (out, d') \<Longrightarrow> de_pending d @ [c] = out @ de_pending d' \<and> decoder_ok d'"
  by (auto simp: decode_byte_def Let_def fresh_decoder_def decoder_ok_def
      split: list.splits option.splits if_splits prod.splits)

lemma decode_bytes_keeps:
  "decode_bytes d cs = Some (out, d') \<Longrightarrow> decoder_ok d \<Longrightarrow>
     de_pending d @ cs = out @ de_pending d' \<and> decoder_ok d'"
proof (induction d cs arbitrary: out rule: decode_bytes.induct)
  case (2 d c cs)
  from "2.prems"(1) obtain o1 d1 o2 where b: "decode_byte d c = Some (o1, d1)"
    and r: "decode_bytes d1 cs = Some (o2, d')" and out: "out = o1 @ o2"
    by (auto split: option.splits prod.splits)
  note k = decode_byte_keeps [OF b]
  from "2.IH" [OF b refl r] k have "de_pending d1 @ cs = o2 @ de_pending d' \<and> decoder_ok d'" by simp
  with k out show ?case by (metis append.assoc append_Cons append_Nil)
qed simp

section \<open>Lines\<close>

abbreviation cr :: char where "cr \<equiv> CHR 0x0D"
abbreviation lf :: char where "lf \<equiv> CHR 0x0A"

text \<open>\<open>LINE_END_KEPT.split\<close>: each line with its line end, and what follows the last line end.
  \<open>line\<close> is the line read so far.\<close>

definition with_line :: "string \<times> string \<Rightarrow> (string \<times> string) list \<times> string \<Rightarrow> (string \<times> string) list \<times> string" where
  "with_line l r = (l # fst r, snd r)"

fun split_lines :: "string \<Rightarrow> string \<Rightarrow> (string \<times> string) list \<times> string" where
  "split_lines line [] = ([], line)"
| "split_lines line (c # cs) =
     (if c = cr then
        (case cs of
           [] \<Rightarrow> with_line (line, [cr]) (split_lines [] cs)
         | d # ds \<Rightarrow>
             if d = lf then with_line (line, [cr, lf]) (split_lines [] ds)
             else with_line (line, [cr]) (split_lines [] cs))
      else if c = lf then with_line (line, [lf]) (split_lines [] cs)
      else split_lines (line @ [c]) cs)"

definition line_bytes :: "(string \<times> string) list \<Rightarrow> string" where
  "line_bytes ls = concat (map (\<lambda>(line, eol). line @ eol) ls)"

lemma line_bytes_simps [simp]:
  "line_bytes [] = []" "line_bytes ((line, eol) # ls) = line @ eol @ line_bytes ls"
  "line_bytes (xs @ ys) = line_bytes xs @ line_bytes ys"
  by (simp_all add: line_bytes_def)

text \<open>Splitting loses nothing.\<close>

lemma split_lines_bytes: "line_bytes (fst (split_lines line cs)) @ snd (split_lines line cs) = line @ cs"
proof (induction line cs rule: split_lines.induct)
  case (2 line c cs)
  then show ?case by (cases cs) (simp_all add: with_line_def)
qed simp

text \<open>The last line ends with a carriage return at the very end: a line feed may yet follow.\<close>

definition open_end :: "(string \<times> string) list \<times> string \<Rightarrow> bool" where
  "open_end r \<longleftrightarrow> fst r \<noteq> [] \<and> snd (last (fst r)) = [cr] \<and> snd r = []"

definition settled :: "(string \<times> string) list \<times> string \<Rightarrow> (string \<times> string) list \<times> string" where
  "settled r =
     (if open_end r then (butlast (fst r), fst (last (fst r)) @ snd (last (fst r))) else r)"

definition plain :: "string \<Rightarrow> bool" where
  "plain line \<longleftrightarrow> cr \<notin> set line \<and> lf \<notin> set line"

lemma plain_simps [simp]:
  "plain []" "plain (xs @ ys) \<longleftrightarrow> plain xs \<and> plain ys"
  "plain (c # xs) \<longleftrightarrow> c \<noteq> cr \<and> c \<noteq> lf \<and> plain xs"
  by (auto simp: plain_def)

lemma split_plain: "plain xs \<Longrightarrow> split_lines line (xs @ ys) = split_lines (line @ xs) ys"
  by (induction xs arbitrary: line) auto

lemma split_rest_plain: "plain line \<Longrightarrow> plain (snd (split_lines line cs))"
proof (induction line cs rule: split_lines.induct)
  case (2 line c cs)
  then show ?case by (cases cs) (simp_all add: with_line_def)
qed simp

lemma settled_with_line:
  "settled (with_line l r) = (if r = ([], []) \<and> snd l = [cr] then ([], fst l @ snd l) else with_line l (settled r))"
  by (cases r) (auto simp: settled_def open_end_def with_line_def)

text \<open>What is settled stays as more text arrives; the rest is split again with it.\<close>

lemma split_more:
  "plain line \<Longrightarrow>
     split_lines line (cs @ xs) =
       (fst (settled (split_lines line cs)) @ fst (split_lines [] (snd (settled (split_lines line cs)) @ xs)),
        snd (split_lines [] (snd (settled (split_lines line cs)) @ xs)))"
proof (induction line cs rule: split_lines.induct)
  case (1 line)
  then show ?case using split_plain [of line "[]" xs] by (simp add: settled_def open_end_def)
next
  case (2 line c cs)
  have nil: "plain []" by (simp add: plain_def)
  have rest: "split_lines [] ds = ([], []) \<longleftrightarrow> ds = []" for ds
    using split_lines_bytes [of "[]" ds] by auto
  show ?case
  proof (cases "c = cr")
    case True
    show ?thesis
    proof (cases cs)
      case Nil
      have "split_lines [] (line @ cr # xs) = split_lines line (cr # xs)"
        using split_plain [OF "2.prems", of "[]" "cr # xs"] by simp
      with Nil True show ?thesis
        by (simp add: settled_def open_end_def with_line_def)
    next
      case (Cons d ds)
      show ?thesis
      proof (cases "d = lf")
        case lf: True
        from "2.IH"(2) [OF True Cons lf nil] show ?thesis
          using True Cons lf by (simp add: settled_with_line) (simp add: with_line_def)
      next
        case False
        from "2.IH"(3) [OF True Cons False nil] rest [of cs] show ?thesis
          using True Cons False by (simp add: settled_with_line) (simp add: with_line_def)
      qed
    qed
  next
    case notcr: False
    show ?thesis
    proof (cases "c = lf")
      case True
      from "2.IH"(4) [OF notcr True nil] show ?thesis
        using notcr True by (simp add: settled_with_line) (simp add: with_line_def)
    next
      case False
      with notcr "2.prems" have "plain (line @ [c])" by (simp add: plain_def)
      from "2.IH"(5) [OF notcr False this] show ?thesis using notcr False by simp
    qed
  qed
qed


section \<open>Events\<close>

record stream_event =
  se_lines :: "(string \<times> string) list"
  se_data :: "(string \<times> json) list option"
  se_changed :: bool

definition drop_spaces :: "string \<Rightarrow> string" where
  "drop_spaces = dropWhile (\<lambda>c. c = CHR '' '')"

definition is_data :: "string \<Rightarrow> bool" where
  "is_data line \<longleftrightarrow> starts_with line ''data:''"

definition payload_of :: "(string \<times> string) list \<Rightarrow> string" where
  "payload_of ls = join newline (map (\<lambda>(line, eol). drop_spaces (drop 5 line)) (filter (\<lambda>(line, eol). is_data line) ls))"

text \<open>\<open>stream_event\<close>.\<close>

definition stream_event :: "(string \<Rightarrow> json option) \<Rightarrow> (string \<times> string) list \<Rightarrow> stream_event" where
  "stream_event loads ls =
     \<lparr>se_lines = ls,
      se_data = (if payload_of ls = [] then None
                 else case loads (payload_of ls) of Some (JObj ps) \<Rightarrow> Some ps | _ \<Rightarrow> None),
      se_changed = False\<rparr>"

text \<open>A blank line ends an event that says something.\<close>

definition blank_end :: "(string \<times> string) list \<Rightarrow> bool" where
  "blank_end held \<longleftrightarrow> held \<noteq> [] \<and> fst (last held) = [] \<and> list_ex (\<lambda>l. fst l \<noteq> []) (butlast held)"

fun fold_lines ::
  "(string \<Rightarrow> json option) \<Rightarrow> (string \<times> string) list \<Rightarrow> (string \<times> string) list
     \<Rightarrow> stream_event list \<times> (string \<times> string) list" where
  "fold_lines loads held [] = ([], held)"
| "fold_lines loads held (l # ls) =
     (if blank_end (held @ [l])
      then (stream_event loads (held @ [l]) # fst (fold_lines loads [] ls), snd (fold_lines loads [] ls))
      else fold_lines loads (held @ [l]) ls)"

definition leftover :: "(string \<Rightarrow> json option) \<Rightarrow> (string \<times> string) list \<Rightarrow> stream_event list" where
  "leftover loads held = (if held = [] then [] else [stream_event loads held])"

text \<open>All the lines of a text, the last with no line end.\<close>

definition all_lines :: "string \<Rightarrow> (string \<times> string) list" where
  "all_lines t = fst (split_lines [] t) @ [(snd (split_lines [] t), [])]"

definition events_of :: "(string \<Rightarrow> json option) \<Rightarrow> (string \<times> string) list \<Rightarrow> (string \<times> string) list \<Rightarrow> stream_event list" where
  "events_of loads held ls =
     fst (fold_lines loads held ls) @ leftover loads (snd (fold_lines loads held ls))"

text \<open>\<open>written_events\<close>; \<open>None\<close> is the \<open>UnreadableError\<close>.\<close>

definition written_events :: "(string \<Rightarrow> json option) \<Rightarrow> string \<Rightarrow> stream_event list option" where
  "written_events loads body =
     map_option (\<lambda>r. events_of loads [] (all_lines (fst r))) (decode fresh_decoder body True)"

text \<open>\<open>write_events\<close>.\<close>

fun write_lines :: "(json \<Rightarrow> string) \<Rightarrow> bool \<Rightarrow> (string \<times> json) list option \<Rightarrow> bool \<Rightarrow> (string \<times> string) list \<Rightarrow> string" where
  "write_lines dumps changed data first [] = []"
| "write_lines dumps changed data first ((line, eol) # ls) =
     (if \<not> (changed \<and> is_data line) then line @ eol @ write_lines dumps changed data first ls
      else if first then
        ''data: '' @ dumps (case data of None \<Rightarrow> JNull | Some ps \<Rightarrow> JObj ps) @ eol
          @ write_lines dumps changed data False ls
      else write_lines dumps changed data False ls)"

definition write_events :: "(json \<Rightarrow> string) \<Rightarrow> stream_event list \<Rightarrow> string" where
  "write_events dumps es =
     concat (map (\<lambda>e. write_lines dumps (se_changed e) (se_data e) True (se_lines e)) es)"

lemma write_lines_unchanged: "write_lines dumps False data first ls = line_bytes ls"
  by (induction ls) auto

lemma write_unchanged:
  "list_all (\<lambda>e. \<not> se_changed e) es \<Longrightarrow> write_events dumps es = line_bytes (concat (map se_lines es))"
  by (induction es) (auto simp: write_events_def write_lines_unchanged)

lemma stream_event_lines [simp]:
  "se_lines (stream_event loads ls) = ls" "\<not> se_changed (stream_event loads ls)"
  by (simp_all add: stream_event_def)

lemma fold_lines_lines:
  "concat (map se_lines (fst (fold_lines loads held ls))) @ snd (fold_lines loads held ls) = held @ ls
   \<and> list_all (\<lambda>e. \<not> se_changed e) (fst (fold_lines loads held ls))"
  by (induction loads held ls rule: fold_lines.induct) auto

lemma events_of_lines:
  "concat (map se_lines (events_of loads held ls)) = held @ ls"
  "list_all (\<lambda>e. \<not> se_changed e) (events_of loads held ls)"
  using fold_lines_lines [of loads held ls]
  by (auto simp: events_of_def leftover_def)

lemma fold_lines_append:
  "fold_lines loads held (xs @ ys) =
     (fst (fold_lines loads held xs) @ fst (fold_lines loads (snd (fold_lines loads held xs)) ys),
      snd (fold_lines loads (snd (fold_lines loads held xs)) ys))"
  by (induction loads held xs rule: fold_lines.induct) auto

lemma all_lines_bytes: "line_bytes (all_lines t) = t"
  using split_lines_bytes [of "[]" t] by (simp add: all_lines_def)

lemma events_round_trip_bytes:
  assumes "written_events loads body = Some es"
  shows "write_events dumps es = body"
proof -
  from assms obtain t d where d: "decode fresh_decoder body True = Some (t, d)"
    and es: "es = events_of loads [] (all_lines t)"
    by (auto simp: written_events_def)
  from d have b: "decode_bytes fresh_decoder body = Some (t, d)" "de_needed d = []"
    by (auto simp: decode_def split: option.splits prod.splits if_splits)
  from decode_bytes_keeps [OF b(1)] b(2) have "t = body" by (simp add: decoder_ok_def fresh_decoder_def)
  with es show ?thesis by (simp add: write_unchanged events_of_lines all_lines_bytes)
qed

text \<open>C30: A reply stream read into its events and written out again unchanged is the same bytes.\<close>

theorem events_round_trip:
  assumes "written_events loads body = Some es"
  shows "write_events dumps es = body"
  using assms by (rule events_round_trip_bytes)

definition no_json :: "string \<Rightarrow> json option" where
  "no_json t = None"

definition sample_stream :: string where
  "sample_stream = '': hi'' @ [cr, lf, cr, lf] @ ''data: x'' @ [lf, lf, cr]"

lemma sample_stream_events:
  "map_option (map se_lines) (written_events no_json sample_stream) =
     Some [[('': hi'', [cr, lf]), ([], [cr, lf])], [(''data: x'', [lf]), ([], [lf])], [([], [cr]), ([], [])]]"
  by code_simp

theorem events_round_trip_witness:
  "\<exists>es. written_events no_json sample_stream = Some es \<and> write_events (\<lambda>_. []) es = sample_stream"
  using sample_stream_events events_round_trip [of no_json sample_stream]
  by (cases "written_events no_json sample_stream") auto

section \<open>Events as they arrive\<close>

record event_reader =
  er_decoder :: decoder
  er_rest :: string
  er_held :: "(string \<times> string) list"

definition new_reader :: event_reader where
  "new_reader = \<lparr>er_decoder = fresh_decoder, er_rest = [], er_held = []\<rparr>"

text \<open>\<open>push\<close>: a line goes on until its line end arrives, and a carriage return at the end of what
  has arrived waits. \<open>None\<close> is the \<open>UnreadableError\<close>.\<close>

definition push :: "(string \<Rightarrow> json option) \<Rightarrow> event_reader \<Rightarrow> string \<Rightarrow> (stream_event list \<times> event_reader) option" where
  "push loads r data =
     (case decode (er_decoder r) data False of
        None \<Rightarrow> None
      | Some (text, d) \<Rightarrow>
          (let parts = split_lines [] (er_rest r @ text);
               ready = (if open_end parts then (butlast (fst parts), fst (last (fst parts)) @ snd (last (fst parts)))
                        else parts);
               folded = fold_lines loads (er_held r) (fst ready)
           in Some (fst folded, \<lparr>er_decoder = d, er_rest = snd ready, er_held = snd folded\<rparr>)))"

definition finish :: "(string \<Rightarrow> json option) \<Rightarrow> event_reader \<Rightarrow> stream_event list option" where
  "finish loads r =
     (case decode (er_decoder r) [] True of
        None \<Rightarrow> None
      | Some (text, d) \<Rightarrow>
          (let folded = fold_lines loads (er_held r) (all_lines (er_rest r @ text))
           in Some (fst folded @ leftover loads (snd folded))))"

fun push_all :: "(string \<Rightarrow> json option) \<Rightarrow> event_reader \<Rightarrow> string list \<Rightarrow> (stream_event list \<times> event_reader) option" where
  "push_all loads r [] = Some ([], r)"
| "push_all loads r (c # cs) =
     (case push loads r c of
        None \<Rightarrow> None
      | Some (es, r') \<Rightarrow>
          (case push_all loads r' cs of None \<Rightarrow> None | Some (es', r'') \<Rightarrow> Some (es @ es', r'')))"

definition read_chunks :: "(string \<Rightarrow> json option) \<Rightarrow> string list \<Rightarrow> stream_event list option" where
  "read_chunks loads chunks =
     (case push_all loads new_reader chunks of
        None \<Rightarrow> None
      | Some (es, r) \<Rightarrow> map_option (\<lambda>es'. es @ es') (finish loads r))"

text \<open>What a reader has read: the text so far splits into the lines it has taken and the rest.\<close>

definition reads_as ::
  "(string \<Rightarrow> json option) \<Rightarrow> string \<Rightarrow> stream_event list \<Rightarrow> event_reader \<Rightarrow> bool" where
  "reads_as loads body es r \<longleftrightarrow>
     (\<exists>t ls. decode_bytes fresh_decoder body = Some (t, er_decoder r)
        \<and> fold_lines loads [] ls = (es, er_held r)
        \<and> (\<forall>xs. split_lines [] (t @ xs) =
              (ls @ fst (split_lines [] (er_rest r @ xs)), snd (split_lines [] (er_rest r @ xs)))))"

lemma reads_as_new: "reads_as loads [] [] new_reader"
proof -
  have "fold_lines loads [] [] = ([], [])" by simp
  then show ?thesis unfolding reads_as_def new_reader_def by (auto intro!: exI [of _ "[]"])
qed

lemma push_reads:
  assumes "reads_as loads body es r"
  shows "(case push loads r data of
      None \<Rightarrow> decode_bytes fresh_decoder (body @ data) = None
    | Some (new, r') \<Rightarrow> reads_as loads (body @ data) (es @ new) r')"
proof -
  from assms obtain t ls where d: "decode_bytes fresh_decoder body = Some (t, er_decoder r)"
    and f: "fold_lines loads [] ls = (es, er_held r)"
    and s: "\<And>xs. split_lines [] (t @ xs) =
       (ls @ fst (split_lines [] (er_rest r @ xs)), snd (split_lines [] (er_rest r @ xs)))"
    by (auto simp: reads_as_def)
  show ?thesis
  proof (cases "decode_bytes (er_decoder r) data")
    case None
    with d show ?thesis by (simp add: push_def decode_def decode_bytes_append)
  next
    case (Some p)
    obtain u d' where p: "p = (u, d')" by force
    let ?parts = "split_lines [] (er_rest r @ u)"
    let ?ready = "settled ?parts"
    have all: "decode_bytes fresh_decoder (body @ data) = Some (t @ u, d')"
      using d Some p by (simp add: decode_bytes_append)
    have more: "split_lines [] ((t @ u) @ xs) =
        ((ls @ fst ?ready) @ fst (split_lines [] (snd ?ready @ xs)), snd (split_lines [] (snd ?ready @ xs)))" for xs
      using s [of "u @ xs"] split_more [of "[]" "er_rest r @ u" xs] by simp
    have "push loads r data = Some (fst (fold_lines loads (er_held r) (fst ?ready)),
        \<lparr>er_decoder = d', er_rest = snd ?ready, er_held = snd (fold_lines loads (er_held r) (fst ?ready))\<rparr>)"
      using Some p by (simp add: push_def decode_def settled_def Let_def)
    moreover have "fold_lines loads [] (ls @ fst ?ready) =
        (es @ fst (fold_lines loads (er_held r) (fst ?ready)), snd (fold_lines loads (er_held r) (fst ?ready)))"
      using f by (simp add: fold_lines_append)
    ultimately show ?thesis using all more by (auto simp: reads_as_def)
  qed
qed

lemma push_all_reads:
  "reads_as loads body es r \<Longrightarrow>
     (case push_all loads r chunks of
        None \<Rightarrow> decode_bytes fresh_decoder (body @ concat chunks) = None
      | Some (new, r') \<Rightarrow> reads_as loads (body @ concat chunks) (es @ new) r')"
proof (induction chunks arbitrary: body es r)
  case (Cons c cs)
  show ?case
  proof (cases "push loads r c")
    case None
    with push_reads [OF Cons.prems, of c] decode_bytes_None [of fresh_decoder "body @ c" "concat cs"]
    show ?thesis by simp
  next
    case (Some p)
    obtain new r' where p: "p = (new, r')" by force
    with Some push_reads [OF Cons.prems, of c] have "reads_as loads (body @ c) (es @ new) r'" by simp
    from Cons.IH [OF this] Some p show ?thesis by (auto split: option.splits)
  qed
qed simp

lemma finish_reads:
  assumes "reads_as loads body es r"
  shows "map_option (\<lambda>new. es @ new) (finish loads r) = written_events loads body"
proof -
  from assms obtain t ls where d: "decode_bytes fresh_decoder body = Some (t, er_decoder r)"
    and f: "fold_lines loads [] ls = (es, er_held r)"
    and s: "\<And>xs. split_lines [] (t @ xs) =
       (ls @ fst (split_lines [] (er_rest r @ xs)), snd (split_lines [] (er_rest r @ xs)))"
    by (auto simp: reads_as_def)
  show ?thesis
  proof (cases "de_needed (er_decoder r) = []")
    case False
    with d show ?thesis by (simp add: finish_def written_events_def decode_def)
  next
    case True
    have "all_lines t = ls @ all_lines (er_rest r)"
      using s [of "[]"] by (simp add: all_lines_def)
    with True d f show ?thesis
      by (simp add: finish_def written_events_def decode_def events_of_def fold_lines_append Let_def)
  qed
qed

lemma read_chunks_whole: "read_chunks loads chunks = written_events loads (concat chunks)"
proof (cases "push_all loads new_reader chunks")
  case None
  with push_all_reads [OF reads_as_new [of loads], of chunks] show ?thesis
    by (simp add: read_chunks_def written_events_def decode_def)
next
  case (Some p)
  obtain es r where p: "p = (es, r)" by force
  with Some push_all_reads [OF reads_as_new [of loads], of chunks] have "reads_as loads (concat chunks) es r" by simp
  from finish_reads [OF this] Some p show ?thesis by (simp add: read_chunks_def)
qed

text \<open>C31: However a stream's bytes are split as they arrive, the events are those of the whole
  stream, and a stream that cannot be read whole cannot be read in parts.\<close>

theorem reader_sees_whole_stream:
  "read_chunks loads chunks = written_events loads (concat chunks)"
  by (rule read_chunks_whole)

end
