(* ===== verification/Turns.thy ===== *)
theory Turns
  imports Streams
begin

text \<open>
  What each event of a provider's reply stream is, for a reply released early: the turns of
  \<open>sidecar/_release.py\<close>, one for each provider format. A \<open>None\<close> is an exception of Python on
  data of a shape the turn does not expect: an attribute read on what is no object, or an
  unhashable value looked up in a set.
\<close>

section \<open>JSON as Python reads it\<close>

type_synonym fields = "(string \<times> json) list"

definition field :: "fields \<Rightarrow> string \<Rightarrow> json" where
  "field ps k = (case map_of ps k of None \<Rightarrow> JNull | Some j \<Rightarrow> j)"

text \<open>\<open>j or {}\<close>, read as an object.\<close>

fun truthy :: "json \<Rightarrow> bool" where
  "truthy JNull = False"
| "truthy (JBool b) = b"
| "truthy (JInt i) = (i \<noteq> 0)"
| "truthy (JNum x) = (x \<noteq> 0)"
| "truthy (JStr s) = (s \<noteq> [])"
| "truthy (JList js) = (js \<noteq> [])"
| "truthy (JObj ps) = (ps \<noteq> [])"

fun object_or_empty :: "json \<Rightarrow> fields option" where
  "object_or_empty (JObj ps) = Some ps"
| "object_or_empty j = (if truthy j then None else Some [])"

text \<open>\<open>j if isinstance(j, dict) else {}\<close>.\<close>

fun object_if :: "json \<Rightarrow> fields" where
  "object_if (JObj ps) = ps"
| "object_if j = []"

text \<open>\<open>j in names\<close>, for a set or the keys of a dict.\<close>

fun one_of :: "string list \<Rightarrow> json \<Rightarrow> bool option" where
  "one_of names (JStr s) = Some (s \<in> set names)"
| "one_of names (JList js) = None"
| "one_of names (JObj ps) = None"
| "one_of names j = Some False"

text \<open>\<open>j == 0\<close>.\<close>

fun is_zero :: "json \<Rightarrow> bool" where
  "is_zero (JBool b) = (\<not> b)"
| "is_zero (JInt i) = (i = 0)"
| "is_zero (JNum x) = (x = 0)"
| "is_zero j = False"

section \<open>Roles\<close>

datatype event_role = Opening | Releasable | Filler | Held

definition skipped :: "stream_event \<Rightarrow> bool" where
  "skipped e \<longleftrightarrow> list_all (\<lambda>(line, eol). line = [] \<or> starts_with line '':'') (se_lines e)"

text \<open>The blocks or items that have begun to go out, by index, with their type.\<close>

type_synonym begun = "int \<Rightarrow> string option"

definition data_of :: "stream_event \<Rightarrow> fields" where
  "data_of e = (case se_data e of None \<Rightarrow> [] | Some ps \<Rightarrow> ps)"

definition begun_at :: "begun \<Rightarrow> json \<Rightarrow> string option" where
  "begun_at released index = (case index of JInt i \<Rightarrow> released i | _ \<Rightarrow> None)"

text \<open>What starts a block or an item: it goes out when its type may, and it has an index.\<close>

definition begin_item :: "begun \<Rightarrow> string list \<Rightarrow> json \<Rightarrow> json \<Rightarrow> (event_role \<times> begun) option" where
  "begin_item released types kind index =
     (case one_of types kind of
        None \<Rightarrow> None
      | Some ok \<Rightarrow>
          if ok then
            (case (kind, index) of
               (JStr t, JInt i) \<Rightarrow> Some (Releasable, released(i \<mapsto> t))
             | _ \<Rightarrow> Some (Held, released))
          else Some (Held, released))"

section \<open>Anthropic Messages\<close>

definition anthropic_released :: "(string \<times> string list) list" where
  "anthropic_released =
     [(''text'', [''text_delta'', ''citations_delta'']),
      (''thinking'', [''thinking_delta'', ''signature_delta'']),
      (''redacted_thinking'', [])]"

definition released_in :: "(string \<times> string list) list \<Rightarrow> string \<Rightarrow> string list" where
  "released_in table t = (case map_of table t of None \<Rightarrow> [] | Some names \<Rightarrow> names)"

definition anthropic_place :: "begun \<Rightarrow> stream_event \<Rightarrow> (event_role \<times> begun) option" where
  "anthropic_place released e =
     (if skipped e then Some (Filler, released)
      else
        (let data = data_of e; kind = field data ''type''; index = field data ''index''
         in if kind = JStr ''message_start'' then Some (Opening, released)
            else if kind = JStr ''ping'' then Some (Filler, released)
            else if kind = JStr ''content_block_start'' then
              (case object_or_empty (field data ''content_block'') of
                 None \<Rightarrow> None
               | Some block \<Rightarrow>
                   begin_item released (map fst anthropic_released) (field block ''type'') index)
            else case begun_at released index of
              None \<Rightarrow> Some (Held, released)
            | Some block_type \<Rightarrow>
                if kind = JStr ''content_block_stop'' then Some (Releasable, released)
                else if kind = JStr ''content_block_delta'' then
                  map_option (\<lambda>ok. (if ok then Releasable else Held, released))
                    (one_of (released_in anthropic_released block_type)
                       (field (object_if (field data ''delta'')) ''type''))
                else Some (Held, released)))"

section \<open>OpenAI Chat Completions\<close>

definition chat_released :: "string list" where
  "chat_released = [''role'', ''content'', ''reasoning_content'', ''reasoning'']"

text \<open>The object that is all of a list.\<close>

fun single_object :: "json \<Rightarrow> fields option" where
  "single_object (JList [JObj entry]) = Some entry"
| "single_object j = None"

text \<open>\<open>value not in (None, "", [])\<close>.\<close>

definition says_something :: "json \<Rightarrow> bool" where
  "says_something j \<longleftrightarrow> j \<notin> {JNull, JStr [], JList []}"

definition chat_place :: "stream_event \<Rightarrow> event_role option" where
  "chat_place e =
     (if skipped e then Some Filler
      else case se_data e of
        None \<Rightarrow> Some Held
      | Some data \<Rightarrow>
          (case single_object (field data ''choices'') of
             None \<Rightarrow> Some Held
           | Some entry \<Rightarrow>
               if (case map_of entry ''index'' of None \<Rightarrow> False | Some i \<Rightarrow> \<not> is_zero i)
                  \<or> field entry ''finish_reason'' \<noteq> JNull
               then Some Held
               else (case object_or_empty (field entry ''delta'') of
                  None \<Rightarrow> None
                | Some delta \<Rightarrow>
                    (let said = map fst (filter (\<lambda>p. says_something (snd p)) delta)
                     in Some (if list_ex (\<lambda>k. k \<notin> set chat_released) said then Held
                              else if list_ex (\<lambda>k. k \<noteq> ''role'') said then Releasable
                              else Opening)))))"

section \<open>OpenAI Responses\<close>

definition responses_released :: "(string \<times> string list) list" where
  "responses_released =
     [(''message'',
        [''response.content_part.added'', ''response.content_part.done'',
         ''response.output_text.delta'', ''response.output_text.done'',
         ''response.output_text.annotation.added'', ''response.refusal.delta'',
         ''response.refusal.done'']),
      (''reasoning'',
        [''response.reasoning_summary_part.added'', ''response.reasoning_summary_part.done'',
         ''response.reasoning_summary_text.delta'', ''response.reasoning_summary_text.done'',
         ''response.reasoning_text.delta'', ''response.reasoning_text.done''])]"

definition responses_place :: "begun \<Rightarrow> stream_event \<Rightarrow> (event_role \<times> begun) option" where
  "responses_place released e =
     (if skipped e then Some (Filler, released)
      else
        (let data = data_of e; kind = field data ''type''; index = field data ''output_index'';
             entry = object_if (field data ''item'')
         in if kind \<in> {JStr ''response.created'', JStr ''response.in_progress'', JStr ''response.queued''}
            then Some (Opening, released)
            else if kind = JStr ''response.output_item.added'' then
              begin_item released (map fst responses_released) (field entry ''type'') index
            else case begun_at released index of
              None \<Rightarrow> Some (Held, released)
            | Some item_type \<Rightarrow>
                if kind = JStr ''response.output_item.done'' then
                  Some (if field entry ''type'' = JStr item_type then Releasable else Held, released)
                else
                  map_option (\<lambda>ok. (if ok then Releasable else Held, released))
                    (one_of (released_in responses_released item_type) kind)))"

section \<open>A reply's turn\<close>

datatype stream_format = AnthropicMessages | OpenAIChat | OpenAIResponses

text \<open>A turn, with the blocks or items that have begun.\<close>

datatype turn = AnthropicTurn begun | ChatTurn | ResponsesTurn begun

definition new_turn :: "stream_format \<Rightarrow> turn" where
  "new_turn f = (case f of AnthropicMessages \<Rightarrow> AnthropicTurn Map.empty | OpenAIChat \<Rightarrow> ChatTurn
     | OpenAIResponses \<Rightarrow> ResponsesTurn Map.empty)"

fun place :: "turn \<Rightarrow> stream_event \<Rightarrow> (event_role \<times> turn) option" where
  "place (AnthropicTurn b) e = map_option (\<lambda>(r, b'). (r, AnthropicTurn b')) (anthropic_place b e)"
| "place ChatTurn e = map_option (\<lambda>r. (r, ChatTurn)) (chat_place e)"
| "place (ResponsesTurn b) e = map_option (\<lambda>(r, b'). (r, ResponsesTurn b')) (responses_place b e)"

lemma begin_item_cases:
  "begin_item b types kind index = Some (r, b') \<Longrightarrow>
     (r = Held \<and> b' = b) \<or> (\<exists>i ty. ty \<in> set types \<and> kind = JStr ty \<and> index = JInt i \<and> r = Releasable \<and> b' = b(i \<mapsto> ty))"
  by (cases kind; cases index) (auto simp: begin_item_def split: if_splits option.splits)


text \<open>What carries a call: a block or item that is neither text nor reasoning, the JSON of a call's
  arguments, and a Chat delta with calls.\<close>

definition starts_call :: "string \<Rightarrow> string list \<Rightarrow> json \<Rightarrow> json \<Rightarrow> bool" where
  "starts_call start types kind item_type \<longleftrightarrow> kind = JStr start \<and> (\<forall>ty\<in>set types. item_type \<noteq> JStr ty)"

definition call_fields :: "string list" where
  "call_fields = [''tool_calls'', ''function_call'']"

definition writes_call :: "stream_event \<Rightarrow> bool" where
  "writes_call e \<longleftrightarrow>
     (case single_object (field (data_of e) ''choices'') of
        None \<Rightarrow> False
      | Some entry \<Rightarrow>
          list_ex (\<lambda>p. fst p \<in> set call_fields \<and> says_something (snd p)) (object_if (field entry ''delta'')))"

definition carries_call :: "turn \<Rightarrow> stream_event \<Rightarrow> bool" where
  "carries_call t e \<longleftrightarrow>
     \<not> skipped e \<and>
     (let data = data_of e; kind = field data ''type''
      in case t of
           AnthropicTurn b \<Rightarrow>
             starts_call ''content_block_start'' (map fst anthropic_released) kind
               (field (object_if (field data ''content_block'')) ''type'')
             \<or> kind = JStr ''content_block_delta''
               \<and> field (object_if (field data ''delta'')) ''type'' = JStr ''input_json_delta''
         | ChatTurn \<Rightarrow> writes_call e
         | ResponsesTurn b \<Rightarrow>
             starts_call ''response.output_item.added'' (map fst responses_released) kind
               (field (object_if (field data ''item'')) ''type'')
             \<or> kind \<in> {JStr ''response.function_call_arguments.delta'',
                 JStr ''response.function_call_arguments.done''})"

lemma object_or_empty_if: "object_or_empty j = Some ps \<Longrightarrow> object_if j = ps"
  by (cases j) (auto split: if_splits)

lemma begin_item_held:
  "begin_item b types kind index = Some (r, b') \<Longrightarrow> (\<forall>ty\<in>set types. kind \<noteq> JStr ty) \<Longrightarrow> r = Held"
  by (auto dest: begin_item_cases)

lemma one_of_not: "one_of names (JStr s) = Some True \<longleftrightarrow> s \<in> set names"
  by simp

lemma call_held_anthropic:
  assumes "carries_call (AnthropicTurn b) e" "place (AnthropicTurn b) e = Some (r, t')"
  shows "r = Held"
proof -
  have no: "\<not> skipped e" using assms(1) by (simp add: carries_call_def)
  let ?kind = "field (data_of e) ''type''"
  from assms(2) obtain b' where p: "anthropic_place b e = Some (r, b')" by auto
  from assms(1) consider
      "starts_call ''content_block_start'' (map fst anthropic_released) ?kind
         (field (object_if (field (data_of e) ''content_block'')) ''type'')"
    | "?kind = JStr ''content_block_delta''"
      "field (object_if (field (data_of e) ''delta'')) ''type'' = JStr ''input_json_delta''"
    by (auto simp: carries_call_def Let_def)
  then show ?thesis
  proof cases
    case 1
    with p no begin_item_held [of b "map fst anthropic_released"] show ?thesis
      by (auto simp: anthropic_place_def starts_call_def Let_def split: option.splits dest!: object_or_empty_if)
  next
    case 2
    have "''input_json_delta'' \<notin> set (released_in anthropic_released ty)" for ty
      by (auto simp: released_in_def anthropic_released_def)
    with 2 p no show ?thesis
      by (auto simp: anthropic_place_def Let_def split: option.splits if_splits)
  qed
qed

lemma call_held_chat:
  assumes "carries_call ChatTurn e" "place ChatTurn e = Some (r, t')"
  shows "r = Held"
proof -
  have no: "\<not> skipped e" and w: "writes_call e" using assms(1) by (auto simp: carries_call_def)
  show ?thesis
  proof (cases "se_data e")
    case None
    with assms(2) no show ?thesis by (auto simp: chat_place_def)
  next
    case (Some data)
    then have d: "data_of e = data" by (simp add: data_of_def)
    with w obtain entry where c: "single_object (field data ''choices'') = Some entry"
      "list_ex (\<lambda>p. fst p \<in> set call_fields \<and> says_something (snd p)) (object_if (field entry ''delta''))"
      by (auto simp: writes_call_def split: option.splits)
    have "list_ex (\<lambda>k. k \<notin> set chat_released) (map fst (filter (\<lambda>p. says_something (snd p)) delta))"
      if "object_or_empty (field entry ''delta'') = Some delta" for delta
    proof -
      have "k \<notin> set chat_released" if "k \<in> set call_fields" for k
        using that by (auto simp: call_fields_def chat_released_def)
      with c(2) object_or_empty_if [OF that] show ?thesis by (fastforce simp: list_ex_iff)
    qed
    with c(1) no Some assms(2) show ?thesis by (auto simp: chat_place_def Let_def split: if_splits option.splits)
  qed
qed

lemma call_held_responses:
  assumes "carries_call (ResponsesTurn b) e" "place (ResponsesTurn b) e = Some (r, t')"
  shows "r = Held"
proof -
  have no: "\<not> skipped e" using assms(1) by (simp add: carries_call_def)
  let ?kind = "field (data_of e) ''type''"
  from assms(2) obtain b' where p: "responses_place b e = Some (r, b')" by auto
  from assms(1) consider
      "starts_call ''response.output_item.added'' (map fst responses_released) ?kind
         (field (object_if (field (data_of e) ''item'')) ''type'')"
    | "?kind = JStr ''response.function_call_arguments.delta''"
    | "?kind = JStr ''response.function_call_arguments.done''"
    by (auto simp: carries_call_def Let_def)
  then show ?thesis
  proof cases
    case 1
    with p no begin_item_held [of b "map fst responses_released"] show ?thesis
      by (auto simp: responses_place_def starts_call_def Let_def)
  next
    case 2
    have "''response.function_call_arguments.delta'' \<notin> set (released_in responses_released ty)" for ty
      by (auto simp: released_in_def responses_released_def)
    with 2 p no show ?thesis by (auto simp: responses_place_def Let_def split: option.splits)
  next
    case 3
    have "''response.function_call_arguments.done'' \<notin> set (released_in responses_released ty)" for ty
      by (auto simp: released_in_def responses_released_def)
    with 3 p no show ?thesis by (auto simp: responses_place_def Let_def split: option.splits)
  qed
qed

lemma call_held: "carries_call t e \<Longrightarrow> place t e = Some (r, t') \<Longrightarrow> r = Held"
  by (cases t) (auto intro: call_held_anthropic call_held_chat call_held_responses)

text \<open>An event that carries a call is held, in every format and whatever has gone out before.\<close>

theorem call_events_held:
  assumes "carries_call t e" "place t e = Some (r, t')"
  shows "r = Held"
  using assms by (rule call_held)

definition call_event :: stream_event where
  "call_event = \<lparr>se_lines = [(''data: {}'', newline)],
     se_data = Some [(''type'', JStr ''content_block_start''), (''index'', JInt 1),
       (''content_block'', JObj [(''type'', JStr ''tool_use'')])],
     se_changed = False\<rparr>"

theorem call_events_held_witness:
  "fst (the (place (new_turn AnthropicMessages) call_event)) = Held"
proof -
  have "carries_call (new_turn AnthropicMessages) call_event" by code_simp
  moreover have "place (new_turn AnthropicMessages) call_event \<noteq> None" by code_simp
  ultimately show ?thesis using call_events_held by (metis option.collapse prod.collapse)
qed

end
