(* ===== verification/Errors.thy ===== *)
theory Errors
  imports Turns
begin

text \<open>
  What a client is told when the sidecar refuses (\<open>sidecar/_errors.py\<close>), and what a proxy does
  with a request or a reply (\<open>Pass\<close>, \<open>Replace\<close> and \<open>Refuse\<close> of \<open>sidecar/_exchange.py\<close>).
\<close>

section \<open>Answers\<close>

record refusal =
  rf_status :: int
  rf_message :: string
  rf_sentinel :: "fields option"

datatype answer_to = PassOn | ReplaceBody string | RefuseWith refusal

text \<open>\<open>succeeded\<close>.\<close>

definition succeeded :: "int \<Rightarrow> bool" where
  "succeeded status \<longleftrightarrow> 200 \<le> status \<and> status < 300"

section \<open>Failures\<close>

text \<open>What judging raises, by class, with the exception's text.\<close>

datatype failure =
    TimeLimitError string
  | UnregisteredSampleError string
  | TooLargeError string
  | UnreadableError string
  | OtherFailure string

datatype unjudged = Unreadable | Unregistered | TimeLimit | JudgingError | ProviderErrorStatus | CutOff

text \<open>\<open>not_judged\<close>; \<open>TooLargeError\<close> is an \<open>UnreadableError\<close>.\<close>

fun not_judged :: "failure \<Rightarrow> unjudged" where
  "not_judged (UnreadableError t) = Unreadable"
| "not_judged (TooLargeError t) = Unreadable"
| "not_judged (UnregisteredSampleError t) = Unregistered"
| "not_judged (TimeLimitError t) = TimeLimit"
| "not_judged (OtherFailure t) = JudgingError"

definition apostrophe :: string where
  "apostrophe = [CHR 0x27]"

text \<open>\<open>refusal_for\<close>; \<open>what\<close> is \<open>request\<close> or \<open>reply\<close>.\<close>

fun refusal_for :: "failure \<Rightarrow> string \<Rightarrow> bool \<Rightarrow> refusal" where
  "refusal_for (TimeLimitError t) what is_reply = \<lparr>rf_status = 504, rf_message = t, rf_sentinel = None\<rparr>"
| "refusal_for (UnregisteredSampleError t) what is_reply = \<lparr>rf_status = 400, rf_message = t, rf_sentinel = None\<rparr>"
| "refusal_for (TooLargeError t) what is_reply = \<lparr>rf_status = 502, rf_message = t, rf_sentinel = None\<rparr>"
| "refusal_for (UnreadableError t) what is_reply =
     \<lparr>rf_status = (if is_reply then 502 else 400),
      rf_message = ''The '' @ what @ '' couldn'' @ apostrophe @ ''t be read, so it was not judged.'',
      rf_sentinel = None\<rparr>"
| "refusal_for (OtherFailure t) what is_reply =
     \<lparr>rf_status = 500, rf_message = ''The sentinel failed, so the '' @ what @ '' was not judged.'',
      rf_sentinel = None\<rparr>"

definition bounded :: "int \<Rightarrow> int" where
  "bounded status = (if 400 \<le> status \<and> status \<le> 599 then status else 500)"

lemma refusal_is_error: "bounded (rf_status (refusal_for ex what r)) = rf_status (refusal_for ex what r)"
  by (cases ex) (simp_all add: bounded_def)

section \<open>Errors in a provider's format\<close>

definition anthropic_errors :: "(int \<times> string) list" where
  "anthropic_errors =
     [(400, ''invalid_request_error''), (401, ''authentication_error''), (403, ''permission_error''),
      (404, ''not_found_error''), (413, ''request_too_large''), (429, ''rate_limit_error''),
      (500, ''api_error''), (529, ''overloaded_error'')]"

definition openai_code :: "int \<Rightarrow> string" where
  "openai_code status = (if 500 \<le> status then ''server_error'' else ''invalid_request_error'')"

definition error_body :: "stream_format option \<Rightarrow> int \<Rightarrow> string \<Rightarrow> fields" where
  "error_body f status message =
     (if f = Some AnthropicMessages then
        [(''type'', JStr ''error''),
         (''error'', JObj [(''type'', JStr (case map_of anthropic_errors status of
              Some k \<Rightarrow> k | None \<Rightarrow> if 500 \<le> status then ''api_error'' else ''invalid_request_error'')),
            (''message'', JStr message)])]
      else
        [(''error'', JObj [(''message'', JStr message), (''type'', JStr (openai_code status)),
           (''param'', JNull), (''code'', JNull)])])"

text \<open>A key set in a dict: in its place, or at the end.\<close>

fun dict_set :: "('k \<times> 'v) list \<Rightarrow> 'k \<Rightarrow> 'v \<Rightarrow> ('k \<times> 'v) list" where
  "dict_set [] k j = [(k, j)]"
| "dict_set ((k', j') # ps) k j = (if k' = k then (k, j) # ps else (k', j') # dict_set ps k j)"

lemma map_of_dict_set [simp]: "map_of (dict_set ps k j) = (map_of ps)(k \<mapsto> j)"
  by (induction ps k j rule: dict_set.induct) auto

text \<open>\<open>_written\<close>.\<close>

definition written_error :: "(json \<Rightarrow> string) \<Rightarrow> fields \<Rightarrow> string option \<Rightarrow> string" where
  "written_error dumps data name =
     join newline ((case name of None \<Rightarrow> [] | Some e \<Rightarrow> [''event: '' @ e]) @ [''data: '' @ dumps (JObj data)])
       @ newline @ newline"

text \<open>The loop over the stream's events: the highest sequence number, and the response begun.
  A \<open>bool\<close> is an \<open>int\<close> of Python too.\<close>

definition sequence_number :: "fields \<Rightarrow> int option" where
  "sequence_number data =
     (case field data ''sequence_number'' of
        JInt i \<Rightarrow> Some i | JBool b \<Rightarrow> Some (if b then 1 else 0) | _ \<Rightarrow> None)"

definition note_event :: "int \<times> fields \<Rightarrow> stream_event \<Rightarrow> int \<times> fields" where
  "note_event acc e =
     (let data = data_of e
      in (case sequence_number data of None \<Rightarrow> fst acc | Some n \<Rightarrow> max (fst acc) n,
          if field data ''type'' \<in> {JStr ''response.created'', JStr ''response.in_progress''} then
            (case field data ''response'' of JObj ps \<Rightarrow> ps | _ \<Rightarrow> snd acc)
          else snd acc))"

definition noted :: "stream_event list \<Rightarrow> int \<times> fields" where
  "noted es = foldl note_event (0, []) es"

definition failed_response :: "fields \<Rightarrow> int \<Rightarrow> string \<Rightarrow> string \<Rightarrow> json \<Rightarrow> fields" where
  "failed_response begun last_number code message error =
     [(''type'', JStr ''response.failed''), (''sequence_number'', JInt (last_number + 1)),
      (''response'', JObj (dict_set (dict_set begun ''status'' (JStr ''failed'')) ''error''
         (JObj [(''code'', JStr code), (''message'', JStr message)]))),
      (''error'', error)]"

definition error_event :: "(json \<Rightarrow> string) \<Rightarrow> stream_format \<Rightarrow> refusal \<Rightarrow> stream_event list \<Rightarrow> string" where
  "error_event dumps f refused es =
     (let status = bounded (rf_status refused); message = rf_message refused
      in case f of
           AnthropicMessages \<Rightarrow>
             (let data = error_body (Some f) status message
              in written_error dumps
                   (case rf_sentinel refused of None \<Rightarrow> data | Some s \<Rightarrow> dict_set data ''sentinel'' (JObj s))
                   (Some ''error''))
         | _ \<Rightarrow>
             (let code = openai_code status;
                  error = [(''message'', JStr message), (''type'', JStr code), (''param'', JNull), (''code'', JStr code)]
                    @ (case rf_sentinel refused of None \<Rightarrow> []
                       | Some s \<Rightarrow> [(''provider_specific_fields'', JObj [(''sentinel'', JObj s)])])
              in if f = OpenAIChat then written_error dumps [(''error'', JObj error)] None
                 else written_error dumps
                   (failed_response (snd (noted es)) (fst (noted es)) code message (JObj error))
                   (Some ''response.failed'')))"

text \<open>The sequence number of the failure follows every number of the stream.\<close>

lemma noted_number:
  "e \<in> set es \<Longrightarrow> sequence_number (data_of e) = Some n \<Longrightarrow> n \<le> fst (noted es)"
proof (induction es rule: rev_induct)
  case (snoc x xs)
  then show ?case by (fastforce simp: noted_def note_event_def Let_def split: option.splits)
qed simp

end
