(* ===== verification/ReplyStream.thy ===== *)
theory ReplyStream
  imports Errors
begin

text \<open>
  A provider's reply handed over as it arrives, and what the client is sent of it
  (\<open>ReplyStream\<close> and \<open>_Released\<close> of \<open>sidecar/_reply_stream.py\<close>). The proxy's three tasks are the
  steps of a relation: feeding, ending and aborting; the task that judges, from one await to
  the next; and a keepalive. What the handler answers, what a provider's SDK takes, and JSON
  are parameters.
\<close>

section \<open>The stream\<close>

datatype sent_output = SendOn string | KeepAlive | RefuseClient refusal | ErrorOut string "unjudged option" | Finished

datatype judged = Answered answer_to | Raised failure

record stream_config =
  cf_status :: int
  cf_content_type :: string
  cf_early :: bool
  cf_provider :: string
  cf_format :: "stream_format option"
  cf_max_held :: nat
  cf_max_pending :: nat
  cf_keepalive :: bool
  cf_loads :: "string \<Rightarrow> json option"
  cf_dumps :: "json \<Rightarrow> string"
  cf_takes :: "stream_format \<Rightarrow> stream_event list \<Rightarrow> bool"
  cf_reply :: "string \<Rightarrow> string \<Rightarrow> judged"

datatype stream_mode = ProviderError | HeldWhole | EarlyRelease

definition mode_of :: "stream_config \<Rightarrow> stream_mode" where
  "mode_of cf =
     (if \<not> succeeded (cf_status cf) then ProviderError
      else if cf_early cf \<and> starts_with (cf_content_type cf) ''text/event-stream'' then EarlyRelease
      else HeldWhole)"

text \<open>\<open>_Released\<close>: what has been read, is held and has been sent. The events given to the SDK's
  accumulator are kept, as its state is what it made of them.\<close>

type_synonym turn_state = "stream_format option \<times> turn option"

record reading =
  rd_reader :: event_reader
  rd_turn :: turn_state
  rd_checked :: "stream_event list"
  rd_originals :: "stream_event list"
  rd_opening :: "stream_event list"
  rd_holding :: bool
  rd_released :: string

definition first_turn :: "stream_config \<Rightarrow> turn_state" where
  "first_turn cf = (cf_format cf, None)"

definition new_reading :: "stream_config \<Rightarrow> reading" where
  "new_reading cf =
     \<lparr>rd_reader = new_reader, rd_turn = first_turn cf, rd_checked = [], rd_originals = [],
      rd_opening = [], rd_holding = False, rd_released = []\<rparr>"

text \<open>\<open>_turn_for\<close>: the format from the proxy, or from the provider and the first event that has
  one.\<close>

definition format_for :: "stream_config \<Rightarrow> stream_format option \<Rightarrow> stream_event \<Rightarrow> stream_format option" where
  "format_for cf f e =
     (case f of
        Some _ \<Rightarrow> f
      | None \<Rightarrow>
          if cf_provider cf = ''anthropic'' then Some AnthropicMessages
          else (case se_data e of
                  None \<Rightarrow> None
                | Some data \<Rightarrow>
                    Some (if field data ''object'' = JStr ''chat.completion.chunk'' then OpenAIChat
                          else OpenAIResponses)))"

definition turn_for :: "stream_config \<Rightarrow> turn_state \<Rightarrow> stream_event \<Rightarrow> turn_state" where
  "turn_for cf ts e =
     (case snd ts of
        Some t \<Rightarrow> ts
      | None \<Rightarrow> (let f = format_for cf (fst ts) e in (f, map_option new_turn f)))"

text \<open>\<open>role\<close>.\<close>

definition role_of :: "stream_config \<Rightarrow> turn_state \<Rightarrow> stream_event \<Rightarrow> (event_role \<times> turn_state) option" where
  "role_of cf ts e =
     (let ts' = turn_for cf ts e
      in case snd ts' of
           None \<Rightarrow> Some (Filler, ts')
         | Some t \<Rightarrow> map_option (\<lambda>(r, t'). (r, fst ts', Some t')) (place t e))"

text \<open>The loop of \<open>_release_ready\<close>: what is ready to go out, up to the first event that is held.
  \<open>None\<close> is an exception of the turn, and what was read until then is read.\<close>

fun sort_ready ::
  "stream_config \<Rightarrow> reading \<Rightarrow> stream_event list \<Rightarrow> (stream_event \<times> event_role) list option \<times> reading" where
  "sort_ready cf rd [] = (Some [], rd)"
| "sort_ready cf rd (e # es) =
     (let rd1 = rd\<lparr>rd_originals := rd_originals rd @ [e]\<rparr>
      in if rd_holding rd then sort_ready cf rd1 es
         else (case role_of cf (rd_turn rd) e of
           None \<Rightarrow> (None, rd1\<lparr>rd_turn := turn_for cf (rd_turn rd) e\<rparr>)
         | Some (r, ts) \<Rightarrow>
             if r = Held then sort_ready cf (rd1\<lparr>rd_turn := ts, rd_holding := True\<rparr>) es
             else (case sort_ready cf (rd1\<lparr>rd_turn := ts\<rparr>) es of
                (ready, rd') \<Rightarrow> (map_option (\<lambda>ps. (e, r) # ps) ready, rd'))))"

text \<open>\<open>_release_ready\<close>: what goes out, if anything, and what has been read. The opening waits for
  the first text or reasoning, and nothing goes out that the SDK does not take.\<close>

definition waits_with_opening :: "bool \<Rightarrow> (stream_event \<times> event_role) list \<Rightarrow> bool" where
  "waits_with_opening sent ready \<longleftrightarrow> \<not> sent \<and> list_all (\<lambda>p. snd p = Opening \<or> snd p = Filler) ready"

definition takes :: "stream_config \<Rightarrow> reading \<Rightarrow> stream_event list \<Rightarrow> bool" where
  "takes cf rd out \<longleftrightarrow>
     (case rd_turn rd of
        (Some f, Some t) \<Rightarrow> cf_takes cf f (rd_checked rd @ out)
      | _ \<Rightarrow> True)"

definition cannot_place :: failure where
  "cannot_place = OtherFailure ''the event could not be placed''"

definition breaks :: failure where
  "breaks = UnreadableError (''The reply stream doesn'' @ apostrophe @ ''t hold together.'')"

definition not_utf8 :: failure where
  "not_utf8 = UnreadableError ''The reply stream is not UTF-8.''"

definition release_ready ::
  "stream_config \<Rightarrow> bool \<Rightarrow> reading \<Rightarrow> stream_event list \<Rightarrow> (failure + string option) \<times> reading" where
  "release_ready cf sent rd arrived =
     (case sort_ready cf rd arrived of
        (None, rd1) \<Rightarrow> (Inl cannot_place, rd1)
      | (Some ready, rd1) \<Rightarrow>
          if ready = [] then (Inr None, rd1)
          else if waits_with_opening sent ready
          then (Inr None, rd1\<lparr>rd_opening := rd_opening rd1 @ map fst ready\<rparr>)
          else
            (let out = rd_opening rd1 @ map fst ready; rd2 = rd1\<lparr>rd_opening := []\<rparr>;
                 written = write_events (cf_dumps cf) out
             in if \<not> takes cf rd1 out then (Inl breaks, rd2)
                else (Inr (Some written),
                  rd2\<lparr>rd_checked := rd_checked rd1 @ out, rd_released := rd_released rd1 @ written\<rparr>)))"

text \<open>What one look at the reply reads: nothing more once an event is held. \<open>None\<close> is bytes that
  are not UTF-8.\<close>

definition arriving :: "stream_config \<Rightarrow> event_reader \<Rightarrow> string \<Rightarrow> bool \<Rightarrow> (stream_event list \<times> event_reader) option" where
  "arriving cf reader data ending =
     (case push (cf_loads cf) reader data of
        None \<Rightarrow> None
      | Some (es, r) \<Rightarrow>
          if ending then map_option (\<lambda>es'. (es @ es', r)) (finish (cf_loads cf) r)
          else Some (es, r))"

definition read_on :: "stream_config \<Rightarrow> bool \<Rightarrow> reading \<Rightarrow> string \<Rightarrow> bool \<Rightarrow> (failure + string option) \<times> reading" where
  "read_on cf sent rd data ending =
     (if rd_holding rd then (Inr None, rd)
      else case arriving cf (rd_reader rd) data ending of
        None \<Rightarrow> (Inl not_utf8, rd)
      | Some (es, r) \<Rightarrow> release_ready cf sent (rd\<lparr>rd_reader := r\<rparr>) es)"

section \<open>The state\<close>

text \<open>Where the task that judges stands: waiting for the reply's bytes, past handing something out
  (\<open>ending\<close> as it was when it looked), about to fail or to raise, waiting for the handler, about
  to end, and done.\<close>

datatype phase =
    Asking
  | Reading
  | Delivered bool
  | Failing failure
  | Raising failure
  | Judging
  | Ending
  | Over

text \<open>\<open>st_fed\<close> and \<open>st_answer\<close> record the bytes taken and the handler's answer, which the code
  does not keep once the output has ended.\<close>

record reply_state =
  st_held :: string
  st_consumed :: nat
  st_ended :: bool
  st_aborted :: bool
  st_over :: bool
  st_finished :: bool
  st_sent :: bool
  st_reading :: reading
  st_out :: "sent_output list"
  st_phase :: phase
  st_not_judged :: "unjudged list"
  st_raised :: "failure option"
  st_fed :: string
  st_answer :: "judged option"

definition start_state :: "stream_config \<Rightarrow> reply_state" where
  "start_state cf =
     \<lparr>st_held = [], st_consumed = 0, st_ended = False, st_aborted = False, st_over = False,
      st_finished = False, st_sent = False, st_reading = new_reading cf, st_out = [],
      st_phase = (if mode_of cf = ProviderError then Asking else Reading),
      st_not_judged = [], st_raised = None, st_fed = [], st_answer = None\<rparr>"

definition closed_stream :: "reply_state \<Rightarrow> bool" where
  "closed_stream s \<longleftrightarrow> st_aborted s \<or> st_finished s \<or> st_over s"

section \<open>What the proxy does\<close>

text \<open>\<open>feed\<close>: it raises once the input has ended, or waits for output to drain.\<close>

datatype feed_result = InputEnded | Waits | Took reply_state

definition feed :: "stream_config \<Rightarrow> string \<Rightarrow> reply_state \<Rightarrow> feed_result" where
  "feed cf data s =
     (if st_ended s then InputEnded
      else if mode_of cf \<noteq> ProviderError \<and> cf_max_held cf < length (st_held s) + length data
      then Took (s\<lparr>st_over := True\<rparr>)
      else if mode_of cf \<noteq> HeldWhole \<and> \<not> closed_stream s
        \<and> cf_max_pending cf \<le> length (st_held s) - st_consumed s then Waits
      else if closed_stream s then Took s
      else Took (s\<lparr>st_held := st_held s @ data, st_fed := st_fed s @ data\<rparr>))"

definition end_input :: "reply_state \<Rightarrow> reply_state" where
  "end_input s = s\<lparr>st_ended := True\<rparr>"

definition abort :: "reply_state \<Rightarrow> reply_state" where
  "abort s = s\<lparr>st_aborted := True\<rparr>"

section \<open>What is sent\<close>

text \<open>\<open>_out\<close>: an output that is not a \<open>Release\<close> is the last, after which nothing fed is wanted; once
  aborted, nothing more is sent.\<close>

definition put_out :: "sent_output \<Rightarrow> reply_state \<Rightarrow> reply_state" where
  "put_out o' s = (if st_aborted s then s else s\<lparr>st_out := st_out s @ [o']\<rparr>)"

definition finish_stream :: "reply_state \<Rightarrow> reply_state" where
  "finish_stream s = s\<lparr>st_finished := True, st_held := []\<rparr>"

definition last_out :: "sent_output \<Rightarrow> reply_state \<Rightarrow> reply_state" where
  "last_out o' s = (put_out o' (finish_stream s))\<lparr>st_phase := Over\<rparr>"

definition no_judgment :: "unjudged \<Rightarrow> reply_state \<Rightarrow> reply_state" where
  "no_judgment why s = s\<lparr>st_not_judged := st_not_judged s @ [why]\<rparr>"

text \<open>\<open>run\<close>'s end: the output has ended; what was raised is kept for the one who reads it.\<close>

definition stop :: "reply_state \<Rightarrow> reply_state" where
  "stop s = (finish_stream s)\<lparr>st_phase := Over\<rparr>"

definition raise_failure :: "failure \<Rightarrow> reply_state \<Rightarrow> reply_state" where
  "raise_failure ex s = stop (if st_aborted s then s else s\<lparr>st_raised := Some ex\<rparr>)"

definition too_large :: "stream_config \<Rightarrow> failure" where
  "too_large cf = TooLargeError (''The provider'' @ apostrophe @ ''s reply is larger than the ''
     @ nat_text (cf_max_held cf) @ '' bytes the sidecar holds, so it was not judged.'')"

text \<open>\<open>_fail\<close>: an HTTP error while nothing has gone out, an error event once something has.\<close>

definition fail_turn :: "stream_config \<Rightarrow> refusal \<Rightarrow> unjudged option \<Rightarrow> reply_state \<Rightarrow> reply_state" where
  "fail_turn cf refused why s =
     (case (st_sent s, fst (rd_turn (st_reading s))) of
        (True, Some f) \<Rightarrow>
          last_out (ErrorOut (error_event (cf_dumps cf) f refused (rd_originals (st_reading s))) why) s
      | _ \<Rightarrow> last_out (RefuseClient refused) s)"

section \<open>The task that judges\<close>

text \<open>One look of \<open>_release_early\<close>, when there is something to look at.\<close>

definition look_early :: "stream_config \<Rightarrow> reply_state \<Rightarrow> reply_state option" where
  "look_early cf s =
     (if \<not> (st_consumed s < length (st_held s) \<or> st_ended s \<or> st_aborted s \<or> st_over s) then None
      else if st_aborted s then Some (stop (no_judgment CutOff s))
      else if st_over s then Some ((no_judgment Unreadable s)\<lparr>st_phase := Failing (too_large cf)\<rparr>)
      else
        (let data = drop (st_consumed s) (st_held s); s1 = s\<lparr>st_consumed := length (st_held s)\<rparr>
         in case read_on cf (st_sent s) (st_reading s) data (st_ended s) of
              (Inl ex, rd) \<Rightarrow> Some ((no_judgment Unreadable s1)\<lparr>st_reading := rd, st_phase := Failing ex\<rparr>)
            | (Inr None, rd) \<Rightarrow> Some (s1\<lparr>st_reading := rd, st_phase := Delivered (st_ended s)\<rparr>)
            | (Inr (Some written), rd) \<Rightarrow>
                Some (put_out (SendOn written)
                  (s1\<lparr>st_reading := rd, st_sent := True, st_phase := Delivered (st_ended s)\<rparr>))))"

text \<open>The handler's answer to a reply released early: only what follows what went out is sent. A
  replacement that does not begin with it fails the assertion.\<close>

definition judge_early :: "stream_config \<Rightarrow> reply_state \<Rightarrow> reply_state" where
  "judge_early cf s =
     (let released = rd_released (st_reading s); result = cf_reply cf (st_held s) released;
          s1 = s\<lparr>st_answer := Some result\<rparr>
      in case result of
           Raised ex \<Rightarrow>
             if \<not> st_sent s \<or> st_aborted s then raise_failure ex s1
             else fail_turn cf (refusal_for ex ''reply'' True) (Some (not_judged ex)) s1
         | Answered (RefuseWith refused) \<Rightarrow> fail_turn cf refused None s1
         | Answered answer \<Rightarrow>
             (let body = (case answer of ReplaceBody b \<Rightarrow> b | _ \<Rightarrow> st_held s)
              in if \<not> starts_with body released then raise_failure (OtherFailure ''AssertionError'') s1
                 else
                   (let rest = drop (length released) body
                    in if rest = [] then s1\<lparr>st_phase := Ending\<rparr>
                       else put_out (SendOn rest) (s1\<lparr>st_sent := True, st_phase := Ending\<rparr>))))"

definition look_whole :: "stream_config \<Rightarrow> reply_state \<Rightarrow> reply_state option" where
  "look_whole cf s =
     (if \<not> (st_ended s \<or> st_aborted s \<or> st_over s) then None
      else if st_over s then Some ((no_judgment Unreadable s)\<lparr>st_phase := Raising (too_large cf)\<rparr>)
      else if \<not> st_ended s then Some (stop (no_judgment CutOff s))
      else Some (s\<lparr>st_phase := Judging\<rparr>))"

definition judge_whole :: "stream_config \<Rightarrow> reply_state \<Rightarrow> reply_state" where
  "judge_whole cf s =
     (let result = cf_reply cf (st_held s) []; s1 = s\<lparr>st_answer := Some result\<rparr>
      in case result of
           Raised ex \<Rightarrow> raise_failure ex s1
         | Answered (RefuseWith refused) \<Rightarrow> last_out (RefuseClient refused) s1
         | Answered (ReplaceBody b) \<Rightarrow> put_out (SendOn b) (s1\<lparr>st_phase := Ending\<rparr>)
         | Answered PassOn \<Rightarrow> put_out (SendOn (st_held s)) (s1\<lparr>st_phase := Ending\<rparr>))"

text \<open>\<open>_provider_error\<close>: the body goes out as it comes.\<close>

definition ask_handler :: "stream_config \<Rightarrow> reply_state \<Rightarrow> reply_state" where
  "ask_handler cf s =
     (let result = cf_reply cf [] []; s1 = s\<lparr>st_answer := Some result\<rparr>
      in case result of
           Raised ex \<Rightarrow> raise_failure ex s1
         | Answered (RefuseWith refused) \<Rightarrow> last_out (RefuseClient refused) s1
         | Answered _ \<Rightarrow> s1\<lparr>st_phase := Reading\<rparr>)"

definition look_error :: "reply_state \<Rightarrow> reply_state option" where
  "look_error s =
     (if st_held s = [] \<and> \<not> st_ended s \<and> \<not> st_aborted s then None
      else if st_held s = [] then Some (s\<lparr>st_phase := Delivered True\<rparr>)
      else Some (put_out (SendOn (st_held s)) (s\<lparr>st_held := [], st_phase := Delivered True\<rparr>)))"

definition after_error :: "reply_state \<Rightarrow> reply_state" where
  "after_error s =
     (if st_aborted s then stop s
      else if st_ended s \<and> st_held s = [] then last_out Finished s
      else s\<lparr>st_phase := Reading\<rparr>)"

text \<open>From one await of \<open>run\<close> to the next; \<open>None\<close> while it waits, or once it is done.\<close>

definition run_step :: "stream_config \<Rightarrow> reply_state \<Rightarrow> reply_state option" where
  "run_step cf s =
     (case st_phase s of
        Asking \<Rightarrow> Some (ask_handler cf s)
      | Reading \<Rightarrow>
          (case mode_of cf of
             ProviderError \<Rightarrow> look_error s
           | HeldWhole \<Rightarrow> look_whole cf s
           | EarlyRelease \<Rightarrow> look_early cf s)
      | Delivered ending \<Rightarrow>
          Some (if mode_of cf = ProviderError then after_error s
                else if st_aborted s then stop (no_judgment CutOff s)
                else if ending then s\<lparr>st_phase := Judging\<rparr> else s\<lparr>st_phase := Reading\<rparr>)
      | Failing ex \<Rightarrow>
          Some (if \<not> st_sent s \<or> st_aborted s then raise_failure ex s
                else fail_turn cf (refusal_for ex ''reply'' True) (Some Unreadable) s)
      | Raising ex \<Rightarrow> Some (raise_failure ex s)
      | Judging \<Rightarrow> Some (if mode_of cf = EarlyRelease then judge_early cf s else judge_whole cf s)
      | Ending \<Rightarrow> Some (last_out Finished s)
      | Over \<Rightarrow> None)"

text \<open>A keepalive goes out while the stream is open and a refusal could be written in it.\<close>

definition keep_alive :: "stream_config \<Rightarrow> reply_state \<Rightarrow> reply_state option" where
  "keep_alive cf s =
     (if cf_keepalive cf \<and> mode_of cf = EarlyRelease \<and> \<not> closed_stream s
        \<and> fst (rd_turn (st_reading s)) \<noteq> None
      then Some (put_out KeepAlive (s\<lparr>st_sent := True\<rparr>)) else None)"

inductive stream_step :: "stream_config \<Rightarrow> reply_state \<Rightarrow> reply_state \<Rightarrow> bool" for cf where
  Feed: "feed cf data s = Took s' \<Longrightarrow> stream_step cf s s'"
| EndInput: "stream_step cf s (end_input s)"
| Abort: "stream_step cf s (abort s)"
| Run: "run_step cf s = Some s' \<Longrightarrow> stream_step cf s s'"
| Alive: "keep_alive cf s = Some s' \<Longrightarrow> stream_step cf s s'"

inductive reached :: "stream_config \<Rightarrow> reply_state \<Rightarrow> bool" for cf where
  Fresh: "reached cf (start_state cf)"
| Onward: "reached cf s \<Longrightarrow> stream_step cf s s' \<Longrightarrow> reached cf s'"

inductive_cases stream_stepE: "stream_step cf s s'"

end
