(* ===== verification/ReplyStreamProps.thy ===== *)
theory ReplyStreamProps
  imports ReplyStream
begin

text \<open>
  What a reply stream promises: what goes out before the reply is judged is calm text of the
  provider's own bytes, a complete reply is the handler's answer whole, output ends once, and
  judging ends.
\<close>

section \<open>What may go out as it arrives\<close>

text \<open>Events placed one after the other, none of them held, and the turn after them.\<close>

fun calm_after :: "stream_config \<Rightarrow> turn_state \<Rightarrow> stream_event list \<Rightarrow> turn_state option" where
  "calm_after cf ts [] = Some ts"
| "calm_after cf ts (e # es) =
     (case role_of cf ts e of
        None \<Rightarrow> None
      | Some (r, ts') \<Rightarrow> if r = Held then None else calm_after cf ts' es)"

lemma calm_after_append:
  "calm_after cf ts (xs @ ys) = (case calm_after cf ts xs of None \<Rightarrow> None | Some ts' \<Rightarrow> calm_after cf ts' ys)"
  by (induction xs arbitrary: ts) (auto split: option.splits prod.splits)

text \<open>No event, placed in its turn, carries a call.\<close>

fun free_of_calls :: "stream_config \<Rightarrow> turn_state \<Rightarrow> stream_event list \<Rightarrow> bool" where
  "free_of_calls cf ts [] \<longleftrightarrow> True"
| "free_of_calls cf ts (e # es) \<longleftrightarrow>
     (case snd (turn_for cf ts e) of None \<Rightarrow> True | Some t \<Rightarrow> \<not> carries_call t e)
     \<and> (case role_of cf ts e of None \<Rightarrow> False | Some (r, ts') \<Rightarrow> free_of_calls cf ts' es)"

lemma calm_free: "calm_after cf ts es = Some ts' \<Longrightarrow> free_of_calls cf ts es"
proof (induction es arbitrary: ts)
  case (Cons e es)
  then obtain r u where r: "role_of cf ts e = Some (r, u)" "r \<noteq> Held" "free_of_calls cf u es"
    by (auto split: option.splits if_splits)
  have "\<not> carries_call t e" if "snd (turn_for cf ts e) = Some t" for t
    using that r call_held [of t e] by (auto simp: role_of_def Let_def)
  with r show ?case by (auto split: option.splits)
qed simp

section \<open>Reading\<close>

definition known :: "turn_state \<Rightarrow> bool" where
  "known ts \<longleftrightarrow> (snd ts \<noteq> None \<longrightarrow> fst ts \<noteq> None)"

lemma turn_for_known: "known ts \<Longrightarrow> known (turn_for cf ts e)"
  by (auto simp: turn_for_def known_def Let_def split: option.splits)

lemma turn_for_fst: "fst ts \<noteq> None \<Longrightarrow> fst (turn_for cf ts e) \<noteq> None"
  by (auto simp: turn_for_def format_for_def Let_def split: option.splits)

lemma role_of_known:
  assumes "role_of cf ts e = Some (r, ts')" "known ts"
  shows "known ts'" "fst ts \<noteq> None \<Longrightarrow> fst ts' \<noteq> None" "r \<noteq> Filler \<Longrightarrow> fst ts' \<noteq> None"
  using assms turn_for_known [of ts cf e] turn_for_fst [of ts cf e]
  by (auto simp: role_of_def Let_def known_def split: option.splits)

lemma sort_ready_holding:
  "rd_holding rd \<Longrightarrow> sort_ready cf rd es = (Some [], rd\<lparr>rd_originals := rd_originals rd @ es\<rparr>)"
  by (induction cf rd es rule: sort_ready.induct) auto

text \<open>What one event does to the reading.\<close>

lemma sort_ready_ConsE:
  assumes "sort_ready cf rd (e # es) = (ready, rd')"
  obtains (Stopped) "rd_holding rd" "ready = Some []" "rd' = rd\<lparr>rd_originals := rd_originals rd @ e # es\<rparr>"
  | (Breaks) "\<not> rd_holding rd" "role_of cf (rd_turn rd) e = None" "ready = None"
      "rd' = rd\<lparr>rd_originals := rd_originals rd @ [e], rd_turn := turn_for cf (rd_turn rd) e\<rparr>"
  | (Stops) ts where "\<not> rd_holding rd" "role_of cf (rd_turn rd) e = Some (Held, ts)" "ready = Some []"
      "rd' = rd\<lparr>rd_turn := ts, rd_holding := True, rd_originals := rd_originals rd @ e # es\<rparr>"
  | (Goes) r ts ready0 where "\<not> rd_holding rd" "role_of cf (rd_turn rd) e = Some (r, ts)" "r \<noteq> Held"
      "sort_ready cf (rd\<lparr>rd_originals := rd_originals rd @ [e], rd_turn := ts\<rparr>) es = (ready0, rd')"
      "ready = map_option (\<lambda>ps. (e, r) # ps) ready0"
proof (cases "rd_holding rd")
  case True
  with assms Stopped show thesis by (simp add: sort_ready_holding)
next
  case nh: False
  show thesis
  proof (cases "role_of cf (rd_turn rd) e")
    case None
    with nh assms Breaks show thesis by (simp add: Let_def)
  next
    case (Some p)
    obtain r ts where p: "p = (r, ts)" by (cases p)
    show thesis
    proof (cases "r = Held")
      case True
      with nh Some p assms have "ready = Some []"
        "rd' = rd\<lparr>rd_turn := ts, rd_holding := True, rd_originals := rd_originals rd @ e # es\<rparr>"
        by (simp_all add: Let_def sort_ready_holding)
      with nh Some p True Stops show thesis by simp
    next
      case False
      with nh Some p assms Goes show thesis by (simp add: Let_def split: prod.splits)
    qed
  qed
qed

lemma sort_ready_frame:
  "sort_ready cf rd es = (ready, rd') \<Longrightarrow>
     rd_released rd' = rd_released rd \<and> rd_opening rd' = rd_opening rd \<and> rd_reader rd' = rd_reader rd"
proof (induction es arbitrary: rd ready rd')
  case (Cons e es)
  from Cons.prems show ?case by (cases rule: sort_ready_ConsE) (use Cons.IH in fastforce)+
qed simp

lemma sort_ready_known:
  "sort_ready cf rd es = (ready, rd') \<Longrightarrow> known (rd_turn rd) \<Longrightarrow>
     known (rd_turn rd') \<and> (fst (rd_turn rd) \<noteq> None \<longrightarrow> fst (rd_turn rd') \<noteq> None)
     \<and> (\<forall>ps. ready = Some ps \<longrightarrow> (\<exists>p\<in>set ps. snd p \<noteq> Filler) \<longrightarrow> fst (rd_turn rd') \<noteq> None)"
proof (induction es arbitrary: rd ready rd')
  case (Cons e es)
  from Cons.prems(1) show ?case
  proof (cases rule: sort_ready_ConsE)
    case Breaks
    have "known (turn_for cf (rd_turn rd) e)" using Cons.prems(2) by (rule turn_for_known)
    moreover have "fst (rd_turn rd) \<noteq> None \<Longrightarrow> fst (turn_for cf (rd_turn rd) e) \<noteq> None" by (rule turn_for_fst)
    ultimately show ?thesis using Breaks by simp
  next
    case (Stops ts)
    with role_of_known [OF Stops(2) Cons.prems(2)] show ?thesis by auto
  next
    case (Goes r ts ready0)
    note k = role_of_known [OF Goes(2) Cons.prems(2)]
    from Cons.IH [OF Goes(4)] k show ?thesis
      by (cases "r = Filler"; cases ready0) (simp_all add: Goes(5))
  qed (use Cons.prems in auto)
qed auto

lemma sort_ready_calm:
  "sort_ready cf rd es = (Some ready, rd') \<Longrightarrow> \<not> rd_holding rd \<Longrightarrow>
     \<exists>ts rest. calm_after cf (rd_turn rd) (map fst ready) = Some ts \<and> es = map fst ready @ rest
       \<and> rd_originals rd' = rd_originals rd @ es \<and> (\<not> rd_holding rd' \<longrightarrow> rest = [] \<and> rd_turn rd' = ts)"
proof (induction es arbitrary: rd ready rd')
  case (Cons e es)
  from Cons.prems(1) show ?case
  proof (cases rule: sort_ready_ConsE)
    case (Goes r ts ready0)
    from Goes(5) obtain ps where ps: "ready0 = Some ps" "ready = (e, r) # ps" by (cases ready0) simp_all
    from Cons.IH [OF Goes(4) [unfolded ps]] Goes(1)
    obtain ts' rest where "calm_after cf ts (map fst ps) = Some ts'" "es = map fst ps @ rest"
      "rd_originals rd' = rd_originals rd @ e # es" "\<not> rd_holding rd' \<longrightarrow> rest = [] \<and> rd_turn rd' = ts'" by auto
    with ps Goes show ?thesis by auto
  qed (use Cons.prems(2) in auto)
qed auto

section \<open>The bytes read\<close>

lemma write_events_append: "write_events dumps (xs @ ys) = write_events dumps xs @ write_events dumps ys"
  by (simp add: write_events_def)

lemma starts_with_prefix: "starts_with text p \<Longrightarrow> starts_with (text @ rest) p"
  by (auto simp: starts_with_iff)

lemma reads_as_bytes:
  assumes "reads_as loads body es r"
  shows "list_all (\<lambda>e. \<not> se_changed e) es" "starts_with body (write_events dumps es)"
proof -
  from assms obtain t ls where d: "decode_bytes fresh_decoder body = Some (t, er_decoder r)"
    and f: "fold_lines loads [] ls = (es, er_held r)"
    and s: "\<And>xs. split_lines [] (t @ xs) =
       (ls @ fst (split_lines [] (er_rest r @ xs)), snd (split_lines [] (er_rest r @ xs)))"
    by (auto simp: reads_as_def)
  from fold_lines_lines [of loads "[]" ls] f
  have l: "concat (map se_lines es) @ er_held r = ls" and u: "list_all (\<lambda>e. \<not> se_changed e) es" by simp_all
  show "list_all (\<lambda>e. \<not> se_changed e) es" by (rule u)
  have "t = line_bytes ls @ er_rest r"
    using split_lines_bytes [of "[]" t] split_lines_bytes [of "[]" "er_rest r"] s [of "[]"] by simp
  moreover have "body = t @ de_pending (er_decoder r)"
    using decode_bytes_keeps [OF d] by (simp add: fresh_decoder_def decoder_ok_def)
  moreover have "write_events dumps es = line_bytes (concat (map se_lines es))"
    using u by (rule write_unchanged)
  ultimately show "starts_with body (write_events dumps es)"
    using l by (auto simp: starts_with_iff)
qed

lemma written_events_bytes:
  "written_events loads body = Some es \<Longrightarrow> write_events dumps es = body"
  by (rule events_round_trip_bytes)

text \<open>What has gone out is calm, and is how the bytes begin; until an event is held, what has been
  read is what has gone out and the opening that waits.\<close>

definition calm_released :: "stream_config \<Rightarrow> string \<Rightarrow> reading \<Rightarrow> bool" where
  "calm_released cf body rd \<longleftrightarrow>
     (\<exists>es. calm_after cf (first_turn cf) es \<noteq> None \<and> rd_released rd = write_events (cf_dumps cf) es)
     \<and> starts_with body (rd_released rd)"

definition all_calm :: "stream_config \<Rightarrow> reading \<Rightarrow> bool" where
  "all_calm cf rd \<longleftrightarrow>
     (\<exists>es. rd_originals rd = es @ rd_opening rd \<and> rd_released rd = write_events (cf_dumps cf) es)
     \<and> calm_after cf (first_turn cf) (rd_originals rd) = Some (rd_turn rd)"

definition reading_ok :: "stream_config \<Rightarrow> string \<Rightarrow> reading \<Rightarrow> bool" where
  "reading_ok cf body rd \<longleftrightarrow> calm_released cf body rd \<and> known (rd_turn rd)
     \<and> (\<not> rd_holding rd \<longrightarrow> all_calm cf rd \<and> reads_as (cf_loads cf) body (rd_originals rd) (rd_reader rd))"

definition went_out :: "failure + string option \<Rightarrow> string" where
  "went_out o' = (case o' of Inr (Some written) \<Rightarrow> written | _ \<Rightarrow> [])"

lemma calm_releasedI:
  assumes "calm_after cf (first_turn cf) (es @ es') \<noteq> None" "rd_released rd = write_events (cf_dumps cf) es"
    "starts_with body (write_events (cf_dumps cf) (es @ es'))"
  shows "calm_released cf body rd"
proof -
  have "calm_after cf (first_turn cf) es \<noteq> None" using assms(1) by (auto simp: calm_after_append split: option.splits)
  moreover have "starts_with body (rd_released rd)" using assms(2,3) by (auto simp: write_events_append starts_with_iff)
  ultimately show ?thesis using assms(2) unfolding calm_released_def by blast
qed

lemma all_calm_released:
  assumes "all_calm cf rd" "starts_with body (write_events (cf_dumps cf) (rd_originals rd))"
  shows "calm_released cf body rd"
proof -
  from assms(1) obtain es where "rd_originals rd = es @ rd_opening rd" "rd_released rd = write_events (cf_dumps cf) es"
    "calm_after cf (first_turn cf) (es @ rd_opening rd) \<noteq> None" by (auto simp: all_calm_def)
  with assms(2) show ?thesis by (auto intro: calm_releasedI)
qed

lemma release_ready_reading:
  assumes o: "release_ready cf sent rd es = (o', rd')" and nh: "\<not> rd_holding rd"
    and calm: "all_calm cf rd" and k: "known (rd_turn rd)"
    and body: "starts_with body (write_events (cf_dumps cf) (rd_originals rd @ es))"
  shows "calm_released cf body rd' \<and> known (rd_turn rd') \<and> rd_reader rd' = rd_reader rd
    \<and> rd_released rd' = rd_released rd @ went_out o'
    \<and> (\<not> rd_holding rd' \<longrightarrow> \<not> isl o' \<longrightarrow> all_calm cf rd' \<and> rd_originals rd' = rd_originals rd @ es)
    \<and> (fst (rd_turn rd) \<noteq> None \<longrightarrow> fst (rd_turn rd') \<noteq> None)
    \<and> (\<forall>w. o' = Inr (Some w) \<longrightarrow> \<not> sent \<longrightarrow> fst (rd_turn rd') \<noteq> None)"
proof -
  obtain ready rd1 where s: "sort_ready cf rd es = (ready, rd1)" by (cases "sort_ready cf rd es")
  note fr = sort_ready_frame [OF s] and kn = sort_ready_known [OF s k]
  have c: "calm_released cf body rd"
    using calm body by (auto simp: write_events_append starts_with_iff intro: all_calm_released)
  from calm obtain es0 where es0: "rd_originals rd = es0 @ rd_opening rd" "rd_released rd = write_events (cf_dumps cf) es0"
    and ca: "calm_after cf (first_turn cf) (rd_originals rd) = Some (rd_turn rd)" by (auto simp: all_calm_def)
  show ?thesis
  proof (cases ready)
    case None
    with o s have "o' = Inl cannot_place" "rd' = rd1" by (simp_all add: release_ready_def)
    with c fr kn show ?thesis by (simp add: calm_released_def went_out_def)
  next
    case (Some ps)
    with s sort_ready_calm [OF _ nh] obtain ts rest where ts: "calm_after cf (rd_turn rd) (map fst ps) = Some ts"
      and es: "es = map fst ps @ rest" and or: "rd_originals rd1 = rd_originals rd @ es"
      and nh1: "\<not> rd_holding rd1 \<longrightarrow> rest = [] \<and> rd_turn rd1 = ts" by blast
    have ca1: "calm_after cf (first_turn cf) (rd_originals rd @ map fst ps) = Some ts"
      using ca ts by (simp add: calm_after_append)
    have kps: "\<exists>p\<in>set ps. snd p \<noteq> Filler \<Longrightarrow> fst (rd_turn rd1) \<noteq> None" using kn Some by blast
    consider (Nothing) "ps = []" | (Waiting) "ps \<noteq> []" "waits_with_opening sent ps"
      | (Out) "ps \<noteq> []" "\<not> waits_with_opening sent ps" by blast
    then show ?thesis
    proof cases
      case Nothing
      with o s Some have "o' = Inr None" "rd' = rd1" by (simp_all add: release_ready_def)
      with c fr kn nh1 or es ca1 es0 Nothing show ?thesis
        by (auto simp: calm_released_def went_out_def all_calm_def)
    next
      case Waiting
      with o s Some have r: "o' = Inr None" "rd' = rd1\<lparr>rd_opening := rd_opening rd1 @ map fst ps\<rparr>"
        by (simp_all add: release_ready_def)
      have "calm_released cf body rd'" using c fr r by (simp add: calm_released_def)
      moreover have "\<not> rd_holding rd' \<Longrightarrow> all_calm cf rd' \<and> rd_originals rd' = rd_originals rd @ es"
        using r nh1 or es ca1 es0 fr by (auto simp: all_calm_def)
      ultimately show ?thesis using r fr kn by (simp add: went_out_def)
    next
      case Out
      let ?out = "rd_opening rd1 @ map fst ps"
      have all: "rd_released rd @ write_events (cf_dumps cf) ?out = write_events (cf_dumps cf) (rd_originals rd @ map fst ps)"
        using es0 fr by (simp add: write_events_append)
      show ?thesis
      proof (cases "takes cf rd1 ?out")
        case False
        with o s Some Out have "o' = Inl breaks" "rd' = rd1\<lparr>rd_opening := []\<rparr>"
          by (simp_all add: release_ready_def Let_def)
        with c fr kn show ?thesis by (simp add: calm_released_def went_out_def)
      next
        case True
        with o s Some Out have r: "o' = Inr (Some (write_events (cf_dumps cf) ?out))"
          "rd' = rd1\<lparr>rd_opening := [], rd_checked := rd_checked rd1 @ ?out,
             rd_released := rd_released rd1 @ write_events (cf_dumps cf) ?out\<rparr>"
          by (simp_all add: release_ready_def Let_def)
        have "calm_released cf body rd'"
          by (rule calm_releasedI [where es = "rd_originals rd @ map fst ps" and es' = "[]"])
            (use r fr all ca1 body es in \<open>auto simp: write_events_append starts_with_iff\<close>)
        moreover have "\<not> rd_holding rd' \<Longrightarrow> all_calm cf rd' \<and> rd_originals rd' = rd_originals rd @ es"
          using r nh1 or es ca1 fr all by (auto simp: all_calm_def)
        moreover have "\<not> sent \<Longrightarrow> fst (rd_turn rd') \<noteq> None"
        proof -
          assume "\<not> sent"
          with Out obtain p where "p \<in> set ps" "snd p \<noteq> Filler" by (auto simp: waits_with_opening_def list_all_iff)
          with kps r show ?thesis by auto
        qed
        ultimately show ?thesis using r fr kn by (simp add: went_out_def)
      qed
    qed
  qed
qed

lemma arriving_reads:
  assumes "arriving cf r data ending = Some (es, r')" "reads_as (cf_loads cf) body es0 r"
  shows "starts_with (body @ data) (write_events (cf_dumps cf) (es0 @ es))"
    "\<not> ending \<Longrightarrow> reads_as (cf_loads cf) (body @ data) (es0 @ es) r'"
proof -
  from assms(1) obtain new r1 where p: "push (cf_loads cf) r data = Some (new, r1)"
    by (auto simp: arriving_def split: option.splits)
  with push_reads [OF assms(2), of data] have ra: "reads_as (cf_loads cf) (body @ data) (es0 @ new) r1" by simp
  show "\<not> ending \<Longrightarrow> reads_as (cf_loads cf) (body @ data) (es0 @ es) r'"
    using assms(1) p ra by (simp add: arriving_def)
  show "starts_with (body @ data) (write_events (cf_dumps cf) (es0 @ es))"
  proof (cases ending)
    case False
    with assms(1) p ra show ?thesis by (simp add: arriving_def reads_as_bytes)
  next
    case True
    with assms(1) p obtain es' where f: "finish (cf_loads cf) r1 = Some es'" "es = new @ es'"
      by (auto simp: arriving_def)
    with finish_reads [OF ra] have "written_events (cf_loads cf) (body @ data) = Some (es0 @ es)" by simp
    then show ?thesis by (simp add: events_round_trip_bytes starts_with_def)
  qed
qed

lemma read_on_reading:
  assumes o: "read_on cf sent rd data ending = (o', rd')" and ok: "reading_ok cf body rd"
  shows "calm_released cf (body @ data) rd' \<and> known (rd_turn rd')
    \<and> rd_released rd' = rd_released rd @ went_out o'
    \<and> (\<not> ending \<longrightarrow> \<not> isl o' \<longrightarrow> reading_ok cf (body @ data) rd')
    \<and> (fst (rd_turn rd) \<noteq> None \<longrightarrow> fst (rd_turn rd') \<noteq> None)
    \<and> (\<forall>w. o' = Inr (Some w) \<longrightarrow> \<not> sent \<longrightarrow> fst (rd_turn rd') \<noteq> None)"
proof -
  have c: "calm_released cf (body @ data) rd" and k: "known (rd_turn rd)"
    using ok by (auto simp: reading_ok_def calm_released_def intro: starts_with_prefix)
  show ?thesis
  proof (cases "rd_holding rd")
    case True
    with o have "o' = Inr None" "rd' = rd" by (simp_all add: read_on_def)
    with True c k show ?thesis by (simp add: went_out_def reading_ok_def)
  next
    case nh: False
    with ok have calm: "all_calm cf rd" and ra: "reads_as (cf_loads cf) body (rd_originals rd) (rd_reader rd)"
      by (auto simp: reading_ok_def)
    show ?thesis
    proof (cases "arriving cf (rd_reader rd) data ending")
      case None
      with nh o have "o' = Inl not_utf8" "rd' = rd" by (simp_all add: read_on_def)
      with c k show ?thesis by (simp add: went_out_def)
    next
      case (Some p)
      obtain es r where p: "p = (es, r)" by (cases p)
      note a = arriving_reads [OF Some [unfolded p] ra]
      let ?rd = "rd\<lparr>rd_reader := r\<rparr>"
      have "all_calm cf ?rd" using calm by (simp add: all_calm_def)
      with nh o Some p k a(1) release_ready_reading [of cf sent ?rd es o' rd' "body @ data"]
      have res: "calm_released cf (body @ data) rd' \<and> known (rd_turn rd') \<and> rd_reader rd' = r
        \<and> rd_released rd' = rd_released rd @ went_out o'
        \<and> (\<not> rd_holding rd' \<longrightarrow> \<not> isl o' \<longrightarrow> all_calm cf rd' \<and> rd_originals rd' = rd_originals rd @ es)
        \<and> (fst (rd_turn rd) \<noteq> None \<longrightarrow> fst (rd_turn rd') \<noteq> None)
        \<and> (\<forall>w. o' = Inr (Some w) \<longrightarrow> \<not> sent \<longrightarrow> fst (rd_turn rd') \<noteq> None)"
        by (simp add: read_on_def)
      with a(2) show ?thesis by (auto simp: reading_ok_def)
    qed
  qed
qed

section \<open>What has been sent\<close>

definition goes_on :: "sent_output \<Rightarrow> bool" where
  "goes_on o' \<longleftrightarrow> (case o' of SendOn _ \<Rightarrow> True | KeepAlive \<Rightarrow> True | _ \<Rightarrow> False)"

lemma goes_on_simps [simp]:
  "goes_on (SendOn b)" "goes_on KeepAlive" "\<not> goes_on (RefuseClient r)" "\<not> goes_on (ErrorOut t w)" "\<not> goes_on Finished"
  by (simp_all add: goes_on_def)

text \<open>The reply's bytes the client has been sent.\<close>

fun sent_bytes :: "sent_output list \<Rightarrow> string" where
  "sent_bytes [] = []"
| "sent_bytes (SendOn b # os) = b @ sent_bytes os"
| "sent_bytes (_ # os) = sent_bytes os"

lemma sent_bytes_append [simp]: "sent_bytes (xs @ ys) = sent_bytes xs @ sent_bytes ys"
  by (induction xs rule: sent_bytes.induct) auto

text \<open>Only the last output ends the reply, and a refusal with a status is all there is.\<close>

definition well_ended :: "sent_output list \<Rightarrow> bool" where
  "well_ended os \<longleftrightarrow> list_all goes_on (butlast os) \<and> (\<forall>r. RefuseClient r \<in> set os \<longrightarrow> os = [RefuseClient r])"

lemma goes_on_not [simp]: "list_all goes_on os \<Longrightarrow> RefuseClient r \<notin> set os"
  "list_all goes_on os \<Longrightarrow> Finished \<notin> set os"
  by (auto simp: list_all_iff)

lemma well_ended_go: "list_all goes_on os \<Longrightarrow> well_ended os"
  by (auto simp: well_ended_def list_all_iff dest: in_set_butlastD)

lemma well_ended_last:
  "list_all goes_on os \<Longrightarrow> (\<And>r. o' = RefuseClient r \<Longrightarrow> os = []) \<Longrightarrow> well_ended (os @ [o'])"
  by (auto simp: well_ended_def)

definition told :: "reply_state \<Rightarrow> bool" where
  "told s \<longleftrightarrow> st_aborted s \<or> st_raised s \<noteq> None \<or> (st_out s \<noteq> [] \<and> \<not> goes_on (last (st_out s)))"

fun answer_body :: "answer_to \<Rightarrow> string \<Rightarrow> string option" where
  "answer_body PassOn body = Some body"
| "answer_body (ReplaceBody b) body = Some b"
| "answer_body (RefuseWith r) body = None"

definition whole_sent :: "reply_state \<Rightarrow> bool" where
  "whole_sent s \<longleftrightarrow>
     (\<exists>a. st_answer s = Some (Answered a) \<and> answer_body a (st_fed s) = Some (sent_bytes (st_out s)))"

section \<open>A reply released early\<close>

definition unanswered :: "reply_state \<Rightarrow> bool" where
  "unanswered s \<longleftrightarrow> \<not> st_finished s \<and> st_answer s = None \<and> (st_sent s \<longrightarrow> fst (rd_turn (st_reading s)) \<noteq> None)"

definition early_phase :: "stream_config \<Rightarrow> reply_state \<Rightarrow> bool" where
  "early_phase cf s \<longleftrightarrow>
     (case st_phase s of
        Reading \<Rightarrow> unanswered s \<and> reading_ok cf (take (st_consumed s) (st_fed s)) (st_reading s)
      | Delivered ending \<Rightarrow> unanswered s
          \<and> (if ending then st_ended s else reading_ok cf (take (st_consumed s) (st_fed s)) (st_reading s))
      | Failing ex \<Rightarrow> unanswered s
      | Judging \<Rightarrow> unanswered s \<and> st_ended s
      | Ending \<Rightarrow> \<not> st_finished s \<and> st_ended s \<and> (st_aborted s \<or> whole_sent s)
      | Over \<Rightarrow> st_finished s \<and> well_ended (st_out s) \<and> told s \<and> (Finished \<in> set (st_out s) \<longrightarrow> whole_sent s)
      | _ \<Rightarrow> False)"

definition early_base :: "stream_config \<Rightarrow> reply_state \<Rightarrow> bool" where
  "early_base cf s \<longleftrightarrow> known (rd_turn (st_reading s))
     \<and> calm_released cf (st_fed s) (st_reading s)
     \<and> (\<not> st_finished s \<longrightarrow> st_held s = st_fed s \<and> st_consumed s \<le> length (st_fed s)
          \<and> (st_sent s \<or> st_out s = []) \<and> list_all goes_on (st_out s))
     \<and> (st_answer s = None \<longrightarrow> sent_bytes (st_out s) = rd_released (st_reading s))"

definition early_ok :: "stream_config \<Rightarrow> reply_state \<Rightarrow> bool" where
  "early_ok cf s \<longleftrightarrow> early_phase cf s \<and> early_base cf s"

lemma reads_as_start: "reading_ok cf [] (new_reading cf)"
  using reads_as_new [of "cf_loads cf"]
  by (auto simp: reading_ok_def new_reading_def calm_released_def all_calm_def known_def first_turn_def
      write_events_def starts_with_def intro: exI [of _ "[]"])

lemma early_start:
  assumes "mode_of cf = EarlyRelease"
  shows "early_ok cf (start_state cf)"
  using assms reads_as_start [of cf]
  by (auto simp: early_ok_def early_base_def early_phase_def unanswered_def start_state_def reading_ok_def new_reading_def)

lemma calm_released_more: "calm_released cf body rd \<Longrightarrow> calm_released cf (body @ rest) rd"
  by (auto simp: calm_released_def intro: starts_with_prefix)

lemma early_feed:
  assumes "feed cf data s = Took s'" "early_ok cf s"
  shows "early_ok cf s'"
proof -
  from assms(1) consider "s' = s\<lparr>st_over := True\<rparr>" | "s' = s"
    | "\<not> st_ended s" "\<not> closed_stream s" "s' = s\<lparr>st_held := st_held s @ data, st_fed := st_fed s @ data\<rparr>"
    by (auto simp: feed_def split: if_splits)
  then show ?thesis
  proof cases
    case 3
    then have nf: "\<not> st_finished s" by (simp add: closed_stream_def)
    with assms(2) have "st_consumed s \<le> length (st_fed s)" by (auto simp: early_ok_def early_base_def)
    with 3 nf assms(2) show ?thesis
      by (auto simp: early_ok_def early_base_def early_phase_def unanswered_def calm_released_more split: phase.splits)
  qed (use assms(2) in \<open>auto simp: early_ok_def early_base_def early_phase_def unanswered_def whole_sent_def told_def split: phase.splits\<close>)
qed

lemma early_end: "early_ok cf s \<Longrightarrow> early_ok cf (end_input s)"
  by (auto simp: early_ok_def early_base_def early_phase_def unanswered_def whole_sent_def told_def end_input_def split: phase.splits)

lemma early_abort: "early_ok cf s \<Longrightarrow> early_ok cf (abort s)"
  by (auto simp: early_ok_def early_base_def early_phase_def unanswered_def whole_sent_def told_def abort_def split: phase.splits)

lemma early_alive:
  assumes "keep_alive cf s = Some s'" "early_ok cf s"
  shows "early_ok cf s'"
proof -
  from assms(1) have s': "s' = s\<lparr>st_sent := True, st_out := st_out s @ [KeepAlive]\<rparr>"
    and k: "\<not> st_finished s" "fst (rd_turn (st_reading s)) \<noteq> None"
    by (auto simp: keep_alive_def put_out_def closed_stream_def split: if_splits)
  have "early_phase cf s'"
    using assms(2) s' k
    by (cases "st_phase s") (simp_all add: early_ok_def early_phase_def unanswered_def whole_sent_def)
  with assms(2) s' k show ?thesis by (simp add: early_ok_def early_base_def)
qed

text \<open>The ways a run ends.\<close>

lemma early_last:
  assumes "early_base cf s" "\<not> st_finished s" "\<And>r. o' = RefuseClient r \<Longrightarrow> st_out s = []"
    "\<not> goes_on o'" "o' = Finished \<Longrightarrow> st_aborted s \<or> whole_sent s"
  shows "early_ok cf (last_out o' s)"
proof -
  have out: "list_all goes_on (st_out s)" using assms(1,2) by (simp add: early_base_def)
  have b: "sent_bytes [o'] = []" using assms(4) by (cases o') auto
  have "early_phase cf (last_out o' s)"
    using out assms(3-5) b well_ended_last [OF out, of o'] well_ended_go [OF out]
    by (auto simp: early_phase_def last_out_def put_out_def finish_stream_def told_def whole_sent_def)
  with assms(1) b show ?thesis by (auto simp: early_ok_def early_base_def last_out_def put_out_def finish_stream_def)
qed

lemma early_stop:
  assumes "early_base cf s" "\<not> st_finished s" "st_aborted s \<or> st_raised s \<noteq> None"
  shows "early_ok cf (stop s)"
proof -
  have out: "list_all goes_on (st_out s)" using assms(1,2) by (simp add: early_base_def)
  have "early_phase cf (stop s)"
    using out assms(3) well_ended_go [OF out] by (auto simp: early_phase_def stop_def finish_stream_def told_def)
  with assms(1) show ?thesis by (auto simp: early_ok_def early_base_def stop_def finish_stream_def)
qed

lemma early_raise:
  assumes "early_base cf s" "\<not> st_finished s"
  shows "early_ok cf (raise_failure ex s)"
proof (cases "st_aborted s")
  case True
  with assms early_stop show ?thesis by (simp add: raise_failure_def)
next
  case False
  have "early_base cf (s\<lparr>st_raised := Some ex\<rparr>)" using assms by (simp add: early_base_def)
  with False assms early_stop [of cf "s\<lparr>st_raised := Some ex\<rparr>"] show ?thesis by (simp add: raise_failure_def)
qed

lemma early_fail:
  assumes "early_base cf s" "\<not> st_finished s" "st_sent s \<longrightarrow> fst (rd_turn (st_reading s)) \<noteq> None"
  shows "early_ok cf (fail_turn cf refused why s)"
proof (cases "st_sent s")
  case True
  with assms(3) obtain f where "fst (rd_turn (st_reading s)) = Some f" by auto
  with True show ?thesis
    using early_last [OF assms(1,2), of "ErrorOut (error_event (cf_dumps cf) f refused (rd_originals (st_reading s))) why"]
    by (simp add: fail_turn_def)
next
  case False
  with assms have "st_out s = []" by (auto simp: early_base_def)
  with False show ?thesis
    using early_last [OF assms(1,2), of "RefuseClient refused"] by (simp add: fail_turn_def)
qed

text \<open>Each step of the task that judges.\<close>

lemma early_no_judgment: "early_ok cf s \<Longrightarrow> early_ok cf (no_judgment why s)"
  by (cases "st_phase s") (simp_all add: early_ok_def early_base_def early_phase_def unanswered_def whole_sent_def told_def no_judgment_def)

lemma early_look:
  assumes "look_early cf s = Some s'" "early_ok cf s" "st_phase s = Reading"
  shows "early_ok cf s'"
proof -
  have un: "unanswered s" and r: "reading_ok cf (take (st_consumed s) (st_fed s)) (st_reading s)"
    using assms(2,3) by (auto simp: early_ok_def early_base_def early_phase_def)
  then have nf: "\<not> st_finished s" by (simp add: unanswered_def)
  with assms(2) have held: "st_held s = st_fed s" "st_consumed s \<le> length (st_fed s)"
    and b: "sent_bytes (st_out s) = rd_released (st_reading s)" "list_all goes_on (st_out s)"
      "st_sent s \<or> st_out s = []"
    using un by (auto simp: early_ok_def early_base_def unanswered_def)
  consider (Gone) "st_aborted s" "s' = stop (no_judgment CutOff s)"
    | (Over) "s' = (no_judgment Unreadable s)\<lparr>st_phase := Failing (too_large cf)\<rparr>"
    | (Read) "\<not> st_aborted s"
    using assms(1) by (auto simp: look_early_def split: if_splits)
  then show ?thesis
  proof cases
    case Gone
    with assms(2) nf early_no_judgment [of cf s CutOff] early_stop [of cf "no_judgment CutOff s"]
    show ?thesis by (simp add: early_ok_def no_judgment_def)
  next
    case Over
    with assms(2) un show ?thesis by (simp add: early_ok_def early_base_def early_phase_def no_judgment_def unanswered_def)
  next
    case Read
    let ?data = "drop (st_consumed s) (st_fed s)"
    obtain o' rd where rd: "read_on cf (st_sent s) (st_reading s) ?data (st_ended s) = (o', rd)"
      by (cases "read_on cf (st_sent s) (st_reading s) ?data (st_ended s)")
    note ok = read_on_reading [OF rd r, unfolded append_take_drop_id]
    show ?thesis
    proof (cases "st_over s")
      case True
      with assms(1) Read have "s' = (no_judgment Unreadable s)\<lparr>st_phase := Failing (too_large cf)\<rparr>"
        by (auto simp: look_early_def split: if_splits)
      with assms(2) un show ?thesis by (simp add: early_ok_def early_base_def early_phase_def no_judgment_def unanswered_def)
    next
      case False
      show ?thesis
      proof (cases o')
        case (Inl ex)
        with assms(1) Read False rd held have "s' = no_judgment Unreadable s\<lparr>st_consumed := length (st_held s),
            st_reading := rd, st_phase := Failing ex\<rparr>"
          by (auto simp: look_early_def Let_def no_judgment_def split: if_splits)
        with un ok b held nf Inl show ?thesis
          by (auto simp: early_ok_def early_base_def early_phase_def unanswered_def no_judgment_def went_out_def)
      next
        case (Inr w)
        show ?thesis
        proof (cases w)
          case None
          with assms(1) Read False rd held Inr have "s' = s\<lparr>st_consumed := length (st_held s),
            st_reading := rd, st_phase := Delivered (st_ended s)\<rparr>"
            by (auto simp: look_early_def Let_def split: if_splits)
          with un ok b held nf Inr None show ?thesis
            by (auto simp: early_ok_def early_base_def early_phase_def unanswered_def went_out_def)
        next
          case (Some written)
          with assms(1) Read False rd held Inr have "s' = s\<lparr>st_consumed := length (st_held s),
            st_reading := rd, st_sent := True, st_phase := Delivered (st_ended s), st_out := st_out s @ [SendOn written]\<rparr>"
            by (auto simp: look_early_def Let_def put_out_def split: if_splits)
          with un ok b held nf Inr Some show ?thesis
            by (auto simp: early_ok_def early_base_def early_phase_def unanswered_def went_out_def)
        qed
      qed
    qed
  qed
qed

lemma early_judge:
  assumes "early_ok cf s" "st_phase s = Judging"
  shows "early_ok cf (judge_early cf s)"
proof -
  have un: "unanswered s" and e: "st_ended s" using assms by (auto simp: early_ok_def early_phase_def)
  then have nf: "\<not> st_finished s" and k: "st_sent s \<longrightarrow> fst (rd_turn (st_reading s)) \<noteq> None"
    by (auto simp: unanswered_def)
  define result where "result = cf_reply cf (st_held s) (rd_released (st_reading s))"
  define s1 where "s1 = s\<lparr>st_answer := Some result\<rparr>"
  have base: "early_base cf s1" using assms(1) by (simp add: early_ok_def early_base_def s1_def)
  have s1: "\<not> st_finished s1" "st_sent s1 \<longrightarrow> fst (rd_turn (st_reading s1)) \<noteq> None"
    using nf k by (simp_all add: s1_def)
  have b: "sent_bytes (st_out s) = rd_released (st_reading s)" and held: "st_held s = st_fed s"
    using assms(1) un by (auto simp: early_ok_def early_base_def unanswered_def)
  have j: "judge_early cf s =
      (case result of
         Raised ex \<Rightarrow>
           if \<not> st_sent s \<or> st_aborted s then raise_failure ex s1
           else fail_turn cf (refusal_for ex ''reply'' True) (Some (not_judged ex)) s1
       | Answered (RefuseWith refused) \<Rightarrow> fail_turn cf refused None s1
       | Answered answer \<Rightarrow>
           (let body = (case answer of ReplaceBody b \<Rightarrow> b | _ \<Rightarrow> st_held s)
            in if \<not> starts_with body (rd_released (st_reading s)) then raise_failure (OtherFailure ''AssertionError'') s1
               else
                 (let rest = drop (length (rd_released (st_reading s))) body
                  in if rest = [] then s1\<lparr>st_phase := Ending\<rparr>
                     else put_out (SendOn rest) (s1\<lparr>st_sent := True, st_phase := Ending\<rparr>))))"
    unfolding judge_early_def Let_def result_def s1_def ..
  have whole: "early_ok cf (judge_early cf s)"
    if r: "result = Answered a" and body: "answer_body a (st_fed s) = Some body" for a body
  proof (cases "starts_with body (rd_released (st_reading s))")
    case False
    with r body held have "judge_early cf s = raise_failure (OtherFailure ''AssertionError'') s1"
      by (cases a) (auto simp: j)
    with early_raise [OF base s1(1)] show ?thesis by simp
  next
    case True
    then obtain rest where rest: "body = rd_released (st_reading s) @ rest" by (auto simp: starts_with_iff)
    have eq: "judge_early cf s =
        (if rest = [] then s1\<lparr>st_phase := Ending\<rparr>
         else put_out (SendOn rest) (s1\<lparr>st_sent := True, st_phase := Ending\<rparr>))"
      using r body held True rest by (cases a) (auto simp: j)
    have "early_phase cf (judge_early cf s)"
      using b body rest nf e r unfolding eq
      by (auto simp: early_phase_def put_out_def s1_def whole_sent_def)
    moreover have "early_base cf (judge_early cf s)"
      using base nf unfolding eq by (auto simp: early_base_def put_out_def s1_def)
    ultimately show ?thesis by (simp add: early_ok_def)
  qed
  show ?thesis
  proof (cases result)
    case (Raised ex)
    with early_raise [OF base s1(1)] early_fail [OF base s1] show ?thesis by (simp add: j)
  next
    case (Answered a)
    show ?thesis
    proof (cases a)
      case (RefuseWith refused)
      with Answered early_fail [OF base s1] show ?thesis by (simp add: j)
    qed (use Answered whole in auto)
  qed
qed

lemma early_run:
  assumes "run_step cf s = Some s'" "early_ok cf s" "mode_of cf = EarlyRelease"
  shows "early_ok cf s'"
proof (cases "st_phase s")
  case Asking
  with assms(2) show ?thesis by (simp add: early_ok_def early_phase_def)
next
  case Reading
  with assms early_look show ?thesis by (simp add: run_step_def)
next
  case (Delivered ending)
  then have un: "unanswered s" and e: "if ending then st_ended s
      else reading_ok cf (take (st_consumed s) (st_fed s)) (st_reading s)"
    using assms(2) by (auto simp: early_ok_def early_phase_def)
  have base: "early_base cf s" using assms(2) by (simp add: early_ok_def)
  show ?thesis
  proof (cases "st_aborted s")
    case True
    with assms(1,3) Delivered have "s' = stop (no_judgment CutOff s)" by (simp add: run_step_def)
    moreover have "early_base cf (no_judgment CutOff s)" using base by (simp add: early_base_def no_judgment_def)
    ultimately show ?thesis using True un early_stop [of cf "no_judgment CutOff s"]
      by (simp add: unanswered_def no_judgment_def)
  next
    case False
    with assms(1,3) Delivered have "s' = s\<lparr>st_phase := (if ending then Judging else Reading)\<rparr>"
      by (auto simp: run_step_def)
    with base un e show ?thesis by (auto simp: early_ok_def early_base_def early_phase_def unanswered_def)
  qed
next
  case (Failing ex)
  then have "\<not> st_finished s" "st_sent s \<longrightarrow> fst (rd_turn (st_reading s)) \<noteq> None" "early_base cf s"
    using assms(2) by (auto simp: early_ok_def early_phase_def unanswered_def)
  with assms(1) Failing early_raise early_fail show ?thesis by (auto simp: run_step_def split: if_splits)
next
  case (Raising ex)
  with assms(2) show ?thesis by (simp add: early_ok_def early_phase_def)
next
  case Judging
  with assms early_judge show ?thesis by (auto simp: run_step_def)
next
  case Ending
  with assms early_last [of cf s Finished] show ?thesis
    by (auto simp: run_step_def early_ok_def early_phase_def)
next
  case Over
  with assms(1) show ?thesis by (simp add: run_step_def)
qed

lemma early_reached: "reached cf s \<Longrightarrow> mode_of cf = EarlyRelease \<Longrightarrow> early_ok cf s"
proof (induction rule: reached.induct)
  case (Onward s s')
  from Onward.hyps(2) show ?case
    by cases (use Onward early_feed early_end early_abort early_run early_alive in auto)
qed (rule early_start)

section \<open>A reply held whole, and a provider's error\<close>

text \<open>Nothing goes out of a reply held whole until it has been judged.\<close>

definition whole_ok :: "reply_state \<Rightarrow> bool" where
  "whole_ok s \<longleftrightarrow>
     (\<not> st_finished s \<longrightarrow> st_held s = st_fed s \<and> list_all goes_on (st_out s))
     \<and> (case st_phase s of
          Reading \<Rightarrow> \<not> st_finished s \<and> st_out s = []
        | Raising ex \<Rightarrow> \<not> st_finished s \<and> st_out s = []
        | Judging \<Rightarrow> \<not> st_finished s \<and> st_ended s \<and> st_out s = []
        | Ending \<Rightarrow> \<not> st_finished s \<and> st_ended s \<and> (st_aborted s \<or> whole_sent s)
        | Over \<Rightarrow> st_finished s \<and> well_ended (st_out s) \<and> told s \<and> (Finished \<in> set (st_out s) \<longrightarrow> whole_sent s)
        | _ \<Rightarrow> False)"

lemma whole_stop: "st_out s = [] \<Longrightarrow> st_aborted s \<or> st_raised s \<noteq> None \<Longrightarrow> whole_ok (stop s)"
  by (auto simp: whole_ok_def stop_def finish_stream_def told_def well_ended_def)

lemma whole_raise: "st_out s = [] \<Longrightarrow> whole_ok (raise_failure ex s)"
  using whole_stop [of s] whole_stop [of "s\<lparr>st_raised := Some ex\<rparr>"] by (simp add: raise_failure_def)

lemma whole_last:
  assumes "list_all goes_on (st_out s)" "\<And>r. o' = RefuseClient r \<Longrightarrow> st_out s = []" "\<not> goes_on o'"
    "o' = Finished \<Longrightarrow> st_aborted s \<or> whole_sent s"
  shows "whole_ok (last_out o' s)"
proof -
  have b: "sent_bytes [o'] = []" using assms(3) by (cases o') auto
  show ?thesis using assms b well_ended_last [OF assms(1), of o'] well_ended_go [OF assms(1)]
    by (auto simp: whole_ok_def last_out_def put_out_def finish_stream_def told_def whole_sent_def)
qed

lemma whole_judge:
  assumes "whole_ok s" "st_phase s = Judging"
  shows "whole_ok (judge_whole cf s)"
proof -
  have s: "\<not> st_finished s" "st_ended s" "st_out s = []" "st_held s = st_fed s"
    using assms by (auto simp: whole_ok_def)
  show ?thesis
  proof (cases "cf_reply cf (st_held s) []")
    case (Raised ex)
    with s whole_raise [of "s\<lparr>st_answer := Some (Raised ex)\<rparr>"] show ?thesis by (simp add: judge_whole_def)
  next
    case (Answered a)
    show ?thesis
    proof (cases a)
      case (RefuseWith r)
      with s Answered whole_last [of "s\<lparr>st_answer := Some (Answered a)\<rparr>" "RefuseClient r"]
      show ?thesis by (simp add: judge_whole_def)
    qed (use s Answered in \<open>auto simp: judge_whole_def Let_def whole_ok_def put_out_def whole_sent_def\<close>)
  qed
qed

lemma whole_run:
  assumes "run_step cf s = Some s'" "whole_ok s" "mode_of cf = HeldWhole"
  shows "whole_ok s'"
proof (cases "st_phase s")
  case Reading
  with assms whole_stop [of "no_judgment CutOff s"] show ?thesis
    by (auto simp: run_step_def look_whole_def whole_ok_def no_judgment_def split: if_splits)
next
  case (Raising ex)
  with assms whole_raise show ?thesis by (auto simp: run_step_def whole_ok_def)
next
  case Judging
  with assms whole_judge show ?thesis by (auto simp: run_step_def)
next
  case Ending
  with assms whole_last [of s Finished] show ?thesis by (auto simp: run_step_def whole_ok_def)
qed (use assms in \<open>auto simp: whole_ok_def run_step_def\<close>)

lemma whole_feed: "feed cf data s = Took s' \<Longrightarrow> whole_ok s \<Longrightarrow> whole_ok s'"
  by (cases "st_phase s")
    (auto simp: feed_def whole_ok_def whole_sent_def told_def closed_stream_def split: if_splits)

lemma whole_reached: "reached cf s \<Longrightarrow> mode_of cf = HeldWhole \<Longrightarrow> whole_ok s"
proof (induction rule: reached.induct)
  case Fresh
  then show ?case by (simp add: whole_ok_def start_state_def)
next
  case (Onward s s')
  then have ok: "whole_ok s" by simp
  from Onward.hyps(2) show ?case
  proof cases
    case EndInput
    with ok show ?thesis
      by (cases "st_phase s") (simp_all add: whole_ok_def end_input_def whole_sent_def told_def)
  next
    case Abort
    with ok show ?thesis
      by (cases "st_phase s") (simp_all add: whole_ok_def abort_def whole_sent_def told_def)
  next
    case Alive
    with Onward.prems show ?thesis by (simp add: keep_alive_def)
  qed (use Onward whole_feed whole_run in auto)
qed

text \<open>A provider's error goes out as it comes.\<close>

definition error_ok :: "reply_state \<Rightarrow> bool" where
  "error_ok s \<longleftrightarrow> st_over s = False \<and>
     (\<not> st_finished s \<longrightarrow> list_all goes_on (st_out s) \<and> (st_aborted s \<or> sent_bytes (st_out s) @ st_held s = st_fed s))
     \<and> (case st_phase s of
          Asking \<Rightarrow> \<not> st_finished s \<and> st_out s = []
        | Reading \<Rightarrow> \<not> st_finished s
        | Delivered e \<Rightarrow> \<not> st_finished s
        | Over \<Rightarrow> st_finished s \<and> well_ended (st_out s) \<and> told s
            \<and> (Finished \<in> set (st_out s) \<longrightarrow> sent_bytes (st_out s) = st_fed s)
        | _ \<Rightarrow> False)"

lemma error_stop:
  "error_ok s \<Longrightarrow> \<not> st_finished s \<Longrightarrow> st_aborted s \<or> st_raised s \<noteq> None \<Longrightarrow> error_ok (stop s)"
  using well_ended_go [of "st_out s"] by (auto simp: error_ok_def stop_def finish_stream_def told_def)

lemma error_last:
  assumes "list_all goes_on (st_out s)" "\<not> st_over s" "\<And>r. o' = RefuseClient r \<Longrightarrow> st_out s = []"
    "\<not> goes_on o'" "o' = Finished \<Longrightarrow> st_aborted s \<or> sent_bytes (st_out s) = st_fed s"
  shows "error_ok (last_out o' s)"
proof -
  have b: "sent_bytes [o'] = []" using assms(4) by (cases o') auto
  show ?thesis using assms b well_ended_last [OF assms(1), of o'] well_ended_go [OF assms(1)]
    by (auto simp: error_ok_def last_out_def put_out_def finish_stream_def told_def)
qed

lemma error_ask:
  assumes "error_ok s" "st_phase s = Asking"
  shows "error_ok (ask_handler cf s)"
proof (cases "cf_reply cf [] []")
  case (Raised ex)
  with assms well_ended_go [of "[]"] show ?thesis
    by (auto simp: ask_handler_def Let_def error_ok_def raise_failure_def stop_def finish_stream_def told_def)
next
  case (Answered a)
  show ?thesis
  proof (cases a)
    case (RefuseWith r)
    with assms Answered error_last [of "s\<lparr>st_answer := Some (Answered a)\<rparr>" "RefuseClient r"]
    show ?thesis by (auto simp: ask_handler_def error_ok_def)
  qed (use assms Answered in \<open>auto simp: ask_handler_def error_ok_def\<close>)
qed

lemma error_run:
  assumes "run_step cf s = Some s'" "error_ok s" "mode_of cf = ProviderError"
  shows "error_ok s'"
proof (cases "st_phase s")
  case Asking
  with assms error_ask show ?thesis by (auto simp: run_step_def)
next
  case Reading
  with assms show ?thesis
    by (auto simp: run_step_def look_error_def error_ok_def put_out_def split: if_splits)
next
  case (Delivered e)
  with assms error_stop [of s] error_last [of s Finished] show ?thesis
    by (auto simp: run_step_def after_error_def error_ok_def split: if_splits)
qed (use assms in \<open>auto simp: error_ok_def run_step_def\<close>)

lemma error_feed: "feed cf data s = Took s' \<Longrightarrow> error_ok s \<Longrightarrow> mode_of cf = ProviderError \<Longrightarrow> error_ok s'"
  by (cases "st_phase s") (auto simp: feed_def error_ok_def told_def closed_stream_def split: if_splits)

lemma error_reached: "reached cf s \<Longrightarrow> mode_of cf = ProviderError \<Longrightarrow> error_ok s"
proof (induction rule: reached.induct)
  case Fresh
  then show ?case by (simp add: error_ok_def start_state_def)
next
  case (Onward s s')
  then have ok: "error_ok s" by simp
  from Onward.hyps(2) show ?case
  proof cases
    case EndInput
    with ok show ?thesis by (cases "st_phase s") (auto simp add: error_ok_def end_input_def told_def)
  next
    case Abort
    with ok show ?thesis by (cases "st_phase s") (auto simp add: error_ok_def abort_def told_def)
  next
    case Alive
    with Onward.prems show ?thesis by (simp add: keep_alive_def)
  qed (use Onward error_feed error_run in auto)
qed

section \<open>Judging ends\<close>

fun run_steps :: "stream_config \<Rightarrow> nat \<Rightarrow> reply_state \<Rightarrow> reply_state" where
  "run_steps cf 0 s = s"
| "run_steps cf (Suc n) s = (case run_step cf s of None \<Rightarrow> s | Some s' \<Rightarrow> run_steps cf n s')"

lemma run_step_over [simp]: "st_phase s = Over \<Longrightarrow> run_step cf s = None"
  by (simp add: run_step_def)

lemma run_steps_over [simp]: "st_phase s = Over \<Longrightarrow> run_steps cf n s = s"
  by (cases n) (simp_all add: run_step_def)

lemma over_simps [simp]:
  "st_phase (stop s) = Over" "st_phase (last_out o' s) = Over" "st_phase (raise_failure ex s) = Over"
  "st_phase (fail_turn cf r why s) = Over"
  by (simp_all add: stop_def last_out_def put_out_def finish_stream_def raise_failure_def fail_turn_def
      split: option.splits bool.splits)

text \<open>How many steps are left once no more bytes come.\<close>

definition steps_left :: "stream_config \<Rightarrow> reply_state \<Rightarrow> nat" where
  "steps_left cf s =
     (case st_phase s of
        Over \<Rightarrow> 0
      | Judging \<Rightarrow> 2
      | Delivered ending \<Rightarrow>
          if mode_of cf = ProviderError then (if st_held s = [] then 1 else 3) else if ending then 3 else 5
      | Reading \<Rightarrow> if mode_of cf = ProviderError then 2 else 4
      | Asking \<Rightarrow> 5
      | _ \<Rightarrow> 1)"

definition no_more :: "reply_state \<Rightarrow> bool" where
  "no_more s \<longleftrightarrow> st_ended s \<or> st_aborted s"

lemma put_out_fields [simp]:
  "st_ended (put_out o' s) = st_ended s" "st_aborted (put_out o' s) = st_aborted s"
  "st_phase (put_out o' s) = st_phase s" "st_over (put_out o' s) = st_over s"
  "st_finished (put_out o' s) = st_finished s" "st_held (put_out o' s) = st_held s"
  "st_consumed (put_out o' s) = st_consumed s"
  by (simp_all add: put_out_def)

lemma no_judgment_fields [simp]:
  "st_ended (no_judgment why s) = st_ended s" "st_aborted (no_judgment why s) = st_aborted s"
  "st_over (no_judgment why s) = st_over s" "st_finished (no_judgment why s) = st_finished s"
  "st_held (no_judgment why s) = st_held s" "st_consumed (no_judgment why s) = st_consumed s"
  by (simp_all add: no_judgment_def)

lemma look_early_next:
  assumes "look_early cf s = Some s'"
  shows "st_phase s' = Over \<or> (\<exists>ex. st_phase s' = Failing ex) \<or>
    st_phase s' = Delivered (st_ended s) \<and> st_consumed s' = length (st_held s') \<and> st_held s' = st_held s
      \<and> st_ended s' = st_ended s \<and> st_aborted s' = st_aborted s"
  using assms by (auto simp: look_early_def Let_def split: if_splits sum.splits option.splits prod.splits)

lemma judge_next: "st_phase (judge_early cf s) \<in> {Over, Ending}" "st_phase (judge_whole cf s) \<in> {Over, Ending}"
  by (auto simp: judge_early_def judge_whole_def Let_def split: judged.splits answer_to.splits)

lemma ask_next:
  "st_phase (ask_handler cf s) \<in> {Over, Reading}" "st_ended (ask_handler cf s) = st_ended s"
  "st_aborted (ask_handler cf s) = st_aborted s"
  by (auto simp: ask_handler_def Let_def last_out_def raise_failure_def stop_def finish_stream_def
      split: judged.splits answer_to.splits)

lemma judge_keeps:
  "st_ended (judge_early cf s) = st_ended s" "st_aborted (judge_early cf s) = st_aborted s"
  "st_ended (judge_whole cf s) = st_ended s" "st_aborted (judge_whole cf s) = st_aborted s"
  by (auto simp: judge_early_def judge_whole_def Let_def last_out_def raise_failure_def fail_turn_def stop_def
      finish_stream_def split: judged.splits answer_to.splits option.splits bool.splits)

lemma ends_keep [simp]:
  "st_ended (stop s) = st_ended s" "st_aborted (stop s) = st_aborted s"
  "st_ended (last_out o' s) = st_ended s" "st_aborted (last_out o' s) = st_aborted s"
  "st_ended (raise_failure ex s) = st_ended s" "st_aborted (raise_failure ex s) = st_aborted s"
  "st_ended (fail_turn cf r why s) = st_ended s" "st_aborted (fail_turn cf r why s) = st_aborted s"
  by (simp_all add: stop_def last_out_def finish_stream_def raise_failure_def fail_turn_def
      split: option.splits bool.splits)

lemma steps_left_over: "st_phase s = Over \<Longrightarrow> steps_left cf s = 0"
  by (simp add: steps_left_def)

lemma look_early_None:
  "look_early cf s = None \<longleftrightarrow>
     \<not> (st_consumed s < length (st_held s) \<or> st_ended s \<or> st_aborted s \<or> st_over s)"
proof -
  obtain o' rd where "read_on cf (st_sent s) (st_reading s) (drop (st_consumed s) (st_held s)) (st_ended s) = (o', rd)"
    by (cases "read_on cf (st_sent s) (st_reading s) (drop (st_consumed s) (st_held s)) (st_ended s)")
  then show ?thesis by (auto simp: look_early_def Let_def split: sum.splits option.splits)
qed

lemma look_early_progress:
  assumes "no_more s" "mode_of cf = EarlyRelease"
  shows "\<exists>s'. look_early cf s = Some s' \<and> no_more s' \<and> steps_left cf s' < 4"
proof -
  from assms(1) obtain s' where s': "look_early cf s = Some s'"
    using look_early_None [of cf s] by (cases "look_early cf s") (auto simp: no_more_def)
  have keep: "st_ended s' = st_ended s" "st_aborted s' = st_aborted s"
    using s' by (auto simp: look_early_def Let_def split: if_splits prod.splits sum.splits option.splits)
  have "st_aborted s \<Longrightarrow> st_phase s' = Over" using s' by (auto simp: look_early_def split: if_splits)
  with look_early_next [OF s'] assms keep s' show ?thesis by (auto simp: no_more_def steps_left_def)
qed

lemma run_step_progress:
  assumes "no_more s" "st_phase s \<noteq> Over"
  shows "\<exists>s'. run_step cf s = Some s' \<and> no_more s' \<and> steps_left cf s' < steps_left cf s"
proof (cases "st_phase s")
  case Asking
  with ask_next [of cf s] assms(1) show ?thesis by (auto simp: run_step_def no_more_def steps_left_def)
next
  case Reading
  show ?thesis
  proof (cases "mode_of cf")
    case ProviderError
    with Reading assms(1) show ?thesis by (auto simp: run_step_def look_error_def no_more_def steps_left_def)
  next
    case HeldWhole
    with Reading assms(1) show ?thesis by (auto simp: run_step_def look_whole_def no_more_def steps_left_def)
  next
    case EarlyRelease
    with Reading assms(1) look_early_progress show ?thesis by (fastforce simp: run_step_def steps_left_def)
  qed
next
  case (Delivered ending)
  with assms(1) show ?thesis
    by (auto simp: run_step_def after_error_def no_more_def steps_left_def)
next
  case (Failing ex)
  with assms(1) show ?thesis by (auto simp: run_step_def no_more_def steps_left_def)
next
  case (Raising ex)
  with assms(1) show ?thesis by (auto simp: run_step_def no_more_def steps_left_def)
next
  case Judging
  with assms(1) judge_next [of cf s] judge_keeps [of cf s] show ?thesis
    by (auto simp: run_step_def no_more_def steps_left_def)
next
  case Ending
  with assms(1) show ?thesis by (auto simp: run_step_def no_more_def steps_left_def)
qed (use assms in simp)

lemma run_steps_end: "no_more s \<Longrightarrow> steps_left cf s \<le> n \<Longrightarrow> st_phase (run_steps cf n s) = Over"
proof (induction n arbitrary: s)
  case 0
  then show ?case using run_step_progress [of s cf] by (cases "st_phase s = Over") auto
next
  case (Suc n)
  show ?case
  proof (cases "st_phase s = Over")
    case False
    with run_step_progress Suc.prems(1) obtain s' where
      "run_step cf s = Some s'" "no_more s'" "steps_left cf s' < steps_left cf s" by blast
    with Suc show ?thesis by simp
  qed simp
qed

lemma steps_left_bound: "steps_left cf s \<le> 5"
  by (cases "st_phase s") (simp_all add: steps_left_def)

section \<open>Feeding\<close>

lemma waits_iff:
  "feed cf data s = Waits \<Longrightarrow> \<not> st_ended s \<and> mode_of cf \<noteq> HeldWhole \<and> \<not> closed_stream s
     \<and> cf_max_pending cf \<le> length (st_held s) - st_consumed s"
  by (auto simp: feed_def split: if_splits)

lemma reached_run_steps: "reached cf s \<Longrightarrow> reached cf (run_steps cf n s)"
proof (induction n arbitrary: s)
  case (Suc n)
  then show ?case by (auto intro: reached.Onward stream_step.Run split: option.splits)
qed simp

lemma over_finished: "reached cf s \<Longrightarrow> st_phase s = Over \<Longrightarrow> st_finished s"
  using early_reached [of cf s] whole_reached [of cf s] error_reached [of cf s]
  by (cases "mode_of cf") (auto simp: early_ok_def early_phase_def whole_ok_def error_ok_def)

text \<open>A few steps collect what goes out as it arrives.\<close>

definition drained :: "reply_state \<Rightarrow> bool" where
  "drained s \<longleftrightarrow> st_phase s = Over \<or> length (st_held s) \<le> st_consumed s"

lemma look_early_drains:
  assumes "look_early cf s = Some s1" "\<not> st_ended s" "mode_of cf = EarlyRelease"
  shows "drained (run_steps cf 1 s1)"
proof -
  from look_early_next [OF assms(1)] show ?thesis
  proof (elim disjE exE)
    assume "st_phase s1 = Delivered (st_ended s) \<and> st_consumed s1 = length (st_held s1) \<and> st_held s1 = st_held s
      \<and> st_ended s1 = st_ended s \<and> st_aborted s1 = st_aborted s"
    with assms(2,3) show ?thesis by (auto simp: run_step_def drained_def)
  next
    fix ex assume "st_phase s1 = Failing ex"
    then show ?thesis by (simp add: run_step_def drained_def)
  qed (simp add: drained_def)
qed

lemma reading_drains:
  assumes "st_phase s = Reading" "\<not> st_ended s" "mode_of cf = EarlyRelease"
  shows "\<exists>n\<le>2. drained (run_steps cf n s)"
proof (cases "look_early cf s")
  case None
  then have "drained (run_steps cf 0 s)" by (simp add: look_early_None drained_def)
  then show ?thesis by blast
next
  case (Some s1)
  with assms look_early_drains [OF Some] have "drained (run_steps cf 2 s)"
    by (simp add: run_step_def numeral_2_eq_2)
  then show ?thesis by blast
qed

lemma drains_after:
  assumes "run_step cf s = Some s1" "\<exists>n\<le>k. drained (run_steps cf n s1)"
  shows "\<exists>n\<le>Suc k. drained (run_steps cf n s)"
proof -
  from assms(2) obtain n where "n \<le> k" "drained (run_steps cf n s1)" by blast
  with assms(1) have "drained (run_steps cf (Suc n) s)" "Suc n \<le> Suc k" by simp_all
  then show ?thesis by blast
qed

lemma drains_now: "drained s \<Longrightarrow> \<exists>n\<le>k. drained (run_steps cf n s)"
  by (rule exI [of _ 0]) simp

lemma drains_sooner: "\<exists>n\<le>k. drained (run_steps cf n s) \<Longrightarrow> k \<le> m \<Longrightarrow> \<exists>n\<le>m. drained (run_steps cf n s)"
  by (blast intro: le_trans)

lemma early_drains:
  assumes "early_ok cf s" "\<not> st_ended s" "mode_of cf = EarlyRelease"
  shows "\<exists>n\<le>3. drained (run_steps cf n s)"
proof (cases "st_phase s")
  case Reading
  from drains_sooner [OF reading_drains [OF Reading assms(2,3)], of 3] show ?thesis by simp
next
  case (Delivered ending)
  show ?thesis
  proof (cases "st_aborted s")
    case True
    with Delivered assms(3) have r: "run_step cf s = Some (stop (no_judgment CutOff s))" by (simp add: run_step_def)
    have "drained (stop (no_judgment CutOff s))" by (simp add: drained_def)
    from drains_after [OF r drains_now [OF this]] show ?thesis by (simp add: numeral_3_eq_3)
  next
    case False
    with Delivered assms have r: "run_step cf s = Some (s\<lparr>st_phase := Reading\<rparr>)"
      by (auto simp: run_step_def early_ok_def early_phase_def split: if_splits)
    from drains_after [OF r reading_drains] assms(2,3) show ?thesis by (simp add: numeral_3_eq_3 numeral_2_eq_2)
  qed
next
  case (Failing ex)
  then obtain s1 where r: "run_step cf s = Some s1" "st_phase s1 = Over"
    by (cases "\<not> st_sent s \<or> st_aborted s") (auto simp: run_step_def)
  have "drained s1" using r by (simp add: drained_def)
  from drains_after [OF r(1) drains_now [OF this]] show ?thesis by (simp add: numeral_3_eq_3)
next
  case Over
  then show ?thesis by (intro drains_now) (simp add: drained_def)
qed (use assms in \<open>auto simp: early_ok_def early_phase_def\<close>)

lemma error_reading_drains:
  assumes "st_phase s = Reading" "mode_of cf = ProviderError"
  shows "\<exists>n\<le>1. drained (run_steps cf n s)"
proof (cases "look_error s")
  case None
  then show ?thesis by (intro drains_now) (auto simp: look_error_def drained_def split: if_splits)
next
  case (Some s1)
  then have "drained s1" by (auto simp: look_error_def drained_def split: if_splits)
  moreover have "run_step cf s = Some s1" using assms Some by (simp add: run_step_def)
  ultimately show ?thesis using drains_after [OF _ drains_now, of cf s s1 0] by simp
qed

lemma error_drains:
  assumes "error_ok s" "\<not> st_ended s" "mode_of cf = ProviderError"
  shows "\<exists>n\<le>2. drained (run_steps cf n s)"
proof -
  have go: "\<exists>n\<le>2. drained (run_steps cf n s)"
    if r: "run_step cf s = Some s1" "st_phase s1 = Over \<or> st_phase s1 = Reading" for s1
  proof -
    have "\<exists>n\<le>1. drained (run_steps cf n s1)"
      using r(2) error_reading_drains [OF _ assms(3)] drains_now [of s1] by (auto simp: drained_def)
    from drains_after [OF r(1) this] show ?thesis by (simp add: numeral_2_eq_2)
  qed
  show ?thesis
  proof (cases "st_phase s")
    case Asking
    with go [of "ask_handler cf s"] ask_next [of cf s] show ?thesis by (auto simp: run_step_def)
  next
    case Reading
    from drains_sooner [OF error_reading_drains [OF this assms(3)], of 2] show ?thesis by simp
  next
    case (Delivered e)
    with go [of "after_error s"] assms(2,3) show ?thesis by (auto simp: run_step_def after_error_def)
  next
    case Over
    then show ?thesis by (intro drains_now) (simp add: drained_def)
  qed (use assms in \<open>auto simp: error_ok_def\<close>)
qed

lemma feed_goes_on:
  assumes "reached cf s" "0 < cf_max_pending cf"
  shows "\<exists>n\<le>3. feed cf data (run_steps cf n s) \<noteq> Waits"
proof (cases "st_ended s \<or> mode_of cf = HeldWhole")
  case True
  then have "feed cf data (run_steps cf 0 s) \<noteq> Waits" using waits_iff [of cf data s] by auto
  then show ?thesis by blast
next
  case False
  then have "\<exists>n\<le>3. drained (run_steps cf n s)"
    using early_drains [OF early_reached [OF assms(1)]]
      drains_sooner [OF error_drains [OF error_reached [OF assms(1)]], of cf 3]
    by (cases "mode_of cf") auto
  then obtain n where n: "n \<le> 3" "drained (run_steps cf n s)" by blast
  have "feed cf data (run_steps cf n s) \<noteq> Waits"
  proof
    assume w: "feed cf data (run_steps cf n s) = Waits"
    note over_finished [OF reached_run_steps [OF assms(1)], of n]
    with n(2) waits_iff [OF w] assms(2) show False by (auto simp: drained_def closed_stream_def)
  qed
  with n(1) show ?thesis by blast
qed

section \<open>Properties\<close>

text \<open>A run of the stream by what happens, in order.\<close>

datatype happening = Feeds string | Ends | Aborts | Runs | Alives

fun happen :: "stream_config \<Rightarrow> reply_state \<Rightarrow> happening \<Rightarrow> reply_state" where
  "happen cf s (Feeds data) = (case feed cf data s of Took s' \<Rightarrow> s' | _ \<Rightarrow> s)"
| "happen cf s Ends = end_input s"
| "happen cf s Aborts = abort s"
| "happen cf s Runs = (case run_step cf s of None \<Rightarrow> s | Some s' \<Rightarrow> s')"
| "happen cf s Alives = (case keep_alive cf s of None \<Rightarrow> s | Some s' \<Rightarrow> s')"

definition drive :: "stream_config \<Rightarrow> happening list \<Rightarrow> reply_state" where
  "drive cf hs = foldl (happen cf) (start_state cf) hs"

lemma happen_reached: "reached cf s \<Longrightarrow> reached cf (happen cf s h)"
  by (cases h) (auto intro: reached.Onward stream_step.intros split: option.splits feed_result.splits)

lemma drive_reached: "reached cf (drive cf hs)"
  unfolding drive_def
  by (induction hs rule: rev_induct) (auto intro: reached.Fresh happen_reached)

text \<open>A stream of the Messages API: its opening, a block of text, and a block that calls a tool.\<close>

definition demo_loads :: "string \<Rightarrow> json option" where
  "demo_loads t =
     (if t = ''open'' then Some (JObj [(''type'', JStr ''message_start'')])
      else if t = ''text'' then Some (JObj [(''type'', JStr ''content_block_start''), (''index'', JInt 0),
        (''content_block'', JObj [(''type'', JStr ''text'')])])
      else if t = ''call'' then Some (JObj [(''type'', JStr ''content_block_start''), (''index'', JInt 1),
        (''content_block'', JObj [(''type'', JStr ''tool_use'')])])
      else if t = ''error'' then Some (JObj [(''type'', JStr ''error'')])
      else None)"

definition demo_event :: "string \<Rightarrow> string" where
  "demo_event t = ''data: '' @ t @ newline @ newline"

definition demo_refusal :: refusal where
  "demo_refusal = \<lparr>rf_status = 403, rf_message = ''refused'', rf_sentinel = None\<rparr>"

definition demo_config :: "judged \<Rightarrow> stream_config" where
  "demo_config answer =
     \<lparr>cf_status = 200, cf_content_type = ''text/event-stream'', cf_early = True, cf_provider = ''anthropic'',
      cf_format = None, cf_max_held = 1000, cf_max_pending = 10, cf_keepalive = True,
      cf_loads = demo_loads, cf_dumps = (\<lambda>_. ''error''), cf_takes = (\<lambda>_ _. True),
      cf_reply = (\<lambda>_ _. answer)\<rparr>"

definition demo_feeds :: "happening list" where
  "demo_feeds = [Feeds (demo_event ''open''), Runs, Runs, Feeds (demo_event ''text''), Runs, Runs, Alives,
     Feeds (demo_event ''call''), Ends, Runs, Runs]"

definition demo_end :: "judged \<Rightarrow> reply_state" where
  "demo_end answer = drive (demo_config answer) (demo_feeds @ [Runs, Runs])"


definition demo_held :: reply_state where
  "demo_held = drive (demo_config (Answered PassOn)) demo_feeds"


text \<open>A reply that ends complete for the client is the handler's answer, whole: all the bytes the
  provider sent, or all of the replacement. A provider's error is always all its bytes. A reply
  that was refused, failed, or was let go of by its client never ends complete.\<close>

lemma complete_reply_is_whole:
  assumes "reached cf s" "Finished \<in> set (st_out s)"
  shows "if mode_of cf = ProviderError then sent_bytes (st_out s) = st_fed s
    else \<exists>a. st_answer s = Some (Answered a) \<and> answer_body a (st_fed s) = Some (sent_bytes (st_out s))"
proof (cases "mode_of cf")
  case ProviderError
  from error_reached [OF assms(1) this] assms(2) ProviderError show ?thesis
    by (cases "st_phase s") (auto simp: error_ok_def)
next
  case HeldWhole
  from whole_reached [OF assms(1) this] assms(2) HeldWhole show ?thesis
    by (cases "st_phase s") (auto simp: whole_ok_def whole_sent_def)
next
  case EarlyRelease
  from early_reached [OF assms(1) this] assms(2) EarlyRelease show ?thesis
    by (cases "st_phase s") (auto simp: early_ok_def early_base_def early_phase_def whole_sent_def unanswered_def)
qed

lemma reached_well_ended:
  assumes "reached cf s"
  shows "well_ended (st_out s) \<and> (st_phase s = Over \<longrightarrow> told s)"
proof (cases "mode_of cf")
  case ProviderError
  from error_reached [OF assms this] well_ended_go [of "st_out s"] show ?thesis
    by (cases "st_phase s") (auto simp: error_ok_def)
next
  case HeldWhole
  from whole_reached [OF assms this] well_ended_go [of "st_out s"] show ?thesis
    by (cases "st_phase s") (auto simp: whole_ok_def)
next
  case EarlyRelease
  from early_reached [OF assms this] well_ended_go [of "st_out s"] show ?thesis
    by (cases "st_phase s") (auto simp: early_ok_def early_base_def early_phase_def unanswered_def)
qed

text \<open>C33: Output ends once: only its last item ends the reply, and a refusal with a status of its
  own comes alone, before anything else has gone out. Once judging is done and the client is still
  there, either the output has ended or the proxy is told what was raised.\<close>

theorem output_ends_once:
  assumes "reached cf s"
  shows "list_all goes_on (butlast (st_out s))
    \<and> (\<forall>r. RefuseClient r \<in> set (st_out s) \<longrightarrow> st_out s = [RefuseClient r])
    \<and> (st_phase s = Over \<longrightarrow> st_aborted s \<or> st_raised s \<noteq> None
         \<or> (st_out s \<noteq> [] \<and> \<not> goes_on (last (st_out s))))"
  using reached_well_ended [OF assms] by (auto simp: well_ended_def told_def)

theorem output_ends_once_witness:
  "list_all goes_on (butlast (st_out (demo_end (Answered (RefuseWith demo_refusal)))))
   \<and> (\<exists>t. st_out (demo_end (Answered (RefuseWith demo_refusal))) =
        [SendOn (demo_event ''open'' @ demo_event ''text''), KeepAlive, ErrorOut t None])
   \<and> st_out (drive (demo_config (Answered (RefuseWith demo_refusal))) [Ends, Runs, Runs, Runs]) = [RefuseClient demo_refusal]"
proof -
  let ?cf = "demo_config (Answered (RefuseWith demo_refusal))"
  have r: "reached ?cf (demo_end (Answered (RefuseWith demo_refusal)))"
    unfolding demo_end_def by (rule drive_reached)
  have o: "\<exists>t. st_out (demo_end (Answered (RefuseWith demo_refusal))) =
        [SendOn (demo_event ''open'' @ demo_event ''text''), KeepAlive, ErrorOut t None]"
    by (rule exI, code_simp)
  have "RefuseClient demo_refusal \<in> set (st_out (drive ?cf [Ends, Runs, Runs, Runs]))" by code_simp
  with output_ends_once [OF drive_reached [of ?cf "[Ends, Runs, Runs, Runs]"]] output_ends_once [OF r] o
  show ?thesis by blast
qed

text \<open>C34: Judging ends: once no more of the provider's bytes are coming, or the proxy has stopped
  waiting, at most five steps of the task that judges, each up to its next await, end it.\<close>

theorem judging_ends:
  assumes "st_ended s \<or> st_aborted s"
  shows "st_phase (run_steps cf 5 s) = Over"
  using assms by (intro run_steps_end steps_left_bound) (simp add: no_more_def)

theorem judging_ends_witness:
  "st_phase (run_steps (demo_config (Answered PassOn)) 5 demo_held) = Over"
proof -
  have "st_ended demo_held" by code_simp
  then show ?thesis using judging_ends by blast
qed

text \<open>C35: Feeding never waits for ever: whatever has happened, a few steps of the task that judges
  let the next bytes in, as it only waits for what can go out.\<close>

theorem feeding_goes_on:
  assumes "reached cf s" "0 < cf_max_pending cf"
  shows "\<exists>n\<le>3. feed cf data (run_steps cf n s) \<noteq> Waits"
  using assms by (rule feed_goes_on)

definition demo_full :: reply_state where
  "demo_full = drive (demo_config (Answered PassOn)) [Feeds (demo_event ''open'')]"

theorem feeding_goes_on_witness:
  "feed (demo_config (Answered PassOn)) ''x'' demo_full = Waits
   \<and> (\<exists>n\<le>3. feed (demo_config (Answered PassOn)) ''x'' (run_steps (demo_config (Answered PassOn)) n demo_full) \<noteq> Waits)"
proof -
  have "feed (demo_config (Answered PassOn)) ''x'' demo_full = Waits"
    by (simp add: demo_full_def drive_def demo_config_def start_state_def feed_def mode_of_def succeeded_def
        starts_with_def closed_stream_def demo_event_def newline_def)
  moreover have "0 < cf_max_pending (demo_config (Answered PassOn))" by (simp add: demo_config_def)
  ultimately show ?thesis using feeding_goes_on [OF drive_reached] by (auto simp: demo_full_def)
qed

section \<open>An error event after a stream that broke off\<close>

text \<open>A stream that ends in the middle of a line: its last event goes out all the same, and the error
  event that follows is written on the same line, where no reader finds it.\<close>

definition client_text :: "reply_state \<Rightarrow> string" where
  "client_text s =
     sent_bytes (st_out s) @ concat (map (\<lambda>o'. case o' of ErrorOut t w \<Rightarrow> t | _ \<Rightarrow> []) (st_out s))"

definition broken_end :: reply_state where
  "broken_end = drive (demo_config (Answered (RefuseWith demo_refusal)))
     [Feeds (demo_event ''open''), Runs, Runs, Feeds ''data: text'', Ends, Runs, Runs, Runs]"

definition says_error :: "stream_event \<Rightarrow> bool" where
  "says_error e \<longleftrightarrow> field (data_of e) ''type'' = JStr ''error''"

lemma broken_stream_hides_error:
  "list_ex (\<lambda>o'. case o' of ErrorOut t w \<Rightarrow>
      map_option (list_ex says_error) (written_events demo_loads t) = Some True | _ \<Rightarrow> False) (st_out broken_end)
   \<and> map_option (list_ex says_error) (written_events demo_loads (client_text broken_end)) = Some False"
  by code_simp

end
