(* ===== verification/Expiring.thy ===== *)
theory Expiring
  imports Prelude "HOL-Library.AList"
begin

text \<open>
  What the sidecar keeps for a time (\<open>_Expiring\<close> of \<open>sidecar/_state.py\<close>): an ordered dict of
  values with when each was last used, oldest use first. The interface \<open>last_use\<close> is what its
  clients rely on: what is live, and until when. Each reading of the clock of an operation is an
  argument of its own, as time goes on during one.
\<close>

section \<open>The ordered dict\<close>

type_synonym 'v kept = "(string \<times> rat \<times> 'v) list"

record 'v expiring =
  ex_expiry :: rat
  ex_limit :: "int option"
  ex_kept :: "'v kept"

definition new_expiring :: "rat \<Rightarrow> int option \<Rightarrow> 'v expiring" where
  "new_expiring expiry most = \<lparr>ex_expiry = expiry, ex_limit = most, ex_kept = []\<rparr>"

text \<open>\<open>_expire\<close>: what has expired is at the front. The keys dropped are given back, in order, for
  the \<open>dropped\<close> callback.\<close>

fun expire_kept :: "rat \<Rightarrow> rat \<Rightarrow> 'v kept \<Rightarrow> string list \<times> 'v kept" where
  "expire_kept now expiry [] = ([], [])"
| "expire_kept now expiry ((k, used, v) # rest) =
     (if now - used < expiry then ([], (k, used, v) # rest)
      else (k # fst (expire_kept now expiry rest), snd (expire_kept now expiry rest)))"

definition expire :: "rat \<Rightarrow> 'v expiring \<Rightarrow> string list \<times> 'v expiring" where
  "expire now m = (fst (expire_kept now (ex_expiry m) (ex_kept m)),
     m\<lparr>ex_kept := snd (expire_kept now (ex_expiry m) (ex_kept m))\<rparr>)"

text \<open>\<open>put\<close>, which reads the clock twice: to expire, and for the value.\<close>

definition kept_last :: "string \<Rightarrow> rat \<Rightarrow> 'v \<Rightarrow> 'v kept \<Rightarrow> 'v kept" where
  "kept_last k now v kept = AList.delete k kept @ [(k, now, v)]"

definition cut_to :: "int option \<Rightarrow> 'v kept \<Rightarrow> 'v kept" where
  "cut_to most kept = (case most of None \<Rightarrow> kept | Some n \<Rightarrow> if n < int (length kept) then tl kept else kept)"

definition put_kept :: "rat \<times> rat \<Rightarrow> string \<Rightarrow> 'v \<Rightarrow> 'v expiring \<Rightarrow> string list \<times> 'v expiring" where
  "put_kept ts k v m =
     (let (gone, m') = expire (fst ts) m
      in (gone, m'\<lparr>ex_kept := cut_to (ex_limit m) (kept_last k (snd ts) v (ex_kept m'))\<rparr>))"

text \<open>\<open>get\<close>: what is found is used now.\<close>

definition get_kept :: "rat \<times> rat \<times> rat \<Rightarrow> string \<Rightarrow> 'v expiring \<Rightarrow> 'v option \<times> string list \<times> 'v expiring" where
  "get_kept ts k m =
     (let (gone, m') = expire (fst ts) m
      in case map_of (ex_kept m') k of
           None \<Rightarrow> (None, gone, m')
         | Some (used, v) \<Rightarrow>
             (let (gone', m'') = put_kept (snd ts) k v m' in (Some v, gone @ gone', m'')))"

definition pop_kept :: "rat \<Rightarrow> string \<Rightarrow> 'v expiring \<Rightarrow> 'v option \<times> string list \<times> 'v expiring" where
  "pop_kept now k m =
     (let (gone, m') = expire now m
      in (map_option snd (map_of (ex_kept m') k), gone, m'\<lparr>ex_kept := AList.delete k (ex_kept m')\<rparr>))"

section \<open>Oldest use first\<close>

definition oldest_first :: "rat \<Rightarrow> 'v kept \<Rightarrow> bool" where
  "oldest_first now kept \<longleftrightarrow> distinct (map fst kept) \<and> sorted (map (fst \<circ> snd) kept)
     \<and> (\<forall>(k, used, v)\<in>set kept. used \<le> now)"

text \<open>What is live: kept, and used within the expiry.\<close>

definition fresh_at :: "rat \<Rightarrow> rat \<Rightarrow> string \<times> rat \<times> 'v \<Rightarrow> bool" where
  "fresh_at now expiry e \<longleftrightarrow> now - fst (snd e) < expiry"

definition still :: "rat \<Rightarrow> rat \<Rightarrow> (rat \<times> 'v) option \<Rightarrow> 'v option" where
  "still now expiry e = (case e of None \<Rightarrow> None | Some (used, v) \<Rightarrow> if now - used < expiry then Some v else None)"

definition live :: "'v expiring \<Rightarrow> rat \<Rightarrow> string \<Rightarrow> 'v option" where
  "live m now k = still now (ex_expiry m) (map_of (ex_kept m) k)"

definition expiring_ok :: "rat \<Rightarrow> 'v expiring \<Rightarrow> bool" where
  "expiring_ok now m \<longleftrightarrow> oldest_first now (ex_kept m)
     \<and> (case ex_limit m of None \<Rightarrow> True | Some n \<Rightarrow> int (length (ex_kept m)) \<le> n)"

lemma oldest_first_Cons:
  "oldest_first now (e # es) \<longleftrightarrow> fst e \<notin> set (map fst es) \<and> fst (snd e) \<le> now
     \<and> (\<forall>f\<in>set es. fst (snd e) \<le> fst (snd f)) \<and> oldest_first now es"
  by (cases e) (auto simp: oldest_first_def)

lemma oldest_first_mono: "oldest_first now kept \<Longrightarrow> now \<le> later \<Longrightarrow> oldest_first later kept"
  by (force simp: oldest_first_def)

lemma expiring_ok_mono: "expiring_ok now m \<Longrightarrow> now \<le> later \<Longrightarrow> expiring_ok later m"
  by (auto simp: expiring_ok_def intro: oldest_first_mono)

text \<open>Sweeping from the front removes all that has expired, and only that.\<close>

lemma expire_kept_filter:
  "oldest_first now0 kept \<Longrightarrow>
     expire_kept now expiry kept =
       (map fst (filter (\<lambda>e. \<not> fresh_at now expiry e) kept), filter (fresh_at now expiry) kept)"
proof (induction now expiry kept rule: expire_kept.induct)
  case (2 now expiry k used v rest)
  have o: "oldest_first now0 rest" "\<forall>f\<in>set rest. used \<le> fst (snd f)"
    using "2.prems" by (auto simp: oldest_first_Cons)
  show ?case
  proof (cases "now - used < expiry")
    case True
    have "fresh_at now expiry f" if "f \<in> set rest" for f
      using o(2) True that by (force simp: fresh_at_def)
    then have "filter (fresh_at now expiry) rest = rest" "filter (\<lambda>e. \<not> fresh_at now expiry e) rest = []"
      by (auto simp: filter_empty_conv intro: filter_True)
    moreover have "fresh_at now expiry (k, used, v)" using True by (simp add: fresh_at_def)
    ultimately show ?thesis using True by simp
  next
    case False
    with "2.IH" [OF False o(1)] show ?thesis by (simp add: fresh_at_def)
  qed
qed simp

lemma expire_eq:
  assumes "expiring_ok now0 m"
  shows "expire now m = (map fst (filter (\<lambda>e. \<not> fresh_at now (ex_expiry m) e) (ex_kept m)),
     m\<lparr>ex_kept := filter (fresh_at now (ex_expiry m)) (ex_kept m)\<rparr>)"
  using assms expire_kept_filter [of now0 "ex_kept m" now "ex_expiry m"]
  by (simp add: expire_def expiring_ok_def)

lemma map_of_filter_distinct:
  "distinct (map fst xs) \<Longrightarrow>
     map_of (filter P xs) k = (case map_of xs k of None \<Rightarrow> None | Some y \<Rightarrow> if P (k, y) then Some y else None)"
  by (induction xs) (auto split: option.splits if_splits simp: map_of_eq_None_iff image_iff dest: map_of_SomeD)

lemma oldest_first_filter: "oldest_first now kept \<Longrightarrow> oldest_first now (filter P kept)"
  by (induction kept) (auto simp: oldest_first_Cons)

lemma oldest_first_delete: "oldest_first now kept \<Longrightarrow> oldest_first now (AList.delete k kept)"
  by (simp add: AList.delete_eq oldest_first_filter)

lemma oldest_first_snoc:
  "oldest_first now kept \<Longrightarrow> k \<notin> set (map fst kept) \<Longrightarrow> now \<le> t \<Longrightarrow> oldest_first t (kept @ [(k, t, v)])"
  by (force simp: oldest_first_def sorted_append)

lemma oldest_first_tl: "oldest_first now kept \<Longrightarrow> oldest_first now (tl kept)"
  by (cases kept) (auto simp: oldest_first_Cons)

section \<open>The operations and what is live\<close>

lemma expiring_okD: "expiring_ok now m \<Longrightarrow> distinct (map fst (ex_kept m))"
  by (simp add: expiring_ok_def oldest_first_def)

lemma expire_ok:
  assumes "expiring_ok t0 m" "t0 \<le> t"
  shows "expiring_ok t (snd (expire t m))" "ex_expiry (snd (expire t m)) = ex_expiry m"
    "ex_limit (snd (expire t m)) = ex_limit m"
proof -
  have "oldest_first t (filter (fresh_at t (ex_expiry m)) (ex_kept m))"
    using assms by (auto simp: expiring_ok_def intro: oldest_first_filter oldest_first_mono)
  then show "expiring_ok t (snd (expire t m))"
    using assms(1)
    by (auto simp: expire_eq [OF assms(1)] expiring_ok_def split: option.splits
        intro: order_trans [OF iffD2 [OF of_nat_le_iff length_filter_le]])
qed (simp_all add: expire_eq [OF assms(1)])

text \<open>What is dropped was not live, and sweeping does not change what is.\<close>

lemma still_filtered:
  assumes "distinct (map fst kept)" "t \<le> now"
  shows "still now expiry (map_of (filter (fresh_at t expiry) kept) k) = still now expiry (map_of kept k)"
  using assms(2)
  by (auto simp: still_def map_of_filter_distinct [OF assms(1)] fresh_at_def split: option.splits)

lemma expire_live:
  assumes "expiring_ok t0 m" "t \<le> now"
  shows "live (snd (expire t m)) now k = live m now k"
  using still_filtered [OF expiring_okD [OF assms(1)] assms(2)] by (simp add: expire_eq [OF assms(1)] live_def)

lemma expire_gone:
  assumes "expiring_ok t0 m"
  shows "k \<in> set (fst (expire t m)) \<longleftrightarrow> k \<in> fst ` set (ex_kept m) \<and> live m t k = None"
proof -
  have "k \<in> set (fst (expire t m)) \<longleftrightarrow> (\<exists>used v. (k, used, v) \<in> set (ex_kept m) \<and> \<not> t - used < ex_expiry m)"
    by (force simp: expire_eq [OF assms] fresh_at_def)
  also have "\<dots> \<longleftrightarrow> (\<exists>used v. map_of (ex_kept m) k = Some (used, v) \<and> \<not> t - used < ex_expiry m)"
    using expiring_okD [OF assms] by simp
  also have "\<dots> \<longleftrightarrow> map_of (ex_kept m) k \<noteq> None \<and> live m t k = None"
    by (auto simp: live_def still_def split: option.splits)
  finally show ?thesis by (simp add: map_of_eq_None_iff)
qed

lemma expire_fresh:
  assumes "expiring_ok t0 m" "map_of (ex_kept (snd (expire t m))) k = Some (used, v)"
  shows "t - used < ex_expiry m" "map_of (ex_kept m) k = Some (used, v)"
  using assms(2) expiring_okD [OF assms(1)]
  by (auto simp: expire_eq [OF assms(1)] map_of_filter_distinct fresh_at_def split: option.splits if_splits)

lemma expire_lookup:
  assumes "expiring_ok t0 m"
  shows "map_option snd (map_of (ex_kept (snd (expire t m))) k) = live m t k"
  using expiring_okD [OF assms]
  by (auto simp: expire_eq [OF assms] map_of_filter_distinct fresh_at_def live_def still_def split: option.splits)

lemma length_delete_le: "length (AList.delete k kept) \<le> length kept"
  by (simp add: AList.delete_eq)

lemma put_kept_eq:
  assumes "expiring_ok t0 m"
  shows "put_kept (t1, t2) k v m = (fst (expire t1 m), (snd (expire t1 m))
     \<lparr>ex_kept := cut_to (ex_limit m) (kept_last k t2 v (ex_kept (snd (expire t1 m))))\<rparr>)"
  by (simp add: put_kept_def Let_def split: prod.splits)

lemma put_ok:
  assumes "expiring_ok t0 m" "t0 \<le> t1" "t1 \<le> t2" "ex_limit m \<noteq> Some 0"
  shows "expiring_ok t2 (snd (put_kept (t1, t2) k v m))"
    "ex_expiry (snd (put_kept (t1, t2) k v m)) = ex_expiry m"
    "ex_limit (snd (put_kept (t1, t2) k v m)) = ex_limit m"
proof -
  let ?kept = "ex_kept (snd (expire t1 m))"
  have o: "oldest_first t1 ?kept" and l: "case ex_limit m of None \<Rightarrow> True | Some n \<Rightarrow> int (length ?kept) \<le> n"
    using expire_ok [OF assms(1,2)] by (auto simp: expiring_ok_def)
  have "oldest_first t2 (kept_last k t2 v ?kept)"
    unfolding kept_last_def
    by (rule oldest_first_snoc [OF oldest_first_delete [OF o]]) (use assms(3) in \<open>auto simp: AList.delete_eq\<close>)
  moreover have "length (kept_last k t2 v ?kept) \<le> Suc (length ?kept)"
    by (simp add: kept_last_def length_delete_le)
  ultimately show "expiring_ok t2 (snd (put_kept (t1, t2) k v m))"
    using l expire_ok(3) [OF assms(1,2)]
    by (auto simp: put_kept_eq [OF assms(1)] expiring_ok_def cut_to_def intro: oldest_first_tl split: option.splits)
  show "ex_expiry (snd (put_kept (t1, t2) k v m)) = ex_expiry m"
    "ex_limit (snd (put_kept (t1, t2) k v m)) = ex_limit m"
    using expire_ok [OF assms(1,2)] by (simp_all add: put_kept_eq [OF assms(1)])
qed

lemma map_of_kept_last: "map_of (kept_last k t v kept) k' = (if k' = k then Some (t, v) else map_of kept k')"
  by (auto simp: kept_last_def map_add_def AList.delete_conv' split: option.splits)

lemma put_live:
  assumes "expiring_ok t0 m" "t0 \<le> t1" "t1 \<le> now"
    "case ex_limit m of None \<Rightarrow> True | Some n \<Rightarrow> int (length (kept_last k t2 v (ex_kept (snd (expire t1 m))))) \<le> n"
  shows "live (snd (put_kept (t1, t2) k v m)) now =
    (live m now)(k := if now - t2 < ex_expiry m then Some v else None)"
proof -
  have c: "cut_to (ex_limit m) (kept_last k t2 v (ex_kept (snd (expire t1 m)))) =
      kept_last k t2 v (ex_kept (snd (expire t1 m)))"
    using assms(4) by (auto simp: cut_to_def split: option.splits)
  have "live (snd (put_kept (t1, t2) k v m)) now k' =
      ((live m now)(k := if now - t2 < ex_expiry m then Some v else None)) k'" for k'
    using expire_live [OF assms(1,3), of k'] expire_ok(2) [OF assms(1,2)]
    by (cases "k' = k") (simp_all add: put_kept_eq [OF assms(1)] c live_def map_of_kept_last still_def)
  then show ?thesis by (rule ext)
qed

text \<open>With no limit, or when the key is kept already, nothing is cut.\<close>

lemma put_live_unlimited:
  assumes "expiring_ok t0 m" "t0 \<le> t1" "t1 \<le> now" "ex_limit m = None"
  shows "live (snd (put_kept (t1, t2) k v m)) now = (live m now)(k := if now - t2 < ex_expiry m then Some v else None)"
  using assms by (intro put_live [OF assms(1-3)]) simp

definition unlimited :: "rat \<Rightarrow> 'v expiring \<Rightarrow> bool" where
  "unlimited now m \<longleftrightarrow> expiring_ok now m \<and> ex_limit m = None"

lemma get_kept_cases:
  assumes "expiring_ok t0 m" "t0 \<le> t1"
  shows "get_kept (t1, t2, t3) k m =
    (case live m t1 k of
       None \<Rightarrow> (None, expire t1 m)
     | Some v \<Rightarrow> (Some v, fst (expire t1 m) @ fst (put_kept (t2, t3) k v (snd (expire t1 m))),
         snd (put_kept (t2, t3) k v (snd (expire t1 m)))))"
  using expire_lookup [OF assms(1), of t1 k]
  by (auto simp: get_kept_def Let_def split: prod.splits option.splits)

lemma get_unlimited:
  assumes "unlimited t0 m" "t0 \<le> t1" "t1 \<le> t2" "t2 \<le> t3"
  shows "fst (get_kept (t1, t2, t3) k m) = live m t1 k"
    "unlimited t3 (snd (snd (get_kept (t1, t2, t3) k m)))"
    "ex_expiry (snd (snd (get_kept (t1, t2, t3) k m))) = ex_expiry m"
    "t3 \<le> now \<Longrightarrow> live (snd (snd (get_kept (t1, t2, t3) k m))) now =
       (if live m t1 k = None then live m now
        else (live m now)(k := if now - t3 < ex_expiry m then live m t1 k else None))"
proof -
  have ok: "expiring_ok t0 m" "ex_limit m = None" using assms(1) by (simp_all add: unlimited_def)
  note g = get_kept_cases [OF ok(1) assms(2), of t2 t3 k] and e = expire_ok [OF ok(1) assms(2)]
  have t: "t1 \<le> t3" using assms by simp
  show "fst (get_kept (t1, t2, t3) k m) = live m t1 k" by (simp add: g split: option.splits)
  have o3: "expiring_ok t3 (snd (expire t1 m))"
    using e(1) t by (rule expiring_ok_mono)
  show "unlimited t3 (snd (snd (get_kept (t1, t2, t3) k m)))"
    "ex_expiry (snd (snd (get_kept (t1, t2, t3) k m))) = ex_expiry m"
    using e o3 ok(2) put_ok [OF e(1) assms(3,4), of k]
    by (cases "live m t1 k"; simp add: g unlimited_def)+
  show "live (snd (snd (get_kept (t1, t2, t3) k m))) now =
       (if live m t1 k = None then live m now
        else (live m now)(k := if now - t3 < ex_expiry m then live m t1 k else None))" if "t3 \<le> now"
  proof (cases "live m t1 k")
    case None
    with g expire_live [OF ok(1), of t1 now] that t show ?thesis by (simp add: fun_eq_iff)
  next
    case (Some v)
    have "live (snd (put_kept (t2, t3) k v (snd (expire t1 m)))) now =
        (live (snd (expire t1 m)) now)(k := if now - t3 < ex_expiry (snd (expire t1 m)) then Some v else None)"
      by (rule put_live_unlimited [OF e(1) assms(3)]) (use that assms(4) e(3) ok(2) in auto)
    with g Some expire_live [OF ok(1), of t1 now] that t e(2) show ?thesis by (simp add: fun_eq_iff)
  qed
qed

lemma pop_unlimited:
  assumes "unlimited t0 m" "t0 \<le> t1"
  shows "fst (pop_kept t1 k m) = live m t1 k"
    "unlimited t1 (snd (snd (pop_kept t1 k m)))"
    "ex_expiry (snd (snd (pop_kept t1 k m))) = ex_expiry m"
    "t1 \<le> now \<Longrightarrow> live (snd (snd (pop_kept t1 k m))) now = (live m now)(k := None)"
proof -
  have ok: "expiring_ok t0 m" "ex_limit m = None" using assms(1) by (simp_all add: unlimited_def)
  note e = expire_ok [OF ok(1) assms(2)]
  have p: "pop_kept t1 k m = (live m t1 k, fst (expire t1 m),
      (snd (expire t1 m))\<lparr>ex_kept := AList.delete k (ex_kept (snd (expire t1 m)))\<rparr>)"
    using expire_lookup [OF ok(1), of t1 k] by (cases "expire t1 m") (simp add: pop_kept_def)
  show "fst (pop_kept t1 k m) = live m t1 k" by (simp add: p)
  show "unlimited t1 (snd (snd (pop_kept t1 k m)))" "ex_expiry (snd (snd (pop_kept t1 k m))) = ex_expiry m"
    using e ok(2) by (simp_all add: p unlimited_def expiring_ok_def oldest_first_delete)
  show "live (snd (snd (pop_kept t1 k m))) now = (live m now)(k := None)" if "t1 \<le> now"
    using expire_live [OF ok(1) that] e(2)
    by (auto simp: p live_def AList.delete_conv' fun_eq_iff still_def)
qed

section \<open>The interface\<close>

text \<open>
  What the clients of an expiring map rely on, whatever it is made of: \<open>alive s now k\<close> is the value
  under a key at a time, asking for a key counts as a use, and a value is alive for \<open>expiry\<close> after
  its last use. Times are those of a clock that never goes back.
\<close>

locale last_use =
  fixes good :: "rat \<Rightarrow> 's \<Rightarrow> bool"
    and alive :: "'s \<Rightarrow> rat \<Rightarrow> string \<Rightarrow> 'v option"
    and expiry :: "'s \<Rightarrow> rat"
    and ask :: "rat \<times> rat \<times> rat \<Rightarrow> string \<Rightarrow> 's \<Rightarrow> 'v option \<times> string list \<times> 's"
    and keep :: "rat \<times> rat \<Rightarrow> string \<Rightarrow> 'v \<Rightarrow> 's \<Rightarrow> string list \<times> 's"
    and forget :: "rat \<Rightarrow> string \<Rightarrow> 's \<Rightarrow> 'v option \<times> string list \<times> 's"
  assumes good_later: "good t s \<Longrightarrow> t \<le> u \<Longrightarrow> good u s"
    and alive_earlier: "good t s \<Longrightarrow> alive s u k = Some v \<Longrightarrow> w \<le> u \<Longrightarrow> alive s w k = Some v"
    and ask_value: "good t0 s \<Longrightarrow> t0 \<le> t1 \<Longrightarrow> t1 \<le> t2 \<Longrightarrow> t2 \<le> t3 \<Longrightarrow> fst (ask (t1, t2, t3) k s) = alive s t1 k"
    and ask_good: "good t0 s \<Longrightarrow> t0 \<le> t1 \<Longrightarrow> t1 \<le> t2 \<Longrightarrow> t2 \<le> t3 \<Longrightarrow>
      good t3 (snd (snd (ask (t1, t2, t3) k s))) \<and> expiry (snd (snd (ask (t1, t2, t3) k s))) = expiry s"
    and ask_alive: "good t0 s \<Longrightarrow> t0 \<le> t1 \<Longrightarrow> t1 \<le> t2 \<Longrightarrow> t2 \<le> t3 \<Longrightarrow> t3 \<le> now \<Longrightarrow>
      alive (snd (snd (ask (t1, t2, t3) k s))) now =
        (if alive s t1 k = None then alive s now
         else (alive s now)(k := if now - t3 < expiry s then alive s t1 k else None))"
    and keep_good: "good t0 s \<Longrightarrow> t0 \<le> t1 \<Longrightarrow> t1 \<le> t2 \<Longrightarrow>
      good t2 (snd (keep (t1, t2) k v s)) \<and> expiry (snd (keep (t1, t2) k v s)) = expiry s"
    and keep_alive: "good t0 s \<Longrightarrow> t0 \<le> t1 \<Longrightarrow> t1 \<le> t2 \<Longrightarrow> t2 \<le> now \<Longrightarrow>
      alive (snd (keep (t1, t2) k v s)) now = (alive s now)(k := if now - t2 < expiry s then Some v else None)"
    and forget_value: "good t0 s \<Longrightarrow> t0 \<le> t1 \<Longrightarrow> fst (forget t1 k s) = alive s t1 k"
    and forget_good: "good t0 s \<Longrightarrow> t0 \<le> t1 \<Longrightarrow>
      good t1 (snd (snd (forget t1 k s))) \<and> expiry (snd (snd (forget t1 k s))) = expiry s"
    and forget_alive: "good t0 s \<Longrightarrow> t0 \<le> t1 \<Longrightarrow> t1 \<le> now \<Longrightarrow>
      alive (snd (snd (forget t1 k s))) now = (alive s now)(k := None)"
begin

lemma asked_back:
  assumes "good t0 s" "t0 \<le> t1" "t1 \<le> t2" "t2 \<le> u1" "u1 \<le> u2" "u2 \<le> u3" "u1 - t2 < expiry s"
  shows "fst (ask (u1, u2, u3) k (snd (keep (t1, t2) k v s))) = Some v"
  using assms keep_good [OF assms(1-3)] keep_alive [OF assms(1-4)]
  by (subst ask_value [of t2]) auto

text \<open>What is asked for often enough is never lost.\<close>

fun ask_all :: "(rat \<times> rat \<times> rat) list \<Rightarrow> string \<Rightarrow> 's \<Rightarrow> 's" where
  "ask_all [] k s = s"
| "ask_all (ts # tss) k s = ask_all tss k (snd (snd (ask ts k s)))"

fun often_enough :: "rat \<Rightarrow> rat \<Rightarrow> (rat \<times> rat \<times> rat) list \<Rightarrow> bool" where
  "often_enough limit latest [] \<longleftrightarrow> True"
| "often_enough limit latest ((t1, t2, t3) # tss) \<longleftrightarrow>
     latest \<le> t1 \<and> t1 \<le> t2 \<and> t2 \<le> t3 \<and> t3 - latest < limit \<and> often_enough limit t3 tss"

fun last_time :: "rat \<Rightarrow> (rat \<times> rat \<times> rat) list \<Rightarrow> rat" where
  "last_time latest [] = latest"
| "last_time latest ((t1, t2, t3) # tss) = last_time t3 tss"

lemma still_there:
  assumes "good latest s" "0 < expiry s" "alive s latest k = Some v"
    "\<And>now. latest \<le> now \<Longrightarrow> now - latest < expiry s \<Longrightarrow> alive s now k = Some v"
    "often_enough (expiry s) latest tss" "last_time latest tss \<le> now" "now - last_time latest tss < expiry s"
  shows "alive (ask_all tss k s) now k = Some v"
  using assms
proof (induction tss arbitrary: s latest)
  case (Cons ts tss)
  obtain t1 t2 t3 where ts: "ts = (t1, t2, t3)" by (cases ts)
  let ?s = "snd (snd (ask ts k s))"
  from Cons.prems ts have o: "latest \<le> t1" "t1 \<le> t2" "t2 \<le> t3" "t3 - latest < expiry s" by auto
  have v: "alive s t1 k = Some v" by (rule Cons.prems(4)) (use o in auto)
  have g: "good t3 ?s" "expiry ?s = expiry s" using ask_good [OF Cons.prems(1) o(1-3)] ts by auto
  have a: "alive ?s u k = Some v" if "t3 \<le> u" "u - t3 < expiry s" for u
    using ask_alive [OF Cons.prems(1) o(1-3) that(1), of k] v that ts by simp
  have "alive (ask_all tss k ?s) now k = Some v"
    by (rule Cons.IH [of t3]) (use g a Cons.prems ts in auto)
  then show ?case by simp
qed simp

end

text \<open>The expiring maps with no limit provide it.\<close>

lemma unlimited_mono: "unlimited t m \<Longrightarrow> t \<le> u \<Longrightarrow> unlimited u m"
  by (auto simp: unlimited_def intro: expiring_ok_mono)

lemma live_earlier: "live m u k = Some v \<Longrightarrow> w \<le> u \<Longrightarrow> live m w k = Some v"
  by (auto simp: live_def still_def split: option.splits if_splits)

lemma put_unlimited:
  assumes "unlimited t0 m" "t0 \<le> t1" "t1 \<le> t2"
  shows "unlimited t2 (snd (put_kept (t1, t2) k v m)) \<and> ex_expiry (snd (put_kept (t1, t2) k v m)) = ex_expiry m"
  using assms put_ok [of t0 m t1 t2 k v] by (simp add: unlimited_def)

interpretation kept: last_use unlimited live ex_expiry get_kept put_kept pop_kept
proof (unfold_locales, goal_cases)
  case (4 t0 s t1 t2 t3 k)
  then show ?case using get_unlimited(2,3) by blast
next
  case (5 t0 s t1 t2 t3 now k)
  then show ?case by (rule get_unlimited(4))
next
  case (7 t0 s t1 t2 now k v)
  then show ?case by (intro put_live_unlimited) (auto simp: unlimited_def)
next
  case (6 t0 s t1 t2 k v)
  then show ?case by (rule put_unlimited)
next
  case (8 t0 s t1 k)
  then show ?case by (rule pop_unlimited(1))
next
  case (9 t0 s t1 k)
  then show ?case using pop_unlimited(2,3) by blast
next
  case (10 t0 s t1 now k)
  then show ?case by (rule pop_unlimited(4))
qed (blast intro: unlimited_mono live_earlier get_unlimited(1))+

end
