(* ===== verification/SidecarState.thy ===== *)
theory SidecarState
  imports Errors Expiring Runner
begin

text \<open>
  What the sidecar keeps (\<open>sidecar/_state.py\<close>, with the records of \<open>sidecar/_wire.py\<close>,
  \<open>_inspect_client.py\<close>, \<open>_registration.py\<close> and \<open>_context.py\<close> it holds): runs, the requests that
  await a reply, attempts, and registered tasks. Runs, attempts and recorders are objects that
  several hold and change in place, so they live in arenas, and what is kept is where they are.
  Each reading of the clock takes the next tick of the schedule.
\<close>

section \<open>What is kept of a request and its conversation\<close>

datatype block_key = CallKey string | NamedKey string string | OtherKey string

record amendment =
  am_call :: json
  am_result :: "json list"
  am_after :: "(block_key \<times> nat) option"

record edited =
  ed_sent :: nat
  ed_mark :: string
  ed_order :: "string list"
  ed_taken_out :: "(string \<times> string) list"
  ed_originals :: "(string \<times> tool_call) list"
  ed_modified :: "(string \<times> tool_call) list"
  ed_amendments :: "(string \<times> amendment) list"

text \<open>A rejected turn: the model's message, what it is told of each call, and what was noted.\<close>

type_synonym refused_turn = "chat_message \<times> (string \<times> string) list \<times> json option"

record rejected =
  rj_sent :: nat
  rj_mark :: string
  rj_turns :: "refused_turn list"
  rj_written :: "(string \<times> amendment) list list"
  rj_added :: bool

record made =
  md_input :: messages
  md_tools :: "json list"
  md_tool_choice :: tool_choice
  md_message_id :: string

record conversation =
  cv_rejected :: "rejected list"
  cv_edited :: "edited list"
  cv_noted :: "json option"
  cv_judged :: "string list"
  cv_issued :: "(string \<times> nat) list"
  cv_made :: "(string \<times> made) list"
  cv_sent :: messages
  cv_recent :: "string list list"

definition new_conversation :: conversation where
  "new_conversation =
     \<lparr>cv_rejected = [], cv_edited = [], cv_noted = None, cv_judged = [], cv_issued = [],
      cv_made = [], cv_sent = [], cv_recent = []\<rparr>"

text \<open>\<open>occurrence\<close>.\<close>

definition occurrence :: "string \<Rightarrow> nat \<Rightarrow> string" where
  "occurrence call index = call @ ''#'' @ nat_text index"

record eval_context =
  ec_task :: string
  ec_task_description :: "string option"
  ec_sample_id :: json
  ec_epoch :: int
  ec_sample_description :: "string option"
  ec_sample_input :: json
  ec_metadata :: fields

record sidecar_run =
  rn_store :: fields
  rn_conversations :: "(string \<times> conversation) list"
  rn_in_a_row :: "(string \<times> nat) list"
  rn_refusal :: "refusal option"
  rn_answered :: "string list"
  rn_ended_at :: "(string \<times> refusal) list"
  rn_eval :: "eval_context option"

definition new_run :: sidecar_run where
  "new_run =
     \<lparr>rn_store = [], rn_conversations = [], rn_in_a_row = [], rn_refusal = None, rn_answered = [],
      rn_ended_at = [], rn_eval = None\<rparr>"

section \<open>Attempts and exchanges\<close>

record withheld =
  wh_message :: chat_message
  wh_told :: "(string \<times> string) list"

datatype stands = BeingJudged | AwaitingReply | Decided | NotJudged

datatype outcome = ProceedOutcome | RejectOutcome | TerminateOutcome

record attempt =
  ta_exchange :: string
  ta_state :: stands
  ta_reason :: "unjudged option"
  ta_outcome :: "outcome option"
  ta_message :: "string option"
  ta_withheld :: "withheld option"
  ta_proposed :: "withheld option"

definition new_attempt :: "string \<Rightarrow> attempt" where
  "new_attempt exchange =
     \<lparr>ta_exchange = exchange, ta_state = BeingJudged, ta_reason = None, ta_outcome = None,
      ta_message = None, ta_withheld = None, ta_proposed = None\<rparr>"

definition decide_attempt :: "outcome \<Rightarrow> string option \<Rightarrow> attempt \<Rightarrow> attempt" where
  "decide_attempt out message a = a\<lparr>ta_state := Decided, ta_outcome := Some out, ta_message := message\<rparr>"

definition attempt_not_judged :: "unjudged \<Rightarrow> attempt \<Rightarrow> attempt" where
  "attempt_not_judged reason a = a\<lparr>ta_state := NotJudged, ta_reason := Some reason\<rparr>"

record judged_step =
  js_stage :: stage
  js_call :: "string option"
  js_decision :: "decision option"
  js_records :: "event list"
  js_original :: "tool_call option"

record exchange =
  xc_judged :: "judged_step list"
  xc_withheld :: "withheld option"
  xc_proposed :: "withheld option"
  xc_message :: "string option"
  xc_ended :: bool

definition new_exchange :: exchange where
  "new_exchange = \<lparr>xc_judged = [], xc_withheld = None, xc_proposed = None, xc_message = None, xc_ended = False\<rparr>"

record inspect_sample =
  sm_eval_id :: string
  sm_task :: string
  sm_sample_id :: json
  sm_epoch :: int
  sm_uuid :: string
  sm_attempt :: string

record proxy_context =
  px_provider :: string
  px_model :: string
  px_user :: "string option"
  px_headers :: "(string \<times> string) list"
  px_inspect :: "inspect_sample option"

record offered =
  of_tools :: "json list"
  of_tool_choice :: tool_choice
  of_config :: json

text \<open>A request that went on to the provider. \<open>he_attempt\<close> and \<open>he_recorder\<close> are places in the
  arenas.\<close>

record held =
  he_run :: string
  he_conversation :: string
  he_named :: bool
  he_sample_attempt :: string
  he_answered :: bool
  he_model :: string
  he_format :: stream_format
  he_recorder :: nat
  he_input :: messages
  he_calls :: "(string \<times> nat) list"
  he_offered :: offered
  he_marks :: "string list"
  he_proxy :: proxy_context
  he_attempt :: "nat option"
  he_exchange :: exchange

definition he_sent :: "held \<Rightarrow> nat" where
  "he_sent h = length (he_marks h) - 1"

definition he_mark :: "held \<Rightarrow> string" where
  "he_mark h = last (he_marks h)"

section \<open>Registered tasks\<close>

record sample_facts =
  sf_sample_id :: json
  sf_description :: "string option"
  sf_input :: json
  sf_metadata :: fields

record task_facts =
  tf_task :: string
  tf_description :: "string option"
  tf_metadata :: fields
  tf_samples :: "sample_facts list"

record file_task = task_facts +
  ft_tools :: "(string \<times> string) list"

text \<open>\<open>{**old, **new}\<close>.\<close>

definition dict_merge :: "('k \<times> 'v) list \<Rightarrow> ('k \<times> 'v) list \<Rightarrow> ('k \<times> 'v) list" where
  "dict_merge old new = foldl (\<lambda>d (k, v). dict_set d k v) old new"

text \<open>\<open>TaskFacts.eval_context\<close>.\<close>

definition eval_context_of :: "'a task_facts_scheme \<Rightarrow> inspect_sample \<Rightarrow> eval_context option" where
  "eval_context_of facts sample =
     map_option
       (\<lambda>f. \<lparr>ec_task = tf_task facts, ec_task_description = tf_description facts,
             ec_sample_id = sf_sample_id f, ec_epoch = sm_epoch sample,
             ec_sample_description = sf_description f, ec_sample_input = sf_input f,
             ec_metadata = dict_merge (tf_metadata facts) (sf_metadata f)\<rparr>)
       (find (\<lambda>f. sf_sample_id f = sm_sample_id sample) (tf_samples facts))"

section \<open>The state\<close>

type_synonym tasks = "((string \<times> string) \<times> rat \<times> rat \<times> task_facts) list"

record sidecar =
  sc_now :: rat
  sc_ticks :: "rat list"
  sc_runs :: "nat expiring"
  sc_ended :: "nat expiring"
  sc_held :: "held expiring"
  sc_recorders :: "nat expiring"
  sc_dropped :: "bool expiring"
  sc_attempts :: "nat list expiring"
  sc_tasks :: tasks
  sc_run_objects :: "sidecar_run list"
  sc_attempt_objects :: "attempt list"
  sc_record_objects :: "event list list"

definition dropped_ids :: int where
  "dropped_ids = 1000000"

definition memory_state :: "rat \<Rightarrow> rat list \<Rightarrow> sidecar" where
  "memory_state expiry ticks =
     \<lparr>sc_now = 0, sc_ticks = ticks, sc_runs = new_expiring expiry None,
      sc_ended = new_expiring expiry None, sc_held = new_expiring expiry None,
      sc_recorders = new_expiring expiry None, sc_dropped = new_expiring expiry (Some dropped_ids),
      sc_attempts = new_expiring expiry None, sc_tasks = [], sc_run_objects = [],
      sc_attempt_objects = [], sc_record_objects = []\<rparr>"

text \<open>The clock goes on by the next tick, and never back.\<close>

definition read_clock :: "sidecar \<Rightarrow> rat \<times> sidecar" where
  "read_clock w =
     (case sc_ticks w of
        [] \<Rightarrow> (sc_now w, w)
      | t # ts \<Rightarrow> (sc_now w + \<bar>t\<bar>, w\<lparr>sc_now := sc_now w + \<bar>t\<bar>, sc_ticks := ts\<rparr>))"

definition clock2 :: "sidecar \<Rightarrow> (rat \<times> rat) \<times> sidecar" where
  "clock2 w = (let (t1, w1) = read_clock w; (t2, w2) = read_clock w1 in ((t1, t2), w2))"

definition clock3 :: "sidecar \<Rightarrow> (rat \<times> rat \<times> rat) \<times> sidecar" where
  "clock3 w = (let (t1, w1) = read_clock w; (ts, w2) = clock2 w1 in ((t1, ts), w2))"

text \<open>\<open>run\<close>.\<close>

definition get_run :: "string \<Rightarrow> sidecar \<Rightarrow> nat option \<times> sidecar" where
  "get_run key w =
     (let (ts, w1) = clock3 w; (r, gone, m) = get_kept ts key (sc_runs w1)
      in (r, w1\<lparr>sc_runs := m\<rparr>))"

definition get_ended :: "string \<Rightarrow> sidecar \<Rightarrow> nat option \<times> sidecar" where
  "get_ended key w =
     (let (ts, w1) = clock3 w; (r, gone, m) = get_kept ts key (sc_ended w1)
      in (r, w1\<lparr>sc_ended := m\<rparr>))"

definition add_run :: "sidecar_run \<Rightarrow> sidecar \<Rightarrow> nat \<times> sidecar" where
  "add_run run w = (length (sc_run_objects w), w\<lparr>sc_run_objects := sc_run_objects w @ [run]\<rparr>)"

definition run_for :: "string \<Rightarrow> sidecar \<Rightarrow> nat \<times> sidecar" where
  "run_for key w =
     (case get_run key w of
        (Some r, w1) \<Rightarrow> (r, w1)
      | (None, w1) \<Rightarrow>
          (case get_ended key w1 of
             (Some r, w2) \<Rightarrow> (r, w2)
           | (None, w2) \<Rightarrow>
               (let (r, w3) = add_run new_run w2; (ts, w4) = clock2 w3
                in (r, w4\<lparr>sc_runs := snd (put_kept ts key r (sc_runs w4))\<rparr>))))"

definition existing_run :: "string \<Rightarrow> sidecar \<Rightarrow> nat option \<times> sidecar" where
  "existing_run key w = get_run key w"

text \<open>\<open>end_run\<close>: whoever still holds the run finds it ended too.\<close>

definition ended_refusal :: refusal where
  "ended_refusal = \<lparr>rf_status = 400, rf_message = ''This run has ended.'', rf_sentinel = None\<rparr>"

definition run_at :: "nat \<Rightarrow> sidecar \<Rightarrow> sidecar_run" where
  "run_at r w = sc_run_objects w ! r"

definition set_run :: "nat \<Rightarrow> sidecar_run \<Rightarrow> sidecar \<Rightarrow> sidecar" where
  "set_run r run w = w\<lparr>sc_run_objects := (sc_run_objects w)[r := run]\<rparr>"

definition refuse_run :: "nat \<Rightarrow> sidecar \<Rightarrow> sidecar" where
  "refuse_run r w =
     (if rn_refusal (run_at r w) = None then set_run r ((run_at r w)\<lparr>rn_refusal := Some ended_refusal\<rparr>) w
      else w)"

definition note_ended :: "string \<Rightarrow> refusal option \<Rightarrow> sidecar \<Rightarrow> sidecar" where
  "note_ended key refusal w =
     (case get_ended key w of
        (Some r, w1) \<Rightarrow> w1
      | (None, w1) \<Rightarrow>
          (let (r, w2) = add_run (new_run\<lparr>rn_refusal := refusal\<rparr>) w1; (ts, w3) = clock2 w2
           in w3\<lparr>sc_ended := snd (put_kept ts key r (sc_ended w3))\<rparr>))"

definition end_run :: "string \<Rightarrow> sidecar \<Rightarrow> bool \<times> sidecar" where
  "end_run key w =
     (let (t, w1) = read_clock w; (r, gone, m) = pop_kept t key (sc_runs w1); w2 = w1\<lparr>sc_runs := m\<rparr>
      in case r of
           None \<Rightarrow> (let (e, w3) = get_ended key w2 in (e \<noteq> None, w3))
         | Some r \<Rightarrow> (let w3 = refuse_run r w2 in (True, note_ended key (rn_refusal (run_at r w3)) w3)))"

text \<open>\<open>hold\<close> and \<open>release\<close>.\<close>

definition hold :: "string \<Rightarrow> held \<Rightarrow> sidecar \<Rightarrow> sidecar" where
  "hold k h w = (let (ts, w1) = clock2 w in w1\<lparr>sc_held := snd (put_kept ts k h (sc_held w1))\<rparr>)"

definition release :: "string \<Rightarrow> sidecar \<Rightarrow> held option \<times> sidecar" where
  "release k w =
     (let (t, w1) = read_clock w; (h, gone, m) = pop_kept t k (sc_held w1)
      in (h, w1\<lparr>sc_held := m\<rparr>))"

text \<open>\<open>recorder\<close> and \<open>records\<close>.\<close>

definition get_recorder :: "string \<Rightarrow> sidecar \<Rightarrow> nat option \<times> sidecar" where
  "get_recorder k w =
     (let (ts, w1) = clock3 w; (r, gone, m) = get_kept ts k (sc_recorders w1)
      in (r, w1\<lparr>sc_recorders := m\<rparr>))"

definition recorder_for :: "string \<Rightarrow> sidecar \<Rightarrow> nat \<times> sidecar" where
  "recorder_for k w =
     (case get_recorder k w of
        (Some r, w1) \<Rightarrow> (r, w1)
      | (None, w1) \<Rightarrow>
          (let r = length (sc_record_objects w1);
               (ts, w2) = clock2 (w1\<lparr>sc_record_objects := sc_record_objects w1 @ [[]]\<rparr>)
           in (r, w2\<lparr>sc_recorders := snd (put_kept ts k r (sc_recorders w2))\<rparr>)))"

definition records_of :: "string \<Rightarrow> sidecar \<Rightarrow> event list option \<times> sidecar" where
  "records_of k w =
     (case get_recorder k w of (r, w1) \<Rightarrow> (map_option (\<lambda>r. sc_record_objects w1 ! r) r, w1))"

text \<open>\<open>register\<close> and \<open>registration\<close>, swept whole.\<close>

definition expire_tasks :: "sidecar \<Rightarrow> sidecar" where
  "expire_tasks w =
     (let (now, w1) = read_clock w
      in w1\<lparr>sc_tasks := filter (\<lambda>(k, used, expiry, facts). now - used < expiry) (sc_tasks w1)\<rparr>)"

definition keep_task :: "string \<times> string \<Rightarrow> rat \<Rightarrow> task_facts \<Rightarrow> sidecar \<Rightarrow> sidecar" where
  "keep_task key expiry facts w =
     (let (now, w1) = read_clock w in w1\<lparr>sc_tasks := dict_set (sc_tasks w1) key (now, expiry, facts)\<rparr>)"

definition register :: "string \<Rightarrow> string \<Rightarrow> task_facts \<Rightarrow> rat \<Rightarrow> nat \<Rightarrow> sidecar \<Rightarrow> bool \<times> sidecar" where
  "register eval_id task facts expiry most w =
     (let w1 = expire_tasks w
      in if map_of (sc_tasks w1) (eval_id, task) = None \<and> most \<le> length (sc_tasks w1) then (False, w1)
         else (True, keep_task (eval_id, task) expiry facts w1))"

definition registration :: "string \<Rightarrow> string \<Rightarrow> sidecar \<Rightarrow> task_facts option \<times> sidecar" where
  "registration eval_id task w =
     (let w1 = expire_tasks w
      in case map_of (sc_tasks w1) (eval_id, task) of
           None \<Rightarrow> (None, w1)
         | Some (used, expiry, facts) \<Rightarrow> (Some facts, keep_task (eval_id, task) expiry facts w1))"

text \<open>\<open>attempt\<close> and \<open>attempts\<close>: the ids of requests whose attempts expired are kept on.\<close>

definition note_dropped :: "string list \<Rightarrow> sidecar \<Rightarrow> sidecar" where
  "note_dropped ks w =
     foldl (\<lambda>w k. let (ts, w1) = clock2 w in w1\<lparr>sc_dropped := snd (put_kept ts k True (sc_dropped w1))\<rparr>) w ks"

definition get_attempts :: "string \<Rightarrow> sidecar \<Rightarrow> nat list option \<times> sidecar" where
  "get_attempts k w =
     (let (ts, w1) = clock3 w; (r, gone, m) = get_kept ts k (sc_attempts w1)
      in (r, note_dropped gone (w1\<lparr>sc_attempts := m\<rparr>)))"

text \<open>The list that is kept is appended to in place.\<close>

definition append_attempt :: "string \<Rightarrow> nat \<Rightarrow> sidecar \<Rightarrow> sidecar" where
  "append_attempt k a w =
     w\<lparr>sc_attempts := (sc_attempts w)\<lparr>ex_kept :=
       map (\<lambda>(k', used, xs). (k', used, if k' = k then xs @ [a] else xs)) (ex_kept (sc_attempts w))\<rparr>\<rparr>"

definition begin_attempt :: "string \<Rightarrow> string \<Rightarrow> sidecar \<Rightarrow> nat \<times> sidecar" where
  "begin_attempt request exchange w =
     (let (kept, w1) = get_attempts request w;
          w2 = (if kept = None then
                  (let (ts, w2) = clock2 w1; (gone, m) = put_kept ts request [] (sc_attempts w2)
                   in note_dropped gone (w2\<lparr>sc_attempts := m\<rparr>))
                else w1);
          a = length (sc_attempt_objects w2)
      in (a, append_attempt request a (w2\<lparr>sc_attempt_objects := sc_attempt_objects w2 @ [new_attempt exchange]\<rparr>)))"

datatype attempts_kept = AttemptsKept "nat list" | AttemptsDropped | NeverSeen

definition attempts_for :: "string \<Rightarrow> sidecar \<Rightarrow> attempts_kept \<times> sidecar" where
  "attempts_for request w =
     (case get_attempts request w of
        (Some xs, w1) \<Rightarrow> (AttemptsKept xs, w1)
      | (None, w1) \<Rightarrow>
          (let (ts, w2) = clock3 w1; (d, gone, m) = get_kept ts request (sc_dropped w2)
           in (if d = None then NeverSeen else AttemptsDropped, w2\<lparr>sc_dropped := m\<rparr>)))"

end
