(* ===== verification/SidecarStateProps.thy ===== *)
theory SidecarStateProps
  imports SidecarState
begin

text \<open>
  What the sidecar's memory promises over any sequence of its operations: a run that has ended
  stays ended for whoever asks for it or still holds it, and the attempts at a request are found
  for as long as they are kept. Both rest on the interface \<open>last_use\<close> of the expiring maps.
\<close>

section \<open>The clock\<close>

lemma read_clock_later: "read_clock w = (t, w') \<Longrightarrow> sc_now w \<le> t \<and> sc_now w' = t"
  by (auto simp: read_clock_def split: list.splits)

lemma read_clock_fields [simp]:
  "sc_runs (snd (read_clock w)) = sc_runs w" "sc_ended (snd (read_clock w)) = sc_ended w"
  "sc_held (snd (read_clock w)) = sc_held w" "sc_recorders (snd (read_clock w)) = sc_recorders w"
  "sc_dropped (snd (read_clock w)) = sc_dropped w" "sc_attempts (snd (read_clock w)) = sc_attempts w"
  "sc_tasks (snd (read_clock w)) = sc_tasks w" "sc_run_objects (snd (read_clock w)) = sc_run_objects w"
  "sc_attempt_objects (snd (read_clock w)) = sc_attempt_objects w"
  "sc_record_objects (snd (read_clock w)) = sc_record_objects w"
  by (simp_all add: read_clock_def split: list.splits)

text \<open>Nothing but the clock has gone on.\<close>

definition only_later :: "sidecar \<Rightarrow> sidecar \<Rightarrow> bool" where
  "only_later w w' \<longleftrightarrow> sc_now w \<le> sc_now w' \<and> w' = w\<lparr>sc_now := sc_now w', sc_ticks := sc_ticks w'\<rparr>"

lemma only_laterD:
  assumes "only_later w w'"
  shows "sc_now w \<le> sc_now w'" "sc_runs w' = sc_runs w" "sc_ended w' = sc_ended w" "sc_held w' = sc_held w"
    "sc_recorders w' = sc_recorders w" "sc_dropped w' = sc_dropped w" "sc_attempts w' = sc_attempts w"
    "sc_tasks w' = sc_tasks w" "sc_run_objects w' = sc_run_objects w"
    "sc_attempt_objects w' = sc_attempt_objects w" "sc_record_objects w' = sc_record_objects w"
proof -
  from assms have l: "sc_now w \<le> sc_now w'" and e: "w' = w\<lparr>sc_now := sc_now w', sc_ticks := sc_ticks w'\<rparr>"
    by (simp_all add: only_later_def)
  show "sc_now w \<le> sc_now w'" by (rule l)
  show "sc_runs w' = sc_runs w" "sc_ended w' = sc_ended w" "sc_held w' = sc_held w"
    "sc_recorders w' = sc_recorders w" "sc_dropped w' = sc_dropped w" "sc_attempts w' = sc_attempts w"
    "sc_tasks w' = sc_tasks w" "sc_run_objects w' = sc_run_objects w"
    "sc_attempt_objects w' = sc_attempt_objects w" "sc_record_objects w' = sc_record_objects w"
    by (subst e, simp)+
qed

lemma read_clock_only: "only_later w (snd (read_clock w))"
  by (cases w) (auto simp: only_later_def read_clock_def split: list.splits)

lemma only_later_trans: "only_later w w' \<Longrightarrow> only_later w' w'' \<Longrightarrow> only_later w w''"
  by (cases w; cases w'; cases w'') (auto simp: only_later_def)

lemma clock2E:
  assumes "clock2 w = (ts, w')"
  obtains t1 t2 where "ts = (t1, t2)" "sc_now w \<le> t1" "t1 \<le> t2" "sc_now w' = t2" "only_later w w'"
proof -
  obtain t1 w1 where 1: "read_clock w = (t1, w1)" by (cases "read_clock w")
  obtain t2 w2 where 2: "read_clock w1 = (t2, w2)" by (cases "read_clock w1")
  from assms 1 2 have "ts = (t1, t2)" "w' = w2" by (simp_all add: clock2_def)
  moreover have "only_later w w2"
    using only_later_trans [OF read_clock_only [of w] read_clock_only [of "snd (read_clock w)"]] 1 2 by simp
  ultimately show thesis using read_clock_later [OF 1] read_clock_later [OF 2] that by simp
qed

lemma clock3E:
  assumes "clock3 w = (ts, w')"
  obtains t1 t2 t3 where "ts = (t1, t2, t3)" "sc_now w \<le> t1" "t1 \<le> t2" "t2 \<le> t3" "sc_now w' = t3" "only_later w w'"
proof -
  obtain t1 w1 where 1: "read_clock w = (t1, w1)" by (cases "read_clock w")
  obtain ts2 w2 where 2: "clock2 w1 = (ts2, w2)" by (cases "clock2 w1")
  from 2 obtain t2 t3 where c: "ts2 = (t2, t3)" "sc_now w1 \<le> t2" "t2 \<le> t3" "sc_now w2 = t3" "only_later w1 w2"
    by (rule clock2E)
  from assms 1 2 have "ts = (t1, ts2)" "w' = w2" by (simp_all add: clock3_def)
  moreover have "only_later w w2"
    using only_later_trans [OF read_clock_only [of w]] c(5) 1 by simp
  ultimately show thesis using read_clock_later [OF 1] c that by simp
qed

section \<open>The kept maps\<close>

text \<open>Every value that is live from now on.\<close>

definition all_live :: "('v \<Rightarrow> bool) \<Rightarrow> rat \<Rightarrow> 'v expiring \<Rightarrow> bool" where
  "all_live P t m \<longleftrightarrow> (\<forall>u k v. t \<le> u \<longrightarrow> live m u k = Some v \<longrightarrow> P v)"

lemma all_liveD: "all_live P t m \<Longrightarrow> t \<le> u \<Longrightarrow> live m u k = Some v \<Longrightarrow> P v"
  by (auto simp: all_live_def)

lemma all_live_later: "all_live P t m \<Longrightarrow> t \<le> u \<Longrightarrow> all_live P u m"
  unfolding all_live_def by (meson order_trans)

lemma all_live_mono: "all_live P t m \<Longrightarrow> (\<And>v. P v \<Longrightarrow> Q v) \<Longrightarrow> all_live Q t m"
  by (auto simp: all_live_def)

lemma all_live_get:
  assumes "unlimited t0 m" "t0 \<le> t1" "t1 \<le> t2" "t2 \<le> t3" "all_live P t0 m"
  shows "all_live P t3 (snd (snd (get_kept (t1, t2, t3) k m)))"
  unfolding all_live_def
proof (intro allI impI)
  fix u k' v assume u: "t3 \<le> u" "live (snd (snd (get_kept (t1, t2, t3) k m))) u k' = Some v"
  have t: "t0 \<le> t1" "t0 \<le> u" using assms(2-4) u(1) by simp_all
  from u(2) kept.ask_alive [OF assms(1-4) u(1), of k] show "P v"
    by (auto split: if_splits intro: all_liveD [OF assms(5) t(1)] all_liveD [OF assms(5) t(2)])
qed

lemma all_live_put:
  assumes "unlimited t0 m" "t0 \<le> t1" "t1 \<le> t2" "all_live P t0 m" "P v"
  shows "all_live P t2 (snd (put_kept (t1, t2) k v m))"
  unfolding all_live_def
proof (intro allI impI)
  fix u k' x assume u: "t2 \<le> u" "live (snd (put_kept (t1, t2) k v m)) u k' = Some x"
  have t: "t0 \<le> u" using assms(2,3) u(1) by simp
  from u(2) kept.keep_alive [OF assms(1-3) u(1), of k v] assms(5) show "P x"
    by (auto split: if_splits intro: all_liveD [OF assms(4) t])
qed

lemma all_live_pop:
  assumes "unlimited t0 m" "t0 \<le> t1" "all_live P t0 m"
  shows "all_live P t1 (snd (snd (pop_kept t1 k m)))"
  unfolding all_live_def
proof (intro allI impI)
  fix u k' x assume u: "t1 \<le> u" "live (snd (snd (pop_kept t1 k m))) u k' = Some x"
  have t: "t0 \<le> u" using assms(2) u(1) by simp
  from u(2) kept.forget_alive [OF assms(1,2) u(1), of k] show "P x"
    by (auto split: if_splits intro: all_liveD [OF assms(3) t])
qed

text \<open>Asking for a key, with the readings of the clock.\<close>

lemma get_clocked:
  assumes "clock3 w = (ts, w1)" "unlimited (sc_now w) m" "all_live P (sc_now w) m" "get_kept ts k m = (r, gone, m')"
  shows "unlimited (sc_now w1) m'" "all_live P (sc_now w1) m'" "ex_expiry m' = ex_expiry m"
    "r = Some x \<Longrightarrow> P x"
    "r = None \<Longrightarrow> sc_now w1 \<le> u \<Longrightarrow> live m' u = live m u \<and> live m u k = None"
    "r = Some x \<Longrightarrow> sc_now w1 \<le> u \<Longrightarrow> live m' u = (live m u)(k := if u - sc_now w1 < ex_expiry m then Some x else None)"
    "live m (sc_now w) k = None \<Longrightarrow> r = None"
    "sc_now w1 \<le> u \<Longrightarrow> live m u k = Some x \<Longrightarrow> r = Some x"
proof -
  from assms(1) obtain t1 t2 t3 where ts: "ts = (t1, t2, t3)" "sc_now w \<le> t1" "t1 \<le> t2" "t2 \<le> t3" "sc_now w1 = t3"
    by (rule clock3E)
  note ask = kept.ask_value [OF assms(2) ts(2-4), of k] kept.ask_good [OF assms(2) ts(2-4), of k]
    kept.ask_alive [OF assms(2) ts(2-4), of _ k]
  have m': "fst (get_kept (t1, t2, t3) k m) = r" "snd (snd (get_kept (t1, t2, t3) k m)) = m'"
    using assms(4) ts by simp_all
  have r: "live m t1 k = r" using ask(1) m' by simp
  show "unlimited (sc_now w1) m'" "ex_expiry m' = ex_expiry m" using ask(2) m' ts by simp_all
  show "all_live P (sc_now w1) m'" using all_live_get [OF assms(2) ts(2-4) assms(3), of k] m' ts by simp
  show "r = Some x \<Longrightarrow> P x" using all_liveD [OF assms(3) ts(2), of k x] r by simp
  have t: "t1 \<le> u" if "sc_now w1 \<le> u" for u using that ts by simp
  show "r = None \<Longrightarrow> sc_now w1 \<le> u \<Longrightarrow> live m' u = live m u \<and> live m u k = None"
    using r ask(3) [of u] m' ts live_earlier [OF _ t, of m u k] by (cases "live m u k") auto
  show "r = Some x \<Longrightarrow> sc_now w1 \<le> u \<Longrightarrow> live m' u = (live m u)(k := if u - sc_now w1 < ex_expiry m then Some x else None)"
    using r ask(3) [of u] m' ts by auto
  show "live m (sc_now w) k = None \<Longrightarrow> r = None"
    using r live_earlier [of m t1 k _ "sc_now w"] ts by (cases r) auto
  show "sc_now w1 \<le> u \<Longrightarrow> live m u k = Some x \<Longrightarrow> r = Some x"
    using r live_earlier [OF _ t, of m u k x] by simp
qed

definition run_there :: "sidecar \<Rightarrow> nat \<Rightarrow> bool" where
  "run_there w r \<longleftrightarrow> r < length (sc_run_objects w)"

definition run_ended :: "sidecar \<Rightarrow> nat \<Rightarrow> bool" where
  "run_ended w r \<longleftrightarrow> run_there w r \<and> rn_refusal (run_at r w) \<noteq> None"

definition runs_ok :: "sidecar \<Rightarrow> bool" where
  "runs_ok w \<longleftrightarrow> unlimited (sc_now w) (sc_runs w) \<and> unlimited (sc_now w) (sc_ended w)
     \<and> all_live (run_there w) (sc_now w) (sc_runs w) \<and> all_live (run_ended w) (sc_now w) (sc_ended w)"

text \<open>The arena only grows, and no run stops being refused.\<close>

definition runs_grow :: "sidecar \<Rightarrow> sidecar \<Rightarrow> bool" where
  "runs_grow w w' \<longleftrightarrow> sc_now w \<le> sc_now w' \<and> length (sc_run_objects w) \<le> length (sc_run_objects w')
     \<and> (\<forall>r. run_ended w r \<longrightarrow> run_ended w' r) \<and> ex_expiry (sc_ended w') = ex_expiry (sc_ended w)"

lemma runs_grow_refl: "runs_grow w w"
  by (simp add: runs_grow_def)

lemma runs_grow_trans: "runs_grow w w' \<Longrightarrow> runs_grow w' w'' \<Longrightarrow> runs_grow w w''"
  by (auto simp: runs_grow_def)

lemma runs_grow_there: "runs_grow w w' \<Longrightarrow> run_there w r \<Longrightarrow> run_there w' r"
  by (simp add: runs_grow_def run_there_def)

lemma runs_grow_ended: "runs_grow w w' \<Longrightarrow> run_ended w r \<Longrightarrow> run_ended w' r"
  by (simp add: runs_grow_def)

lemma only_later_grow: "only_later w w' \<Longrightarrow> runs_grow w w'"
  using only_laterD [of w w'] by (simp add: runs_grow_def run_ended_def run_there_def run_at_def)

text \<open>What is written to other fields leaves the runs as they are.\<close>

lemma runs_ok_frame:
  assumes "runs_ok w" "sc_runs w' = sc_runs w" "sc_ended w' = sc_ended w"
    "sc_run_objects w' = sc_run_objects w" "sc_now w \<le> sc_now w'"
  shows "runs_ok w'" "runs_grow w w'"
proof -
  have "run_there w' = run_there w" "run_ended w' = run_ended w"
    using assms by (auto simp: run_there_def run_ended_def run_at_def fun_eq_iff)
  with assms show "runs_ok w'" "runs_grow w w'"
    by (auto simp: runs_ok_def runs_grow_def intro: unlimited_mono all_live_later)
qed

lemma runs_ok_grow:
  assumes "runs_ok w" "runs_grow w w'" "sc_runs w' = sc_runs w" "sc_ended w' = sc_ended w"
  shows "runs_ok w'"
  using assms
  by (auto simp: runs_ok_def runs_grow_def
      intro: unlimited_mono all_live_mono [OF all_live_later] runs_grow_there [OF assms(2)] runs_grow_ended [OF assms(2)])

lemma get_run_ok:
  assumes "runs_ok w" "get_run k w = (r, w')"
  shows "runs_ok w'" "runs_grow w w'" "sc_ended w' = sc_ended w" "sc_run_objects w' = sc_run_objects w"
    "r = Some x \<Longrightarrow> run_there w' x"
    "r = None \<Longrightarrow> sc_now w' \<le> u \<Longrightarrow> live (sc_runs w') u = live (sc_runs w) u \<and> live (sc_runs w) u k = None"
    "sc_now w' \<le> u \<Longrightarrow> k' \<noteq> k \<Longrightarrow> live (sc_runs w') u k' = live (sc_runs w) u k'"
    "live (sc_runs w) (sc_now w) k = None \<Longrightarrow> r = None"
proof -
  obtain ts w1 where c: "clock3 w = (ts, w1)" by (cases "clock3 w")
  then have o: "only_later w w1" by (rule clock3E)
  obtain gone m where m: "get_kept ts k (sc_runs w) = (r, gone, m)" and w': "w' = w1\<lparr>sc_runs := m\<rparr>"
    using assms(2) c only_laterD [OF o] by (auto simp: get_run_def split: prod.splits)
  have u: "unlimited (sc_now w) (sc_runs w)" "all_live (run_there w) (sc_now w) (sc_runs w)"
    using assms(1) by (simp_all add: runs_ok_def)
  note g = get_clocked [OF c u m]
  have f: "sc_ended w' = sc_ended w" "sc_run_objects w' = sc_run_objects w" "sc_now w \<le> sc_now w'" "sc_now w' = sc_now w1"
    using w' only_laterD [OF o] by simp_all
  then have there: "run_there w' = run_there w" "run_ended w' = run_ended w"
    by (auto simp: run_there_def run_ended_def run_at_def fun_eq_iff)
  show "runs_ok w'"
    using assms(1) f there g(1,2) w' by (auto simp: runs_ok_def intro: unlimited_mono all_live_later)
  show "runs_grow w w'" "sc_ended w' = sc_ended w" "sc_run_objects w' = sc_run_objects w"
    using f there by (simp_all add: runs_grow_def)
  show "r = Some x \<Longrightarrow> run_there w' x" using g(4) there by simp
  show "r = None \<Longrightarrow> sc_now w' \<le> u \<Longrightarrow> live (sc_runs w') u = live (sc_runs w) u \<and> live (sc_runs w) u k = None"
    using g(5) w' by simp
  show "sc_now w' \<le> u \<Longrightarrow> k' \<noteq> k \<Longrightarrow> live (sc_runs w') u k' = live (sc_runs w) u k'"
    using g(5) [of u] g(6) [of _ u] w' by (cases r) simp_all
  show "live (sc_runs w) (sc_now w) k = None \<Longrightarrow> r = None" by (rule g(7))
qed

lemma get_ended_ok:
  assumes "runs_ok w" "get_ended k w = (r, w')"
  shows "runs_ok w'" "runs_grow w w'" "sc_runs w' = sc_runs w" "sc_run_objects w' = sc_run_objects w"
    "ex_expiry (sc_ended w') = ex_expiry (sc_ended w)"
    "r = Some x \<Longrightarrow> run_ended w' x"
    "r = None \<Longrightarrow> sc_now w' \<le> u \<Longrightarrow> live (sc_ended w') u = live (sc_ended w) u"
    "r = Some x \<Longrightarrow> sc_now w' \<le> u \<Longrightarrow>
       live (sc_ended w') u = (live (sc_ended w) u)(k := if u - sc_now w' < ex_expiry (sc_ended w) then Some x else None)"
    "sc_now w' \<le> u \<Longrightarrow> live (sc_ended w) u k = Some x \<Longrightarrow> r = Some x"
proof -
  obtain ts w1 where c: "clock3 w = (ts, w1)" by (cases "clock3 w")
  then have o: "only_later w w1" by (rule clock3E)
  obtain gone m where m: "get_kept ts k (sc_ended w) = (r, gone, m)" and w': "w' = w1\<lparr>sc_ended := m\<rparr>"
    using assms(2) c only_laterD [OF o] by (auto simp: get_ended_def split: prod.splits)
  have u: "unlimited (sc_now w) (sc_ended w)" "all_live (run_ended w) (sc_now w) (sc_ended w)"
    using assms(1) by (simp_all add: runs_ok_def)
  note g = get_clocked [OF c u m]
  have f: "sc_runs w' = sc_runs w" "sc_run_objects w' = sc_run_objects w" "sc_now w \<le> sc_now w'" "sc_now w' = sc_now w1"
    using w' only_laterD [OF o] by simp_all
  then have there: "run_there w' = run_there w" "run_ended w' = run_ended w"
    by (auto simp: run_there_def run_ended_def run_at_def fun_eq_iff)
  show "runs_ok w'"
    using assms(1) f there g(1,2) w' by (auto simp: runs_ok_def intro: unlimited_mono all_live_later)
  show "runs_grow w w'" "sc_runs w' = sc_runs w" "sc_run_objects w' = sc_run_objects w"
    "ex_expiry (sc_ended w') = ex_expiry (sc_ended w)"
    using f there g(3) w' by (simp_all add: runs_grow_def)
  show "r = Some x \<Longrightarrow> run_ended w' x" using g(4) there by simp
  show "r = None \<Longrightarrow> sc_now w' \<le> u \<Longrightarrow> live (sc_ended w') u = live (sc_ended w) u"
    using g(5) w' by simp
  show "r = Some x \<Longrightarrow> sc_now w' \<le> u \<Longrightarrow>
       live (sc_ended w') u = (live (sc_ended w) u)(k := if u - sc_now w' < ex_expiry (sc_ended w) then Some x else None)"
    using g(6) w' by simp
  show "sc_now w' \<le> u \<Longrightarrow> live (sc_ended w) u k = Some x \<Longrightarrow> r = Some x"
    using g(8) w' by simp
qed

text \<open>A key that has ended, until a time: no run is kept under it, and asking finds one refused.\<close>

definition sealed :: "string \<Rightarrow> rat \<Rightarrow> sidecar \<Rightarrow> bool" where
  "sealed k until w \<longleftrightarrow> until \<le> sc_now w + ex_expiry (sc_ended w)
     \<and> (\<forall>u. sc_now w \<le> u \<longrightarrow> u < until \<longrightarrow>
          live (sc_runs w) u k = None \<and> (\<exists>r. live (sc_ended w) u k = Some r))"

lemma sealedD:
  "sealed k until w \<Longrightarrow> sc_now w \<le> u \<Longrightarrow> u < until \<Longrightarrow>
     live (sc_runs w) u k = None \<and> (\<exists>r. live (sc_ended w) u k = Some r)"
  by (simp add: sealed_def)

lemma sealed_frame:
  "sealed k until w \<Longrightarrow> sc_runs w' = sc_runs w \<Longrightarrow> sc_ended w' = sc_ended w \<Longrightarrow> sc_now w \<le> sc_now w' \<Longrightarrow> sealed k until w'"
  by (auto simp: sealed_def)

lemma grow_now: "runs_grow w w' \<Longrightarrow> sc_now w \<le> sc_now w'"
  by (simp add: runs_grow_def)

lemma sealed_get_run:
  assumes "sealed k until w" "runs_ok w" "get_run k' w = (r, w')"
  shows "sealed k until w'"
proof -
  note g = get_run_ok [OF assms(2,3)]
  have "live (sc_runs w') u k = None" if u: "sc_now w' \<le> u" "u < until" for u
  proof (cases "k' = k")
    case True
    have "sc_now w < until" using u grow_now [OF g(2)] by simp
    with sealedD [OF assms(1), of "sc_now w"] True g(8) have "r = None" by simp
    with g(6) [OF _ u(1)] True show ?thesis by simp
  next
    case False
    with g(7) [OF u(1), of k] sealedD [OF assms(1), of u] u grow_now [OF g(2)] show ?thesis by simp
  qed
  with assms(1) g(3) grow_now [OF g(2)] show ?thesis by (auto simp: sealed_def)
qed

lemma sealed_get_ended:
  assumes "sealed k until w" "runs_ok w" "get_ended k' w = (r, w')"
  shows "sealed k until w'"
proof -
  note g = get_ended_ok [OF assms(2,3)]
  have l: "until \<le> sc_now w' + ex_expiry (sc_ended w)"
    using assms(1) grow_now [OF g(2)] by (simp add: sealed_def)
  have "\<exists>r. live (sc_ended w') u k = Some r" if u: "sc_now w' \<le> u" "u < until" for u
  proof -
    from sealedD [OF assms(1), of u] u grow_now [OF g(2)] obtain x where x: "live (sc_ended w) u k = Some x" by auto
    have "u - sc_now w' < ex_expiry (sc_ended w)" using u(2) l by simp
    with x g(7) [OF _ u(1)] g(8) [OF _ u(1)] show ?thesis by (cases r) auto
  qed
  with assms(1) g(3) l g(5) grow_now [OF g(2)] show ?thesis by (auto simp: sealed_def)
qed

text \<open>A run added to the arena, and kept under a key.\<close>

lemma add_run_ok:
  assumes "runs_ok w" "add_run run w = (r, w')"
  shows "runs_ok w'" "runs_grow w w'" "run_there w' r" "run_at r w' = run" "sc_runs w' = sc_runs w"
    "sc_ended w' = sc_ended w" "sc_now w' = sc_now w"
proof -
  have e: "r = length (sc_run_objects w)" "w' = w\<lparr>sc_run_objects := sc_run_objects w @ [run]\<rparr>"
    using assms(2) by (simp_all add: add_run_def)
  have g: "runs_grow w w'"
    using e by (auto simp: runs_grow_def run_ended_def run_there_def run_at_def nth_append)
  then show "runs_grow w w'" .
  show "runs_ok w'" using assms(1) g by (rule runs_ok_grow) (simp_all add: e)
  show "run_there w' r" "run_at r w' = run" "sc_runs w' = sc_runs w" "sc_ended w' = sc_ended w" "sc_now w' = sc_now w"
    using e by (simp_all add: run_there_def run_at_def)
qed

lemma keep_run_ok:
  assumes "runs_ok w" "clock2 w = (ts, w1)" "run_there w r"
    and w'_def: "w' = w1\<lparr>sc_runs := snd (put_kept ts k r (sc_runs w1))\<rparr>"
  shows "runs_ok w'" "runs_grow w w'" "sc_ended w' = sc_ended w"
    "sc_now w' \<le> u \<Longrightarrow> k' \<noteq> k \<Longrightarrow> live (sc_runs w') u k' = live (sc_runs w) u k'"
proof -
  from assms(2) obtain t1 t2 where ts: "ts = (t1, t2)" "sc_now w \<le> t1" "t1 \<le> t2" "sc_now w1 = t2"
    and o: "only_later w w1" by (rule clock2E)
  note f = only_laterD [OF o]
  have u: "unlimited (sc_now w) (sc_runs w)" "all_live (run_there w) (sc_now w) (sc_runs w)"
    using assms(1) by (simp_all add: runs_ok_def)
  have there: "run_there w' = run_there w" "run_ended w' = run_ended w" and n: "sc_now w \<le> sc_now w'"
    using f ts by (auto simp: w'_def run_there_def run_ended_def run_at_def fun_eq_iff)
  show "runs_ok w'"
    using assms(1,3) there n f ts kept.keep_good [OF u(1) ts(2,3), of k r] all_live_put [OF u(1) ts(2,3) u(2)]
    by (auto simp: w'_def runs_ok_def intro: unlimited_mono all_live_later)
  show "runs_grow w w'" "sc_ended w' = sc_ended w" using there n f by (simp_all add: w'_def runs_grow_def)
  show "sc_now w' \<le> u \<Longrightarrow> k' \<noteq> k \<Longrightarrow> live (sc_runs w') u k' = live (sc_runs w) u k'"
    using kept.keep_alive [OF u(1) ts(2,3), of u k r] f ts by (simp add: w'_def)
qed

lemma keep_ended_ok:
  assumes "runs_ok w" "clock2 w = (ts, w1)" "run_ended w r"
    and w'_def: "w' = w1\<lparr>sc_ended := snd (put_kept ts k r (sc_ended w1))\<rparr>"
  shows "runs_ok w'" "runs_grow w w'" "sc_runs w' = sc_runs w" "ex_expiry (sc_ended w') = ex_expiry (sc_ended w)"
    "sc_now w' \<le> u \<Longrightarrow> live (sc_ended w') u =
       (live (sc_ended w) u)(k := if u - sc_now w' < ex_expiry (sc_ended w) then Some r else None)"
proof -
  from assms(2) obtain t1 t2 where ts: "ts = (t1, t2)" "sc_now w \<le> t1" "t1 \<le> t2" "sc_now w1 = t2"
    and o: "only_later w w1" by (rule clock2E)
  note f = only_laterD [OF o]
  have u: "unlimited (sc_now w) (sc_ended w)" "all_live (run_ended w) (sc_now w) (sc_ended w)"
    using assms(1) by (simp_all add: runs_ok_def)
  note kg = kept.keep_good [OF u(1) ts(2,3), of k r]
  have there: "run_there w' = run_there w" "run_ended w' = run_ended w" and n: "sc_now w \<le> sc_now w'"
    using f ts by (auto simp: w'_def run_there_def run_ended_def run_at_def fun_eq_iff)
  show "runs_ok w'"
    using assms(1,3) there n f ts kg all_live_put [OF u(1) ts(2,3) u(2)]
    by (auto simp: w'_def runs_ok_def intro: unlimited_mono all_live_later)
  show "runs_grow w w'" "sc_runs w' = sc_runs w" "ex_expiry (sc_ended w') = ex_expiry (sc_ended w)"
    using there n f kg ts by (simp_all add: w'_def runs_grow_def)
  show "sc_now w' \<le> u \<Longrightarrow> live (sc_ended w') u =
       (live (sc_ended w) u)(k := if u - sc_now w' < ex_expiry (sc_ended w) then Some r else None)"
    using kept.keep_alive [OF u(1) ts(2,3), of u k r] f ts by (simp add: w'_def)
qed

section \<open>The operations on runs\<close>

lemma run_for_ok:
  assumes "runs_ok w" "run_for k w = (r, w')"
  shows "runs_ok w'" "runs_grow w w'" "run_there w' r"
    "sealed k' until w \<Longrightarrow> sealed k' until w'"
    "sealed k until w \<Longrightarrow> sc_now w' < until \<Longrightarrow> run_ended w' r"
proof -
  obtain a w1 where 1: "get_run k w = (a, w1)" by (cases "get_run k w")
  note g1 = get_run_ok [OF assms(1) 1]
  obtain b w2 where 2: "get_ended k w1 = (b, w2)" by (cases "get_ended k w1")
  note g2 = get_ended_ok [OF g1(1) 2]
  have "runs_ok w' \<and> runs_grow w w' \<and> run_there w' r \<and> (sealed k' until w \<longrightarrow> sealed k' until w')
    \<and> (sealed k until w \<longrightarrow> sc_now w' < until \<longrightarrow> run_ended w' r)"
  proof (cases a)
    case (Some x)
    with assms(2) 1 have e: "r = x" "w' = w1" by (simp_all add: run_for_def)
    have "\<not> sc_now w < until" if "sealed k until w"
      using sealedD [OF that, of "sc_now w"] g1(8) Some by auto
    then show ?thesis
      using e g1(1,2) g1(5) [OF Some] sealed_get_run [OF _ assms(1) 1, of k' until] grow_now [OF g1(2)] by auto
  next
    case None
    show ?thesis
    proof (cases b)
      case (Some x)
      with assms(2) 1 2 None have e: "r = x" "w' = w2" by (simp_all add: run_for_def)
      have "run_ended w2 x" by (rule g2(6) [OF Some])
      then show ?thesis
        using e g2(1) runs_grow_trans [OF g1(2) g2(2)]
          sealed_get_ended [OF sealed_get_run [OF _ assms(1) 1] g1(1) 2, of k' until]
        by (auto simp: run_ended_def)
    next
      case b: None
      obtain x w3 where 3: "add_run new_run w2 = (x, w3)" by (cases "add_run new_run w2")
      note g3 = add_run_ok [OF g2(1) 3]
      obtain ts w4 where 4: "clock2 w3 = (ts, w4)" by (cases "clock2 w3")
      note g4 = keep_run_ok [OF g3(1) 4 g3(3) refl, of k]
      have e: "r = x" "w' = w4\<lparr>sc_runs := snd (put_kept ts k x (sc_runs w4))\<rparr>"
        using assms(2) 1 2 3 4 None b by (auto simp: run_for_def)
      have gr: "runs_grow w w'" using e g4(2) runs_grow_trans g1(2) g2(2) g3(2) by blast
      have s3: "sealed j until w3" if "sealed j until w" for j
        using sealed_get_ended [OF sealed_get_run [OF that assms(1) 1] g1(1) 2]
        by (rule sealed_frame) (simp_all add: g3)
      have late: "\<not> sc_now w3 < until" if s: "sealed k until w"
      proof
        assume "sc_now w3 < until"
        with sealedD [OF sealed_get_run [OF s assms(1) 1], of "sc_now w2"] grow_now [OF g2(2)] g3(7)
        obtain y where "live (sc_ended w1) (sc_now w2) k = Some y" by auto
        from g2(9) [OF order_refl this] b show False by simp
      qed
      have n: "sc_now w3 \<le> sc_now w'" using grow_now [OF g4(2)] e by simp
      have "sealed k' until w'" if s: "sealed k' until w"
      proof (cases "k' = k")
        case True
        with late s have "\<not> sc_now w3 < until" by simp
        with s3 [OF s] n g4(3) e show ?thesis by (auto simp: sealed_def)
      next
        case False
        with s3 [OF s] n g4(3,4) e show ?thesis by (auto simp: sealed_def)
      qed
      moreover have "run_there w' x" using runs_grow_there [OF g4(2) g3(3)] e by simp
      ultimately show ?thesis using e g4(1) gr late n by auto
    qed
  qed
  then show "runs_ok w'" "runs_grow w w'" "run_there w' r" "sealed k' until w \<Longrightarrow> sealed k' until w'"
    "sealed k until w \<Longrightarrow> sc_now w' < until \<Longrightarrow> run_ended w' r" by blast+
qed

lemma refuse_run_ok:
  assumes "runs_ok w" "run_there w r"
  shows "runs_ok (refuse_run r w)" "runs_grow w (refuse_run r w)" "run_ended (refuse_run r w) r"
    "sc_runs (refuse_run r w) = sc_runs w" "sc_ended (refuse_run r w) = sc_ended w"
proof -
  show f: "sc_runs (refuse_run r w) = sc_runs w" "sc_ended (refuse_run r w) = sc_ended w"
    by (simp_all add: refuse_run_def set_run_def)
  show g: "runs_grow w (refuse_run r w)"
    unfolding runs_grow_def run_ended_def run_there_def
  proof (intro conjI allI impI)
    fix x assume "x < length (sc_run_objects w) \<and> rn_refusal (run_at x w) \<noteq> None"
    then show "x < length (sc_run_objects (refuse_run r w))" "rn_refusal (run_at x (refuse_run r w)) \<noteq> None"
      by (auto simp: refuse_run_def set_run_def run_at_def nth_list_update_neq intro: notI)
        (metis nth_list_update_eq nth_list_update_neq option.distinct(1) sidecar_run.select_convs(4) sidecar_run.surjective sidecar_run.update_convs(4))
  qed (simp_all add: refuse_run_def set_run_def)
  show "runs_ok (refuse_run r w)" using assms(1) g f by (rule runs_ok_grow)
  show "run_ended (refuse_run r w) r"
    using assms(2) by (auto simp: refuse_run_def set_run_def run_ended_def run_there_def run_at_def)
qed

lemma pop_run_ok:
  assumes "runs_ok w" "read_clock w = (t, w1)" "pop_kept t k (sc_runs w1) = (r, gone, m)" "w' = w1\<lparr>sc_runs := m\<rparr>"
  shows "runs_ok w'" "runs_grow w w'" "sc_ended w' = sc_ended w" "r = Some x \<Longrightarrow> run_there w' x"
    "sc_now w' \<le> u \<Longrightarrow> live (sc_runs w') u = (live (sc_runs w) u)(k := None)"
proof -
  have o: "only_later w w1" using read_clock_only [of w] assms(2) by simp
  have ts: "sc_now w \<le> t" "sc_now w1 = t" using read_clock_later [OF assms(2)] by simp_all
  note f = only_laterD [OF o]
  have u: "unlimited (sc_now w) (sc_runs w)" "all_live (run_there w) (sc_now w) (sc_runs w)"
    using assms(1) by (simp_all add: runs_ok_def)
  have m: "fst (pop_kept t k (sc_runs w)) = r" "snd (snd (pop_kept t k (sc_runs w))) = m" using assms(3) f by simp_all
  have there: "run_there w' = run_there w" "run_ended w' = run_ended w" and n: "sc_now w \<le> sc_now w'"
    using f ts assms(4) by (auto simp: run_there_def run_ended_def run_at_def fun_eq_iff)
  show "runs_ok w'"
    using assms(1,4) there n f ts m kept.forget_good [OF u(1) ts(1), of k] all_live_pop [OF u(1) ts(1) u(2), of k]
    by (auto simp: runs_ok_def intro: unlimited_mono all_live_later)
  show "runs_grow w w'" "sc_ended w' = sc_ended w" using there n f assms(4) by (simp_all add: runs_grow_def)
  show "r = Some x \<Longrightarrow> run_there w' x"
    using kept.forget_value [OF u(1) ts(1), of k] all_liveD [OF u(2) ts(1), of k x] m there by simp
  show "sc_now w' \<le> u \<Longrightarrow> live (sc_runs w') u = (live (sc_runs w) u)(k := None)"
    using kept.forget_alive [OF u(1) ts(1), of u k] m f ts assms(4) by simp
qed

text \<open>\<open>end_run\<close> seals the key for as long as a run that is not named is kept.\<close>

lemma note_ended_ok:
  assumes "runs_ok w" "refusal \<noteq> None"
    "\<And>u. sc_now w \<le> u \<Longrightarrow> live (sc_runs w) u k = None"
  defines "w' \<equiv> note_ended k refusal w"
  shows "runs_ok w'" "runs_grow w w'" "sealed k (sc_now w' + ex_expiry (sc_ended w')) w'"
    "ex_expiry (sc_ended w') = ex_expiry (sc_ended w)"
    "sealed k' until w \<Longrightarrow> sealed k' until w'"
proof -
  obtain b w1 where 1: "get_ended k w = (b, w1)" by (cases "get_ended k w")
  note g1 = get_ended_ok [OF assms(1) 1]
  have "runs_ok w' \<and> runs_grow w w' \<and> sealed k (sc_now w' + ex_expiry (sc_ended w')) w'
    \<and> ex_expiry (sc_ended w') = ex_expiry (sc_ended w) \<and> (sealed k' until w \<longrightarrow> sealed k' until w')"
  proof (cases b)
    case (Some x)
    then have e: "w' = w1" using 1 by (simp add: w'_def note_ended_def)
    have "sealed k (sc_now w1 + ex_expiry (sc_ended w1)) w1"
      using g1(3,5) g1(8) [OF Some] assms(3) grow_now [OF g1(2)] by (auto simp: sealed_def)
    then show ?thesis using e g1(1,2,5) sealed_get_ended [OF _ assms(1) 1, of k' until] by simp
  next
    case None
    obtain x w2 where 2: "add_run (new_run\<lparr>rn_refusal := refusal\<rparr>) w1 = (x, w2)"
      by (cases "add_run (new_run\<lparr>rn_refusal := refusal\<rparr>) w1")
    note g2 = add_run_ok [OF g1(1) 2]
    obtain ts w3 where 3: "clock2 w2 = (ts, w3)" by (cases "clock2 w2")
    have "run_ended w2 x" using g2(3,4) assms(2) by (simp add: run_ended_def)
    note g3 = keep_ended_ok [OF g2(1) 3 this refl, of k]
    have e: "w' = w3\<lparr>sc_ended := snd (put_kept ts k x (sc_ended w3))\<rparr>"
      using 1 2 3 None by (simp add: w'_def note_ended_def)
    have gr: "runs_grow w w'" using e g3(2) runs_grow_trans g1(2) g2(2) by blast
    have ex: "ex_expiry (sc_ended w') = ex_expiry (sc_ended w)" using e g3(4) g2(6) g1(5) by simp
    have runs: "sc_runs w' = sc_runs w" using e g3(3) g2(5) g1(3) by simp
    have liv: "live (sc_ended w') u = (live (sc_ended w2) u)(k := if u - sc_now w' < ex_expiry (sc_ended w2) then Some x else None)"
      if "sc_now w' \<le> u" for u using that e g3(5) by simp
    have "sealed k (sc_now w' + ex_expiry (sc_ended w')) w'"
      using liv assms(3) grow_now [OF gr] runs ex g2(6) g1(5) by (auto simp: sealed_def)
    moreover have "sealed k' until w'" if s: "sealed k' until w"
    proof -
      have s2: "sealed k' until w2"
        using sealed_get_ended [OF s assms(1) 1] by (rule sealed_frame) (simp_all add: g2)
      have n2: "sc_now w2 \<le> sc_now w'" using grow_now [OF g3(2)] e by simp
      have "\<exists>r. live (sc_ended w') u k' = Some r" if u: "sc_now w' \<le> u" "u < until" for u
        using liv [OF u(1)] sealedD [OF s2, of u] u s2 n2 by (auto simp: sealed_def)
      with s2 n2 runs g2(5) g1(3) g2(6) ex g1(5) show ?thesis by (auto simp: sealed_def)
    qed
    ultimately show ?thesis using e g3(1) gr ex by simp
  qed
  then show "runs_ok w'" "runs_grow w w'" "sealed k (sc_now w' + ex_expiry (sc_ended w')) w'"
    "ex_expiry (sc_ended w') = ex_expiry (sc_ended w)"
    "sealed k' until w \<Longrightarrow> sealed k' until w'" by blast+
qed

lemma end_run_ok:
  assumes "runs_ok w" "end_run k w = (ok, w')"
  shows "runs_ok w'" "runs_grow w w'" "sealed k' until w \<Longrightarrow> sealed k' until w'"
    "ok \<Longrightarrow> sealed k (sc_now w' + ex_expiry (sc_ended w')) w'"
    "ok \<Longrightarrow> live (sc_runs w) (sc_now w') k = Some x \<Longrightarrow> run_ended w' x"
proof -
  obtain t w1 where 1: "read_clock w = (t, w1)" by (cases "read_clock w")
  obtain r gone m where 2: "pop_kept t k (sc_runs w1) = (r, gone, m)" by (cases "pop_kept t k (sc_runs w1)")
  define w2 where "w2 = w1\<lparr>sc_runs := m\<rparr>"
  note p = pop_run_ok [OF assms(1) 1 2 w2_def]
  have gone: "live (sc_runs w2) u k = None" if "sc_now w2 \<le> u" for u using p(5) [OF that] by simp
  have s2: "sealed j until w2" if s: "sealed j until w" for j
    using s p(3,5) grow_now [OF p(2)] by (auto simp: sealed_def)
  have popped: "r = Some x" if l: "live (sc_runs w) (sc_now w') k = Some x" and n: "sc_now w2 \<le> sc_now w'"
  proof -
    have t: "sc_now w2 = t" "sc_now w \<le> t" using read_clock_later [OF 1] by (simp_all add: w2_def)
    have u: "unlimited (sc_now w) (sc_runs w)" using assms(1) by (simp add: runs_ok_def)
    have "sc_runs w1 = sc_runs w" using read_clock_fields(1) [of w] 1 by simp
    with kept.forget_value [OF u t(2), of k] 2 have "live (sc_runs w) t k = r" by simp
    with live_earlier [OF l, of t] n t show ?thesis by simp
  qed
  have "runs_ok w' \<and> runs_grow w w' \<and> (sealed k' until w \<longrightarrow> sealed k' until w')
    \<and> (ok \<longrightarrow> sealed k (sc_now w' + ex_expiry (sc_ended w')) w')
    \<and> (ok \<longrightarrow> live (sc_runs w) (sc_now w') k = Some x \<longrightarrow> run_ended w' x)"
  proof (cases r)
    case None
    obtain b w3 where 3: "get_ended k w2 = (b, w3)" by (cases "get_ended k w2")
    note g = get_ended_ok [OF p(1) 3]
    have e: "ok \<longleftrightarrow> b \<noteq> None" "w' = w3" using assms(2) 1 2 3 None by (auto simp: end_run_def w2_def)
    have "sealed k (sc_now w3 + ex_expiry (sc_ended w3)) w3" if "b = Some y" for y
      using g(3,5) g(8) [OF that] gone grow_now [OF g(2)] by (auto simp: sealed_def)
    moreover have "live (sc_runs w) (sc_now w') k \<noteq> Some x" using popped None grow_now [OF g(2)] e by auto
    ultimately show ?thesis
      using e g(1) runs_grow_trans [OF p(2) g(2)] sealed_get_ended [OF s2 p(1) 3, of k'] by auto
  next
    case (Some y)
    let ?w3 = "refuse_run y w2"
    note f = refuse_run_ok [OF p(1) p(4) [OF Some]]
    have ref: "rn_refusal (run_at y ?w3) \<noteq> None" using f(3) by (simp add: run_ended_def)
    have n3: "sc_now ?w3 = sc_now w2" by (simp add: refuse_run_def set_run_def)
    have gone3: "live (sc_runs ?w3) u k = None" if "sc_now ?w3 \<le> u" for u using gone that f(4) n3 by simp
    note n = note_ended_ok [OF f(1) ref gone3]
    have e: "ok" "w' = note_ended k (rn_refusal (run_at y ?w3)) ?w3"
      using assms(2) 1 2 Some by (auto simp: end_run_def w2_def Let_def)
    have s3: "sealed k' until ?w3" if "sealed k' until w"
      using s2 [OF that] by (rule sealed_frame) (simp_all add: f n3)
    have "runs_grow w2 w'" using runs_grow_trans [OF f(2) n(2)] e by simp
    then have "run_ended w' y" "sc_now w2 \<le> sc_now w'"
      using runs_grow_ended [OF n(2) f(3)] e grow_now by simp_all
    then show ?thesis
      using e n(1,3) s3 n(5) [of k' until] runs_grow_trans [OF p(2) runs_grow_trans [OF f(2) n(2)]] popped Some by auto
  qed
  then show "runs_ok w'" "runs_grow w w'" "sealed k' until w \<Longrightarrow> sealed k' until w'"
    "ok \<Longrightarrow> sealed k (sc_now w' + ex_expiry (sc_ended w')) w'"
    "ok \<Longrightarrow> live (sc_runs w) (sc_now w') k = Some x \<Longrightarrow> run_ended w' x" by blast+
qed

section \<open>Any sequence of operations\<close>

text \<open>The operations of the state, and a change made in place to a run that is held somewhere,
  which never takes a refusal back.\<close>

datatype state_op =
    RunFor string
  | ExistingRun string
  | EndRun string
  | Hold string held
  | Release string
  | RecorderFor string
  | RecordsOf string
  | Register string string task_facts rat nat
  | Registration string string
  | BeginAttempt string string
  | AttemptsFor string
  | RunChanged nat sidecar_run

definition change_run :: "nat \<Rightarrow> sidecar_run \<Rightarrow> sidecar \<Rightarrow> sidecar" where
  "change_run r run w =
     set_run r (if rn_refusal run = None then run\<lparr>rn_refusal := rn_refusal (run_at r w)\<rparr> else run) w"

fun do_op :: "sidecar \<Rightarrow> state_op \<Rightarrow> sidecar" where
  "do_op w (RunFor k) = snd (run_for k w)"
| "do_op w (ExistingRun k) = snd (existing_run k w)"
| "do_op w (EndRun k) = snd (end_run k w)"
| "do_op w (Hold k h) = hold k h w"
| "do_op w (Release k) = snd (release k w)"
| "do_op w (RecorderFor k) = snd (recorder_for k w)"
| "do_op w (RecordsOf k) = snd (records_of k w)"
| "do_op w (Register e t f x n) = snd (register e t f x n w)"
| "do_op w (Registration e t) = snd (registration e t w)"
| "do_op w (BeginAttempt k x) = snd (begin_attempt k x w)"
| "do_op w (AttemptsFor k) = snd (attempts_for k w)"
| "do_op w (RunChanged r run) = change_run r run w"

definition do_ops :: "sidecar \<Rightarrow> state_op list \<Rightarrow> sidecar" where
  "do_ops w ops = foldl do_op w ops"

text \<open>Operations that do not reach the runs.\<close>

definition leaves_runs :: "sidecar \<Rightarrow> sidecar \<Rightarrow> bool" where
  "leaves_runs w w' \<longleftrightarrow> sc_runs w' = sc_runs w \<and> sc_ended w' = sc_ended w
     \<and> sc_run_objects w' = sc_run_objects w \<and> sc_now w \<le> sc_now w'"

lemma leaves_runs_trans: "leaves_runs w w' \<Longrightarrow> leaves_runs w' w'' \<Longrightarrow> leaves_runs w w''"
  by (auto simp: leaves_runs_def)

lemma only_later_leaves: "only_later w w' \<Longrightarrow> leaves_runs w w'"
  using only_laterD [of w w'] by (simp add: leaves_runs_def)

lemma leaves_read: "read_clock w = (t, w') \<Longrightarrow> leaves_runs w w'"
  using only_later_leaves [OF read_clock_only [of w]] by simp

lemma leaves_clock2: "clock2 w = (ts, w') \<Longrightarrow> leaves_runs w w'"
  by (auto elim!: clock2E intro: only_later_leaves)

lemma leaves_clock3: "clock3 w = (ts, w') \<Longrightarrow> leaves_runs w w'"
  by (auto elim!: clock3E intro: only_later_leaves)

lemma leaves_other [simp]:
  "leaves_runs w (w'\<lparr>sc_held := a\<rparr>) = leaves_runs w w'" "leaves_runs w (w'\<lparr>sc_recorders := b\<rparr>) = leaves_runs w w'"
  "leaves_runs w (w'\<lparr>sc_dropped := c\<rparr>) = leaves_runs w w'" "leaves_runs w (w'\<lparr>sc_attempts := d\<rparr>) = leaves_runs w w'"
  "leaves_runs w (w'\<lparr>sc_tasks := e\<rparr>) = leaves_runs w w'" "leaves_runs w (w'\<lparr>sc_attempt_objects := f\<rparr>) = leaves_runs w w'"
  "leaves_runs w (w'\<lparr>sc_record_objects := g\<rparr>) = leaves_runs w w'" "leaves_runs w w"
  by (simp_all add: leaves_runs_def)

lemma leaves_hold: "leaves_runs w (hold k h w)"
  by (simp add: hold_def leaves_clock2 split: prod.splits)

lemma leaves_release: "leaves_runs w (snd (release k w))"
  by (simp add: release_def leaves_read split: prod.splits)

lemma leaves_get_recorder: "get_recorder k w = (r, w') \<Longrightarrow> leaves_runs w w'"
  by (auto simp: get_recorder_def leaves_clock3 split: prod.splits)

lemma leaves_clock2_rec: "clock2 (w\<lparr>sc_record_objects := xs\<rparr>) = (ts, w') \<Longrightarrow> leaves_runs w w'"
  using leaves_clock2 [of "w\<lparr>sc_record_objects := xs\<rparr>" ts w'] by (simp add: leaves_runs_def)

lemma leaves_recorder_for: "leaves_runs w (snd (recorder_for k w))"
  by (auto simp: recorder_for_def Let_def split: prod.splits option.splits
      intro: leaves_runs_trans [OF leaves_get_recorder] leaves_get_recorder leaves_clock2_rec)

lemma leaves_records_of: "leaves_runs w (snd (records_of k w))"
  by (auto simp: records_of_def leaves_get_recorder split: prod.splits)

lemma leaves_expire_tasks: "leaves_runs w (expire_tasks w)"
  by (simp add: expire_tasks_def leaves_read split: prod.splits)

lemma leaves_keep_task: "leaves_runs w (keep_task k x f w)"
  by (simp add: keep_task_def leaves_read split: prod.splits)

lemma leaves_register: "leaves_runs w (snd (register e t f x n w))"
  by (auto simp: register_def Let_def intro: leaves_runs_trans [OF leaves_expire_tasks] leaves_expire_tasks leaves_keep_task)

lemma leaves_registration: "leaves_runs w (snd (registration e t w))"
  by (auto simp: registration_def Let_def split: option.splits prod.splits
      intro: leaves_runs_trans [OF leaves_expire_tasks] leaves_expire_tasks leaves_keep_task)

lemma leaves_note_dropped: "leaves_runs w (note_dropped ks w)"
proof (induction ks arbitrary: w)
  case (Cons k ks)
  obtain ts w1 where c: "clock2 w = (ts, w1)" by (cases "clock2 w")
  let ?w = "w1\<lparr>sc_dropped := snd (put_kept ts k True (sc_dropped w1))\<rparr>"
  have "note_dropped (k # ks) w = note_dropped ks ?w" using c by (simp add: note_dropped_def)
  moreover have "leaves_runs w (note_dropped ks ?w)"
    by (rule leaves_runs_trans [OF _ Cons.IH]) (simp add: leaves_clock2 [OF c])
  ultimately show ?case by simp
qed (simp add: note_dropped_def)

lemma leaves_get_attempts: "get_attempts k w = (r, w') \<Longrightarrow> leaves_runs w w'"
  by (auto simp: get_attempts_def Let_def split: prod.splits
      intro: leaves_runs_trans [OF _ leaves_note_dropped] dest!: leaves_clock3)

lemma leaves_attempts_for: "leaves_runs w (snd (attempts_for k w))"
  by (auto simp: attempts_for_def Let_def split: prod.splits option.splits
      intro: leaves_runs_trans [OF leaves_get_attempts] leaves_get_attempts leaves_clock3)

lemma leaves_begin_attempt: "leaves_runs w (snd (begin_attempt k x w))"
proof -
  obtain a w1 where 1: "get_attempts k w = (a, w1)" by (cases "get_attempts k w")
  obtain ts w2 where 2: "clock2 w1 = (ts, w2)" by (cases "clock2 w1")
  obtain gone m where 3: "put_kept ts k [] (sc_attempts w2) = (gone, m)" by (cases "put_kept ts k [] (sc_attempts w2)")
  have "leaves_runs w1 (note_dropped gone (w2\<lparr>sc_attempts := m\<rparr>))"
    by (rule leaves_runs_trans [OF _ leaves_note_dropped]) (simp add: leaves_clock2 [OF 2])
  with 1 2 3 show ?thesis
    by (auto simp: begin_attempt_def Let_def append_attempt_def
        intro: leaves_get_attempts leaves_runs_trans [OF leaves_get_attempts [OF 1]])
qed

lemma do_op_ok:
  assumes "runs_ok w"
  shows "runs_ok (do_op w p) \<and> runs_grow w (do_op w p) \<and> (sealed k until w \<longrightarrow> sealed k until (do_op w p))"
proof -
  have leaves: "runs_ok w' \<and> runs_grow w w' \<and> (sealed k until w \<longrightarrow> sealed k until w')" if "leaves_runs w w'" for w'
    using that assms runs_ok_frame [OF assms] sealed_frame [of k until w w'] by (auto simp: leaves_runs_def)
  show ?thesis
  proof (cases p)
    case (RunFor j)
    with run_for_ok [OF assms] show ?thesis by (cases "run_for j w") auto
  next
    case (ExistingRun j)
    with get_run_ok [OF assms] sealed_get_run [OF _ assms] show ?thesis
      by (cases "get_run j w") (auto simp: existing_run_def)
  next
    case (EndRun j)
    with end_run_ok [OF assms] show ?thesis by (cases "end_run j w") auto
  next
    case (RunChanged r run)
    have g: "runs_grow w (change_run r run w)"
      unfolding runs_grow_def run_ended_def run_there_def
    proof (intro conjI allI impI)
      fix x assume x: "x < length (sc_run_objects w) \<and> rn_refusal (run_at x w) \<noteq> None"
      then show "x < length (sc_run_objects (change_run r run w))" by (simp add: change_run_def set_run_def)
      from x show "rn_refusal (run_at x (change_run r run w)) \<noteq> None"
        by (cases "x = r") (auto simp: change_run_def set_run_def run_at_def)
    qed (simp_all add: change_run_def set_run_def)
    have f: "sc_runs (change_run r run w) = sc_runs w" "sc_ended (change_run r run w) = sc_ended w"
      "sc_now (change_run r run w) = sc_now w" by (simp_all add: change_run_def set_run_def)
    with RunChanged g runs_ok_grow [OF assms g f(1,2)] show ?thesis by (auto intro: sealed_frame)
  qed (simp_all add: leaves leaves_hold leaves_release leaves_recorder_for leaves_records_of leaves_register
      leaves_registration leaves_begin_attempt leaves_attempts_for)
qed

lemma do_ops_ok:
  "runs_ok w \<Longrightarrow> runs_ok (do_ops w ps) \<and> runs_grow w (do_ops w ps) \<and> (sealed k until w \<longrightarrow> sealed k until (do_ops w ps))"
proof (induction ps arbitrary: w)
  case (Cons p ps)
  from do_op_ok [OF Cons.prems, of p k until] Cons.IH [of "do_op w p"] show ?case
    by (auto simp: do_ops_def intro: runs_grow_trans)
qed (simp add: do_ops_def runs_grow_refl)

lemma memory_state_ok: "runs_ok (memory_state expiry ticks)"
  by (auto simp: runs_ok_def memory_state_def unlimited_def expiring_ok_def oldest_first_def new_expiring_def
      all_live_def live_def still_def)

lemma ended_stays:
  assumes "end_run k (do_ops (memory_state expiry ticks) before) = (True, w)"
    "run_for k (do_ops w after) = (r, w')" "sc_now w' < sc_now w + expiry"
  shows "rn_refusal (run_at r w') \<noteq> None
    \<and> (\<forall>x. live (sc_runs (do_ops (memory_state expiry ticks) before)) (sc_now w) k = Some x \<longrightarrow>
          rn_refusal (run_at x w') \<noteq> None)"
proof -
  let ?s = "do_ops (memory_state expiry ticks) before"
  have s: "runs_ok ?s" "ex_expiry (sc_ended ?s) = expiry"
    using do_ops_ok [OF memory_state_ok, of expiry ticks before]
    by (auto simp: runs_grow_def memory_state_def new_expiring_def)
  note e = end_run_ok [OF s(1) assms(1)]
  have seal: "sealed k (sc_now w + expiry) w"
    using e(2,4) s(2) by (simp add: runs_grow_def)
  note d = do_ops_ok [OF e(1), of after k "sc_now w + expiry"]
  note f = run_for_ok [of "do_ops w after" k r w']
  have "run_ended w' r" using f(5) d seal assms(2,3) by blast
  moreover have "run_ended w' x" if "live (sc_runs ?s) (sc_now w) k = Some x" for x
    using e(5) [OF _ that] d f(2) assms(2) runs_grow_ended by blast
  ultimately show ?thesis by (simp add: run_ended_def)
qed

lemma end_known: "fst (end_run ''a'' (do_ops (memory_state 10 [1, 1, 1]) [RunFor ''a'']))"
  by code_simp

lemma end_soon:
  "sc_now (snd (run_for ''a'' (do_ops (snd (end_run ''a'' (do_ops (memory_state 10 [1, 1, 1]) [RunFor ''a''])))
     [RunFor ''b'']))) < sc_now (snd (end_run ''a'' (do_ops (memory_state 10 [1, 1, 1]) [RunFor ''a'']))) + 10"
  by code_simp

text \<open>C39: A run that has ended stays ended: from a sidecar that has just started, after any
  operations, once ending a run said that it was known, and after any more operations, asking for
  the run, within the time it is kept, finds one that is refused; and so does whoever still held
  it when it was ended.\<close>

theorem ended_run_stays_ended:
  assumes "end_run k (do_ops (memory_state expiry ticks) before) = (True, w)"
    "run_for k (do_ops w after) = (r, w')" "sc_now w' < sc_now w + expiry"
  shows "rn_refusal (run_at r w') \<noteq> None
    \<and> (\<forall>x. live (sc_runs (do_ops (memory_state expiry ticks) before)) (sc_now w) k = Some x \<longrightarrow>
          rn_refusal (run_at x w') \<noteq> None)"
  using assms by (rule ended_stays)

theorem ended_run_stays_ended_witness:
  "\<exists>w w'. end_run ''a'' (do_ops (memory_state 10 [1, 1, 1]) [RunFor ''a'']) = (True, w)
     \<and> w' = snd (run_for ''a'' (do_ops w [RunFor ''b'']))
     \<and> rn_refusal (run_at (fst (run_for ''a'' (do_ops w [RunFor ''b'']))) w') \<noteq> None"
proof -
  let ?s = "do_ops (memory_state 10 [1, 1, 1]) [RunFor ''a'']"
  let ?w = "snd (end_run ''a'' ?s)"
  have e: "end_run ''a'' ?s = (True, ?w)" using end_known by (simp add: prod_eq_iff)
  have r: "run_for ''a'' (do_ops ?w [RunFor ''b'']) =
      (fst (run_for ''a'' (do_ops ?w [RunFor ''b''])), snd (run_for ''a'' (do_ops ?w [RunFor ''b''])))" by simp
  show ?thesis using ended_run_stays_ended [OF e r end_soon] e by blast
qed

end
