(* ===== verification/History.thy ===== *)
theory History
  imports SidecarState "HOL-Library.Sublist"
begin

text \<open>
  What a conversation has sent the model (\<open>sidecar/_history.py\<close>): each request is matched against
  the earlier request it continues, and only what is new is added. \<open>SequenceMatcher\<close> of Python's
  \<open>difflib\<close> is written out for the way it is used: the longest common block, the first of those
  alike, and what stands before and after it again. What matched is a mask over the request's
  messages. A message's dump, its text and its digest are parameters.
\<close>

section \<open>What a message is known by\<close>

record history_config =
  hy_loads :: "string \<Rightarrow> json option"
  hy_dump :: "chat_message \<Rightarrow> fields"
  hy_text :: "fields \<Rightarrow> string"
  hy_digest :: "string \<Rightarrow> string"

text \<open>\<open>_strings\<close>: every string a body holds, keys of objects apart.\<close>

fun strings_in :: "json \<Rightarrow> string list" where
  "strings_in (JStr s) = [s]"
| "strings_in (JList js) = concat (map strings_in js)"
| "strings_in (JObj ps) = concat (map (\<lambda>p. strings_in (snd p)) ps)"
| "strings_in j = []"

definition strings_of :: "history_config \<Rightarrow> string \<Rightarrow> string list" where
  "strings_of hc body = (case hy_loads hc body of None \<Rightarrow> [] | Some j \<Rightarrow> strings_in j)"

definition carried_in :: "string list \<Rightarrow> json \<Rightarrow> bool" where
  "carried_in carried j \<longleftrightarrow> (case j of JStr s \<Rightarrow> s \<in> set carried | _ \<Rightarrow> False)"

text \<open>\<open>_without_made_up_id\<close>.\<close>

definition without_made_up_id :: "string list \<Rightarrow> json \<Rightarrow> json" where
  "without_made_up_id carried item =
     (case item of
        JObj ps \<Rightarrow>
          (case map_of ps ''id'' of
             Some j \<Rightarrow> if carried_in carried j then item else JObj (filter (\<lambda>p. fst p \<noteq> ''id'') ps)
           | None \<Rightarrow> item)
      | _ \<Rightarrow> item)"

definition clean_items :: "string list \<Rightarrow> string \<Rightarrow> fields \<Rightarrow> fields" where
  "clean_items carried name dumped =
     (case map_of dumped name of
        Some (JList items) \<Rightarrow> dict_set dumped name (JList (map (without_made_up_id carried) items))
      | _ \<Rightarrow> dumped)"

text \<open>\<open>_key\<close>, and its digest.\<close>

definition message_key :: "history_config \<Rightarrow> string list \<Rightarrow> chat_message \<Rightarrow> string" where
  "message_key hc carried message =
     (let dumped = hy_dump hc message;
          named = (if field dumped ''tool_call_id'' \<noteq> JNull \<and> \<not> carried_in carried (field dumped ''tool_call_id'')
                   then dict_set dumped ''tool_call_id'' JNull else dumped)
      in hy_text hc (clean_items carried ''content'' (clean_items carried ''tool_calls'' named)))"

definition message_keys :: "history_config \<Rightarrow> messages \<Rightarrow> string \<Rightarrow> string list" where
  "message_keys hc input body =
     map (\<lambda>m. hy_digest hc (message_key hc (strings_of hc body) m)) input"

section \<open>Matching a request against an earlier one\<close>

text \<open>\<open>_begun\<close>: for how many messages they are the same.\<close>

fun same_start :: "string list \<Rightarrow> string list \<Rightarrow> nat" where
  "same_start (x # xs) (y # ys) = (if x = y then Suc (same_start xs ys) else 0)"
| "same_start xs ys = 0"

text \<open>The longest block the two share, the first in the earlier request and then the first in this
  one, as \<open>find_longest_match\<close> finds it: where it starts in each, and its length.\<close>

definition block_at :: "string list \<Rightarrow> string list \<Rightarrow> nat \<times> nat \<Rightarrow> nat" where
  "block_at a b p = same_start (drop (fst p) a) (drop (snd p) b)"

definition longest_block :: "string list \<Rightarrow> string list \<Rightarrow> (nat \<times> nat \<times> nat) option" where
  "longest_block a b =
     (case first_max (block_at a b) (List.product [0..<length a] [0..<length b]) of
        None \<Rightarrow> None
      | Some (i, j) \<Rightarrow> if block_at a b (i, j) = 0 then None else Some (i, j, block_at a b (i, j)))"

lemma same_start_take: "take (same_start a b) a = take (same_start a b) b"
  by (induction a b rule: same_start.induct) auto

lemma same_start_le: "same_start a b \<le> length a" "same_start a b \<le> length b"
  by (induction a b rule: same_start.induct) auto

lemma longest_block_Some:
  assumes "longest_block a b = Some (i, j, k)"
  shows "0 < k" "i + k \<le> length a" "j + k \<le> length b" "take k (drop i a) = take k (drop j b)"
proof -
  from assms obtain "first_max (block_at a b) (List.product [0..<length a] [0..<length b]) = Some (i, j)"
    and k: "k = block_at a b (i, j)" "0 < k"
    by (auto simp: longest_block_def split: option.splits if_splits)
  then have "i < length a" "j < length b" using first_max_Some by fastforce+
  with k same_start_le [of "drop i a" "drop j b"] same_start_take [of "drop i a" "drop j b"]
  show "0 < k" "i + k \<le> length a" "j + k \<le> length b" "take k (drop i a) = take k (drop j b)"
    by (auto simp: block_at_def)
qed

text \<open>\<open>get_matching_blocks\<close>, as the mask of what it matches in this request.\<close>

function exact_mask :: "string list \<Rightarrow> string list \<Rightarrow> bool list" where
  "exact_mask a b =
     (case longest_block a b of
        None \<Rightarrow> replicate (length b) False
      | Some (i, j, k) \<Rightarrow>
          exact_mask (take i a) (take j b) @ replicate k True @ exact_mask (drop (i + k) a) (drop (j + k) b))"
  by pat_completeness auto
termination
  by (relation "measure (\<lambda>(a, b). length b)") (use longest_block_Some(1,3) in fastforce)+

declare exact_mask.simps [simp del]

lemma exact_mask_None: "longest_block a b = None \<Longrightarrow> exact_mask a b = replicate (length b) False"
  by (subst exact_mask.simps) simp

lemma exact_mask_Some:
  "longest_block a b = Some (i, j, k) \<Longrightarrow>
     exact_mask a b = exact_mask (take i a) (take j b) @ replicate k True @ exact_mask (drop (i + k) a) (drop (j + k) b)"
  by (subst exact_mask.simps) simp

lemma exact_mask_induct [case_names None Some]:
  assumes "\<And>a b. longest_block a b = None \<Longrightarrow> P a b"
    and "\<And>a b i j k. longest_block a b = Some (i, j, k) \<Longrightarrow> P (take i a) (take j b) \<Longrightarrow>
           P (drop (i + k) a) (drop (j + k) b) \<Longrightarrow> P a b"
  shows "P a b"
proof (induction a b rule: exact_mask.induct)
  case (1 a b)
  then show ?case using assms by (cases "longest_block a b") (auto split: prod.splits)
qed

text \<open>\<open>_in_order\<close>: each message matched to the first like it after the one last matched; \<open>from_place\<close> is
  the place after it.\<close>

fun in_order_mask :: "string list \<Rightarrow> nat \<Rightarrow> string list \<Rightarrow> bool list" where
  "in_order_mask earlier from_place [] = []"
| "in_order_mask earlier from_place (key # keys) =
     (case find (\<lambda>p. earlier ! p = key) [from_place..<length earlier] of
        None \<Rightarrow> False # in_order_mask earlier from_place keys
      | Some p \<Rightarrow> True # in_order_mask earlier (Suc p) keys)"

definition exact_pairs :: int where
  "exact_pairs = 40000"

definition rest_mask :: "string list \<Rightarrow> string list \<Rightarrow> bool list" where
  "rest_mask rest after =
     (if rest = [] \<or> after = [] then replicate (length after) False
      else if int (length rest) * int (length after) \<le> exact_pairs then exact_mask rest after
      else in_order_mask rest 0 after)"

text \<open>\<open>_shared\<close>.\<close>

definition shared_mask :: "string list \<Rightarrow> string list \<Rightarrow> nat \<Rightarrow> bool list" where
  "shared_mask earlier keys n = replicate n True @ rest_mask (drop n earlier) (drop n keys)"

section \<open>Recording a request\<close>

definition count_true :: "bool list \<Rightarrow> nat" where
  "count_true marks = length (filter id marks)"

definition longest_start :: "string list list \<Rightarrow> string list \<Rightarrow> nat" where
  "longest_start recent keys = foldr max (map (\<lambda>earlier. same_start earlier keys) recent) 0"

definition better_mask :: "nat \<Rightarrow> string list \<Rightarrow> bool list \<Rightarrow> string list \<Rightarrow> bool list" where
  "better_mask longest keys found earlier =
     (if same_start earlier keys \<noteq> longest then found
      else (let shared = shared_mask earlier keys longest
            in if count_true found \<le> count_true shared then shared else found))"

definition matched_mask :: "string list list \<Rightarrow> string list \<Rightarrow> bool list" where
  "matched_mask recent keys =
     foldl (better_mask (longest_start recent keys) keys) (replicate (length keys) False) recent"

definition unmatched :: "bool list \<Rightarrow> 'a list \<Rightarrow> 'a list" where
  "unmatched marks xs = map fst (filter (\<lambda>p. \<not> snd p) (zip xs marks))"

definition recent_requests :: nat where
  "recent_requests = 16"

definition latest :: "nat \<Rightarrow> 'a list \<Rightarrow> 'a list" where
  "latest n xs = drop (length xs - n) xs"

text \<open>\<open>record_sent\<close>.\<close>

definition record_sent :: "history_config \<Rightarrow> conversation \<Rightarrow> messages \<Rightarrow> string \<Rightarrow> conversation" where
  "record_sent hc cv input body =
     (let keys = message_keys hc input body; marks = matched_mask (cv_recent cv) keys
      in cv\<lparr>cv_sent := cv_sent cv @ unmatched marks input,
            cv_recent := latest recent_requests (cv_recent cv @ [keys])\<rparr>)"

section \<open>What matches is in order\<close>

definition matched :: "bool list \<Rightarrow> 'a list \<Rightarrow> 'a list" where
  "matched marks xs = map fst (filter snd (zip xs marks))"

lemma matched_simps [simp]:
  "matched [] xs = []" "matched (b # bs) (x # xs) = (if b then x # matched bs xs else matched bs xs)"
  "matched bs [] = []" "unmatched bs [] = []"
  "unmatched (b # bs) (x # xs) = (if b then unmatched bs xs else x # unmatched bs xs)"
  by (simp_all add: matched_def unmatched_def)

lemma matched_append [simp]:
  "length marks = length xs \<Longrightarrow> matched (marks @ marks') (xs @ ys) = matched marks xs @ matched marks' ys"
  "length marks = length xs \<Longrightarrow> unmatched (marks @ marks') (xs @ ys) = unmatched marks xs @ unmatched marks' ys"
  by (simp_all add: matched_def unmatched_def)

lemma matched_alike [simp]:
  "matched (replicate n True) xs = take n xs" "matched (replicate n False) xs = []"
  "unmatched (replicate n True) xs = []"
proof -
  show "matched (replicate n True) xs = take n xs" "unmatched (replicate n True) xs = []"
    by (induction n arbitrary: xs) (case_tac xs; simp add: matched_def unmatched_def)+
  show "matched (replicate n False) xs = []"
    by (auto simp: matched_def filter_empty_conv dest!: set_zip_rightD)
qed

lemma unmatched_False: "length xs \<le> n \<Longrightarrow> unmatched (replicate n False) xs = xs"
proof (induction xs arbitrary: n)
  case (Cons x xs)
  then show ?case by (cases n) simp_all
qed simp

lemma exact_mask_length [simp]: "length (exact_mask a b) = length b"
proof (induction a b rule: exact_mask_induct)
  case (Some a b i j k)
  then show ?case using longest_block_Some [OF Some(1)] by (simp add: exact_mask_Some)
qed (simp add: exact_mask_None)

lemma in_order_mask_length [simp]: "length (in_order_mask e n keys) = length keys"
  by (induction e n keys rule: in_order_mask.induct) (auto split: option.splits)

lemma rest_mask_length [simp]: "length (rest_mask rest after) = length after"
  by (simp add: rest_mask_def)

lemma shared_mask_length: "same_start earlier keys = n \<Longrightarrow> length (shared_mask earlier keys n) = length keys"
  using same_start_le(2) [of earlier keys] by (simp add: shared_mask_def)

lemma split_block:
  assumes "i + k \<le> length xs"
  shows "xs = take i xs @ take k (drop i xs) @ drop (i + k) xs"
  by (metis add.commute append_take_drop_id drop_drop)

lemma exact_subseq: "subseq (matched (exact_mask a b) b) a"
proof (induction a b rule: exact_mask_induct)
  case (Some a b i j k)
  note l = longest_block_Some [OF Some(1)]
  have "matched (exact_mask a b) (take j b @ take k (drop j b) @ drop (j + k) b)
      = matched (exact_mask (take i a) (take j b)) (take j b)
        @ take k (drop j b) @ matched (exact_mask (drop (i + k) a) (drop (j + k) b)) (drop (j + k) b)"
    using Some(1) l by (simp add: exact_mask_Some)
  moreover have "subseq \<dots> (take i a @ take k (drop i a) @ drop (i + k) a)"
    using Some(2,3) l(4) by (intro list_emb_append_mono) auto
  ultimately show ?case using split_block [OF l(2)] split_block [OF l(3)] by simp
qed (simp add: exact_mask_None)

lemma find_from_Some:
  assumes "find P [m..<n] = Some p"
  shows "m \<le> p" "p < n" "P p"
  using assms by (auto simp: find_Some_iff)

lemma in_order_subseq: "subseq (matched (in_order_mask e n keys) keys) (drop n e)"
proof (induction e n keys rule: in_order_mask.induct)
  case (2 e n key keys)
  show ?case
  proof (cases "find (\<lambda>p. e ! p = key) [n..<length e]")
    case None
    with 2 show ?thesis by simp
  next
    case (Some p)
    note f = find_from_Some [OF Some]
    have "drop n e = take (p - n) (drop n e) @ key # drop (Suc p) e"
      using f by (metis Cons_nth_drop_Suc append_take_drop_id drop_drop le_add_diff_inverse2)
    moreover have "subseq (key # matched (in_order_mask e (Suc p) keys) keys) (key # drop (Suc p) e)"
      using 2(2) [OF Some] by simp
    ultimately show ?thesis using Some by (metis list_emb_append2 matched_simps(2) in_order_mask.simps(2) option.simps(5))
  qed
qed simp

lemma rest_subseq: "subseq (matched (rest_mask rest after) after) rest"
  using in_order_subseq [of rest 0 after] by (simp add: rest_mask_def exact_subseq)

lemma shared_subseq:
  assumes "same_start earlier keys = n"
  shows "subseq (matched (shared_mask earlier keys n) keys) earlier"
proof -
  have n: "n \<le> length keys" using same_start_le(2) [of earlier keys] assms by simp
  have "matched (shared_mask earlier keys n) (take n keys @ drop n keys)
      = take n keys @ matched (rest_mask (drop n earlier) (drop n keys)) (drop n keys)"
    unfolding shared_mask_def using n by (subst matched_append) simp_all
  moreover have "subseq \<dots> (take n earlier @ drop n earlier)"
    using same_start_take [of earlier keys] assms by (intro list_emb_append_mono rest_subseq) simp
  ultimately show ?thesis by simp
qed

section \<open>What recording keeps\<close>

text \<open>What a request is matched by is the mask of one of the latest requests, or of none.\<close>

lemma count_none [simp]: "count_true (replicate n False) = 0"
  by (simp add: count_true_def)

lemma better_masks:
  fixes keys defines "start \<equiv> replicate (length keys) False"
  shows "foldl (better_mask n keys) start rs = start \<and> (\<forall>earlier\<in>set rs. same_start earlier keys \<noteq> n)
    \<or> (\<exists>earlier\<in>set rs. same_start earlier keys = n \<and> foldl (better_mask n keys) start rs = shared_mask earlier keys n)"
proof (induction rs rule: rev_induct)
  case (snoc r rs)
  then show ?case by (auto simp: better_mask_def Let_def start_def)
qed simp

lemma longest_start_Cons [simp]: "longest_start (e # es) keys = max (same_start e keys) (longest_start es keys)"
  by (simp add: longest_start_def)

lemma longest_start_Nil [simp]: "longest_start [] keys = 0"
  by (simp add: longest_start_def)

lemma longest_start_in: "recent \<noteq> [] \<Longrightarrow> \<exists>earlier\<in>set recent. same_start earlier keys = longest_start recent keys"
proof (induction recent)
  case (Cons e es)
  then show ?case by (cases "es = []") (auto simp: max_def)
qed simp

lemma longest_start_ge: "earlier \<in> set recent \<Longrightarrow> same_start earlier keys \<le> longest_start recent keys"
  by (induction recent) auto

lemma matched_mask_cases:
  obtains "recent = []" "matched_mask recent keys = replicate (length keys) False"
  | earlier where "earlier \<in> set recent" "same_start earlier keys = longest_start recent keys"
      "matched_mask recent keys = shared_mask earlier keys (longest_start recent keys)"
  using better_masks [of "longest_start recent keys" keys recent] longest_start_in [of recent keys]
  unfolding matched_mask_def by blast

lemma matched_mask_length [simp]: "length (matched_mask recent keys) = length keys"
  by (rule matched_mask_cases [of recent keys]) (simp_all add: shared_mask_length)

text \<open>What counts as sent before is, in order, part of one of the latest requests.\<close>

lemma matched_before:
  "matched (matched_mask recent keys) keys = [] \<or> (\<exists>earlier\<in>set recent. subseq (matched (matched_mask recent keys) keys) earlier)"
  by (rule matched_mask_cases [of recent keys]) (auto intro: shared_subseq)

lemma set_matched: "length marks = length xs \<Longrightarrow> set xs = set (matched marks xs) \<union> set (unmatched marks xs)"
  by (induction marks xs rule: list_induct2) auto

lemma unmatched_map: "unmatched marks (map f xs) = map f (unmatched marks xs)"
  by (simp add: unmatched_def zip_map1 filter_map comp_def split_beta)

section \<open>A conversation's requests\<close>

definition record_requests :: "history_config \<Rightarrow> conversation \<Rightarrow> (messages \<times> string) list \<Rightarrow> conversation" where
  "record_requests hc = foldl (\<lambda>cv r. record_sent hc cv (fst r) (snd r))"

lemma record_requests_snoc: "record_requests hc cv (rs @ [r]) = record_sent hc (record_requests hc cv rs) (fst r) (snd r)"
  by (simp add: record_requests_def)

lemma record_requests_simps [simp]: "record_requests hc cv [] = cv" "record_requests hc cv (r # rs) = record_requests hc (record_sent hc cv (fst r) (snd r)) rs"
  by (simp_all add: record_requests_def)

definition keys_of :: "history_config \<Rightarrow> messages \<times> string \<Rightarrow> string list" where
  "keys_of hc r = message_keys hc (fst r) (snd r)"

text \<open>The keys of what has been recorded, each as the request it came with has it.\<close>

definition recorded_keys :: "history_config \<Rightarrow> (messages \<times> string) list \<Rightarrow> conversation \<Rightarrow> string set" where
  "recorded_keys hc rs cv =
     {key. \<exists>r\<in>set rs. \<exists>m\<in>set (fst r) \<inter> set (cv_sent cv). key \<in> set (message_keys hc [m] (snd r))}"

lemma message_keys_map: "message_keys hc input body = concat (map (\<lambda>m. message_keys hc [m] body) input)"
  by (induction input) (auto simp: message_keys_def)

lemma sent_record: "cv_sent (record_sent hc cv input body)
    = cv_sent cv @ unmatched (matched_mask (cv_recent cv) (message_keys hc input body)) input"
  by (simp add: record_sent_def Let_def)

lemma recent_record: "cv_recent (record_sent hc cv input body)
    = latest recent_requests (cv_recent cv @ [message_keys hc input body])"
  by (simp add: record_sent_def Let_def)

lemma set_latest: "set (latest n xs) \<subseteq> set xs"
  by (simp add: latest_def set_drop_subset)

lemma recent_bound: "length (cv_recent (record_sent hc cv input body)) \<le> recent_requests"
  by (simp add: recent_record latest_def)

lemma message_keys_length [simp]: "length (message_keys hc input body) = length input"
  by (simp add: message_keys_def)

lemma recorded_mono:
  "recorded_keys hc rs cv \<subseteq> recorded_keys hc (rs @ [r]) (record_sent hc cv input body)"
  by (auto simp: recorded_keys_def sent_record)

text \<open>Every message of every request is recorded: under its key, one message the conversation holds.\<close>

lemma keys_recorded:
  defines "all_keys \<equiv> \<lambda>hc rs. \<Union> (set ` keys_of hc ` set rs)"
  shows "\<Union> (set ` set (cv_recent (record_requests hc (new_conversation) rs))) \<subseteq> recorded_keys hc rs (record_requests hc (new_conversation) rs)
    \<and> all_keys hc rs \<subseteq> recorded_keys hc rs (record_requests hc (new_conversation) rs)"
proof (induction rs rule: rev_induct)
  case Nil
  then show ?case by (simp add: all_keys_def new_conversation_def)
next
  case (snoc r rs)
  define cv where "cv = record_requests hc new_conversation rs"
  define keys where "keys = keys_of hc r"
  let ?cv' = "record_sent hc cv (fst r) (snd r)"
  have mono: "recorded_keys hc rs cv \<subseteq> recorded_keys hc (rs @ [r]) ?cv'" by (rule recorded_mono)
  have new: "set (unmatched (matched_mask (cv_recent cv) keys) keys) \<subseteq> recorded_keys hc (rs @ [r]) ?cv'"
  proof
    fix key assume "key \<in> set (unmatched (matched_mask (cv_recent cv) keys) keys)"
    then obtain m where "m \<in> set (unmatched (matched_mask (cv_recent cv) keys) (fst r))" "key \<in> set (message_keys hc [m] (snd r))"
      by (auto simp: keys_def keys_of_def message_keys_def unmatched_map)
    moreover from this(1) have "m \<in> set (fst r)" by (auto simp: unmatched_def dest: set_zip_leftD)
    ultimately show "key \<in> recorded_keys hc (rs @ [r]) ?cv'"
      by (auto simp: recorded_keys_def sent_record keys_def keys_of_def)
  qed
  have old: "set (matched (matched_mask (cv_recent cv) keys) keys) \<subseteq> \<Union> (set ` set (cv_recent cv))"
    using matched_before [of "cv_recent cv" keys] by (auto dest: list_emb_set)
  have cv: "\<Union> (set ` set (cv_recent cv)) \<subseteq> recorded_keys hc rs cv" "all_keys hc rs \<subseteq> recorded_keys hc rs cv"
    using snoc by (simp_all add: cv_def)
  have all: "set keys \<subseteq> recorded_keys hc (rs @ [r]) ?cv'"
  proof -
    have "set keys = set (matched (matched_mask (cv_recent cv) keys) keys) \<union> set (unmatched (matched_mask (cv_recent cv) keys) keys)"
      by (rule set_matched) simp
    also have "\<dots> \<subseteq> recorded_keys hc (rs @ [r]) ?cv'" by (intro Un_least new order_trans [OF old] order_trans [OF cv(1)] mono)
    finally show ?thesis .
  qed
  have "\<Union> (set ` set (cv_recent ?cv')) \<subseteq> set keys \<union> \<Union> (set ` set (cv_recent cv))"
    using set_latest [of recent_requests "cv_recent cv @ [keys]"] by (auto simp: recent_record keys_def keys_of_def)
  also have "\<dots> \<subseteq> recorded_keys hc (rs @ [r]) ?cv'" by (intro Un_least all order_trans [OF cv(1)] mono)
  finally have recents: "\<Union> (set ` set (cv_recent ?cv')) \<subseteq> recorded_keys hc (rs @ [r]) ?cv'" .
  have "all_keys hc (rs @ [r]) = set keys \<union> all_keys hc rs" by (simp add: all_keys_def keys_def Un_commute)
  also have "\<dots> \<subseteq> recorded_keys hc (rs @ [r]) ?cv'" by (intro Un_least all order_trans [OF cv(2)] mono)
  finally show ?case using recents unfolding record_requests_snoc cv_def [symmetric] by blast
qed

text \<open>A conversation that only grows: each request is the one before it with more at its end.\<close>

fun growing :: "history_config \<Rightarrow> string list \<Rightarrow> (messages \<times> string) list \<Rightarrow> bool" where
  "growing hc before_keys [] \<longleftrightarrow> True"
| "growing hc before_keys (r # rs) \<longleftrightarrow> prefix before_keys (keys_of hc r) \<and> growing hc (keys_of hc r) rs"

lemma same_start_prefix: "prefix a b \<Longrightarrow> same_start a b = length a"
  by (induction a b rule: same_start.induct) auto

lemma grown_mask:
  assumes "\<forall>earlier\<in>set recent. prefix earlier was" "was \<in> set recent" "prefix was keys"
  shows "matched_mask recent keys = replicate (length was) True @ replicate (length keys - length was) False"
proof -
  have same_start: "same_start earlier keys = length earlier" if "earlier \<in> set recent" for earlier
    using that assms by (meson same_start_prefix prefix_order.trans)
  have longest: "longest_start recent keys = length was"
  proof (rule antisym)
    show "length was \<le> longest_start recent keys" using longest_start_ge [OF assms(2), of keys] same_start [OF assms(2)] by simp
    obtain earlier where "earlier \<in> set recent" "same_start earlier keys = longest_start recent keys"
      using longest_start_in assms(2) by (metis empty_iff list.set(1))
    then show "longest_start recent keys \<le> length was" using same_start assms(1) prefix_length_le by metis
  qed
  show ?thesis
  proof (rule matched_mask_cases [of recent keys])
    fix earlier assume e: "earlier \<in> set recent" "same_start earlier keys = longest_start recent keys"
      and mask: "matched_mask recent keys = shared_mask earlier keys (longest_start recent keys)"
    then have "length earlier = length was" using same_start longest by simp
    with mask longest show ?thesis by (simp add: shared_mask_def rest_mask_def)
  qed (use assms(2) in simp)
qed

text \<open>Then what is recorded is the conversation: the first request's messages, and after them what each
  later one adds.\<close>

lemma grown_record:
  assumes "\<forall>earlier\<in>set (cv_recent cv). prefix earlier was" "was \<in> set (cv_recent cv)" "prefix was (message_keys hc input body)"
  shows "cv_sent (record_sent hc cv input body) = cv_sent cv @ drop (length was) input"
proof -
  have n: "length was \<le> length input" using prefix_length_le [OF assms(3)] by simp
  have "unmatched (replicate (length was) True @ replicate (length input - length was) False) (take (length was) input @ drop (length was) input)
      = drop (length was) input"
    using n by (subst matched_append) (simp_all add: unmatched_False)
  then show ?thesis using grown_mask [OF assms] by (simp add: sent_record)
qed

lemma latest_snoc: "0 < n \<Longrightarrow> x \<in> set (latest n (xs @ [x]))"
  by (simp add: latest_def)

text \<open>What each request adds to the one before it, of \<open>n\<close> messages.\<close>

fun additions :: "nat \<Rightarrow> (messages \<times> string) list \<Rightarrow> messages" where
  "additions n [] = []"
| "additions n (r # rs) = drop n (fst r) @ additions (length (fst r)) rs"

lemma growing_record:
  assumes "\<forall>earlier\<in>set (cv_recent cv). prefix earlier was" "was \<in> set (cv_recent cv)" "growing hc was rs"
  shows "cv_sent (record_requests hc cv rs) = cv_sent cv @ additions (length was) rs"
  using assms
proof (induction rs arbitrary: cv was)
  case (Cons r rs)
  let ?cv = "record_sent hc cv (fst r) (snd r)" and ?keys = "keys_of hc r"
  have grown: "prefix was ?keys" "growing hc ?keys rs" using Cons.prems(3) by simp_all
  have all: "\<forall>earlier\<in>set (cv_recent ?cv). prefix earlier ?keys"
  proof
    fix earlier assume "earlier \<in> set (cv_recent ?cv)"
    then have "earlier = ?keys \<or> earlier \<in> set (cv_recent cv)"
      using set_latest by (fastforce simp: recent_record keys_of_def)
    then show "prefix earlier ?keys" using Cons.prems(1) grown(1) by (auto intro: prefix_order.trans)
  qed
  moreover have "?keys \<in> set (cv_recent ?cv)"
    by (simp add: recent_record keys_of_def latest_snoc recent_requests_def)
  ultimately have "cv_sent (record_requests hc ?cv rs) = cv_sent ?cv @ additions (length ?keys) rs"
    using Cons.IH grown(2) by blast
  moreover have "cv_sent ?cv = cv_sent cv @ drop (length was) (fst r)"
    using Cons.prems(1,2) grown(1) by (intro grown_record) (simp_all add: keys_of_def)
  ultimately show ?case by (simp add: keys_of_def)
qed simp

lemma growing_from_new:
  assumes "growing hc [] rs"
  shows "cv_sent (record_requests hc new_conversation rs) = additions 0 rs"
proof (cases rs)
  case (Cons r rest)
  let ?cv = "record_sent hc new_conversation (fst r) (snd r)"
  have "cv_recent ?cv = [keys_of hc r]"
    by (simp add: recent_record keys_of_def new_conversation_def latest_def recent_requests_def)
  moreover have "matched_mask [] (keys_of hc r) = replicate (length (fst r)) False"
    by (simp add: matched_mask_def keys_of_def)
  then have "cv_sent ?cv = fst r"
    by (simp add: sent_record new_conversation_def keys_of_def unmatched_False)
  ultimately show ?thesis using growing_record [of ?cv "keys_of hc r" hc rest] assms Cons
    by (simp add: keys_of_def)
qed (simp add: new_conversation_def)

text \<open>A message to try these on.\<close>

definition said_by_user :: "string \<Rightarrow> chat_message" where
  "said_by_user t =
     \<lparr>cm_role = User, cm_id = None, cm_content = Text t, cm_text = t, cm_content_list = [TextItem t],
      cm_model = None, cm_tool_calls = None, cm_tool_call_id = None, cm_error = None\<rparr>"

definition plain_keys :: history_config where
  "plain_keys = \<lparr>hy_loads = \<lambda>_. None, hy_dump = \<lambda>m. [(''text'', JStr (cm_text m))],
     hy_text = \<lambda>ps. (case field ps ''text'' of JStr t \<Rightarrow> t | _ \<Rightarrow> []), hy_digest = id\<rparr>"

text \<open>C21: Nothing sent is lost: whatever requests a conversation has recorded, every message of every
  one of them is in its history under the same key (once by itself, or as the message it was matched
  with), its history holds nothing but messages of the requests, and it keeps no more than the
  latest sixteen requests to match against.\<close>

theorem history_complete:
  "\<Union> (set ` keys_of hc ` set rs) \<subseteq> recorded_keys hc rs (record_requests hc new_conversation rs)
   \<and> set (cv_sent (record_requests hc new_conversation rs)) \<subseteq> \<Union> (set ` fst ` set rs)
   \<and> length (cv_recent (record_requests hc new_conversation rs)) \<le> recent_requests"
proof -
  have "set (cv_sent (record_requests hc new_conversation rs)) \<subseteq> \<Union> (set ` fst ` set rs)"
    by (induction rs rule: rev_induct)
      (auto simp: new_conversation_def record_requests_snoc sent_record unmatched_def dest: set_zip_leftD)
  moreover have "length (cv_recent (record_requests hc new_conversation rs)) \<le> recent_requests"
    by (cases rs rule: rev_cases) (simp_all add: new_conversation_def record_requests_snoc recent_bound)
  ultimately show ?thesis using keys_recorded [of hc rs] by blast
qed

text \<open>C22: Where each request of a conversation is the one before it with more at its end, its history
  is the conversation: the messages of the first request and what each later one adds, each message
  once and in order.\<close>

theorem growing_conversation:
  assumes "growing hc [] rs"
  shows "cv_sent (record_requests hc new_conversation rs) = additions 0 rs"
  using assms by (rule growing_from_new)

theorem growing_conversation_witness:
  "cv_sent (record_requests plain_keys new_conversation
      [([said_by_user ''a''], ''x''), ([said_by_user ''a'', said_by_user ''b''], ''y''),
       ([said_by_user ''a'', said_by_user ''b'', said_by_user ''a''], ''z'')])
    = [said_by_user ''a'', said_by_user ''b'', said_by_user ''a'']"
  using growing_conversation [of plain_keys
      "[([said_by_user ''a''], ''x''), ([said_by_user ''a'', said_by_user ''b''], ''y''),
       ([said_by_user ''a'', said_by_user ''b'', said_by_user ''a''], ''z'')]"]
  by (simp add: plain_keys_def keys_of_def message_keys_def message_key_def said_by_user_def
      clean_items_def field_def)

end
