(* ===== verification/Wire.thy ===== *)
theory Wire
  imports SidecarState
begin

text \<open>
  What the sidecar does with the bodies of requests and replies in any provider's format
  (\<open>sidecar/_wire.py\<close>). The table of functions of one format (\<open>_Api\<close>) is a record, filled for
  each format in the theories of the formats. What is outside the repository is a parameter: the
  \<open>json\<close> module, SHA-256, and the readers and writers of inspect_ai. An id that an error quotes is
  put between apostrophes.
\<close>

section \<open>JSON as Python compares it\<close>

text \<open>\<open>==\<close>: a bool is a number, and objects are equal whatever the order of their keys.\<close>

fun number_of :: "json \<Rightarrow> rat option" where
  "number_of (JBool b) = Some (if b then 1 else 0)"
| "number_of (JInt i) = Some (of_int i)"
| "number_of (JNum x) = Some x"
| "number_of j = None"

lemma size_in_list: "x \<in> set xs \<Longrightarrow> size x < Suc (size_list size xs)"
  by (induction xs) auto

lemma size_in_object: "(name, x) \<in> set ps \<Longrightarrow> size x < Suc (size_list (size_prod (\<lambda>_. 0) size) ps)"
  by (induction ps) auto

function same :: "json \<Rightarrow> json \<Rightarrow> bool" where
  "same JNull k \<longleftrightarrow> k = JNull"
| "same (JStr s) k \<longleftrightarrow> k = JStr s"
| "same (JBool b) k \<longleftrightarrow> number_of k = number_of (JBool b)"
| "same (JInt i) k \<longleftrightarrow> number_of k = number_of (JInt i)"
| "same (JNum x) k \<longleftrightarrow> number_of k = number_of (JNum x)"
| "same (JList js) k \<longleftrightarrow>
     (case k of JList ks \<Rightarrow> length js = length ks \<and> list_all (\<lambda>(x, y). same x y) (zip js ks) | _ \<Rightarrow> False)"
| "same (JObj ps) k \<longleftrightarrow>
     (case k of
        JObj qs \<Rightarrow> list_all (\<lambda>q. fst q \<in> set (map fst ps)) qs
          \<and> list_all (\<lambda>(name, x). case map_of qs name of None \<Rightarrow> False | Some y \<Rightarrow> same x y) ps
      | _ \<Rightarrow> False)"
  by pat_completeness auto
termination
  by (relation "measure (\<lambda>(j, k). size j)")
    (auto dest: set_zip_leftD size_in_list size_in_object)

text \<open>Equal objects have equal fields, and a text is equal to itself alone.\<close>

lemma same_field:
  assumes "same (JObj ps) (JObj qs)"
  shows "map_of ps name = None \<longleftrightarrow> map_of qs name = None"
    "map_of ps name = Some x \<Longrightarrow> map_of qs name = Some y \<Longrightarrow> same x y"
proof -
  have "fst ` set qs \<subseteq> fst ` set ps" using assms by (auto simp: list_all_iff)
  moreover have "fst ` set ps \<subseteq> fst ` set qs"
    using assms by (force simp: list_all_iff map_of_eq_None_iff split: option.splits)
  ultimately show "map_of ps name = None \<longleftrightarrow> map_of qs name = None" by (auto simp: map_of_eq_None_iff)
  assume "map_of ps name = Some x" "map_of qs name = Some y"
  then show "same x y" using assms by (auto simp: list_all_iff dest!: map_of_SomeD [of ps] split: option.splits)
qed

lemma same_text: "same j (JStr s) \<longleftrightarrow> j = JStr s"
  by (cases j) auto

lemma same_text_left: "same (JStr s) j \<longleftrightarrow> j = JStr s"
  by simp

lemma same_object: "same (JObj ps) k \<Longrightarrow> \<exists>qs. k = JObj qs"
  by (cases k) auto

lemma same_to_object: "same k (JObj ps) \<Longrightarrow> \<exists>qs. k = JObj qs"
  by (cases k) auto

lemma object_if_empty: "(\<And>ps. j \<noteq> JObj ps) \<Longrightarrow> object_if j = []"
  by (cases j) auto

lemma same_says:
  assumes "same (JObj ps) (JObj qs)"
  shows "field ps name = JStr s \<longleftrightarrow> field qs name = JStr s"
proof (cases "map_of ps name")
  case None
  then have "map_of qs name = None" using same_field(1) [OF assms, of name] by blast
  then show ?thesis by (simp add: field_def None)
next
  case (Some x)
  then obtain y where y: "map_of qs name = Some y" using same_field(1) [OF assms, of name] by (cases "map_of qs name") auto
  have "same x y" using same_field(2) [OF assms Some y] .
  then show ?thesis using Some y by (auto simp: field_def same_text same_text_left)
qed

text \<open>\<open>d.get(key) == text\<close>, and a value that cannot be looked up in a set or a dict.\<close>

definition says :: "fields \<Rightarrow> string \<Rightarrow> string \<Rightarrow> bool" where
  "says ps name value \<longleftrightarrow> field ps name = JStr value"

fun unhashable :: "json \<Rightarrow> bool" where
  "unhashable (JList js) = True"
| "unhashable (JObj ps) = True"
| "unhashable j = False"

fun text_id :: "json \<Rightarrow> string option" where
  "text_id (JStr s) = Some s"
| "text_id j = None"

lemma text_id_Some: "text_id j = Some s \<longleftrightarrow> j = JStr s"
  by (cases j) auto

lemma same_text_id:
  assumes "same (JObj ps) (JObj qs)"
  shows "text_id (field ps name) = text_id (field qs name)"
proof -
  have "text_id (field ps name) = Some s \<longleftrightarrow> text_id (field qs name) = Some s" for s
    using same_says [OF assms] by (simp add: text_id_Some)
  then show ?thesis by (metis option.exhaust)
qed

definition quoted :: "string \<Rightarrow> string" where
  "quoted s = apostrophe @ s @ apostrophe"

lemma field_size: "size (field ps name) < size (JObj ps)"
proof (cases "map_of ps name")
  case (Some j)
  then show ?thesis using size_in_object [OF map_of_SomeD [OF Some]] by (simp add: field_def)
qed (simp add: field_def)

definition without_key :: "string \<Rightarrow> fields \<Rightarrow> fields" where
  "without_key name ps = filter (\<lambda>p. fst p \<noteq> name) ps"

section \<open>A format, and the body of a request\<close>

record spliced =
  sp_start :: nat
  sp_end :: nat
  sp_calls :: "json list"
  sp_results :: "json list"
  sp_rebuild :: "json list \<Rightarrow> json list \<Rightarrow> json list"

text \<open>\<open>_Api\<close>. The argument that readers and writers are given beside the request is what was noted.\<close>

record wire_api =
  wa_conversation :: string
  wa_read :: "json option \<Rightarrow> fields \<Rightarrow> failure + messages"
  wa_offered :: "fields \<Rightarrow> failure + (json list \<times> tool_choice option \<times> json)"
  wa_rejected_turn :: "json option \<Rightarrow> chat_message \<Rightarrow> messages \<Rightarrow> failure + json list"
  wa_settled :: "json \<Rightarrow> json"
  wa_turn_at :: "json list \<Rightarrow> nat \<Rightarrow> spliced option"
  wa_call_ids :: "json \<Rightarrow> string list"
  wa_call_of :: "json \<Rightarrow> string option \<times> json \<times> json \<times> json"
  wa_result_of :: "json \<Rightarrow> json \<times> json"
  wa_results_in :: "json \<Rightarrow> json list"
  wa_pick :: "json list \<Rightarrow> string \<Rightarrow> failure + (json \<times> json list)"

record edits =
  es_removed :: "string list"
  es_modified :: "(string \<times> tool_call) list"

definition targets :: "edits \<Rightarrow> string list" where
  "targets es = es_removed es @ map fst (es_modified es)"

record wire =
  wr_loads :: "string \<Rightarrow> json option"
  wr_dumps :: "json \<Rightarrow> string"
  wr_sorted :: "json \<Rightarrow> string"
  wr_str :: "json \<Rightarrow> string"
  wr_hash :: "string \<Rightarrow> string"
  wr_api :: "stream_format \<Rightarrow> wire_api"
  wr_anthropic_reply :: "json option \<Rightarrow> string \<Rightarrow> string \<Rightarrow> failure + (model_output \<times> json option)"
  wr_openai_reply :: "json option \<Rightarrow> string \<Rightarrow> string \<Rightarrow> bool option \<Rightarrow> failure + (model_output \<times> json option)"
  wr_anthropic_edit :: "string \<Rightarrow> string \<Rightarrow> edits \<Rightarrow> failure + string"
  wr_openai_edit :: "string \<Rightarrow> string \<Rightarrow> bool option \<Rightarrow> edits \<Rightarrow> failure + string"

definition json_object :: "wire \<Rightarrow> string \<Rightarrow> string \<Rightarrow> failure + fields" where
  "json_object wr body what =
     (case wr_loads wr body of
        None \<Rightarrow> Inl (UnreadableError (''The '' @ what @ '' body is not JSON.''))
      | Some (JObj ps) \<Rightarrow> Inr ps
      | Some j \<Rightarrow> Inl (UnreadableError (''The '' @ what @ '' body is not a JSON object.'')))"

definition no_reader :: "string \<Rightarrow> failure" where
  "no_reader provider = UnreadableError (''There is no reader for provider '' @ quoted provider @ ''.'')"

text \<open>\<open>_request_format\<close>.\<close>

definition format_of_request :: "string \<Rightarrow> fields \<Rightarrow> stream_format option \<Rightarrow> failure + stream_format" where
  "format_of_request provider request f =
     (case f of
        Some f \<Rightarrow> Inr f
      | None \<Rightarrow>
          if provider = ''anthropic'' then Inr AnthropicMessages
          else if provider = ''openai'' then
            (if ''messages'' \<in> fst ` set request then Inr OpenAIChat
             else if ''input'' \<in> fst ` set request then Inr OpenAIResponses
             else Inl (UnreadableError ''There is no reader for this OpenAI API.''))
          else Inl (no_reader provider))"

text \<open>\<open>_conversation\<close>.\<close>

definition conversation_of :: "fields \<Rightarrow> wire_api \<Rightarrow> json list" where
  "conversation_of request api =
     (case field request (wa_conversation api) of
        JStr s \<Rightarrow> [JObj [(''role'', JStr ''user''), (''content'', JStr s)]]
      | JList es \<Rightarrow> es
      | _ \<Rightarrow> [])"

text \<open>A body as an object, and its format's functions.\<close>

definition with_api ::
  "wire \<Rightarrow> string \<Rightarrow> string \<Rightarrow> stream_format option \<Rightarrow> (fields \<Rightarrow> wire_api \<Rightarrow> failure + 'a) \<Rightarrow> failure + 'a" where
  "with_api wr provider body f act =
     bind_err (json_object wr body ''request'') (\<lambda>request.
       bind_err (format_of_request provider request f) (\<lambda>f. act request (wr_api wr f)))"

definition request_format :: "wire \<Rightarrow> string \<Rightarrow> string \<Rightarrow> stream_format option \<Rightarrow> failure + stream_format" where
  "request_format wr provider body f =
     bind_err (json_object wr body ''request'') (\<lambda>request. format_of_request provider request f)"

section \<open>Reading\<close>

text \<open>\<open>_check_parsed\<close>.\<close>

definition calls_of_message :: "chat_message \<Rightarrow> tool_call list" where
  "calls_of_message m = (case cm_tool_calls m of None \<Rightarrow> [] | Some cs \<Rightarrow> cs)"

definition check_parsed :: "string \<Rightarrow> chat_message \<Rightarrow> failure option" where
  "check_parsed what m =
     map_option (\<lambda>c. UnreadableError (''The '' @ what @ '' holds a call to '' @ tc_function c
         @ '' whose arguments can'' @ apostrophe @ ''t be read.''))
       (find (\<lambda>c. tc_parse_error c \<noteq> None) (calls_of_message m))"

definition read_request ::
  "wire \<Rightarrow> string \<Rightarrow> string \<Rightarrow> stream_format option \<Rightarrow> json option \<Rightarrow> failure + messages" where
  "read_request wr provider body f start =
     with_api wr provider body f (\<lambda>request api.
       bind_err (wa_read api start request) (\<lambda>ms.
         case first_error (map (check_parsed ''request'') (filter (\<lambda>m. cm_role m = Assistant) ms)) of
           Some ex \<Rightarrow> Inl ex
         | None \<Rightarrow> Inr ms))"

text \<open>\<open>read_opening\<close>: \<open>told\<close> is whether a user's message has been read.\<close>

fun opening_entries :: "bool \<Rightarrow> json list \<Rightarrow> json list" where
  "opening_entries told [] = []"
| "opening_entries told (e # es) =
     (let role = field (object_if e) ''role'' in
      if role = JStr ''system'' \<or> role = JStr ''developer'' then e # opening_entries told es
      else if role = JStr ''user'' \<and> \<not> told then e # opening_entries True es
      else opening_entries told es)"

definition read_opening :: "wire \<Rightarrow> string \<Rightarrow> string \<Rightarrow> stream_format option \<Rightarrow> failure + messages" where
  "read_opening wr provider body f =
     with_api wr provider body f (\<lambda>request api.
       wa_read api None
         (dict_set request (wa_conversation api) (JList (opening_entries False (conversation_of request api)))))"

text \<open>\<open>_read_reply\<close> and \<open>read_reply_noted\<close>.\<close>

definition is_anthropic :: "string \<Rightarrow> stream_format option \<Rightarrow> bool" where
  "is_anthropic provider f \<longleftrightarrow> f = Some AnthropicMessages \<or> (f = None \<and> provider = ''anthropic'')"

definition is_openai :: "string \<Rightarrow> stream_format option \<Rightarrow> bool" where
  "is_openai provider f \<longleftrightarrow> f \<noteq> None \<or> provider = ''openai''"

definition is_chat :: "stream_format option \<Rightarrow> bool option" where
  "is_chat f = map_option (\<lambda>f. f = OpenAIChat) f"

definition read_reply ::
  "wire \<Rightarrow> string \<Rightarrow> string \<Rightarrow> string \<Rightarrow> stream_format option \<Rightarrow> json option \<Rightarrow> failure + (model_output \<times> json option)" where
  "read_reply wr provider content_type body f start =
     (if is_anthropic provider f then wr_anthropic_reply wr start content_type body
      else if is_openai provider f then wr_openai_reply wr start content_type body (is_chat f)
      else Inl (no_reader provider))"

definition read_reply_noted ::
  "wire \<Rightarrow> string \<Rightarrow> string \<Rightarrow> string \<Rightarrow> stream_format option \<Rightarrow> json option \<Rightarrow> failure + (model_output \<times> json option)" where
  "read_reply_noted wr provider content_type body f start =
     bind_err (read_reply wr provider content_type body f start) (\<lambda>(out, notes).
       case output_message out of
         None \<Rightarrow> Inr (out, notes)
       | Some m \<Rightarrow> (case check_parsed ''reply'' m of Some ex \<Rightarrow> Inl ex | None \<Rightarrow> Inr (out, notes)))"

text \<open>\<open>offered\<close>: what inspect_ai's readers raise becomes an \<open>UnreadableError\<close>.\<close>

definition offered_by :: "wire \<Rightarrow> string \<Rightarrow> string \<Rightarrow> stream_format option \<Rightarrow> failure + offered" where
  "offered_by wr provider body f =
     with_api wr provider body f (\<lambda>request api.
       case wa_offered api request of
         Inl (UnreadableError t) \<Rightarrow> Inl (UnreadableError t)
       | Inl (TooLargeError t) \<Rightarrow> Inl (TooLargeError t)
       | Inl ex \<Rightarrow> Inl (UnreadableError (''The request'' @ apostrophe @ ''s tool choice or settings can'' @ apostrophe @ ''t be read.''))
       | Inr (tools, choice, config) \<Rightarrow>
           Inr \<lparr>of_tools = tools,
                of_tool_choice = (case choice of Some c \<Rightarrow> c
                   | None \<Rightarrow> ChoiceText (if tools = [] then ''none'' else ''auto'')),
                of_config = config\<rparr>)"

section \<open>Marks\<close>

fun running_marks :: "(string \<Rightarrow> string) \<Rightarrow> (json \<Rightarrow> string) \<Rightarrow> string \<Rightarrow> json list \<Rightarrow> string list" where
  "running_marks hash write running [] = [hash running]"
| "running_marks hash write running (e # es) =
     hash running # running_marks hash write (running @ write e @ [CHR 0x00]) es"

definition request_marks :: "wire \<Rightarrow> string \<Rightarrow> string \<Rightarrow> stream_format option \<Rightarrow> failure + string list" where
  "request_marks wr provider body f =
     with_api wr provider body f (\<lambda>request api.
       Inr (running_marks (wr_hash wr) (\<lambda>e. wr_sorted wr (wa_settled api e)) [] (conversation_of request api)))"

section \<open>What the model said with each call\<close>

definition add_said :: "wire \<Rightarrow> string \<Rightarrow> (string \<times> string list) list \<Rightarrow> json \<Rightarrow> (string \<times> string list) list" where
  "add_said wr written said call =
     (case call of
        JObj ps \<Rightarrow>
          (let cid = (case field ps ''id'' of JStr s \<Rightarrow> s | j \<Rightarrow> wr_str wr j);
               earlier = (case map_of said cid of None \<Rightarrow> [] | Some ws \<Rightarrow> ws)
           in dict_set said cid (earlier @ [written]))
      | _ \<Rightarrow> said)"

definition said_in :: "wire \<Rightarrow> (string \<times> string list) list \<Rightarrow> json \<Rightarrow> (string \<times> string list) list" where
  "said_in wr said entry =
     (case (entry, field (object_if entry) ''tool_calls'') of
        (JObj ps, JList calls) \<Rightarrow>
          if says ps ''role'' ''assistant'' then
            foldl (add_said wr (wr_sorted wr (JList [field ps ''content'', field ps ''refusal'']))) said calls
          else said
      | _ \<Rightarrow> said)"

definition call_texts :: "wire \<Rightarrow> string \<Rightarrow> string \<Rightarrow> stream_format option \<Rightarrow> failure + (string \<times> string list) list" where
  "call_texts wr provider body f =
     bind_err (json_object wr body ''request'') (\<lambda>request.
       bind_err (format_of_request provider request f) (\<lambda>f.
         if f \<noteq> OpenAIChat then Inr []
         else Inr (foldl (said_in wr) [] (conversation_of request (wr_api wr f)))))"

section \<open>What goes back into a request\<close>

definition rejection :: "tool_call \<Rightarrow> string \<Rightarrow> chat_message" where
  "rejection call why =
     \<lparr>cm_role = Tool, cm_id = None, cm_content = Text [], cm_text = [], cm_content_list = [TextItem []],
      cm_model = None, cm_tool_calls = None, cm_tool_call_id = Some (tc_id call),
      cm_error = Some (''approval'', why)\<rparr>"

text \<open>\<open>block_key\<close>.\<close>

definition known_by :: "fields \<Rightarrow> block_key option" where
  "known_by ps =
     map_option (\<lambda>name. NamedKey name (case field ps name of JStr s \<Rightarrow> s | _ \<Rightarrow> []))
       (find (\<lambda>name. case field ps name of JStr s \<Rightarrow> s \<noteq> [] | _ \<Rightarrow> False) [''signature'', ''data'', ''id''])"

definition block_key_of :: "wire \<Rightarrow> wire_api \<Rightarrow> json \<Rightarrow> block_key" where
  "block_key_of wr api element =
     (case fst (wa_call_of api element) of
        Some call \<Rightarrow> CallKey call
      | None \<Rightarrow>
          (case element of
             JObj ps \<Rightarrow>
               (case known_by ps of
                  Some k \<Rightarrow> k
                | None \<Rightarrow> OtherKey (wr_sorted wr
                    (JObj (filter (\<lambda>p. fst p \<noteq> ''cache_control'' \<and> snd p \<noteq> JNull) ps))))
           | _ \<Rightarrow> OtherKey (wr_sorted wr element)))"

text \<open>What came just before a call, and how many like it before that.\<close>

definition place_of_call :: "wire_api \<Rightarrow> json list \<Rightarrow> string \<Rightarrow> nat" where
  "place_of_call api elements cid =
     (case find (\<lambda>i. fst (wa_call_of api (elements ! i)) = Some cid) [0..<length elements] of
        None \<Rightarrow> 0 | Some i \<Rightarrow> i)"

definition came_after :: "wire \<Rightarrow> wire_api \<Rightarrow> json list \<Rightarrow> string \<Rightarrow> (block_key \<times> nat) option" where
  "came_after wr api elements cid =
     (let place = place_of_call api elements cid; keys = map (block_key_of wr api) (take place elements)
      in if place = 0 then None else Some (last keys, count_list (butlast keys) (last keys)))"

definition key_error :: "string \<Rightarrow> failure" where
  "key_error cid = OtherFailure (''KeyError: '' @ quoted cid)"

definition item :: "(string \<times> 'a) list \<Rightarrow> string \<Rightarrow> failure + 'a" where
  "item d cid = (case map_of d cid of None \<Rightarrow> Inl (key_error cid) | Some x \<Rightarrow> Inr x)"

definition calls_by_id :: "chat_message \<Rightarrow> (string \<times> tool_call) list" where
  "calls_by_id m = foldl (\<lambda>d c. dict_set d (tc_id c) c) [] (calls_of_message m)"

definition amendment_for ::
  "wire \<Rightarrow> wire_api \<Rightarrow> chat_message \<Rightarrow> (string \<times> string) list \<Rightarrow> json option \<Rightarrow> string \<Rightarrow> failure + amendment" where
  "amendment_for wr api message taken_out notes cid =
     bind_err
       (case map_of taken_out cid of
          None \<Rightarrow> Inr []
        | Some why \<Rightarrow> bind_err (item (calls_by_id message) cid) (\<lambda>call. Inr [rejection call why]))
       (\<lambda>results.
          bind_err (wa_rejected_turn api notes message results) (\<lambda>rendered.
            bind_err (wa_pick api rendered cid) (\<lambda>(call, result).
              Inr \<lparr>am_call = call,
                   am_result = (if map_of taken_out cid = None then [] else result),
                   am_after = came_after wr api
                     (case wa_turn_at api rendered 0 of None \<Rightarrow> [] | Some turn \<Rightarrow> sp_calls turn) cid\<rparr>)))"

fun amendments_for ::
  "wire \<Rightarrow> wire_api \<Rightarrow> chat_message \<Rightarrow> (string \<times> string) list \<Rightarrow> json option \<Rightarrow>
     string list \<Rightarrow> (string \<times> amendment) list \<Rightarrow> failure + (string \<times> amendment) list" where
  "amendments_for wr api message taken_out notes [] written = Inr written"
| "amendments_for wr api message taken_out notes (cid # ids) written =
     bind_err (amendment_for wr api message taken_out notes cid) (\<lambda>a.
       amendments_for wr api message taken_out notes ids (dict_set written cid a))"

definition amendments ::
  "wire \<Rightarrow> stream_format \<Rightarrow> chat_message \<Rightarrow> (string \<times> string) list \<Rightarrow> string list \<Rightarrow> json option \<Rightarrow>
     failure + (string \<times> amendment) list" where
  "amendments wr f message taken_out changed notes =
     amendments_for wr (wr_api wr f) message taken_out notes (map fst taken_out @ changed) []"

section \<open>Editing a reply\<close>

text \<open>\<open>check_found\<close>; the error quotes the least id that is missing, \<open>sorted(missing)[0]\<close>.\<close>

fun text_less :: "string \<Rightarrow> string \<Rightarrow> bool" where
  "text_less xs [] = False"
| "text_less [] (y # ys) = True"
| "text_less (x # xs) (y # ys) =
     ((of_char x :: nat) < of_char y \<or> (x = y \<and> text_less xs ys))"

definition least :: "string list \<Rightarrow> string" where
  "least xs = foldl (\<lambda>a b. if text_less b a then b else a) (hd xs) xs"

definition check_found :: "string list \<Rightarrow> edits \<Rightarrow> failure option" where
  "check_found found es =
     (let missing = filter (\<lambda>cid. cid \<notin> set found) (targets es)
      in if missing = [] then None
         else Some (UnreadableError
           (''The reply has no call this sidecar can change with the cid '' @ quoted (least missing) @ ''.'')))"

text \<open>\<open>made_event\<close>.\<close>

definition made_event :: "wire \<Rightarrow> stream_event \<Rightarrow> fields \<Rightarrow> stream_event" where
  "made_event wr like data =
     (let eol = (case se_lines like of (line, e) # ls \<Rightarrow> if e = [] then newline else e | [] \<Rightarrow> newline)
      in \<lparr>se_lines =
            (if list_ex (\<lambda>(line, e). starts_with line ''event:'') (se_lines like) then
               [(''event: '' @ (case field data ''type'' of JStr s \<Rightarrow> s | j \<Rightarrow> wr_str wr j), eol)] else [])
            @ [(''data: '' @ wr_dumps wr (JObj data), eol), ([], eol)],
          se_data = Some data, se_changed = False\<rparr>)"

text \<open>\<open>_check_edited\<close>; a message's dump leaves out its id and its calls.\<close>

record edit_config =
  ec_wire :: wire
  ec_rest :: "chat_message \<Rightarrow> fields"

definition intended_calls :: "edits \<Rightarrow> tool_call list \<Rightarrow> (string \<times> string \<times> fields) list" where
  "intended_calls es calls =
     map (\<lambda>c. (tc_id c, tc_function c, tc_arguments (case map_of (es_modified es) (tc_id c) of None \<Rightarrow> c | Some m \<Rightarrow> m)))
       (filter (\<lambda>c. tc_id c \<notin> set (es_removed es)) calls)"

definition made_calls_of :: "tool_call list \<Rightarrow> (string \<times> string \<times> fields) list" where
  "made_calls_of calls = map (\<lambda>c. (tc_id c, tc_function c, tc_arguments c)) calls"

definition same_call :: "string \<times> string \<times> fields \<Rightarrow> string \<times> string \<times> fields \<Rightarrow> bool" where
  "same_call x y \<longleftrightarrow> fst x = fst y \<and> fst (snd x) = fst (snd y) \<and> same (JObj (snd (snd x))) (JObj (snd (snd y)))"

definition check_edited :: "edit_config \<Rightarrow> model_output \<Rightarrow> model_output \<Rightarrow> edits \<Rightarrow> failure option" where
  "check_edited ec out edited es =
     (case (mo_choices out, mo_choices edited) of
        (was # _, [now]) \<Rightarrow>
          (let before = ch_message was; after = ch_message now in
           if \<not> list_all2 same_call (made_calls_of (calls_of_message after)) (intended_calls es (calls_of_message before))
              \<or> \<not> same (JObj (ec_rest ec after)) (JObj (ec_rest ec before))
              \<or> ch_stop_reason now \<noteq> ch_stop_reason was
           then Some (UnreadableError (''The edited reply doesn'' @ apostrophe @ ''t read back as intended.''))
           else None)
      | _ \<Rightarrow> Some (UnreadableError (''The edited reply doesn'' @ apostrophe @ ''t read as one message.'')))"

text \<open>\<open>edit_reply\<close>: the reply edited as it was written, and read back.\<close>

definition edit_body :: "wire \<Rightarrow> string \<Rightarrow> string \<Rightarrow> string \<Rightarrow> stream_format option \<Rightarrow> edits \<Rightarrow> failure + string" where
  "edit_body wr provider content_type body f es =
     (if is_anthropic provider f then wr_anthropic_edit wr content_type body es
      else if is_openai provider f then wr_openai_edit wr content_type body (is_chat f) es
      else Inl (no_reader provider))"

definition edit_reply ::
  "edit_config \<Rightarrow> string \<Rightarrow> string \<Rightarrow> string \<Rightarrow> stream_format option \<Rightarrow> edits \<Rightarrow> model_output \<Rightarrow> json option \<Rightarrow> failure + string" where
  "edit_reply ec provider content_type body f es out start =
     bind_err (edit_body (ec_wire ec) provider content_type body f es) (\<lambda>edited.
       bind_err (read_reply (ec_wire ec) provider content_type edited f start) (\<lambda>(read, notes).
         case check_edited ec out read es of Some ex \<Rightarrow> Inl ex | None \<Rightarrow> Inr edited))"

section \<open>Rejections a client put back itself\<close>

text \<open>\<open>_told\<close>.\<close>

definition told_by :: "wire_api \<Rightarrow> amendment \<Rightarrow> json \<times> json" where
  "told_by api a =
     (case find (\<lambda>s. fst s \<noteq> JNull) (map (wa_result_of api) (am_result a)) of None \<Rightarrow> (JNull, JNull) | Some s \<Rightarrow> s)"

definition same_result :: "json \<times> json \<Rightarrow> json \<times> json \<Rightarrow> bool" where
  "same_result x y \<longleftrightarrow> same (fst x) (fst y) \<and> same (snd x) (snd y)"

fun rejections_in ::
  "wire_api \<Rightarrow> (string \<times> amendment) list \<Rightarrow> json list \<Rightarrow> string list \<Rightarrow> failure + string list" where
  "rejections_in api written [] found = Inr found"
| "rejections_in api written (e # es) found =
     (let s = wa_result_of api e in
      if unhashable (fst s) then Inl (OtherFailure ''TypeError'')
      else case text_id (fst s) of
             None \<Rightarrow> rejections_in api written es found
           | Some cid \<Rightarrow>
               (case map_of written cid of
                  None \<Rightarrow> rejections_in api written es found
                | Some a \<Rightarrow>
                    if \<not> same_result s (told_by api a) then
                      Inl (UnreadableError ''The request holds a result for a call of a refused turn, which never ran.'')
                    else rejections_in api written es (found @ [cid])))"

definition held_rejections ::
  "wire \<Rightarrow> string \<Rightarrow> string \<Rightarrow> (string \<times> amendment) list \<Rightarrow> stream_format option \<Rightarrow> failure + string list" where
  "held_rejections wr provider body written f =
     (if written = [] then Inr []
      else with_api wr provider body f (\<lambda>request api.
        rejections_in api written (concat (map (wa_results_in api) (conversation_of request api))) []))"

section \<open>Spans that inspect_ai's readers take out of a text\<close>

text \<open>What stands after the first \<open>tag\<close> in a text, if it is there.\<close>

fun after_tag :: "string \<Rightarrow> string \<Rightarrow> string option" where
  "after_tag tag [] = (if tag = [] then Some [] else None)"
| "after_tag tag (c # cs) =
     (if starts_with (c # cs) tag then Some (drop (length tag) (c # cs)) else after_tag tag cs)"

lemma after_tag_shorter: "after_tag tag s = Some r \<Longrightarrow> tag \<noteq> [] \<Longrightarrow> length r < length s"
  by (induction tag s rule: after_tag.induct) (auto split: if_splits simp: less_Suc_eq_le neq_Nil_conv)

definition open_tag :: string where
  "open_tag = ''<content-internal>''"

definition close_tag :: string where
  "close_tag = ''</content-internal>''"

text \<open>How many spans \<open>_INTERNAL.findall\<close> finds.\<close>

function spans :: "string \<Rightarrow> nat" where
  "spans s =
     (case after_tag open_tag s of
        None \<Rightarrow> 0
      | Some r \<Rightarrow> (case after_tag close_tag r of None \<Rightarrow> 0 | Some rest \<Rightarrow> Suc (spans rest)))"
  by pat_completeness auto
termination
  by (relation "measure length")
    (auto simp: open_tag_def close_tag_def dest!: after_tag_shorter)

declare spans.simps [simp del]

text \<open>\<open>check_internal\<close>.\<close>

definition check_internal :: "string \<Rightarrow> json list \<Rightarrow> failure option" where
  "check_internal what texts =
     (if list_ex (\<lambda>j. case j of JStr s \<Rightarrow> 1 < spans s | _ \<Rightarrow> False) texts then
        Some (UnreadableError (''The '' @ what
          @ '' holds text with more than one <content-internal> span, of which only the first would be read.''))
      else None)"

text \<open>\<open>check_internal_kept\<close>; how inspect_ai reads a span, and the values the parts of a message keep,
  are parameters.\<close>

record span_reader =
  sr_text :: "string \<Rightarrow> (string \<times> string) option"
  sr_kept :: "chat_message \<Rightarrow> string list"

definition span_values :: "span_reader \<Rightarrow> json list \<Rightarrow> string list" where
  "span_values sr texts =
     concat (map (\<lambda>j. case j of JStr s \<Rightarrow> (case sr_text sr s of None \<Rightarrow> [] | Some (v, t) \<Rightarrow> [v]) | _ \<Rightarrow> []) texts)"

definition check_internal_kept :: "span_reader \<Rightarrow> string \<Rightarrow> json list \<Rightarrow> messages \<Rightarrow> failure option" where
  "check_internal_kept sr what texts ms =
     (if set (span_values sr texts) \<subseteq> set (concat (map (sr_kept sr) (filter (\<lambda>m. case cm_content m of Text _ \<Rightarrow> False | Items _ \<Rightarrow> True) ms)))
      then None
      else Some (UnreadableError (''The '' @ what
        @ '' holds a <content-internal> value that would be dropped unread.'')))"

text \<open>A failure of the readers' own, told apart from an \<open>UnreadableError\<close> of this repository's.\<close>

definition check :: "failure option \<Rightarrow> failure + 'a \<Rightarrow> failure + 'a" where
  "check c rest = (case c of Some ex \<Rightarrow> Inl ex | None \<Rightarrow> rest)"

lemma check_Inr [simp]: "check c rest = Inr x \<longleftrightarrow> c = None \<and> rest = Inr x"
  by (auto simp: check_def split: option.splits)

definition reader_error :: "string \<Rightarrow> failure + 'a \<Rightarrow> failure + 'a" where
  "reader_error t r = (case r of Inl ex \<Rightarrow> Inl (UnreadableError t) | Inr x \<Rightarrow> Inr x)"

section \<open>Entries and events\<close>

definition entry_at :: "json list \<Rightarrow> nat \<Rightarrow> json" where
  "entry_at entries n = (if n < length entries then entries ! n else JNull)"

fun int_of :: "json \<Rightarrow> int option" where
  "int_of (JInt i) = Some i"
| "int_of (JBool b) = Some (if b then 1 else 0)"
| "int_of j = None"

definition moved_down :: "int list \<Rightarrow> int \<Rightarrow> int" where
  "moved_down removed index = index - int (length (filter (\<lambda>t. t < index) removed))"

definition set_data :: "fields \<Rightarrow> stream_event \<Rightarrow> stream_event" where
  "set_data data e = e\<lparr>se_data := Some data, se_changed := True\<rparr>"

definition event_stream :: "string \<Rightarrow> bool" where
  "event_stream content_type \<longleftrightarrow> starts_with content_type ''text/event-stream''"

definition events_written :: "wire \<Rightarrow> string \<Rightarrow> failure + stream_event list" where
  "events_written wr body =
     (case written_events (wr_loads wr) body of
        None \<Rightarrow> Inl (UnreadableError ''The reply stream is not UTF-8.'')
      | Some events \<Rightarrow> Inr events)"

definition text_or :: "wire \<Rightarrow> json \<Rightarrow> string" where
  "text_or wr j = (case j of JStr s \<Rightarrow> s | _ \<Rightarrow> wr_str wr j)"

definition provider_ended :: failure where
  "provider_ended = UnreadableError ''The reply stream ended in an error from the provider.''"

end
