(* ===== verification/Amend.thy ===== *)
theory Amend
  imports Wire "HOL-Library.Sublist"
begin

text \<open>
  How a later request of a conversation is told of what its client was never handed
  (\<open>amend_request\<close> and \<open>_amend\<close> of \<open>sidecar/_wire.py\<close>): a rejected turn goes in where the client
  would have put it, and in a turn that was edited the calls taken out and their rejections go
  back in their places.
\<close>

section \<open>Putting calls and results back\<close>

definition insert_at :: "nat \<Rightarrow> 'a list \<Rightarrow> 'a list \<Rightarrow> 'a list" where
  "insert_at n new xs = take n xs @ new @ drop n xs"

definition first_place :: "('a \<Rightarrow> bool) \<Rightarrow> 'a list \<Rightarrow> nat option" where
  "first_place P xs = find (\<lambda>i. P (xs ! i)) [0..<length xs]"

definition last_place :: "('a \<Rightarrow> bool) \<Rightarrow> 'a list \<Rightarrow> nat option" where
  "last_place P xs =
     (let places = filter (\<lambda>i. P (xs ! i)) [0..<length xs] in if places = [] then None else Some (last places))"

definition among :: "string list \<Rightarrow> string option \<Rightarrow> bool" where
  "among ids key \<longleftrightarrow> (case key of None \<Rightarrow> False | Some i \<Rightarrow> i \<in> set ids)"

text \<open>\<open>_inserted\<close>: before the first of those after it in the model's order that is there, or else
  after the last of the turn's, or else first; unless \<open>anchor\<close> says where.\<close>

definition place_for ::
  "(json \<Rightarrow> string option) \<Rightarrow> string list \<Rightarrow> string list \<Rightarrow> json list \<Rightarrow> nat" where
  "place_for key order later placed =
     (case first_place (\<lambda>e. among later (key e)) placed of
        Some i \<Rightarrow> i
      | None \<Rightarrow> (case last_place (\<lambda>e. among order (key e)) placed of Some i \<Rightarrow> Suc i | None \<Rightarrow> 0))"

fun inserted ::
  "(json \<Rightarrow> string option) \<Rightarrow> (string \<times> json list) list \<Rightarrow> (json list \<Rightarrow> string \<Rightarrow> nat option) \<Rightarrow>
     string list \<Rightarrow> string list \<Rightarrow> json list \<Rightarrow> json list" where
  "inserted key new anchor order [] placed = placed"
| "inserted key new anchor order (i # later) placed =
     (case map_of new i of
        None \<Rightarrow> inserted key new anchor order later placed
      | Some elements \<Rightarrow>
          inserted key new anchor order later
            (insert_at (case anchor placed i of Some n \<Rightarrow> n | None \<Rightarrow> place_for key order later placed) elements placed))"

text \<open>\<open>_after\<close>.\<close>

definition place_after :: "wire \<Rightarrow> wire_api \<Rightarrow> json list \<Rightarrow> amendment \<Rightarrow> nat option" where
  "place_after wr api placed a =
     (case am_after a of
        None \<Rightarrow> Some 0
      | Some (key, before) \<Rightarrow>
          (let found = filter (\<lambda>i. block_key_of wr api (placed ! i) = key) [0..<length placed]
           in if before < length found then Some (Suc (found ! before)) else None))"

section \<open>One edited turn\<close>

type_synonym named = "(string \<times> json) list"

text \<open>The elements with an id, each id once, in the order they first come.\<close>

definition by_call_id :: "wire_api \<Rightarrow> json list \<Rightarrow> named" where
  "by_call_id api es =
     foldl (\<lambda>d e. case fst (wa_call_of api e) of None \<Rightarrow> d | Some i \<Rightarrow> dict_set d i e) [] es"

definition by_result_id :: "wire_api \<Rightarrow> json list \<Rightarrow> named" where
  "by_result_id api es =
     foldl (\<lambda>d e. case text_id (fst (wa_result_of api e)) of None \<Rightarrow> d | Some i \<Rightarrow> dict_set d i e) [] es"

definition unreadable :: "string \<Rightarrow> failure" where
  "unreadable t = UnreadableError (''The request holds '' @ t)"

definition rank_in :: "string list \<Rightarrow> string \<Rightarrow> nat" where
  "rank_in order i = (case last_place (\<lambda>j. j = i) order of None \<Rightarrow> 0 | Some n \<Rightarrow> n)"

text \<open>The three checks of the turn's calls as the client holds them.\<close>

definition check_held :: "edited \<Rightarrow> named \<Rightarrow> failure option" where
  "check_held turn own =
     first_error
       [if list_ex (\<lambda>p. fst p \<notin> set (ed_order turn)) own then
          Some (unreadable (''an edited turn with a call it didn'' @ apostrophe @ ''t have.'')) else None,
        if \<not> sorted (map (\<lambda>p. rank_in (ed_order turn) (fst p)) own) then
          Some (unreadable ''an edited turn with its calls out of order.'') else None,
        if list_ex (\<lambda>i. map_of (ed_taken_out turn) i = None \<and> map_of own i = None) (ed_order turn) then
          Some (unreadable ''an edited turn without a call it was handed.'') else None]"

definition same_four :: "string option \<times> json \<times> json \<times> json \<Rightarrow> string option \<times> json \<times> json \<times> json \<Rightarrow> bool" where
  "same_four x y \<longleftrightarrow> fst x = fst y \<and> same (fst (snd x)) (fst (snd y))
     \<and> same (fst (snd (snd x))) (fst (snd (snd y))) \<and> same (snd (snd (snd x))) (snd (snd (snd y)))"

text \<open>\<open>calls[calls.index(element)] = new\<close>.\<close>

fun replace_same :: "json \<Rightarrow> json \<Rightarrow> json list \<Rightarrow> json list" where
  "replace_same old new [] = []"
| "replace_same old new (e # es) = (if same e old then new # es else e # replace_same old new es)"

text \<open>One call of the turn that the client holds: one taken out must be as the model proposed it,
  and a changed one as the client was handed it, when it becomes the model's, or the model's.\<close>

definition settle_call :: "wire_api \<Rightarrow> edited \<Rightarrow> string \<times> json \<Rightarrow> json list \<Rightarrow> failure + json list" where
  "settle_call api turn p calls =
     (let i = fst p; (_, kind, name, arguments) = wa_call_of api (snd p) in
      if map_of (ed_taken_out turn) i \<noteq> None then
        bind_err (item (ed_amendments turn) i) (\<lambda>a.
          if \<not> same_four (wa_call_of api (snd p)) (wa_call_of api (am_call a)) then
            Inl (unreadable ''a call of an edited turn that was taken out, not as the model proposed it.'')
          else Inr calls)
      else
        (case map_of (ed_modified turn) i of
           None \<Rightarrow> Inr calls
         | Some changed \<Rightarrow>
             bind_err (item (ed_amendments turn) i) (\<lambda>a.
               let (_, kind', name', _) = wa_call_of api (am_call a) in
               if \<not> (same kind kind' \<and> same name name') then
                 Inl (unreadable ''a changed call of an edited turn as a call of another kind or function.'')
               else if same arguments (JObj (tc_arguments changed)) then
                 Inr (replace_same (snd p) (am_call a) calls)
               else
                 bind_err (item (ed_originals turn) i) (\<lambda>original.
                   if same arguments (JObj (tc_arguments original)) then Inr calls
                   else Inl (unreadable (''a changed call of an edited turn with arguments that are neither the model''
                     @ apostrophe @ ''s nor those it ran with.''))))))"

fun settle_calls :: "wire_api \<Rightarrow> edited \<Rightarrow> named \<Rightarrow> json list \<Rightarrow> failure + json list" where
  "settle_calls api turn [] calls = Inr calls"
| "settle_calls api turn (p # ps) calls = bind_err (settle_call api turn p calls) (settle_calls api turn ps)"

text \<open>The results the client holds for calls that never ran must be the sidecar's rejections.\<close>

definition check_told :: "wire_api \<Rightarrow> edited \<Rightarrow> named \<Rightarrow> string \<Rightarrow> failure option" where
  "check_told api turn told i =
     (case map_of told i of
        None \<Rightarrow> None
      | Some e \<Rightarrow>
          (case item (ed_amendments turn) i of
             Inl ex \<Rightarrow> Some ex
           | Inr a \<Rightarrow>
               if same_result (wa_result_of api e) (told_by api a) then None
               else Some (unreadable ''a result for a call that was taken out and never ran.'')))"

fun collect_all :: "(string \<Rightarrow> failure + 'a) \<Rightarrow> string list \<Rightarrow> failure + (string \<times> 'a) list" where
  "collect_all get [] = Inr []"
| "collect_all get (i # is) =
     bind_err (get i) (\<lambda>x. bind_err (collect_all get is) (\<lambda>xs. Inr ((i, x) # xs)))"

text \<open>\<open>_amend\<close>: the entries of the turn again, if anything changed, and the calls whose rejections
  the client put back itself.\<close>

definition amended_calls :: "wire \<Rightarrow> wire_api \<Rightarrow> spliced \<Rightarrow> edited \<Rightarrow> failure + json list" where
  "amended_calls wr api found turn =
     (let own = by_call_id api (sp_calls found); taken = map fst (ed_taken_out turn) in
      case check_held turn own of
        Some ex \<Rightarrow> Inl ex
      | None \<Rightarrow>
          bind_err (settle_calls api turn own (sp_calls found)) (\<lambda>calls.
            bind_err (collect_all (item (ed_amendments turn)) (filter (\<lambda>i. map_of own i = None) taken)) (\<lambda>back.
              Inr (inserted (\<lambda>e. fst (wa_call_of api e)) (map (\<lambda>(i, a). (i, [am_call a])) back)
                (\<lambda>placed i. case map_of (ed_amendments turn) i of None \<Rightarrow> None | Some a \<Rightarrow> place_after wr api placed a)
                (ed_order turn) (ed_order turn) calls))))"

definition amended_results :: "wire_api \<Rightarrow> spliced \<Rightarrow> edited \<Rightarrow> failure + json list" where
  "amended_results api found turn =
     (if list_ex (\<lambda>e. unhashable (fst (wa_result_of api e))) (sp_results found) then Inl (OtherFailure ''TypeError'')
      else (let told = by_result_id api (sp_results found); taken = map fst (ed_taken_out turn) in
        case first_error (map (check_told api turn told) taken) of
          Some ex \<Rightarrow> Inl ex
        | None \<Rightarrow>
            bind_err (collect_all (item (ed_amendments turn)) (filter (\<lambda>i. map_of told i = None) taken)) (\<lambda>back.
              Inr (inserted (\<lambda>e. text_id (fst (wa_result_of api e))) (map (\<lambda>(i, a). (i, am_result a)) back)
                (\<lambda>_ _. None) (ed_order turn) (ed_order turn) (sp_results found)))))"

definition amend :: "wire \<Rightarrow> wire_api \<Rightarrow> spliced \<Rightarrow> edited \<Rightarrow> failure + (json list option \<times> string list)" where
  "amend wr api found turn =
     bind_err (amended_calls wr api found turn) (\<lambda>calls.
       bind_err (amended_results api found turn) (\<lambda>results.
         let told = by_result_id api (sp_results found);
             restored = filter (\<lambda>i. map_of told i \<noteq> None) (map fst (ed_taken_out turn))
         in Inr (if list_all2 same calls (sp_calls found) \<and> list_all2 same results (sp_results found) then None
                 else Some (sp_rebuild found calls results), restored)))"

section \<open>A whole request\<close>

record amended =
  ad_body :: "string option"
  ad_restored :: "string list"

text \<open>Where an edited turn stands in the request, if it does.\<close>

definition turn_held :: "wire_api \<Rightarrow> json list \<Rightarrow> edited \<Rightarrow> spliced option" where
  "turn_held api entries turn =
     (case wa_turn_at api entries (ed_sent turn) of
        None \<Rightarrow> None
      | Some found \<Rightarrow>
          if list_ex (\<lambda>e. among (ed_order turn) (fst (wa_call_of api e))) (sp_calls found) then Some found else None)"

definition elsewhere :: "wire_api \<Rightarrow> json list \<Rightarrow> edited \<Rightarrow> spliced option \<Rightarrow> bool" where
  "elsewhere api entries turn found =
     list_ex (\<lambda>i. \<not> (case found of None \<Rightarrow> False | Some s \<Rightarrow> sp_start s \<le> i \<and> i < sp_end s)
         \<and> list_ex (\<lambda>c. c \<in> set (ed_order turn)) (wa_call_ids api (entries ! i)))
       [0..<length entries]"

text \<open>The state of the loop over the edited turns: the request_segments, whether anything changed, and the
  calls restored.\<close>

type_synonym request_segments = "json list list \<times> bool \<times> string list"

definition put_segment :: "spliced \<Rightarrow> json list \<Rightarrow> json list list \<Rightarrow> json list list" where
  "put_segment found entries request_segments =
     map (\<lambda>(i, s). if i = sp_start found then entries
                   else if sp_start found < i \<and> i < sp_end found then [] else s) (indexed request_segments)"

definition amend_turn :: "wire \<Rightarrow> wire_api \<Rightarrow> json list \<Rightarrow> edited \<Rightarrow> request_segments \<Rightarrow> failure + request_segments" where
  "amend_turn wr api entries turn s =
     (let (request_segments, changed, restored) = s; found = turn_held api entries turn in
      if elsewhere api entries turn found then
        Inl (unreadable (''a call of an edited turn where the turn isn'' @ apostrophe @ ''t.''))
      else case found of
             None \<Rightarrow> Inr s
           | Some found \<Rightarrow>
               bind_err (amend wr api found turn) (\<lambda>(new, back).
                 Inr (case new of
                        None \<Rightarrow> (request_segments, changed, restored @ back)
                      | Some es \<Rightarrow> (put_segment found es request_segments, True, restored @ back))))"

fun amend_turns :: "wire \<Rightarrow> wire_api \<Rightarrow> json list \<Rightarrow> edited list \<Rightarrow> request_segments \<Rightarrow> failure + request_segments" where
  "amend_turns wr api entries [] s = Inr s"
| "amend_turns wr api entries (t # ts) s = bind_err (amend_turn wr api entries t s) (amend_turns wr api entries ts)"

text \<open>A rejected turn as the request holds it: the model's message, and a result for each call.\<close>

definition written_turn :: "wire_api \<Rightarrow> refused_turn \<Rightarrow> failure + json list" where
  "written_turn api turn =
     (let (message, told, notes) = turn in
      bind_err (collect_all (item told) (map tc_id (calls_of_message message))) (\<lambda>whys.
        wa_rejected_turn api notes message
          (map (\<lambda>(c, w). rejection c (snd w)) (zip (calls_of_message message) whys))))"

fun written_turns :: "wire_api \<Rightarrow> refused_turn list \<Rightarrow> failure + json list" where
  "written_turns api [] = Inr []"
| "written_turns api (t # ts) =
     bind_err (written_turn api t) (\<lambda>es. bind_err (written_turns api ts) (\<lambda>rest. Inr (es @ rest)))"

text \<open>The request's entries with the turns before each; \<open>n\<close> is how many entries came before.\<close>

definition turns_after :: "(nat \<times> refused_turn list) list \<Rightarrow> nat \<Rightarrow> refused_turn list" where
  "turns_after told n = (case map_of told n of None \<Rightarrow> [] | Some ts \<Rightarrow> ts)"

fun with_turns ::
  "wire_api \<Rightarrow> (nat \<times> refused_turn list) list \<Rightarrow> nat \<Rightarrow> json list list \<Rightarrow> failure + json list" where
  "with_turns api told n [] = written_turns api (turns_after told n)"
| "with_turns api told n (s # ss) =
     bind_err (written_turns api (turns_after told n)) (\<lambda>es.
       bind_err (with_turns api told (Suc n) ss) (\<lambda>rest. Inr (es @ s @ rest)))"

definition tells :: "(nat \<times> refused_turn list) list \<Rightarrow> nat \<Rightarrow> bool" where
  "tells told n = list_ex (\<lambda>i. turns_after told i \<noteq> []) [0..<Suc n]"

definition amend_request ::
  "wire \<Rightarrow> string \<Rightarrow> string \<Rightarrow> (nat \<times> refused_turn list) list \<Rightarrow> edited list \<Rightarrow> stream_format option \<Rightarrow> failure + amended" where
  "amend_request wr provider body told edited f =
     with_api wr provider body f (\<lambda>request api.
       let entries = conversation_of request api in
       bind_err (amend_turns wr api entries edited (map (\<lambda>e. [e]) entries, False, [])) (\<lambda>(request_segments, changed, restored).
         bind_err (with_turns api told 0 request_segments) (\<lambda>sent.
           Inr \<lparr>ad_body = (if changed \<or> tells told (length entries)
                  then Some (wr_dumps wr (JObj (dict_set request (wa_conversation api) (JList sent)))) else None),
                ad_restored = restored\<rparr>)))"

end
