(* ===== verification/AmendProps.thy ===== *)
theory AmendProps
  imports Amend
begin

text \<open>
  What amending a request keeps: calls and results are put back in the model's order, none is
  missing and none is there twice; a client that put them back itself has nothing added; and
  nothing else of the request changes.
\<close>

section \<open>Places\<close>

lemma in_set_nth: "x \<in> set xs \<Longrightarrow> (\<And>i. i < length xs \<Longrightarrow> x = xs ! i \<Longrightarrow> R) \<Longrightarrow> R"
  by (auto simp: in_set_conv_nth)

lemma first_place_Some:
  assumes "first_place P xs = Some n"
  shows "n < length xs" "P (xs ! n)" "\<forall>x\<in>set (take n xs). \<not> P x"
  using assms unfolding first_place_def find_Some_iff by (auto simp: in_set_conv_nth)

lemma first_place_None: "first_place P xs = None \<longleftrightarrow> (\<forall>x\<in>set xs. \<not> P x)"
  by (auto simp: first_place_def find_None_iff dest: nth_mem elim!: in_set_nth)

lemma last_of_filter:
  "filter Q [0..<n] \<noteq> [] \<Longrightarrow>
     Q (last (filter Q [0..<n])) \<and> last (filter Q [0..<n]) < n \<and> (\<forall>m. last (filter Q [0..<n]) < m \<and> m < n \<longrightarrow> \<not> Q m)"
proof (induction n)
  case (Suc n)
  show ?case
  proof (cases "Q n")
    case True
    then have e: "filter Q [0..<Suc n] = filter Q [0..<n] @ [n]" by simp
    show ?thesis unfolding e last_snoc using True by auto
  next
    case False
    then have e: "filter Q [0..<Suc n] = filter Q [0..<n]" by simp
    show ?thesis using Suc False unfolding e by (metis less_Suc_eq)
  qed
qed simp

lemma last_place_Some:
  assumes "last_place P xs = Some n"
  shows "n < length xs" "P (xs ! n)" "\<forall>x\<in>set (drop (Suc n) xs). \<not> P x"
proof -
  have n: "filter (\<lambda>i. P (xs ! i)) [0..<length xs] \<noteq> []" "n = last (filter (\<lambda>i. P (xs ! i)) [0..<length xs])"
    using assms by (auto simp: last_place_def Let_def split: if_splits)
  note l = last_of_filter [OF n(1), folded n(2)]
  then show "n < length xs" "P (xs ! n)" by simp_all
  show "\<forall>x\<in>set (drop (Suc n) xs). \<not> P x"
  proof
    fix x assume "x \<in> set (drop (Suc n) xs)"
    then obtain m where "m < length xs - Suc n" "x = xs ! (Suc n + m)" by (auto elim!: in_set_nth)
    then show "\<not> P x" using l by simp
  qed
qed

lemma last_place_None: "last_place P xs = None \<longleftrightarrow> (\<forall>x\<in>set xs. \<not> P x)"
  by (auto simp: last_place_def Let_def filter_empty_conv dest: nth_mem elim!: in_set_nth)

text \<open>The ids of a turn's calls or results, as they stand among other elements.\<close>

definition ids_of :: "(json \<Rightarrow> string option) \<Rightarrow> string list \<Rightarrow> json list \<Rightarrow> string list" where
  "ids_of key order es =
     concat (map (\<lambda>e. case key e of None \<Rightarrow> [] | Some i \<Rightarrow> if i \<in> set order then [i] else []) es)"

lemma ids_of_append [simp]: "ids_of key order (xs @ ys) = ids_of key order xs @ ids_of key order ys"
  by (simp add: ids_of_def)

lemma ids_of_Nil [simp]: "ids_of key order [] = []"
  by (simp add: ids_of_def)

lemma ids_of_Cons [simp]:
  "ids_of key order (e # es) =
     (case key e of None \<Rightarrow> [] | Some i \<Rightarrow> if i \<in> set order then [i] else []) @ ids_of key order es"
  by (simp add: ids_of_def)

lemma set_ids_of: "i \<in> set (ids_of key order es) \<longleftrightarrow> i \<in> set order \<and> (\<exists>e\<in>set es. key e = Some i)"
  by (induction es) (auto split: option.splits)

lemma ids_of_none: "ids_of key order es = [] \<longleftrightarrow> (\<forall>e\<in>set es. \<not> among order (key e))"
  by (induction es) (auto simp: among_def split: option.splits)

section \<open>Inserting in order\<close>

lemma split_ordered:
  assumes "us @ v # vs = ds @ ls" "set us \<inter> set ls = {}" "v \<notin> set ds"
  shows "us = ds \<and> v # vs = ls"
proof -
  from assms(1) obtain ws where "us = ds @ ws \<and> ws @ v # vs = ls \<or> us @ ws = ds \<and> v # vs = ws @ ls"
    by (auto simp: append_eq_append_conv2)
  then show ?thesis
  proof
    assume w: "us = ds @ ws \<and> ws @ v # vs = ls"
    then have "set ws \<subseteq> set us \<inter> set ls" by auto
    then have "ws = []" using assms(2) by simp
    then show ?thesis using w by simp
  next
    assume w: "us @ ws = ds \<and> v # vs = ws @ ls"
    then have "ws = []" using assms(3) by (cases ws) auto
    then show ?thesis using w by simp
  qed
qed

lemma place_for_splits:
  assumes order: "order = done_ids @ i # later" "distinct order" "i \<notin> there"
    and ids: "ids_of key order placed = filter (\<lambda>j. j \<in> there) order"
  obtains xs ys where "placed = xs @ ys" "place_for key order later placed = length xs"
    "ids_of key order xs = filter (\<lambda>j. j \<in> there) done_ids" "ids_of key order ys = filter (\<lambda>j. j \<in> there) later"
proof (cases "first_place (\<lambda>e. among later (key e)) placed")
  case (Some n)
  note f = first_place_Some [OF Some]
  let ?xs = "take n placed" and ?y = "placed ! n" and ?ys = "drop (Suc n) placed"
  from f(2) obtain v where v: "key ?y = Some v" "v \<in> set later" by (auto simp: among_def split: option.splits)
  have placed: "placed = ?xs @ ?y # ?ys" using f(1) by (simp add: id_take_nth_drop)
  have y: "ids_of key order (?y # ?ys) = v # ids_of key order ?ys"
    using v order(1) by simp
  have "ids_of key order ?xs @ ids_of key order (?y # ?ys) = filter (\<lambda>j. j \<in> there) order"
    unfolding ids_of_append [symmetric] using placed ids by simp
  then have "ids_of key order ?xs @ v # ids_of key order ?ys
      = filter (\<lambda>j. j \<in> there) done_ids @ filter (\<lambda>j. j \<in> there) later"
    unfolding y using order by simp
  moreover have "set (ids_of key order ?xs) \<inter> set (filter (\<lambda>j. j \<in> there) later) = {}"
    using f(3) by (auto simp: set_ids_of among_def split: option.splits)
  ultimately have "ids_of key order ?xs = filter (\<lambda>j. j \<in> there) done_ids
      \<and> v # ids_of key order ?ys = filter (\<lambda>j. j \<in> there) later"
    using v order by (intro split_ordered) auto
  then show ?thesis using that [of ?xs "?y # ?ys"] placed f(1) Some y by (simp add: place_for_def)
next
  case None
  have "j \<notin> there" if "j \<in> set later" for j
  proof
    assume "j \<in> there"
    then have "j \<in> set (ids_of key order placed)" using ids order that by simp
    then obtain e where "e \<in> set placed" "key e = Some j" by (auto simp: set_ids_of)
    then show False using None that by (auto simp: first_place_None among_def)
  qed
  then have no_later: "filter (\<lambda>j. j \<in> there) later = []" by (simp add: filter_empty_conv)
  then have all: "ids_of key order placed = filter (\<lambda>j. j \<in> there) done_ids" using ids order by simp
  show ?thesis
  proof (cases "last_place (\<lambda>e. among order (key e)) placed")
    case (Some n)
    note l = last_place_Some [OF Some]
    have "ids_of key order (drop (Suc n) placed) = []" using l(3) by (simp add: ids_of_none)
    then have "ids_of key order (take (Suc n) placed) = filter (\<lambda>j. j \<in> there) done_ids"
      using all by (metis append_Nil2 append_take_drop_id ids_of_append)
    then show ?thesis
      using that [of "take (Suc n) placed" "drop (Suc n) placed"] no_later l None Some
      by (simp add: place_for_def ids_of_none)
  next
    case none: None
    then have "ids_of key order placed = []" by (simp add: ids_of_none last_place_None)
    then show ?thesis using that [of "[]" placed] all no_later None none by (simp add: place_for_def)
  qed
qed

text \<open>Inserting keeps the order, and puts in what is missing: each new list of elements is named by
  its id once.\<close>

lemma inserted_in_order:
  assumes "order = done_ids @ later" "distinct order"
    and "ids_of key order placed = filter (\<lambda>j. j \<in> there) order"
    and "\<forall>j\<in>set later. j \<in> there \<longrightarrow> map_of new j = None"
    and "\<forall>(j, es)\<in>set new. ids_of key order es = [j]"
  shows "ids_of key order (inserted key new (\<lambda>_ _. None) order later placed)
    = filter (\<lambda>j. j \<in> there \<or> (j \<in> set later \<and> map_of new j \<noteq> None)) order"
  using assms
proof (induction later arbitrary: placed there done_ids)
  case Nil
  then show ?case by simp
next
  case (Cons i later)
  have next_ids: "order = (done_ids @ [i]) @ later" using Cons.prems(1) by simp
  show ?case
  proof (cases "map_of new i")
    case None
    have "ids_of key order (inserted key new (\<lambda>_ _. None) order later placed)
        = filter (\<lambda>j. j \<in> there \<or> (j \<in> set later \<and> map_of new j \<noteq> None)) order"
      using Cons.prems(2-5) by (intro Cons.IH [OF next_ids]) auto
    also have "\<dots> = filter (\<lambda>j. j \<in> there \<or> (j \<in> set (i # later) \<and> map_of new j \<noteq> None)) order"
      using None by (intro filter_cong) auto
    finally show ?thesis using None by simp
  next
    case (Some es)
    then have i: "i \<notin> there" using Cons.prems(4) by auto
    have es: "ids_of key order es = [i]" using Cons.prems(5) map_of_SomeD [OF Some] by auto
    obtain xs ys where s: "placed = xs @ ys" "place_for key order later placed = length xs"
      "ids_of key order xs = filter (\<lambda>j. j \<in> there) done_ids" "ids_of key order ys = filter (\<lambda>j. j \<in> there) later"
      using place_for_splits [OF Cons.prems(1,2) i Cons.prems(3)] by blast
    let ?placed = "insert_at (place_for key order later placed) es placed"
    have placed: "?placed = xs @ es @ ys" using s by (simp add: insert_at_def)
    have "filter (\<lambda>j. j \<in> insert i there) done_ids = filter (\<lambda>j. j \<in> there) done_ids"
      "filter (\<lambda>j. j \<in> insert i there) later = filter (\<lambda>j. j \<in> there) later"
      using Cons.prems(1,2) by (auto intro!: filter_cong)
    then have "ids_of key order ?placed = filter (\<lambda>j. j \<in> insert i there) order"
      using s es Cons.prems(1) unfolding placed by simp
    then have "ids_of key order (inserted key new (\<lambda>_ _. None) order later ?placed)
        = filter (\<lambda>j. j \<in> insert i there \<or> (j \<in> set later \<and> map_of new j \<noteq> None)) order"
      using Cons.prems by (intro Cons.IH [OF next_ids]) auto
    also have "\<dots> = filter (\<lambda>j. j \<in> there \<or> (j \<in> set (i # later) \<and> map_of new j \<noteq> None)) order"
      using Some by (intro filter_cong) auto
    finally show ?thesis using Some by simp
  qed
qed

text \<open>Wherever things go in, what was there stays, in its order.\<close>

lemma inserted_subseq: "subseq placed (inserted key new anchor order later placed)"
proof (induction later arbitrary: placed)
  case (Cons i later)
  have "subseq placed (insert_at n es placed)" for n es
    unfolding insert_at_def by (metis append_take_drop_id list_emb_append2 list_emb_append_mono subseq_order.refl)
  then show ?case using Cons.IH by (auto split: option.splits intro: subseq_order.trans)
qed simp

lemma subseq_set: "subseq xs ys \<Longrightarrow> set xs \<subseteq> set ys"
  by (auto dest: list_emb_set)

lemma inserted_all:
  assumes "i \<in> set later" "map_of new i = Some es"
  shows "set es \<subseteq> set (inserted key new anchor order later placed)"
  using assms
proof (induction later arbitrary: placed)
  case (Cons j later)
  show ?case
  proof (cases "i = j")
    case True
    then have "set es \<subseteq> set (insert_at n es placed)" for n placed by (auto simp: insert_at_def)
    then show ?thesis using True Cons.prems(2) inserted_subseq subseq_set by (fastforce split: option.splits)
  next
    case False
    then show ?thesis using Cons by (auto split: option.splits)
  qed
qed simp

section \<open>An edited turn\<close>

lemma fold_dict_set:
  "(map_of (foldl (\<lambda>d e. case f e of None \<Rightarrow> d | Some i \<Rightarrow> dict_set d i e) d es) i = None)
     \<longleftrightarrow> map_of d i = None \<and> (\<forall>e\<in>set es. f e \<noteq> Some i)"
  by (induction es arbitrary: d) (auto split: option.splits)

lemma by_call_id_None: "map_of (by_call_id api es) i = None \<longleftrightarrow> (\<forall>e\<in>set es. fst (wa_call_of api e) \<noteq> Some i)"
  by (simp add: by_call_id_def fold_dict_set)

lemma by_result_id_None:
  "map_of (by_result_id api es) i = None \<longleftrightarrow> (\<forall>e\<in>set es. text_id (fst (wa_result_of api e)) \<noteq> Some i)"
  by (simp add: by_result_id_def fold_dict_set)

lemma collect_all_Inr:
  "collect_all get is = Inr xs \<Longrightarrow> map fst xs = is \<and> (\<forall>(i, x)\<in>set xs. get i = Inr x)"
  by (induction "is" arbitrary: xs) (auto simp: bind_err_Inr)

lemma item_Inr: "item d i = Inr x \<longleftrightarrow> map_of d i = Some x"
  by (auto simp: item_def split: option.splits)

text \<open>Settling a call changes no id, so long as what goes back for a call is that call.\<close>

definition calls_ok :: "wire_api \<Rightarrow> (string \<times> amendment) list \<Rightarrow> bool" where
  "calls_ok api written \<longleftrightarrow> (\<forall>(i, a)\<in>set written. fst (wa_call_of api (am_call a)) = Some i)"

text \<open>Each rejection names its call, and no other call of the turn.\<close>

definition told_once :: "wire_api \<Rightarrow> edited \<Rightarrow> bool" where
  "told_once api turn \<longleftrightarrow>
     list_all (\<lambda>(i, a). map_of (ed_taken_out turn) i \<noteq> None \<longrightarrow>
       ids_of (\<lambda>e. text_id (fst (wa_result_of api e))) (ed_order turn) (am_result a) = [i]) (ed_amendments turn)"

definition amendments_ok :: "wire_api \<Rightarrow> edited \<Rightarrow> bool" where
  "amendments_ok api turn \<longleftrightarrow> calls_ok api (ed_amendments turn) \<and> told_once api turn"

lemma amendments_okD:
  assumes "amendments_ok api turn" "map_of (ed_amendments turn) i = Some a"
  shows "fst (wa_call_of api (am_call a)) = Some i"
    "map_of (ed_taken_out turn) i \<noteq> None \<Longrightarrow>
       ids_of (\<lambda>e. text_id (fst (wa_result_of api e))) (ed_order turn) (am_result a) = [i]"
  using assms map_of_SomeD by (fastforce simp: amendments_ok_def calls_ok_def told_once_def list_all_iff)+

definition call_named :: "wire_api \<Rightarrow> string \<Rightarrow> json list \<Rightarrow> bool" where
  "call_named api i es \<longleftrightarrow> (\<exists>e\<in>set es. fst (wa_call_of api e) = Some i)"

lemma dict_set_entries: "(j, x) \<in> set (dict_set d i e) \<Longrightarrow> (j = i \<and> x = e) \<or> (j, x) \<in> set d"
  by (induction d i e rule: dict_set.induct) (auto split: if_splits)

lemma by_call_id_entries: "(i, e) \<in> set (by_call_id api es) \<Longrightarrow> fst (wa_call_of api e) = Some i"
proof -
  have "(i, e) \<in> set (foldl (\<lambda>d e. case fst (wa_call_of api e) of None \<Rightarrow> d | Some i \<Rightarrow> dict_set d i e) d es) \<Longrightarrow>
      (i, e) \<in> set d \<or> fst (wa_call_of api e) = Some i" for d
    by (induction es arbitrary: d) (auto split: option.splits dest!: dict_set_entries)
  then show "(i, e) \<in> set (by_call_id api es) \<Longrightarrow> fst (wa_call_of api e) = Some i"
    by (fastforce simp: by_call_id_def)
qed

lemma check_held_None:
  assumes "check_held turn own = None"
  shows "\<forall>p\<in>set own. fst p \<in> set (ed_order turn)"
    "\<forall>i\<in>set (ed_order turn). map_of (ed_taken_out turn) i = None \<longrightarrow> map_of own i \<noteq> None"
  using assms unfolding check_held_def first_error_None by (auto simp: list_ex_iff split: if_splits)

text \<open>What amending relies on of a format: elements that are equal are one call.\<close>

locale edited_format =
  fixes api :: wire_api
  assumes same_call_id: "same x y \<Longrightarrow> fst (wa_call_of api x) = fst (wa_call_of api y)"
    and pick_call_id: "wa_pick api rendered i = Inr (call, told) \<Longrightarrow> fst (wa_call_of api call) = Some i"
begin

lemma replace_same_named:
  assumes "fst (wa_call_of api new) = fst (wa_call_of api old)"
  shows "call_named api i (replace_same old new es) = call_named api i es"
  using assms same_call_id by (induction es) (auto simp: call_named_def)

lemma settle_call_named:
  assumes "settle_call api turn p calls = Inr calls'" "amendments_ok api turn"
    "fst (wa_call_of api (snd p)) = Some (fst p)"
  shows "call_named api i calls' = call_named api i calls"
proof -
  have "calls' = calls \<or> (\<exists>a. map_of (ed_amendments turn) (fst p) = Some a \<and> calls' = replace_same (snd p) (am_call a) calls)"
    using assms(1) by (auto simp: settle_call_def Let_def bind_err_Inr item_Inr split: if_splits option.splits prod.splits)
  then show ?thesis
    using amendments_okD(1) [OF assms(2)] replace_same_named assms(3) by metis
qed

lemma settle_calls_named:
  assumes "settle_calls api turn ps calls = Inr calls'" "amendments_ok api turn"
    "\<forall>(i, e)\<in>set ps. fst (wa_call_of api e) = Some i"
  shows "call_named api i calls' = call_named api i calls"
  using assms(1,3)
proof (induction ps arbitrary: calls)
  case (Cons p ps)
  then obtain mid where mid: "settle_call api turn p calls = Inr mid" "settle_calls api turn ps mid = Inr calls'"
    by (auto simp: bind_err_Inr)
  have "fst (wa_call_of api (snd p)) = Some (fst p)" using Cons.prems(2) by (cases p) simp
  from settle_call_named [OF mid(1) assms(2) this] Cons.IH [OF mid(2)] Cons.prems(2)
  show ?case by simp
qed simp

text \<open>Every call of the turn is there again.\<close>

lemma all_calls_back:
  assumes "amended_calls wr api found turn = Inr calls" "amendments_ok api turn" "i \<in> set (ed_order turn)"
  shows "call_named api i calls"
proof -
  let ?own = "by_call_id api (sp_calls found)" and ?taken = "map fst (ed_taken_out turn)"
  from assms(1) obtain settled_calls put where s: "check_held turn ?own = None"
      "settle_calls api turn ?own (sp_calls found) = Inr settled_calls"
      "collect_all (item (ed_amendments turn)) (filter (\<lambda>i. map_of ?own i = None) ?taken) = Inr put"
    and calls: "calls = inserted (\<lambda>e. fst (wa_call_of api e)) (map (\<lambda>(i, a). (i, [am_call a])) put)
      (\<lambda>placed i. case map_of (ed_amendments turn) i of None \<Rightarrow> None | Some a \<Rightarrow> place_after wr api placed a)
      (ed_order turn) (ed_order turn) settled_calls"
    by (auto simp: amended_calls_def Let_def bind_err_Inr split: option.splits)
  note c = collect_all_Inr [OF s(3)]
  show ?thesis
  proof (cases "map_of ?own i")
    case (Some e)
    then have "call_named api i (sp_calls found)"
      using by_call_id_None [of api "sp_calls found" i] by (auto simp: call_named_def)
    then have "call_named api i settled_calls"
      using settle_calls_named [OF s(2) assms(2)] by_call_id_entries by fastforce
    then show ?thesis using subseq_set [OF inserted_subseq] unfolding calls call_named_def by blast
  next
    case None
    have "map_of (ed_taken_out turn) i \<noteq> None"
      using check_held_None(2) [OF s(1)] assms(3) None by blast
    then have "i \<in> set (map fst put)" using None c by (auto simp: map_of_eq_None_iff)
    then have "map_of put i \<noteq> None" by (simp add: map_of_eq_None_iff)
    then obtain a' where a': "map_of put i = Some a'" by auto
    then have "map_of (map (\<lambda>(i, a). (i, [am_call a])) put) i = Some [am_call a']"
      by (simp add: map_of_map)
    from inserted_all [OF assms(3) this] have "am_call a' \<in> set calls" by (simp add: calls)
    moreover have "map_of (ed_amendments turn) i = Some a'"
      using c map_of_SomeD [OF a'] by (auto simp: item_Inr)
    ultimately show ?thesis using amendments_okD(1) [OF assms(2)] by (auto simp: call_named_def)
  qed
qed

text \<open>What is written for the calls of an edited turn is those calls.\<close>

lemma amendments_calls:
  assumes "wr_api wr f = api" "amendments wr f message taken changed notes = Inr written"
  shows "calls_ok api written"
proof -
  have one: "fst (wa_call_of api (am_call a)) = Some i"
    if "amendment_for wr api message taken notes i = Inr a" for i a
    using that pick_call_id by (auto simp: amendment_for_def bind_err_Inr split: option.splits prod.splits)
  have "calls_ok api written" if "amendments_for wr api message taken notes ids start = Inr written" "calls_ok api start" for ids start
    using that
  proof (induction ids arbitrary: start)
    case (Cons i ids)
    then obtain a where a: "amendment_for wr api message taken notes i = Inr a"
        "amendments_for wr api message taken notes ids (dict_set start i a) = Inr written"
      by (auto simp: bind_err_Inr)
    have "calls_ok api (dict_set start i a)"
      using Cons.prems(2) one [OF a(1)] by (auto simp: calls_ok_def dest!: dict_set_entries)
    then show ?case using Cons.IH a(2) by blast
  qed simp
  then show ?thesis using assms by (fastforce simp: amendments_def calls_ok_def)
qed

end

text \<open>The results go back in the model's order.\<close>

definition result_id :: "wire_api \<Rightarrow> json \<Rightarrow> string option" where
  "result_id api e = text_id (fst (wa_result_of api e))"

lemma results_back:
  assumes "amended_results api found turn = Inr results" "amendments_ok api turn" "distinct (ed_order turn)"
    and held: "ids_of (result_id api) (ed_order turn) (sp_results found) = filter (\<lambda>i. i \<in> there) (ed_order turn)"
  shows "ids_of (result_id api) (ed_order turn) results
      = filter (\<lambda>i. i \<in> there \<or> map_of (ed_taken_out turn) i \<noteq> None) (ed_order turn)
    \<and> subseq (sp_results found) results"
proof -
  let ?told = "by_result_id api (sp_results found)" and ?taken = "map fst (ed_taken_out turn)"
    and ?order = "ed_order turn"
  from assms(1) obtain put where
      put: "collect_all (item (ed_amendments turn)) (filter (\<lambda>i. map_of ?told i = None) ?taken) = Inr put"
    and results: "results = inserted (result_id api) (map (\<lambda>(i, a). (i, am_result a)) put) (\<lambda>_ _. None)
      ?order ?order (sp_results found)"
    by (auto simp: amended_results_def Let_def bind_err_Inr result_id_def [abs_def] split: option.splits if_splits)
  note c = collect_all_Inr [OF put]
  have new: "map_of (map (\<lambda>(i, a). (i, am_result a)) put) i \<noteq> None
      \<longleftrightarrow> map_of ?told i = None \<and> map_of (ed_taken_out turn) i \<noteq> None" for i
  proof -
    have "map_of (map (\<lambda>(i, a). (i, am_result a)) put) i \<noteq> None \<longleftrightarrow> i \<in> set (map fst put)"
      by (auto simp: map_of_eq_None_iff image_iff split_beta)
    also have "\<dots> \<longleftrightarrow> map_of ?told i = None \<and> map_of (ed_taken_out turn) i \<noteq> None"
      using c by (auto simp: map_of_eq_None_iff)
    finally show ?thesis .
  qed
  have told: "map_of ?told i \<noteq> None \<longleftrightarrow> i \<in> there" if "i \<in> set ?order" for i
  proof -
    have "i \<in> set (ids_of (result_id api) ?order (sp_results found)) \<longleftrightarrow> i \<in> there" using held that by simp
    then show ?thesis using that by (auto simp: by_result_id_None set_ids_of result_id_def)
  qed
  have named: "\<forall>(j, es)\<in>set (map (\<lambda>(i, a). (i, am_result a)) put). ids_of (result_id api) ?order es = [j]"
  proof (clarsimp, rename_tac j a)
    fix j a assume a: "(j, a) \<in> set put"
    then have "map_of (ed_amendments turn) j = Some a" using c by (auto simp: item_Inr)
    moreover have "j \<in> set (map fst put)" using a by force
    then have "j \<in> set ?taken" using c by simp
    then have "map_of (ed_taken_out turn) j \<noteq> None" by (simp add: map_of_eq_None_iff)
    ultimately show "ids_of (result_id api) ?order (am_result a) = [j]"
      using amendments_okD(2) [OF assms(2)] by (simp add: result_id_def [abs_def])
  qed
  have apart: "\<forall>j\<in>set ?order. j \<in> there \<longrightarrow> map_of (map (\<lambda>(i, a). (i, am_result a)) put) j = None"
    using told new by blast
  have "ids_of (result_id api) ?order results
      = filter (\<lambda>j. j \<in> there \<or> (j \<in> set ?order \<and> map_of (map (\<lambda>(i, a). (i, am_result a)) put) j \<noteq> None)) ?order"
    unfolding results by (rule inserted_in_order [where done_ids = "[]", OF _ assms(3) held apart named]) simp
  also have "\<dots> = filter (\<lambda>i. i \<in> there \<or> map_of (ed_taken_out turn) i \<noteq> None) ?order"
  proof (rule filter_cong [OF refl])
    fix i assume "i \<in> set ?order"
    then show "(i \<in> there \<or> (i \<in> set ?order \<and> map_of (map (\<lambda>(i, a). (i, am_result a)) put) i \<noteq> None))
        \<longleftrightarrow> (i \<in> there \<or> map_of (ed_taken_out turn) i \<noteq> None)"
      using told [of i] new [of i] by (cases "i \<in> there") (simp_all del: not_None_eq)
  qed
  finally show ?thesis unfolding results by (simp add: inserted_subseq)
qed

section \<open>A request with turns added\<close>

lemma with_turns_parts:
  assumes "with_turns api told n segments = Inr sent"
  shows "\<exists>parts rest. length parts = length segments \<and> written_turns api (turns_after told (n + length segments)) = Inr rest
    \<and> (\<forall>k<length segments. written_turns api (turns_after told (n + k)) = Inr (parts ! k))
    \<and> sent = concat (map2 (@) parts segments) @ rest"
  using assms
proof (induction segments arbitrary: n sent)
  case Nil
  then show ?case by simp
next
  case (Cons s ss)
  then obtain es later where w: "written_turns api (turns_after told n) = Inr es"
      "with_turns api told (Suc n) ss = Inr later" "sent = es @ s @ later"
    by (auto simp: bind_err_Inr)
  from Cons.IH [OF w(2)] obtain parts rest where p: "length parts = length ss"
      "written_turns api (turns_after told (Suc n + length ss)) = Inr rest"
      "\<forall>k<length ss. written_turns api (turns_after told (Suc n + k)) = Inr (parts ! k)"
      "later = concat (map2 (@) parts ss) @ rest"
    by blast
  show ?case
  proof (intro exI conjI)
    show "\<forall>k<length (s # ss). written_turns api (turns_after told (n + k)) = Inr ((es # parts) ! k)"
      using w(1) p(3) by (auto simp: less_Suc_eq_0_disj)
  qed (use p w in simp_all)
qed

lemma amend_turns_nothing: "amend_turns wr api entries [] s = Inr s"
  by simp

end
