(* ===== verification/Anthropic.thy ===== *)
theory Anthropic
  imports AmendProps
begin

text \<open>
  Anthropic's Messages API (\<open>sidecar/_anthropic.py\<close>): which bodies are read, how a reply's calls are
  taken out or changed as it was written, and where a turn and its results stand in a request. The
  readers and writers of inspect_ai, and the SDK's stream and accumulator, are parameters.
\<close>

section \<open>A turn in a request\<close>

text \<open>\<open>_tool_use\<close>.\<close>

definition tool_use_id :: "json \<Rightarrow> string option" where
  "tool_use_id block =
     (if says (object_if block) ''type'' ''tool_use'' then text_id (field (object_if block) ''id'') else None)"

definition anthropic_call_ids :: "json \<Rightarrow> string list" where
  "anthropic_call_ids entry =
     (case field (object_if entry) ''content'' of
        JList blocks \<Rightarrow>
          if says (object_if entry) ''role'' ''assistant'' then
            concat (map (\<lambda>b. case tool_use_id b of Some i \<Rightarrow> if i = [] then [] else [i] | None \<Rightarrow> []) blocks)
          else []
      | _ \<Rightarrow> [])"

definition anthropic_call_of :: "json \<Rightarrow> string option \<times> json \<times> json \<times> json" where
  "anthropic_call_of element =
     (case tool_use_id element of
        None \<Rightarrow> (None, JNull, JNull, JNull)
      | Some i \<Rightarrow> (Some i, field (object_if element) ''type'', field (object_if element) ''name'',
                    field (object_if element) ''input''))"

definition anthropic_result_of :: "json \<Rightarrow> json \<times> json" where
  "anthropic_result_of element =
     (let block = object_if element in
      if \<not> says block ''type'' ''tool_result'' then (JNull, JNull)
      else (field block ''tool_use_id'', JObj (without_key ''cache_control'' block)))"

definition anthropic_results_in :: "json \<Rightarrow> json list" where
  "anthropic_results_in entry =
     (case field (object_if entry) ''content'' of
        JList blocks \<Rightarrow>
          if says (object_if entry) ''role'' ''user'' then
            filter (\<lambda>b. fst (anthropic_result_of b) \<noteq> JNull) blocks
          else []
      | _ \<Rightarrow> [])"

text \<open>\<open>turn_at\<close>: the assistant's message, and the user's message after it, if that is next.\<close>

definition said_blocks :: "json \<Rightarrow> json list" where
  "said_blocks content =
     (case content of
        JList blocks \<Rightarrow> blocks
      | JStr s \<Rightarrow> if s = [] then [] else [JObj [(''type'', JStr ''text''), (''text'', JStr s)]]
      | _ \<Rightarrow> [])"

definition anthropic_rebuild :: "fields \<Rightarrow> fields option \<Rightarrow> json list \<Rightarrow> json list \<Rightarrow> json list" where
  "anthropic_rebuild message following calls told =
     JObj (dict_set message ''content'' (JList calls))
       # (case following of
            Some ps \<Rightarrow> [JObj (dict_set ps ''content'' (JList told))]
          | None \<Rightarrow> if told = [] then []
              else [JObj [(''role'', JStr ''user''), (''content'', JList told)]])"

definition anthropic_turn_at :: "json list \<Rightarrow> nat \<Rightarrow> spliced option" where
  "anthropic_turn_at entries sent =
     (case entry_at entries sent of
        JObj message \<Rightarrow>
          (case field message ''content'' of
             JList content \<Rightarrow>
               if \<not> says message ''role'' ''assistant'' then None
               else (let following = (case entry_at entries (Suc sent) of
                           JObj ps \<Rightarrow> if says ps ''role'' ''user'' then Some ps else None
                         | _ \<Rightarrow> None)
                     in Some \<lparr>sp_start = sent, sp_end = sent + (if following = None then 1 else 2),
                              sp_calls = content,
                              sp_results = (case following of None \<Rightarrow> [] | Some ps \<Rightarrow> said_blocks (field ps ''content'')),
                              sp_rebuild = anthropic_rebuild message following\<rparr>)
           | _ \<Rightarrow> None)
      | _ \<Rightarrow> None)"

text \<open>\<open>pick\<close>: it fails where the turn does not hold the call.\<close>

definition blocks_in :: "json \<Rightarrow> json list" where
  "blocks_in entry = (case field (object_if entry) ''content'' of JList blocks \<Rightarrow> blocks | _ \<Rightarrow> [])"

definition anthropic_pick :: "json list \<Rightarrow> string \<Rightarrow> failure + (json \<times> json list)" where
  "anthropic_pick rendered i =
     (case rendered of
        [] \<Rightarrow> Inl (OtherFailure ''IndexError'')
      | turn # rest \<Rightarrow>
          (case find (\<lambda>b. tool_use_id b = Some i) (blocks_in turn) of
             None \<Rightarrow> Inl (OtherFailure ''StopIteration'')
           | Some call \<Rightarrow>
               Inr (call, concat (map (\<lambda>m. filter (\<lambda>b. fst (anthropic_result_of b) = JStr i) (blocks_in m)) rest))))"

text \<open>\<open>settled\<close>.\<close>

definition without_cache_mark :: "json \<Rightarrow> json" where
  "without_cache_mark block =
     (case block of JObj ps \<Rightarrow> JObj (without_key ''cache_control'' ps) | _ \<Rightarrow> block)"

definition anthropic_settled :: "json \<Rightarrow> json" where
  "anthropic_settled entry =
     (case entry of
        JObj message \<Rightarrow>
          JObj (dict_set message ''content''
            (case field message ''content'' of
               JStr s \<Rightarrow> JList [JObj [(''type'', JStr ''text''), (''text'', JStr s)]]
             | JList blocks \<Rightarrow> JList (map without_cache_mark blocks)
             | j \<Rightarrow> j))
      | _ \<Rightarrow> entry)"

section \<open>Editing a reply\<close>

text \<open>A whole reply: the ids found, and the blocks that stay.\<close>

definition edit_block :: "edits \<Rightarrow> json \<Rightarrow> string list \<times> json list" where
  "edit_block es block =
     (case tool_use_id block of
        None \<Rightarrow> ([], [block])
      | Some i \<Rightarrow>
          if i \<in> set (es_removed es) then ([i], [])
          else (case map_of (es_modified es) i of
                  None \<Rightarrow> ([], [block])
                | Some call \<Rightarrow> ([i], [JObj (dict_set (object_if block) ''input'' (JObj (tc_arguments call)))])))"

definition edit_blocks :: "edits \<Rightarrow> json list \<Rightarrow> string list \<times> json list" where
  "edit_blocks es blocks =
     (concat (map (fst \<circ> edit_block es) blocks), concat (map (snd \<circ> edit_block es) blocks))"

text \<open>A stream, as its events were written: which indexes are taken out and which are changed.\<close>

record stream_edits =
  ts_removed :: "int list"
  ts_modified :: "(int \<times> string) list"
  ts_found :: "string list"

definition note_start :: "edits \<Rightarrow> stream_edits \<Rightarrow> fields \<Rightarrow> stream_edits" where
  "note_start es t data =
     (case (tool_use_id (field data ''content_block''), int_of (field data ''index'')) of
        (Some call, Some index) \<Rightarrow>
          if call \<notin> set (targets es) then t
          else if call \<in> set (es_removed es) then
            t\<lparr>ts_found := ts_found t @ [call], ts_removed := extend_new (ts_removed t) [index]\<rparr>
          else t\<lparr>ts_found := ts_found t @ [call], ts_modified := dict_set (ts_modified t) index call\<rparr>
      | _ \<Rightarrow> t)"

text \<open>A \<open>message_start\<close> that already holds content cannot be changed.\<close>

definition check_start :: "fields \<Rightarrow> failure option" where
  "check_start data =
     (if says data ''type'' ''message_start'' then
        (case object_or_empty (field data ''message'') of
           None \<Rightarrow> Some (OtherFailure ''AttributeError'')
         | Some ps \<Rightarrow>
             if truthy (field ps ''content'') then
               Some (UnreadableError (''The reply stream holds content in its message_start, which this sidecar can''
                 @ apostrophe @ ''t change.''))
             else None)
      else None)"

fun note_starts :: "edits \<Rightarrow> stream_edits \<Rightarrow> stream_event list \<Rightarrow> failure + stream_edits" where
  "note_starts es t [] = Inr t"
| "note_starts es t (e # events) =
     check (check_start (data_of e))
       (note_starts es (if says (data_of e) ''type'' ''content_block_start'' then note_start es t (data_of e) else t) events)"

text \<open>One event, as it goes out: left out, moved down for what was taken out before it, or with the
  changed input, which goes out whole in one delta after its start.\<close>

definition moved_event :: "int list \<Rightarrow> int \<Rightarrow> stream_event \<Rightarrow> stream_event" where
  "moved_event removed index e =
     (if moved_down removed index = index then e
      else set_data (dict_set (data_of e) ''index'' (JInt (moved_down removed index))) e)"

definition changed_start :: "wire \<Rightarrow> edits \<Rightarrow> string \<Rightarrow> int \<Rightarrow> stream_event \<Rightarrow> failure + stream_event list" where
  "changed_start wr es call moved e =
     (case (field (data_of e) ''content_block'', map_of (es_modified es) call) of
        (JObj block, Some c) \<Rightarrow>
          (let e' = set_data (dict_set (data_of e) ''content_block'' (JObj (dict_set block ''input'' (JObj [])))) e;
               delta = JObj [(''type'', JStr ''input_json_delta''), (''partial_json'', JStr (wr_dumps wr (JObj (tc_arguments c))))]
           in Inr [e', made_event wr e' [(''type'', JStr ''content_block_delta''), (''index'', JInt moved), (''delta'', delta)]])
      | _ \<Rightarrow> Inl (OtherFailure ''TypeError''))"

definition edit_event :: "wire \<Rightarrow> edits \<Rightarrow> stream_edits \<Rightarrow> stream_event \<Rightarrow> failure + stream_event list" where
  "edit_event wr es t e =
     (let kind = (case field (data_of e) ''type'' of JStr s \<Rightarrow> s | _ \<Rightarrow> []) in
      case int_of (field (data_of e) ''index'') of
        None \<Rightarrow> Inr [e]
      | Some index \<Rightarrow>
          if \<not> starts_with kind ''content_block_'' then Inr [e]
          else if index \<in> set (ts_removed t) then Inr []
          else
            (let e' = moved_event (ts_removed t) index e in
             case map_of (ts_modified t) index of
               None \<Rightarrow> Inr [e']
             | Some call \<Rightarrow>
                 if kind = ''content_block_delta'' then Inr []
                 else if kind = ''content_block_start'' then
                   changed_start wr es call (moved_down (ts_removed t) index) e'
                 else Inr [e']))"

fun edit_events :: "wire \<Rightarrow> edits \<Rightarrow> stream_edits \<Rightarrow> stream_event list \<Rightarrow> failure + stream_event list" where
  "edit_events wr es t [] = Inr []"
| "edit_events wr es t (e # events) =
     bind_err (edit_event wr es t e) (\<lambda>out. bind_err (edit_events wr es t events) (\<lambda>rest. Inr (out @ rest)))"

definition anthropic_edit_stream :: "wire \<Rightarrow> stream_event list \<Rightarrow> edits \<Rightarrow> failure + string" where
  "anthropic_edit_stream wr events es =
     bind_err (note_starts es \<lparr>ts_removed = [], ts_modified = [], ts_found = []\<rparr> events) (\<lambda>t.
       check (check_found (ts_found t) es)
         (bind_err (edit_events wr es t events) (\<lambda>out. Inr (write_events (wr_dumps wr) out))))"

text \<open>\<open>edit_reply\<close>.\<close>

definition anthropic_edit :: "wire \<Rightarrow> string \<Rightarrow> string \<Rightarrow> edits \<Rightarrow> failure + string" where
  "anthropic_edit wr content_type body es =
     (if event_stream content_type then
        bind_err (events_written wr body) (\<lambda>events. anthropic_edit_stream wr events es)
      else
        bind_err (json_object wr body ''reply'') (\<lambda>reply.
          case field reply ''content'' of
            JList blocks \<Rightarrow>
              (let (found, kept) = edit_blocks es blocks in
               check (check_found found es)
                 (Inr (wr_dumps wr (JObj (dict_set reply ''content'' (JList kept))))))
          | _ \<Rightarrow> Inl (UnreadableError ''The reply has no list of content.'')))"

section \<open>What can be read\<close>

definition anthropic_kinds :: "string list" where
  "anthropic_kinds =
     [''text'', ''thinking'', ''redacted_thinking'', ''tool_use'', ''server_tool_use'', ''web_search_tool_result'',
      ''web_fetch_tool_result'', ''mcp_tool_use'', ''mcp_tool_result'', ''code_execution_tool_result'',
      ''bash_code_execution_tool_result'', ''text_editor_code_execution_tool_result'', ''compaction'', ''fallback'']"

definition delta_kinds :: "string list" where
  "delta_kinds = [''text_delta'', ''input_json_delta'', ''citations_delta'', ''thinking_delta'', ''signature_delta'']"

record anthropic_sdk =
  as_messages :: "json option \<Rightarrow> json list \<Rightarrow> string option \<Rightarrow> failure + messages"
  as_message :: "json option \<Rightarrow> chat_message \<Rightarrow> failure + fields"
  as_output :: "json option \<Rightarrow> fields \<Rightarrow> failure + (model_output \<times> json option)"
  as_events :: "string \<Rightarrow> failure + fields list"
  as_accumulate :: "fields \<Rightarrow> fields option \<Rightarrow> fields option"
  as_offered :: "fields \<Rightarrow> failure + (json list \<times> tool_choice option \<times> json)"
  as_spans :: span_reader
  as_repr :: "json \<Rightarrow> string"

text \<open>\<open>_kind\<close>, and \<open>kind in kinds\<close>, which raises for what has no hash.\<close>

definition kind_of :: "json \<Rightarrow> json" where
  "kind_of block = field (object_if block) ''type''"

definition check_kind :: "anthropic_sdk \<Rightarrow> string list \<Rightarrow> string \<Rightarrow> json \<Rightarrow> failure option" where
  "check_kind sdk kinds what j =
     (case one_of kinds j of
        None \<Rightarrow> Some (OtherFailure ''TypeError'')
      | Some True \<Rightarrow> None
      | Some False \<Rightarrow> Some (UnreadableError
          (''The '' @ what @ '' holds content of a kind that can'' @ apostrophe @ ''t be read: '' @ as_repr sdk j @ ''.'')))"

text \<open>\<open>_check_blocks\<close>: content that is no list is gone through as Python goes through it, a text or
  an object by items that have no kind.\<close>

definition check_blocks :: "anthropic_sdk \<Rightarrow> string \<Rightarrow> json \<Rightarrow> failure option" where
  "check_blocks sdk what content =
     (if \<not> truthy content then None
      else case content of
             JList blocks \<Rightarrow> first_error (map (\<lambda>b. check_kind sdk anthropic_kinds what (kind_of b)) blocks)
           | JStr s \<Rightarrow> check_kind sdk anthropic_kinds what JNull
           | JObj ps \<Rightarrow> check_kind sdk anthropic_kinds what JNull
           | _ \<Rightarrow> Some (OtherFailure ''TypeError''))"

text \<open>\<open>_block_texts\<close> and \<open>_texts\<close>.\<close>

function (sequential) block_texts :: "json \<Rightarrow> json list" and item_texts :: "json \<Rightarrow> json list" where
  "block_texts (JList blocks) = concat (map item_texts blocks)"
| "block_texts j = []"
| "item_texts (JObj ps) =
     (if says ps ''type'' ''text'' then [field ps ''text'']
      else if says ps ''type'' ''tool_result'' then block_texts (field ps ''content'')
      else if says ps ''type'' ''document'' then
        (case field ps ''source'' of JObj qs \<Rightarrow> block_texts (field qs ''content'') | _ \<Rightarrow> [])
      else [])"
| "item_texts j = []"
  by pat_completeness auto
termination
proof (relation "measure (\<lambda>x. case x of Inl j \<Rightarrow> size j | Inr j \<Rightarrow> size (j :: json))")
  fix ps qs
  assume "field ps ''source'' = JObj qs"
  then show "(Inl (field qs ''content''), Inr (JObj ps))
      \<in> measure (\<lambda>x. case x of Inl j \<Rightarrow> size j | Inr j \<Rightarrow> size (j :: json))"
    using field_size [of ps "''source''"] field_size [of qs "''content''"] by simp
qed (use field_size in \<open>auto dest: size_in_list\<close>)

definition texts_of :: "fields \<Rightarrow> json list" where
  "texts_of message =
     (case field message ''content'' of
        JStr s \<Rightarrow> if says message ''role'' ''assistant'' then [JStr s] else []
      | j \<Rightarrow> block_texts j)"

text \<open>\<open>_check_documents\<close>.\<close>

definition check_source :: "fields \<Rightarrow> failure option" where
  "check_source block =
     (if truthy (field block ''title'') \<or> truthy (field block ''context'') then
        Some (UnreadableError ''The request holds a document with a title or context, which would not be read.'')
      else
        (case field block ''source'' of
           JObj qs \<Rightarrow>
             (case field qs ''content'' of
                JList parts \<Rightarrow>
                  if 1 < length parts then
                    Some (UnreadableError ''The request holds a document of more than one block, of which only the first would be read.'')
                  else None
              | _ \<Rightarrow> None)
         | _ \<Rightarrow> None))"

function check_documents :: "json \<Rightarrow> failure option" where
  "check_documents (JList blocks) =
     first_error (concat (map (\<lambda>b. case b of
         JObj ps \<Rightarrow>
           [if says ps ''type'' ''tool_result'' then check_documents (field ps ''content'') else None,
            if says ps ''type'' ''document'' then check_source ps else None]
       | _ \<Rightarrow> []) blocks))"
| "check_documents JNull = None"
| "check_documents (JBool b) = None"
| "check_documents (JInt i) = None"
| "check_documents (JNum x) = None"
| "check_documents (JStr s) = None"
| "check_documents (JObj ps) = None"
  by pat_completeness auto
termination
proof (relation "measure size")
  fix blocks :: "json list" and b ps
  assume "b \<in> set blocks" "b = JObj ps"
  then show "(field ps ''content'', JList blocks) \<in> measure size"
    using size_in_list [of "JObj ps" blocks] field_size [of ps "''content''"] by simp
qed simp

text \<open>\<open>_system\<close>; a text that is no string is written as Python writes it.\<close>

definition system_text :: "wire \<Rightarrow> json \<Rightarrow> string option" where
  "system_text wr system =
     (case system of
        JStr s \<Rightarrow> Some s
      | JList blocks \<Rightarrow>
          (let t = join (newline @ newline) (concat (map (\<lambda>b. case b of
                 JObj ps \<Rightarrow> [case map_of ps ''text'' of None \<Rightarrow> [] | Some j \<Rightarrow> text_or wr j] | _ \<Rightarrow> []) blocks))
           in if t = [] then None else Some t)
      | _ \<Rightarrow> None)"

text \<open>\<open>read_request\<close>.\<close>

definition check_entry :: "anthropic_sdk \<Rightarrow> json \<Rightarrow> failure option" where
  "check_entry sdk entry =
     (case entry of
        JObj ps \<Rightarrow>
          first_error
            [(case field ps ''content'' of
                JList blocks \<Rightarrow>
                  if says ps ''role'' ''assistant'' then check_blocks sdk ''request'' (JList blocks) else None
              | _ \<Rightarrow> None),
             check_documents (field ps ''content'')]
      | _ \<Rightarrow> None)"

definition entry_texts :: "json \<Rightarrow> json list" where
  "entry_texts entry = (case entry of JObj ps \<Rightarrow> texts_of ps | _ \<Rightarrow> [])"

definition anthropic_read_request :: "wire \<Rightarrow> anthropic_sdk \<Rightarrow> json option \<Rightarrow> fields \<Rightarrow> failure + messages" where
  "anthropic_read_request wr sdk start request =
     (case field request ''messages'' of
        JList entries \<Rightarrow>
          (let texts = concat (map entry_texts entries) in
           check (first_error (map (check_entry sdk) entries))
             (check (check_internal ''request'' texts)
               (bind_err (reader_error (''The request holds a message that can'' @ apostrophe @ ''t be read.'')
                   (as_messages sdk start entries (system_text wr (field request ''system'')))) (\<lambda>ms.
                 check (check_internal_kept (as_spans sdk) ''request'' texts ms) (Inr ms)))))
      | _ \<Rightarrow> Inl (UnreadableError ''The request has no list of messages.''))"

text \<open>\<open>rejected_turn\<close>: the message, and a user's message of the results.\<close>

fun result_blocks :: "anthropic_sdk \<Rightarrow> json option \<Rightarrow> messages \<Rightarrow> failure + json list" where
  "result_blocks sdk notes [] = Inr []"
| "result_blocks sdk notes (m # ms) =
     bind_err (as_message sdk notes m) (\<lambda>ps.
       bind_err (result_blocks sdk notes ms) (\<lambda>rest. Inr (blocks_in (JObj ps) @ rest)))"

definition anthropic_rejected_turn :: "anthropic_sdk \<Rightarrow> json option \<Rightarrow> chat_message \<Rightarrow> messages \<Rightarrow> failure + json list" where
  "anthropic_rejected_turn sdk notes message results =
     bind_err (result_blocks sdk notes results) (\<lambda>blocks.
       bind_err (as_message sdk notes message) (\<lambda>ps.
         Inr [JObj ps, JObj [(''role'', JStr ''user''), (''content'', JList blocks)]]))"

section \<open>Reading a stream\<close>

record reading_stream =
  rs_snapshot :: "fields option"
  rs_stopped :: bool
  rs_done :: "int list"
  rs_started :: int

definition start_reading :: reading_stream where
  "start_reading = \<lparr>rs_snapshot = None, rs_stopped = False, rs_done = [], rs_started = 0\<rparr>"

text \<open>The index of an event of a block: of the next block if it starts one, or of one that has
  started and not stopped.\<close>

definition check_index :: "string \<Rightarrow> json \<Rightarrow> reading_stream \<Rightarrow> failure + int" where
  "check_index kind index r =
     (if unhashable index then Inl (OtherFailure ''TypeError'')
      else if (case number_of index of None \<Rightarrow> False | Some x \<Rightarrow> x \<in> set (map of_int (rs_done r))) then
        Inl (UnreadableError ''The reply stream changes a block after it stopped.'')
      else case index of
             JInt i \<Rightarrow>
               if (if kind = ''content_block_start'' then i = rs_started r else 0 \<le> i \<and> i < rs_started r) then Inr i
               else Inl (UnreadableError (''The reply stream names a block by an index it doesn'' @ apostrophe @ ''t have.''))
           | _ \<Rightarrow> Inl (UnreadableError (''The reply stream names a block by an index it doesn'' @ apostrophe @ ''t have.'')))"

definition read_block :: "string \<Rightarrow> fields \<Rightarrow> reading_stream \<Rightarrow> failure + reading_stream" where
  "read_block kind event r =
     (if \<not> starts_with kind ''content_block_'' then Inr r
      else bind_err (check_index kind (field event ''index'') r) (\<lambda>i.
        Inr (if kind = ''content_block_start'' then r\<lparr>rs_started := rs_started r + 1\<rparr>
             else if kind = ''content_block_stop'' then r\<lparr>rs_done := i # rs_done r\<rparr> else r)))"

definition accumulate :: "anthropic_sdk \<Rightarrow> fields \<Rightarrow> reading_stream \<Rightarrow> failure + reading_stream" where
  "accumulate sdk event r =
     (case as_accumulate sdk event (rs_snapshot r) of
        None \<Rightarrow> Inl (UnreadableError (''The reply stream can'' @ apostrophe @ ''t be read.''))
      | Some snapshot \<Rightarrow> Inr (r\<lparr>rs_snapshot := Some snapshot\<rparr>))"

definition read_event :: "anthropic_sdk \<Rightarrow> fields \<Rightarrow> reading_stream \<Rightarrow> failure + reading_stream" where
  "read_event sdk event r =
     (let kind = (case field event ''type'' of JStr s \<Rightarrow> s | _ \<Rightarrow> []) in
      if kind = ''ping'' then Inr r
      else if kind = ''error'' then Inl provider_ended
      else if rs_stopped r then Inl (UnreadableError ''The reply stream goes on after its message stopped.'')
      else bind_err (read_block kind event r) (\<lambda>r.
        let r = r\<lparr>rs_stopped := kind = ''message_stop''\<rparr> in
        check (if kind = ''content_block_delta'' then
                 check_kind sdk delta_kinds ''reply stream'' (kind_of (field event ''delta'')) else None)
          (accumulate sdk event r)))"

fun read_events :: "anthropic_sdk \<Rightarrow> fields list \<Rightarrow> reading_stream \<Rightarrow> failure + reading_stream" where
  "read_events sdk [] r = Inr r"
| "read_events sdk (e # es) r = bind_err (read_event sdk e r) (read_events sdk es)"

definition read_stream :: "anthropic_sdk \<Rightarrow> string \<Rightarrow> failure + fields" where
  "read_stream sdk body =
     bind_err (as_events sdk body) (\<lambda>events.
       bind_err (read_events sdk events start_reading) (\<lambda>r.
         case rs_snapshot r of
           Some message \<Rightarrow> if rs_stopped r then Inr message
             else Inl (UnreadableError ''The reply stream is not a complete message.'')
         | None \<Rightarrow> Inl (UnreadableError ''The reply stream is not a complete message.'')))"

text \<open>\<open>read_reply\<close>.\<close>

definition anthropic_read_reply ::
  "wire \<Rightarrow> anthropic_sdk \<Rightarrow> json option \<Rightarrow> string \<Rightarrow> string \<Rightarrow> failure + (model_output \<times> json option)" where
  "anthropic_read_reply wr sdk start content_type body =
     bind_err (if event_stream content_type then read_stream sdk body else json_object wr body ''reply'') (\<lambda>message.
       let content = field message ''content''; texts = map (\<lambda>b. field (object_if b) ''text'') (blocks_in (JObj message)) in
       check (check_blocks sdk ''reply'' content)
         (check (check_internal ''reply'' texts)
           (bind_err (reader_error (''The reply holds content that can'' @ apostrophe @ ''t be read.'')
               (as_output sdk start message)) (\<lambda>(out, notes).
             check (check_internal_kept (as_spans sdk) ''reply'' texts
                 (case output_message out of None \<Rightarrow> [] | Some m \<Rightarrow> [m]))
               (Inr (out, notes))))))"

section \<open>The format\<close>

definition anthropic_api :: "wire \<Rightarrow> anthropic_sdk \<Rightarrow> wire_api" where
  "anthropic_api wr sdk =
     \<lparr>wa_conversation = ''messages'', wa_read = anthropic_read_request wr sdk, wa_offered = as_offered sdk,
      wa_rejected_turn = anthropic_rejected_turn sdk, wa_settled = anthropic_settled,
      wa_turn_at = anthropic_turn_at, wa_call_ids = anthropic_call_ids, wa_call_of = anthropic_call_of,
      wa_result_of = anthropic_result_of, wa_results_in = anthropic_results_in, wa_pick = anthropic_pick\<rparr>"

lemma tool_use_id_same: "same x y \<Longrightarrow> tool_use_id x = tool_use_id y"
proof -
  assume s: "same x y"
  show ?thesis
  proof (cases "\<exists>ps. x = JObj ps")
    case True
    then obtain ps qs where x: "x = JObj ps" "y = JObj qs" "same (JObj ps) (JObj qs)" using s same_object by blast
    then show ?thesis using same_says [OF x(3)] same_text_id [OF x(3)] by (simp add: tool_use_id_def says_def)
  next
    case False
    then have "object_if x = []" by (intro object_if_empty) blast
    moreover have "object_if y = []" using False s same_to_object by (intro object_if_empty) blast
    ultimately show ?thesis by (simp add: tool_use_id_def says_def field_def)
  qed
qed

interpretation anthropic_calls: edited_format "anthropic_api wr sdk"
  using tool_use_id_same
  by unfold_locales
    (auto simp: anthropic_api_def anthropic_call_of_def anthropic_pick_def find_Some_iff split: option.splits list.splits)

end
