(* ===== verification/Chat.thy ===== *)
theory Chat
  imports AmendProps
begin

text \<open>
  OpenAI's Chat Completions API (the part of \<open>sidecar/_openai.py\<close> for it): which bodies are read,
  how a reply's calls are taken out or changed, whole or in the chunks of a stream, and where a turn
  and its results stand in a request. inspect_ai's readers and writers and the SDK's accumulator are
  parameters. What Python calls a blank is one of ASCII.
\<close>

section \<open>A turn in a request\<close>

text \<open>\<open>_id\<close> and \<open>_parsed\<close>.\<close>

definition entry_id :: "json \<Rightarrow> string \<Rightarrow> string option" where
  "entry_id entry name = text_id (field (object_if entry) name)"

definition parsed :: "wire \<Rightarrow> json \<Rightarrow> json" where
  "parsed wr j =
     (case j of JStr s \<Rightarrow> (case wr_loads wr s of None \<Rightarrow> j | Some k \<Rightarrow> k) | _ \<Rightarrow> j)"

definition is_object :: "json \<Rightarrow> bool" where
  "is_object j \<longleftrightarrow> (case j of JObj ps \<Rightarrow> True | _ \<Rightarrow> False)"

definition field_or :: "fields \<Rightarrow> string \<Rightarrow> json \<Rightarrow> json" where
  "field_or ps name d = (case map_of ps name of None \<Rightarrow> d | Some j \<Rightarrow> j)"

definition chat_call_ids :: "json \<Rightarrow> string list" where
  "chat_call_ids entry =
     (case field (object_if entry) ''tool_calls'' of
        JList calls \<Rightarrow>
          if says (object_if entry) ''role'' ''assistant'' then
            concat (map (\<lambda>c. case entry_id c ''id'' of Some i \<Rightarrow> if i = [] then [] else [i] | None \<Rightarrow> []) calls)
          else []
      | _ \<Rightarrow> [])"

definition chat_call_of :: "wire \<Rightarrow> json \<Rightarrow> string option \<times> json \<times> json \<times> json" where
  "chat_call_of wr element =
     (case entry_id element ''id'' of
        None \<Rightarrow> (None, JNull, JNull, JNull)
      | Some i \<Rightarrow>
          (let call = object_if element; entry = object_if (field call ''function'')
           in (Some i, field_or call ''type'' (JStr ''function''), field entry ''name'', parsed wr (field entry ''arguments''))))"

definition id_json :: "string option \<Rightarrow> json" where
  "id_json i = (case i of None \<Rightarrow> JNull | Some s \<Rightarrow> JStr s)"

definition chat_result_of :: "json \<Rightarrow> json \<times> json" where
  "chat_result_of element =
     (if says (object_if element) ''role'' ''tool'' then
        (id_json (entry_id element ''tool_call_id''), JObj (object_if element))
      else (JNull, JNull))"

definition chat_results_in :: "json \<Rightarrow> json list" where
  "chat_results_in entry = (if fst (chat_result_of entry) \<noteq> JNull then [entry] else [])"

definition is_tool_message :: "json \<Rightarrow> bool" where
  "is_tool_message e \<longleftrightarrow> says (object_if e) ''role'' ''tool''"

definition chat_turn_at :: "json list \<Rightarrow> nat \<Rightarrow> spliced option" where
  "chat_turn_at entries sent =
     (case entry_at entries sent of
        JObj message \<Rightarrow>
          (case field message ''tool_calls'' of
             JList calls \<Rightarrow>
               if \<not> says message ''role'' ''assistant'' then None
               else (let results = takeWhile is_tool_message (drop (Suc sent) entries)
                     in Some \<lparr>sp_start = sent, sp_end = Suc sent + length results, sp_calls = calls,
                              sp_results = results,
                              sp_rebuild = \<lambda>own told. JObj (dict_set message ''tool_calls'' (JList own)) # told\<rparr>)
           | _ \<Rightarrow> None)
      | _ \<Rightarrow> None)"

definition chat_pick :: "json list \<Rightarrow> string \<Rightarrow> failure + (json \<times> json list)" where
  "chat_pick rendered i =
     (case rendered of
        [] \<Rightarrow> Inl (OtherFailure ''IndexError'')
      | turn # rest \<Rightarrow>
          (case field (object_if turn) ''tool_calls'' of
             JList calls \<Rightarrow>
               (case find (\<lambda>c. entry_id c ''id'' = Some i) calls of
                  None \<Rightarrow> Inl (OtherFailure ''StopIteration'')
                | Some call \<Rightarrow> Inr (call, filter (\<lambda>m. fst (chat_result_of m) = JStr i) rest))
           | _ \<Rightarrow> Inl (OtherFailure ''KeyError'')))"

section \<open>Editing a whole reply\<close>

definition not_a_function :: "string \<Rightarrow> failure" where
  "not_a_function i = UnreadableError (''The call '' @ quoted i
     @ '' is not a function call, whose arguments this sidecar can change.'')"

definition edit_chat_call :: "wire \<Rightarrow> edits \<Rightarrow> json \<Rightarrow> failure + (string list \<times> json list)" where
  "edit_chat_call wr es call =
     (case entry_id call ''id'' of
        None \<Rightarrow> Inr ([], [call])
      | Some i \<Rightarrow>
          if i \<notin> set (targets es) then Inr ([], [call])
          else if i \<in> set (es_removed es) then Inr ([i], [])
          else
            (case (field (object_if call) ''function'', map_of (es_modified es) i) of
               (JObj function, Some c) \<Rightarrow>
                 if field_or (object_if call) ''type'' (JStr ''function'') \<noteq> JStr ''function'' then Inl (not_a_function i)
                 else Inr ([i], [JObj (dict_set (object_if call) ''function''
                   (JObj (dict_set function ''arguments'' (JStr (wr_dumps wr (JObj (tc_arguments c)))))))])
             | _ \<Rightarrow> Inl (not_a_function i)))"

fun edit_chat_calls :: "wire \<Rightarrow> edits \<Rightarrow> json list \<Rightarrow> failure + (string list \<times> json list)" where
  "edit_chat_calls wr es [] = Inr ([], [])"
| "edit_chat_calls wr es (c # cs) =
     bind_err (edit_chat_call wr es c) (\<lambda>(found, kept).
       bind_err (edit_chat_calls wr es cs) (\<lambda>(found', kept'). Inr (found @ found', kept @ kept')))"

text \<open>The choices of a reply, each with its message's calls edited.\<close>

definition edit_choice :: "wire \<Rightarrow> edits \<Rightarrow> json \<Rightarrow> failure + (string list \<times> json)" where
  "edit_choice wr es choice =
     (case choice of
        JObj ps \<Rightarrow>
          (case object_or_empty (field ps ''message'') of
             None \<Rightarrow> Inl (OtherFailure ''AttributeError'')
           | Some message \<Rightarrow>
               (case field message ''tool_calls'' of
                  JList calls \<Rightarrow>
                    bind_err (edit_chat_calls wr es calls) (\<lambda>(found, kept).
                      Inr (found, JObj (dict_set ps ''message'' (JObj (dict_set message ''tool_calls'' (JList kept))))))
                | _ \<Rightarrow> Inr ([], choice)))
      | _ \<Rightarrow> Inl (OtherFailure ''AttributeError''))"

fun edit_choices :: "wire \<Rightarrow> edits \<Rightarrow> json list \<Rightarrow> failure + (string list \<times> json list)" where
  "edit_choices wr es [] = Inr ([], [])"
| "edit_choices wr es (c # cs) =
     bind_err (edit_choice wr es c) (\<lambda>(found, c').
       bind_err (edit_choices wr es cs) (\<lambda>(found', cs'). Inr (found @ found', c' # cs')))"

text \<open>What Python goes through as a list: an object or a text has no items that are objects.\<close>

definition list_or_empty :: "json \<Rightarrow> failure + json list" where
  "list_or_empty j =
     (if \<not> truthy j then Inr []
      else case j of
             JList js \<Rightarrow> Inr js
           | JStr s \<Rightarrow> Inr (map (\<lambda>c. JStr [c]) s)
           | JObj ps \<Rightarrow> Inr (map (\<lambda>p. JStr (fst p)) ps)
           | _ \<Rightarrow> Inl (OtherFailure ''TypeError''))"

definition edit_completion :: "wire \<Rightarrow> edits \<Rightarrow> fields \<Rightarrow> failure + string" where
  "edit_completion wr es reply =
     bind_err (list_or_empty (field reply ''choices'')) (\<lambda>choices.
       bind_err (edit_choices wr es choices) (\<lambda>(found, choices').
         check (check_found found es)
           (Inr (wr_dumps wr (JObj (if choices = [] then reply else dict_set reply ''choices'' (JList choices')))))))"

section \<open>Editing the chunks of a stream\<close>

text \<open>\<open>_choices\<close> and \<open>_fragments\<close>; \<open>delta.get\<close> fails where the delta is no object.\<close>

definition chunk_choices :: "fields \<Rightarrow> json list" where
  "chunk_choices data = (case field data ''choices'' of JList cs \<Rightarrow> filter is_object cs | _ \<Rightarrow> [])"

definition delta_of :: "json \<Rightarrow> failure + fields" where
  "delta_of choice =
     (case object_or_empty (field (object_if choice) ''delta'') of
        None \<Rightarrow> Inl (OtherFailure ''AttributeError'') | Some ps \<Rightarrow> Inr ps)"

fun fragments_in :: "json list \<Rightarrow> failure + fields list" where
  "fragments_in [] = Inr []"
| "fragments_in (c # cs) =
     bind_err (delta_of c) (\<lambda>delta.
       bind_err (fragments_in cs) (\<lambda>rest.
         Inr ((case field delta ''tool_calls'' of JList calls \<Rightarrow> map object_if (filter is_object calls) | _ \<Rightarrow> []) @ rest)))"

fun fragments :: "stream_event list \<Rightarrow> failure + fields list" where
  "fragments [] = Inr []"
| "fragments (e # es) =
     bind_err (fragments_in (chunk_choices (data_of e))) (\<lambda>fs. bind_err (fragments es) (\<lambda>rest. Inr (fs @ rest)))"

text \<open>The calls of the stream by index; a failure before a chunk that is no such chunk comes first.\<close>

definition note_fragment :: "(int \<times> string) list \<Rightarrow> fields \<Rightarrow> failure + (int \<times> string) list" where
  "note_fragment ids call =
     (case int_of (field call ''index'') of
        None \<Rightarrow> Inl (UnreadableError ''A call in the reply stream has no index.'')
      | Some index \<Rightarrow>
          if map_of ids index \<noteq> None then Inr ids
          else (case field call ''id'' of
                  JStr i \<Rightarrow> Inr (ids @ [(index, i)])
                | _ \<Rightarrow> Inl (UnreadableError ''A call in the reply stream starts without an id.'')))"

fun note_fragments :: "(int \<times> string) list \<Rightarrow> fields list \<Rightarrow> failure + (int \<times> string) list" where
  "note_fragments ids [] = Inr ids"
| "note_fragments ids (c # cs) = bind_err (note_fragment ids c) (\<lambda>ids. note_fragments ids cs)"

fun note_chunks :: "(int \<times> string) list \<Rightarrow> stream_event list \<Rightarrow> failure + (int \<times> string) list" where
  "note_chunks ids [] = Inr ids"
| "note_chunks ids (e # es) =
     bind_err (fragments_in (chunk_choices (data_of e))) (\<lambda>cs.
       bind_err (note_fragments ids cs) (\<lambda>ids. note_chunks ids es))"

text \<open>\<open>_fragments_kind\<close>.\<close>

definition fragments_kind :: "fields list \<Rightarrow> int \<Rightarrow> json" where
  "fragments_kind calls index =
     (case find (\<lambda>c. number_of (field c ''index'') = Some (of_int index) \<and> map_of c ''type'' \<noteq> None) calls of
        None \<Rightarrow> JStr ''function'' | Some c \<Rightarrow> field c ''type'')"

text \<open>One fragment: left out, or with its index moved down, a changed call's arguments whole in the
  first. \<open>started\<close> holds the indexes that have begun.\<close>

record chunk_edits =
  ck_ids :: "(int \<times> string) list"
  ck_removed :: "int list"

definition changed_function :: "wire \<Rightarrow> tool_call \<Rightarrow> bool \<Rightarrow> fields \<Rightarrow> fields" where
  "changed_function wr c begun function =
     (if begun then without_key ''arguments'' function
      else dict_set function ''arguments'' (JStr (wr_dumps wr (JObj (tc_arguments c)))))"

definition edit_fragment ::
  "wire \<Rightarrow> edits \<Rightarrow> chunk_edits \<Rightarrow> int list \<Rightarrow> json \<Rightarrow> failure + (int list \<times> json list)" where
  "edit_fragment wr es ck started call =
     (case (call, int_of (field (object_if call) ''index'')) of
        (JObj ps, Some index) \<Rightarrow>
          if index \<in> set (ck_removed ck) then Inr (started, [])
          else
            (let moved = dict_set ps ''index'' (JInt (moved_down (ck_removed ck) index)) in
             case map_of (ck_ids ck) index of
               None \<Rightarrow> Inl (OtherFailure ''KeyError'')
             | Some i \<Rightarrow>
                 (case map_of (es_modified es) i of
                    None \<Rightarrow> Inr (index # started, [JObj moved])
                  | Some c \<Rightarrow>
                      (case object_or_empty (field ps ''function'') of
                         None \<Rightarrow> Inl (OtherFailure ''TypeError'')
                       | Some function \<Rightarrow>
                           (let function' = changed_function wr c (index \<in> set started) function;
                                whole = (if function' = [] then without_key ''function'' moved
                                         else dict_set moved ''function'' (JObj function'))
                            in if set (map fst whole) = {''index''} then Inr (started, [])
                               else Inr (index # started, [JObj whole])))))
      | _ \<Rightarrow> Inl (OtherFailure ''AttributeError''))"

fun edit_fragments ::
  "wire \<Rightarrow> edits \<Rightarrow> chunk_edits \<Rightarrow> int list \<Rightarrow> json list \<Rightarrow> failure + (int list \<times> json list)" where
  "edit_fragments wr es ck started [] = Inr (started, [])"
| "edit_fragments wr es ck started (c # cs) =
     bind_err (edit_fragment wr es ck started c) (\<lambda>(started, out).
       bind_err (edit_fragments wr es ck started cs) (\<lambda>(started, rest). Inr (started, out @ rest)))"

text \<open>A choice of a chunk, and whether it changed.\<close>

definition edit_delta ::
  "wire \<Rightarrow> edits \<Rightarrow> chunk_edits \<Rightarrow> int list \<Rightarrow> json \<Rightarrow> failure + (int list \<times> bool \<times> json)" where
  "edit_delta wr es ck started choice =
     bind_err (delta_of choice) (\<lambda>delta.
       bind_err (list_or_empty (field delta ''tool_calls'')) (\<lambda>calls.
         if calls = [] then Inr (started, False, choice)
         else bind_err (edit_fragments wr es ck started calls) (\<lambda>(started, kept).
           Inr (started, \<not> list_all2 same kept calls,
             JObj (dict_set (object_if choice) ''delta''
               (JObj (if kept = [] then without_key ''tool_calls'' delta
                      else dict_set delta ''tool_calls'' (JList kept))))))))"

fun edit_deltas ::
  "wire \<Rightarrow> edits \<Rightarrow> chunk_edits \<Rightarrow> int list \<Rightarrow> json list \<Rightarrow> failure + (int list \<times> bool \<times> json list)" where
  "edit_deltas wr es ck started [] = Inr (started, False, [])"
| "edit_deltas wr es ck started (c # cs) =
     (if \<not> is_object c then
        bind_err (edit_deltas wr es ck started cs) (\<lambda>(started, changed, rest). Inr (started, changed, c # rest))
      else bind_err (edit_delta wr es ck started c) (\<lambda>(started, changed, c').
        bind_err (edit_deltas wr es ck started cs) (\<lambda>(started, changed', rest).
          Inr (started, changed \<or> changed', c' # rest))))"

definition edit_chunk ::
  "wire \<Rightarrow> edits \<Rightarrow> chunk_edits \<Rightarrow> int list \<Rightarrow> stream_event \<Rightarrow> failure + (int list \<times> stream_event)" where
  "edit_chunk wr es ck started e =
     (case field (data_of e) ''choices'' of
        JList choices \<Rightarrow>
          bind_err (edit_deltas wr es ck started choices) (\<lambda>(started, changed, choices').
            Inr (started, e\<lparr>se_data := Some (dict_set (data_of e) ''choices'' (JList choices')),
                            se_changed := se_changed e \<or> changed\<rparr>))
      | _ \<Rightarrow> Inr (started, e))"

fun edit_chunks ::
  "wire \<Rightarrow> edits \<Rightarrow> chunk_edits \<Rightarrow> int list \<Rightarrow> stream_event list \<Rightarrow> failure + stream_event list" where
  "edit_chunks wr es ck started [] = Inr []"
| "edit_chunks wr es ck started (e # events) =
     bind_err (edit_chunk wr es ck started e) (\<lambda>(started, e').
       bind_err (edit_chunks wr es ck started events) (\<lambda>rest. Inr (e' # rest)))"

text \<open>\<open>_edit_chunks\<close>.\<close>

definition chat_edit_stream :: "wire \<Rightarrow> stream_event list \<Rightarrow> edits \<Rightarrow> failure + string" where
  "chat_edit_stream wr events es =
     bind_err (note_chunks [] events) (\<lambda>ids.
       bind_err (fragments events) (\<lambda>calls.
         let removed = map fst (filter (\<lambda>p. snd p \<in> set (es_removed es)) ids) in
         case find (\<lambda>p. map_of (es_modified es) (snd p) \<noteq> None \<and> fragments_kind calls (fst p) \<noteq> JStr ''function'') ids of
           Some p \<Rightarrow> Inl (not_a_function (snd p))
         | None \<Rightarrow>
             check (check_found (map snd ids) es)
               (bind_err (edit_chunks wr es \<lparr>ck_ids = ids, ck_removed = removed\<rparr> [] events) (\<lambda>out.
                 Inr (write_events (wr_dumps wr) out)))))"

section \<open>What can be read\<close>

record openai_sdk =
  os_messages :: "json option \<Rightarrow> json list \<Rightarrow> string option \<Rightarrow> failure + messages"
  os_input :: "json option \<Rightarrow> json list \<Rightarrow> string option \<Rightarrow> failure + messages"
  os_turn :: "json option \<Rightarrow> messages \<Rightarrow> failure + json list"
  os_items :: "json option \<Rightarrow> messages \<Rightarrow> failure + json list"
  os_completion :: "json option \<Rightarrow> fields \<Rightarrow> failure + (model_output \<times> json option)"
  os_response :: "json option \<Rightarrow> fields \<Rightarrow> failure + (model_output \<times> json option)"
  os_events :: "string \<Rightarrow> failure + fields list"
  os_chunks :: "fields list \<Rightarrow> ((nat \<times> json \<times> json) list \<times> fields) option"
  os_handles :: "fields list \<Rightarrow> bool"
  os_chat_offered :: "fields \<Rightarrow> failure + (json list \<times> tool_choice option \<times> json)"
  os_offered :: "fields \<Rightarrow> failure + (json list \<times> tool_choice option \<times> json)"
  os_without_reasoning :: "string \<Rightarrow> string"
  os_assistant_item :: "fields \<Rightarrow> bool"
  os_spans :: span_reader
  os_repr :: "json \<Rightarrow> string"

text \<open>\<open>_check_calls\<close> and \<open>_check_arguments\<close>.\<close>

definition check_call_kind :: "openai_sdk \<Rightarrow> json \<Rightarrow> failure option" where
  "check_call_kind sdk call =
     (if says (object_if call) ''type'' ''function'' then None
      else Some (UnreadableError (''The body holds a tool call of a kind that can'' @ apostrophe @ ''t be read: ''
        @ os_repr sdk (field (object_if call) ''type'') @ ''.'')))"

definition check_calls :: "openai_sdk \<Rightarrow> json \<Rightarrow> failure option" where
  "check_calls sdk calls =
     (case list_or_empty calls of
        Inl ex \<Rightarrow> Some ex | Inr cs \<Rightarrow> first_error (map (check_call_kind sdk) cs))"

definition blank :: "char \<Rightarrow> bool" where
  "blank c \<longleftrightarrow> (of_char c :: nat) \<in> {9, 10, 11, 12, 13, 28, 29, 30, 31, 32}"

definition stripped :: "string \<Rightarrow> string" where
  "stripped s = rev (dropWhile blank (rev (dropWhile blank s)))"

definition check_arguments :: "string \<Rightarrow> json \<Rightarrow> failure option" where
  "check_arguments what arguments =
     (case arguments of
        JStr s \<Rightarrow>
          if stripped s \<noteq> [] \<and> \<not> starts_with (stripped s) [CHR 0x7B] then
            Some (UnreadableError (''The '' @ what @ '' holds a tool call whose arguments aren'' @ apostrophe
              @ ''t a JSON object, which would be read as none.''))
          else None
      | _ \<Rightarrow> None)"

text \<open>\<open>_is_text\<close> and \<open>_chat_texts\<close>.\<close>

definition is_text_part :: "fields \<Rightarrow> bool" where
  "is_text_part part \<longleftrightarrow> says part ''type'' ''text'' \<or> set (map fst part) = {''text''}"

definition chat_texts :: "openai_sdk \<Rightarrow> fields \<Rightarrow> json list" where
  "chat_texts sdk message =
     (case field message ''content'' of
        JStr s \<Rightarrow> if says message ''role'' ''assistant'' then [JStr (os_without_reasoning sdk s)] else []
      | JList parts \<Rightarrow>
          map (\<lambda>p. field (object_if p) ''text'') (filter (\<lambda>p. is_object p \<and> is_text_part (object_if p)) parts)
      | _ \<Rightarrow> [])"

text \<open>The checks of one message, in their order.\<close>

definition check_call_arguments :: "json \<Rightarrow> failure option" where
  "check_call_arguments call =
     (case field (object_if call) ''function'' of
        JObj function \<Rightarrow> check_arguments ''request'' (field function ''arguments'') | _ \<Rightarrow> None)"

definition check_message_calls :: "json \<Rightarrow> failure option" where
  "check_message_calls calls =
     (case list_or_empty calls of Inl ex \<Rightarrow> Some ex | Inr cs \<Rightarrow> first_error (map check_call_arguments cs))"

definition refuse_if :: "bool \<Rightarrow> string \<Rightarrow> failure option" where
  "refuse_if c t = (if c then Some (UnreadableError t) else None)"

definition check_chat_message :: "openai_sdk \<Rightarrow> json \<Rightarrow> failure option" where
  "check_chat_message sdk entry =
     (case entry of
        JObj message \<Rightarrow>
          first_error
            [check_calls sdk (field message ''tool_calls''),
             check_message_calls (field message ''tool_calls''),
             refuse_if (truthy (field message ''function_call'') \<or> says message ''role'' ''function'')
               ''The request holds a call in the legacy `function_call` field, or its result, which can't be read.'',
             refuse_if (says message ''role'' ''assistant'' \<and> truthy (field message ''audio''))
               ''The request holds audio from the model, which can't be read.'',
             refuse_if (says message ''role'' ''assistant'' \<and> field message ''content'' \<noteq> JNull \<and> truthy (field message ''refusal''))
               ''The request holds an assistant's text and refusal both, of which only the text would be read.'']
      | _ \<Rightarrow> None)"

text \<open>\<open>_check_merged\<close>: the turns as inspect_ai's reader merges them, the latest first, and the parts of
  a message that the merge would drop.\<close>

definition is_nothing :: "json \<Rightarrow> bool" where
  "is_nothing j \<longleftrightarrow> j \<in> {JNull, JStr [], JList [], JObj []}"

definition has :: "fields \<Rightarrow> string \<Rightarrow> bool" where
  "has ps name \<longleftrightarrow> map_of ps name \<noteq> None"

definition merges :: "fields list \<Rightarrow> fields \<Rightarrow> bool" where
  "merges reduced message \<longleftrightarrow>
     (case reduced of
        latest_turn # earlier # _ \<Rightarrow>
          says message ''role'' ''assistant'' \<and> \<not> has message ''tool_calls'' \<and> has message ''content''
            \<and> says latest_turn ''role'' ''tool'' \<and> says earlier ''role'' ''assistant''
            \<and> has earlier ''tool_calls'' \<and> field earlier ''content'' = JNull
      | _ \<Rightarrow> False)"

fun insert_text :: "string \<Rightarrow> string list \<Rightarrow> string list" where
  "insert_text x [] = [x]"
| "insert_text x (y # ys) = (if text_less y x then y # insert_text x ys else x # y # ys)"

definition sorted_texts :: "string list \<Rightarrow> string list" where
  "sorted_texts xs = foldr insert_text xs []"

definition dropped_parts :: "fields \<Rightarrow> fields \<Rightarrow> string list" where
  "dropped_parts earlier message =
     sorted_texts (map fst (filter (\<lambda>(name, j). name \<notin> {''role'', ''content'', ''name''} \<and> \<not> is_nothing j) message))
       @ (if truthy (field earlier ''refusal'') then [''earlier refusal''] else [])"

fun check_merged :: "fields list \<Rightarrow> json list \<Rightarrow> failure option" where
  "check_merged reduced [] = None"
| "check_merged reduced (e # es) =
     (case e of
        JObj message \<Rightarrow>
          if merges reduced message then
            (case reduced of
               latest_turn # earlier # rest \<Rightarrow>
                 if dropped_parts earlier message \<noteq> [] then
                   Some (UnreadableError (''The request holds an assistant's '' @ join '', '' (dropped_parts earlier message)
                     @ '' that would be merged into an earlier turn and dropped.''))
                 else check_merged (latest_turn # dict_set earlier ''content'' (field message ''content'') # rest) es
             | _ \<Rightarrow> check_merged reduced es)
          else check_merged (message # reduced) es
      | _ \<Rightarrow> check_merged reduced es)"

text \<open>\<open>_check_results\<close>.\<close>

definition check_results :: "json list \<Rightarrow> messages \<Rightarrow> failure option" where
  "check_results entries ms =
     (let sent = map (\<lambda>e. field (object_if e) ''content'') (filter is_tool_message entries);
          results = filter (\<lambda>m. cm_role m = Tool) ms
      in refuse_if (list_ex (\<lambda>(content, result). case content of JStr s \<Rightarrow> cm_text result \<noteq> s | _ \<Rightarrow> False) (zip sent results))
           ''The request holds a tool result that would be read as less than the model is sent.'')"

definition model_named :: "fields \<Rightarrow> string option" where
  "model_named request = text_id (field request ''model'')"

text \<open>\<open>read_chat_request\<close>.\<close>

definition chat_read_request :: "openai_sdk \<Rightarrow> json option \<Rightarrow> fields \<Rightarrow> failure + messages" where
  "chat_read_request sdk start request =
     (case field request ''messages'' of
        JList entries \<Rightarrow>
          (let texts = concat (map (\<lambda>e. case e of JObj ps \<Rightarrow> chat_texts sdk ps | _ \<Rightarrow> []) entries) in
           check (refuse_if (field request ''functions'' \<noteq> JNull \<or> field request ''function_call'' \<noteq> JNull)
               ''The request offers tools in the legacy `functions` field, which can't be read.'')
             (check (first_error (map (check_chat_message sdk) entries))
               (check (check_internal ''request'' texts)
                 (check (check_merged [] entries)
                   (bind_err (reader_error ''The request holds a message that can't be read.''
                       (os_messages sdk start entries (model_named request))) (\<lambda>ms.
                     check (check_results entries ms)
                       (check (check_internal_kept (os_spans sdk) ''request'' texts ms) (Inr ms))))))))
      | _ \<Rightarrow> Inl (UnreadableError ''The request has no list of messages.''))"

text \<open>\<open>_check_choices\<close>: audio, and a call in the legacy field.\<close>

definition check_said :: "string \<Rightarrow> json \<Rightarrow> failure option" where
  "check_said part choice =
     (case field (object_if choice) part of
        JObj said \<Rightarrow>
          first_error
            [refuse_if (truthy (field said ''audio'')) ''The reply holds audio, which can't be read.'',
             refuse_if (truthy (field said ''function_call''))
               ''The reply holds a call in the legacy `function_call` field, which can't be read.'']
      | _ \<Rightarrow> None)"

definition check_reply_choices :: "string \<Rightarrow> fields list \<Rightarrow> failure option" where
  "check_reply_choices part entries =
     first_error (concat (map (\<lambda>e. case field e ''choices'' of
         JList cs \<Rightarrow> map (check_said part) cs | _ \<Rightarrow> []) entries))"

text \<open>\<open>_chat_stream\<close>: the SDK's accumulator gives the calls it has handed out as done, and the
  completion as it stands at the end; a call that changed since would be run as it was.\<close>

definition call_function :: "json \<Rightarrow> fields" where
  "call_function call = object_if (field (object_if call) ''function'')"

definition calls_in :: "fields \<Rightarrow> json list" where
  "calls_in snapshot =
     (case field snapshot ''choices'' of
        JList (c # cs) \<Rightarrow>
          (case field (object_if (field (object_if c) ''message'')) ''tool_calls'' of JList calls \<Rightarrow> calls | _ \<Rightarrow> [])
      | _ \<Rightarrow> [])"

definition check_done :: "json list \<Rightarrow> nat \<times> json \<times> json \<Rightarrow> failure option" where
  "check_done calls given =
     (let (index, name, arguments) = given in
      if length calls \<le> index then Some (OtherFailure ''IndexError'')
      else if same (field (call_function (calls ! index)) ''name'') name
        \<and> same (field (call_function (calls ! index)) ''arguments'') arguments then None
      else Some (UnreadableError ''The reply stream changes a call after the SDK gave it as done.''))"

definition finished :: "fields \<Rightarrow> bool" where
  "finished snapshot \<longleftrightarrow>
     (case field snapshot ''choices'' of
        JList cs \<Rightarrow> cs \<noteq> [] \<and> list_all (\<lambda>c. field (object_if c) ''finish_reason'' \<noteq> JNull) cs
      | _ \<Rightarrow> False)"

definition chat_stream :: "openai_sdk \<Rightarrow> fields list \<Rightarrow> failure + fields" where
  "chat_stream sdk events =
     (if list_ex (\<lambda>e. has e ''error'') events then Inl provider_ended
      else case os_chunks sdk events of
             None \<Rightarrow> Inl (UnreadableError ''The reply stream can't be read.'')
           | Some (given, snapshot) \<Rightarrow>
               if \<not> finished snapshot then Inl (UnreadableError ''The reply stream is not a complete message.'')
               else check (first_error (map (check_done (calls_in snapshot)) given)) (Inr snapshot))"

text \<open>The checks of the calls and the text that are in a completion, and how it is read.\<close>

definition check_reply_choice :: "openai_sdk \<Rightarrow> json \<Rightarrow> failure option" where
  "check_reply_choice sdk choice =
     (let said = object_if (field (object_if choice) ''message''); calls = field said ''tool_calls'' in
      first_error
        [refuse_if (truthy (field said ''content'') \<and> truthy (field said ''refusal''))
           ''The reply holds text and a refusal both, of which only the refusal would be read.'',
         check_calls sdk calls,
         (case list_or_empty calls of Inl ex \<Rightarrow> Some ex
          | Inr cs \<Rightarrow> first_error (map (\<lambda>c. check_arguments ''reply'' (field (call_function c) ''arguments'')) cs))])"

definition one_choice :: "model_output \<times> json option \<Rightarrow> failure + (model_output \<times> json option)" where
  "one_choice r =
     (if 1 < length (mo_choices (fst r)) then
        Inl (UnreadableError ''The reply holds more than one choice, and only the first would be judged.'')
      else Inr r)"

definition read_completion :: "openai_sdk \<Rightarrow> json option \<Rightarrow> fields \<Rightarrow> failure + (model_output \<times> json option)" where
  "read_completion sdk start reply =
     bind_err (list_or_empty (field reply ''choices'')) (\<lambda>choices.
       check (first_error (map (check_reply_choice sdk) choices))
         (bind_err (reader_error ''The reply holds content that can't be read.'' (os_completion sdk start reply)) one_choice))"

section \<open>The format\<close>

definition chat_rejected_turn :: "openai_sdk \<Rightarrow> json option \<Rightarrow> chat_message \<Rightarrow> messages \<Rightarrow> failure + json list" where
  "chat_rejected_turn sdk notes message results = os_turn sdk notes (message # results)"

definition chat_api :: "wire \<Rightarrow> openai_sdk \<Rightarrow> wire_api" where
  "chat_api wr sdk =
     \<lparr>wa_conversation = ''messages'', wa_read = chat_read_request sdk, wa_offered = os_chat_offered sdk,
      wa_rejected_turn = chat_rejected_turn sdk, wa_settled = \<lambda>entry. entry,
      wa_turn_at = chat_turn_at, wa_call_ids = chat_call_ids, wa_call_of = chat_call_of wr,
      wa_result_of = chat_result_of, wa_results_in = chat_results_in, wa_pick = chat_pick\<rparr>"

lemma entry_id_same: "same x y \<Longrightarrow> entry_id x name = entry_id y name"
proof -
  assume s: "same x y"
  show ?thesis
  proof (cases "\<exists>ps. x = JObj ps")
    case True
    then obtain ps qs where x: "x = JObj ps" "y = JObj qs" "same (JObj ps) (JObj qs)" using s same_object by blast
    then show ?thesis using same_text_id [OF x(3)] by (simp add: entry_id_def)
  next
    case False
    then have "object_if x = []" by (intro object_if_empty) blast
    moreover have "object_if y = []" using False s same_to_object by (intro object_if_empty) blast
    ultimately show ?thesis by (simp add: entry_id_def)
  qed
qed

interpretation chat_calls: edited_format "chat_api wr sdk"
  using entry_id_same
  by unfold_locales
    (auto simp: chat_api_def chat_call_of_def chat_pick_def find_Some_iff Let_def split: option.splits list.splits json.splits)

end
