(* ===== verification/Responses.thy ===== *)
theory Responses
  imports Chat
begin

text \<open>
  OpenAI's Responses API (the part of \<open>sidecar/_openai.py\<close> for it), and the functions that choose
  between the two APIs. An edited stream must hold together: every event the SDK takes, each item
  at its place in the output, and each call's arguments the same wherever they are.
\<close>

section \<open>A turn in a request\<close>

text \<open>\<open>_call_id\<close> and \<open>_is_output\<close>.\<close>

definition ends_with :: "string \<Rightarrow> string \<Rightarrow> bool" where
  "ends_with s tail \<longleftrightarrow> starts_with (rev s) (rev tail)"

definition is_output :: "json \<Rightarrow> bool" where
  "is_output e \<longleftrightarrow> (case field (object_if e) ''type'' of JStr s \<Rightarrow> ends_with s ''_output'' | _ \<Rightarrow> False)"

definition item_call_id :: "json \<Rightarrow> string option" where
  "item_call_id e = (if is_output e then None else entry_id e ''call_id'')"

definition in_turn :: "openai_sdk \<Rightarrow> json \<Rightarrow> bool" where
  "in_turn sdk e \<longleftrightarrow> (case e of JObj ps \<Rightarrow> os_assistant_item sdk ps \<or> item_call_id e \<noteq> None | _ \<Rightarrow> False)"

definition responses_turn_at :: "openai_sdk \<Rightarrow> json list \<Rightarrow> nat \<Rightarrow> spliced option" where
  "responses_turn_at sdk entries sent =
     (let own = takeWhile (in_turn sdk) (drop sent entries);
          results = takeWhile is_output (drop (sent + length own) entries)
      in if own = [] then None
         else Some \<lparr>sp_start = sent, sp_end = sent + length own + length results, sp_calls = own,
                    sp_results = results, sp_rebuild = (@)\<rparr>)"

definition responses_call_ids :: "json \<Rightarrow> string list" where
  "responses_call_ids e = (case item_call_id e of None \<Rightarrow> [] | Some i \<Rightarrow> [i])"

definition responses_call_of :: "wire \<Rightarrow> json \<Rightarrow> string option \<times> json \<times> json \<times> json" where
  "responses_call_of wr e =
     (case item_call_id e of
        None \<Rightarrow> (None, JNull, JNull, JNull)
      | Some i \<Rightarrow>
          (let ps = object_if e; kind = field ps ''type''
           in (Some i, kind, field ps ''name'',
               if kind = JStr ''function_call'' then parsed wr (field ps ''arguments'')
               else field_or ps ''input'' (field ps ''action''))))"

definition responses_result_of :: "json \<Rightarrow> json \<times> json" where
  "responses_result_of e = (if is_output e then (id_json (entry_id e ''call_id''), e) else (JNull, JNull))"

definition responses_results_in :: "json \<Rightarrow> json list" where
  "responses_results_in e = (if fst (responses_result_of e) \<noteq> JNull then [e] else [])"

text \<open>\<open>_text\<close>.\<close>

definition content_text :: "wire \<Rightarrow> json \<Rightarrow> string" where
  "content_text wr content =
     (case content of
        JList parts \<Rightarrow>
          concat (map (\<lambda>p. text_or wr (field_or (object_if p) ''text'' (JStr []))) (filter is_object parts))
      | j \<Rightarrow> if truthy j then text_or wr j else [])"

definition says_why :: "wire \<Rightarrow> string \<Rightarrow> json \<Rightarrow> bool" where
  "says_why wr i e \<longleftrightarrow> says (object_if e) ''role'' ''user''
     \<and> starts_with (content_text wr (field (object_if e) ''content'')) (i @ '': '')"

definition responses_pick :: "wire \<Rightarrow> json list \<Rightarrow> string \<Rightarrow> failure + (json \<times> json list)" where
  "responses_pick wr rendered i =
     (case find (\<lambda>e. item_call_id e = Some i) rendered of
        None \<Rightarrow> Inl (OtherFailure ''StopIteration'')
      | Some call \<Rightarrow>
          Inr (call, filter (\<lambda>e. fst (responses_result_of e) = JStr i) rendered @ filter (says_why wr i) rendered))"

text \<open>\<open>responses_rejected_turn\<close>: a computer call's output says nothing, so a message says why.\<close>

definition why_not :: "chat_message \<Rightarrow> string" where
  "why_not result =
     (case cm_tool_call_id result of None \<Rightarrow> ''None'' | Some i \<Rightarrow> i) @ '': ''
       @ (case cm_error result of Some (kind, why) \<Rightarrow> why | None \<Rightarrow> cm_text result)"

definition computer_calls :: "json list \<Rightarrow> json list" where
  "computer_calls written =
     map (\<lambda>e. field (object_if e) ''call_id'') (filter (\<lambda>e. says (object_if e) ''type'' ''computer_call_output'') written)"

definition responses_rejected_turn :: "openai_sdk \<Rightarrow> json option \<Rightarrow> chat_message \<Rightarrow> messages \<Rightarrow> failure + json list" where
  "responses_rejected_turn sdk notes message results =
     bind_err (os_items sdk notes (message # results)) (\<lambda>written.
       if list_ex unhashable (computer_calls written) then Inl (OtherFailure ''TypeError'')
       else (let told = map why_not (filter (\<lambda>r. id_json (cm_tool_call_id r) \<in> set (computer_calls written)) results)
             in Inr (written @ (if told = [] then []
                  else [JObj [(''role'', JStr ''user''),
                    (''content'', JList [JObj [(''type'', JStr ''input_text''), (''text'', JStr (join newline told))]])]]))))"

section \<open>Editing a reply\<close>

text \<open>\<open>_edit_output\<close>, with the calls found.\<close>

definition edit_item :: "wire \<Rightarrow> edits \<Rightarrow> json \<Rightarrow> failure + (string list \<times> json list)" where
  "edit_item wr es e =
     (case item_call_id e of
        None \<Rightarrow> Inr ([], [e])
      | Some i \<Rightarrow>
          if i \<in> set (es_removed es) then Inr ([i], [])
          else (case map_of (es_modified es) i of
                  None \<Rightarrow> Inr ([], [e])
                | Some c \<Rightarrow>
                    if \<not> says (object_if e) ''type'' ''function_call'' then Inl (not_a_function i)
                    else Inr ([i], [JObj (dict_set (object_if e) ''arguments'' (JStr (wr_dumps wr (JObj (tc_arguments c)))))])))"

fun edit_output :: "wire \<Rightarrow> edits \<Rightarrow> json list \<Rightarrow> failure + (string list \<times> json list)" where
  "edit_output wr es [] = Inr ([], [])"
| "edit_output wr es (e # rest) =
     bind_err (edit_item wr es e) (\<lambda>(found, kept).
       bind_err (edit_output wr es rest) (\<lambda>(found', kept'). Inr (found @ found', kept @ kept')))"

definition edit_response :: "wire \<Rightarrow> edits \<Rightarrow> fields \<Rightarrow> failure + string" where
  "edit_response wr es reply =
     bind_err (case field reply ''output'' of
         JList items \<Rightarrow>
           bind_err (edit_output wr es items) (\<lambda>(found, kept). Inr (found, dict_set reply ''output'' (JList kept)))
       | _ \<Rightarrow> Inr ([], reply))
       (\<lambda>(found, reply'). check (check_found found es) (Inr (wr_dumps wr (JObj reply'))))"

section \<open>Editing a stream\<close>

text \<open>\<open>_check_indexes\<close>.\<close>

definition check_place :: "fields \<Rightarrow> failure option" where
  "check_place data =
     refuse_if ((has data ''item_id'' \<or> has data ''item'' \<or> field data ''output_index'' \<noteq> JNull)
         \<and> (case field data ''output_index'' of JInt i \<Rightarrow> i < 0 | _ \<Rightarrow> True))
       ''The reply stream has an event for an item without its place in the output.''"

definition check_indexes :: "stream_event list \<Rightarrow> failure option" where
  "check_indexes events = first_error (map (\<lambda>e. check_place (data_of e)) events)"

definition is_item_event :: "fields \<Rightarrow> bool" where
  "is_item_event data \<longleftrightarrow> says data ''type'' ''response.output_item.added'' \<or> says data ''type'' ''response.output_item.done''"

definition output_place :: "fields \<Rightarrow> int option" where
  "output_place data = int_of (field data ''output_index'')"

definition int_text :: "int \<Rightarrow> string" where
  "int_text i = (if i < 0 then ''-'' @ nat_text (nat (- i)) else nat_text (nat i))"

text \<open>The calls by their place: an item names one call.\<close>

definition note_item :: "(int \<times> string) list \<Rightarrow> fields \<Rightarrow> failure + (int \<times> string) list" where
  "note_item items data =
     (case (output_place data, item_call_id (field data ''item'')) of
        (Some index, Some i) \<Rightarrow>
          if \<not> is_item_event data then Inr items
          else (case map_of items index of
                  None \<Rightarrow> Inr (items @ [(index, i)])
                | Some i' \<Rightarrow> if i' = i then Inr items
                    else Inl (UnreadableError (''The reply stream names two calls at output index '' @ int_text index @ ''.'')))
      | _ \<Rightarrow> Inr items)"

fun note_items :: "(int \<times> string) list \<Rightarrow> stream_event list \<Rightarrow> failure + (int \<times> string) list" where
  "note_items items [] = Inr items"
| "note_items items (e # es) = bind_err (note_item items (data_of e)) (\<lambda>items. note_items items es)"

record item_edits =
  ie_removed :: "int list"
  ie_modified :: "(int \<times> string) list"
  ie_deltas :: "int list"

text \<open>An event that holds a whole response has its output edited.\<close>

definition edit_held_response :: "wire \<Rightarrow> edits \<Rightarrow> stream_event \<Rightarrow> failure + (string list \<times> stream_event)" where
  "edit_held_response wr es e =
     (case field (data_of e) ''response'' of
        JObj response \<Rightarrow>
          (case field response ''output'' of
             JList items \<Rightarrow>
               if items = [] then Inr ([], e)
               else bind_err (edit_output wr es items) (\<lambda>(found, kept).
                 Inr (found, if list_all2 same kept items then e
                   else set_data (dict_set (data_of e) ''response'' (JObj (dict_set response ''output'' (JList kept)))) e))
           | _ \<Rightarrow> Inr ([], e))
      | _ \<Rightarrow> Inr ([], e))"

text \<open>An event of a changed call has the new arguments, whole in the first delta.\<close>

definition edit_call_event ::
  "wire \<Rightarrow> item_edits \<Rightarrow> int \<Rightarrow> string \<Rightarrow> tool_call \<Rightarrow> int list \<Rightarrow> stream_event \<Rightarrow> failure + (int list \<times> stream_event list)" where
  "edit_call_event wr ie index i c started e =
     (let data = data_of e; arguments = JStr (wr_dumps wr (JObj (tc_arguments c))) in
      if says data ''type'' ''response.function_call_arguments.delta'' then
        Inr (if index \<in> set started then (started, [])
             else (index # started, [set_data (dict_set data ''delta'' arguments) e]))
      else if says data ''type'' ''response.function_call_arguments.done'' then
        Inr (started, [set_data (dict_set data ''arguments'' arguments) e])
      else if is_item_event data then
        (let ps = object_if (field data ''item'');
             added = says data ''type'' ''response.output_item.added'' \<and> index \<in> set (ie_deltas ie)
         in if \<not> says ps ''type'' ''function_call'' then Inl (not_a_function i)
            else Inr (started, [set_data (dict_set data ''item''
              (JObj (dict_set ps ''arguments'' (if added then JStr [] else arguments)))) e]))
      else Inr (started, [e]))"

text \<open>One event; the state is the calls found and the calls whose arguments have begun.\<close>

definition edit_stream_event ::
  "wire \<Rightarrow> edits \<Rightarrow> item_edits \<Rightarrow> string list \<times> int list \<Rightarrow> stream_event \<Rightarrow> failure + ((string list \<times> int list) \<times> stream_event list)" where
  "edit_stream_event wr es ie s e =
     (let (found, started) = s in
      if se_data e = None then Inr (s, [e])
      else bind_err (edit_held_response wr es e) (\<lambda>(more, e).
        let found = found @ more in
        case output_place (data_of e) of
          None \<Rightarrow> Inr ((found, started), [e])
        | Some index \<Rightarrow>
            if index \<in> set (ie_removed ie) then Inr ((found, started), [])
            else
              (let moved = moved_down (ie_removed ie) index;
                   e = (if moved = index then e else set_data (dict_set (data_of e) ''output_index'' (JInt moved)) e) in
               case map_of (ie_modified ie) index of
                 None \<Rightarrow> Inr ((found, started), [e])
               | Some i \<Rightarrow>
                   bind_err (item (es_modified es) i) (\<lambda>c.
                     bind_err (edit_call_event wr ie index i c started e) (\<lambda>(started, out).
                       Inr ((found, started), out))))))"

fun edit_stream_events ::
  "wire \<Rightarrow> edits \<Rightarrow> item_edits \<Rightarrow> string list \<times> int list \<Rightarrow> stream_event list \<Rightarrow> failure + (string list \<times> stream_event list)" where
  "edit_stream_events wr es ie s [] = Inr (fst s, [])"
| "edit_stream_events wr es ie s (e # events) =
     bind_err (edit_stream_event wr es ie s e) (\<lambda>(s, out).
       bind_err (edit_stream_events wr es ie s events) (\<lambda>(found, rest). Inr (found, out @ rest)))"

text \<open>\<open>_edit_responses_stream\<close>.\<close>

definition edit_responses_events :: "wire \<Rightarrow> edits \<Rightarrow> stream_event list \<Rightarrow> failure + stream_event list" where
  "edit_responses_events wr es events =
     check (check_indexes events)
       (bind_err (note_items [] events) (\<lambda>items.
         let ie = \<lparr>ie_removed = map fst (filter (\<lambda>p. snd p \<in> set (es_removed es)) items),
                   ie_modified = filter (\<lambda>p. map_of (es_modified es) (snd p) \<noteq> None) items,
                   ie_deltas = concat (map (\<lambda>e. if says (data_of e) ''type'' ''response.function_call_arguments.delta''
                      then (case output_place (data_of e) of None \<Rightarrow> [] | Some n \<Rightarrow> [n]) else []) events)\<rparr>
         in bind_err (edit_stream_events wr es ie (map snd items, []) events) (\<lambda>(found, out).
              check (check_found found es) (Inr out))))"

section \<open>An edited stream holds together\<close>

text \<open>\<open>_STREAMED\<close>: the field each kind of call streams, and the prefix of the events that stream it.\<close>

definition streamed_field :: "wire \<Rightarrow> fields \<Rightarrow> string \<times> string" where
  "streamed_field wr out =
     (let kind = text_or wr (field out ''type'') in
      if kind = ''function_call'' then (''arguments'', ''response.function_call_arguments'')
      else if kind = ''custom_tool_call'' then (''input'', ''response.custom_tool_call_input'')
      else ([], []))"

definition other_details :: failure where
  "other_details = UnreadableError ''The edited reply stream gives a call other details in an event than in the output.''"

text \<open>What the item's own events say of the call: the text so far and what was heard whole.\<close>

definition hear_item :: "wire \<Rightarrow> fields \<Rightarrow> string \<Rightarrow> string \<times> string list \<Rightarrow> fields \<times> fields \<Rightarrow> failure + (string \<times> string list)" where
  "hear_item wr out name s p =
     (let (data, entry) = p; (streamed, heard) = s in
      if list_ex (\<lambda>(k, j). k \<notin> {''status'', name} \<and> \<not> same (field out k) j) entry then Inl other_details
      else if name = [] then Inr s
      else if says data ''type'' ''response.output_item.added'' then
        Inr (if truthy (field entry name) then text_or wr (field entry name) else [], heard)
      else if field entry name \<noteq> JNull then Inr (streamed, heard @ [text_or wr (field entry name)])
      else Inr s)"

definition hear_other :: "wire \<Rightarrow> openai_sdk \<Rightarrow> fields \<Rightarrow> string \<times> string \<Rightarrow> string \<times> string list \<Rightarrow> fields \<Rightarrow> failure + (string \<times> string list)" where
  "hear_other wr sdk out np s data =
     (let (name, lead) = np; (streamed, heard) = s in
      if \<not> same (field_or data ''item_id'' (field out ''id'')) (field out ''id'')
        \<or> list_ex (\<lambda>(k, j). has out k \<and> k \<notin> {''type'', ''status'', name} \<and> \<not> same (field out k) j) data
      then Inl other_details
      else if lead \<noteq> [] \<and> says data ''type'' (lead @ ''.delta'') then
        Inr (streamed @ text_or wr (field_or data ''delta'' (JStr [])), heard)
      else if lead \<noteq> [] \<and> says data ''type'' (lead @ ''.done'') then
        Inr (streamed, heard @ [text_or wr (field data name)])
      else Inl (UnreadableError (''The edited reply stream gives a call's details in a ''
        @ os_repr sdk (field data ''type'') @ '' event, which this sidecar can't check.'')))"

fun fold_err :: "('s \<Rightarrow> 'a \<Rightarrow> 'e + 's) \<Rightarrow> 's \<Rightarrow> 'a list \<Rightarrow> 'e + 's" where
  "fold_err f s [] = Inr s"
| "fold_err f s (x # xs) = bind_err (f s x) (\<lambda>s. fold_err f s xs)"

text \<open>\<open>_check_streamed_call\<close>.\<close>

definition check_streamed_call ::
  "wire \<Rightarrow> openai_sdk \<Rightarrow> fields \<Rightarrow> (fields \<times> fields) list \<Rightarrow> fields list \<Rightarrow> failure option" where
  "check_streamed_call wr sdk out items others =
     (let np = streamed_field wr out; whole = text_or wr (field out (fst np)) in
      case bind_err (fold_err (hear_item wr out (fst np)) ([], []) items)
             (\<lambda>s. fold_err (hear_other wr sdk out np) s others) of
        Inl ex \<Rightarrow> Some ex
      | Inr (streamed, heard) \<Rightarrow>
          refuse_if (fst np \<noteq> [] \<and> list_ex (\<lambda>h. h \<noteq> whole) (heard @ (if streamed = [] then [] else [streamed])))
            ''The edited reply stream gives a call different arguments in different events.'')"

text \<open>\<open>_identity\<close>.\<close>

definition identity :: "fields \<Rightarrow> json \<times> json" where
  "identity ps = (field ps ''type'',
     if truthy (field ps ''call_id'') then field ps ''call_id'' else field ps ''id'')"

definition same_identity :: "fields \<Rightarrow> fields \<Rightarrow> bool" where
  "same_identity ps qs \<longleftrightarrow> same (fst (identity ps)) (fst (identity qs)) \<and> same (snd (identity ps)) (snd (identity qs))"

text \<open>The output of the response the stream ends with, the last of them.\<close>

definition final_output :: "json list \<Rightarrow> fields \<Rightarrow> failure + json list" where
  "final_output was data =
     (if says data ''type'' ''response.completed'' \<or> says data ''type'' ''response.incomplete'' then
        (case object_or_empty (field data ''response'') of
           None \<Rightarrow> Inl (OtherFailure ''AttributeError'')
         | Some response \<Rightarrow> list_or_empty (field response ''output''))
      else Inr was)"

definition at_place :: "int \<Rightarrow> fields list \<Rightarrow> fields list" where
  "at_place index datas = filter (\<lambda>d. output_place d = Some index) datas"

definition item_of :: "fields \<Rightarrow> (fields \<times> fields) list" where
  "item_of data = (case field data ''item'' of JObj ps \<Rightarrow> if is_item_event data then [(data, ps)] else [] | _ \<Rightarrow> [])"

definition check_item_at :: "wire \<Rightarrow> openai_sdk \<Rightarrow> json list \<Rightarrow> fields list \<Rightarrow> int \<Rightarrow> failure option" where
  "check_item_at wr sdk final datas index =
     (let here = at_place index datas; items = concat (map item_of here); others = filter (\<lambda>d. item_of d = []) here;
          wrong = UnreadableError ''The edited reply stream names an item at a place it doesn't have in the output.''
      in case (if index < int (length final) then final ! nat index else JNull) of
           JObj out \<Rightarrow>
             if list_ex (\<lambda>p. \<not> same_identity out (snd p)) items then Some wrong
             else if has out ''call_id'' then check_streamed_call wr sdk out items others
             else None
         | _ \<Rightarrow> Some wrong)"

definition check_responses_stream :: "wire \<Rightarrow> openai_sdk \<Rightarrow> stream_event list \<Rightarrow> failure option" where
  "check_responses_stream wr sdk events =
     (let datas = map data_of events in
      if \<not> os_handles sdk (map data_of (filter (\<lambda>e. se_data e \<noteq> None) events)) then
        Some (UnreadableError ''The edited reply stream doesn't hold together.'')
      else case check_indexes events of
             Some ex \<Rightarrow> Some ex
           | None \<Rightarrow>
               (case fold_err final_output [] datas of
                  Inl ex \<Rightarrow> Some ex
                | Inr final \<Rightarrow>
                    first_error (map (check_item_at wr sdk final datas)
                      (sort (remdups (concat (map (\<lambda>d. case output_place d of None \<Rightarrow> [] | Some n \<Rightarrow> [n]) datas)))))))"

section \<open>Both APIs\<close>

definition object_is :: "string \<Rightarrow> fields \<Rightarrow> bool" where
  "object_is name ps \<longleftrightarrow> says ps ''object'' name"

definition openai_edit_stream :: "wire \<Rightarrow> openai_sdk \<Rightarrow> stream_event list \<Rightarrow> bool option \<Rightarrow> edits \<Rightarrow> failure + string" where
  "openai_edit_stream wr sdk events chat es =
     (if (case chat of Some c \<Rightarrow> c | None \<Rightarrow> list_ex (\<lambda>e. object_is ''chat.completion.chunk'' (data_of e)) events) then
        chat_edit_stream wr events es
      else bind_err (edit_responses_events wr es events) (\<lambda>out.
        check (check_responses_stream wr sdk out) (Inr (write_events (wr_dumps wr) out))))"

definition openai_edit :: "wire \<Rightarrow> openai_sdk \<Rightarrow> string \<Rightarrow> string \<Rightarrow> bool option \<Rightarrow> edits \<Rightarrow> failure + string" where
  "openai_edit wr sdk content_type body chat es =
     (if event_stream content_type then
        bind_err (events_written wr body) (\<lambda>events. openai_edit_stream wr sdk events chat es)
      else bind_err (json_object wr body ''reply'') (\<lambda>reply.
        if (case chat of Some c \<Rightarrow> c | None \<Rightarrow> object_is ''chat.completion'' reply) then edit_completion wr es reply
        else edit_response wr es reply))"

section \<open>What can be read\<close>

text \<open>\<open>_responses_stream\<close>: the event that ends the stream holds the whole response, and is its last.\<close>

fun responses_stream :: "fields list \<Rightarrow> failure + fields" where
  "responses_stream [] = Inl (UnreadableError ''The reply stream is not a complete response.'')"
| "responses_stream (e # es) =
     (if says e ''type'' ''response.failed'' \<or> says e ''type'' ''error'' then Inl provider_ended
      else if says e ''type'' ''response.completed'' \<or> says e ''type'' ''response.incomplete'' then
        (case field e ''response'' of
           JObj response \<Rightarrow>
             if es = [] then Inr response
             else Inl (UnreadableError ''The reply stream goes on after its response ended.'')
         | _ \<Rightarrow> responses_stream es)
      else responses_stream es)"

definition check_output_item :: "json \<Rightarrow> failure option" where
  "check_output_item e =
     (if says (object_if e) ''type'' ''function_call'' then check_arguments ''reply'' (field (object_if e) ''arguments'')
      else None)"

definition read_response :: "openai_sdk \<Rightarrow> json option \<Rightarrow> fields \<Rightarrow> failure + (model_output \<times> json option)" where
  "read_response sdk start reply =
     bind_err (list_or_empty (field reply ''output'')) (\<lambda>items.
       check (first_error (map check_output_item items))
         (bind_err (reader_error ''The reply holds content that can't be read.'' (os_response sdk start reply)) one_choice))"

text \<open>\<open>read_reply\<close>.\<close>

definition openai_reply_stream :: "openai_sdk \<Rightarrow> json option \<Rightarrow> string \<Rightarrow> bool option \<Rightarrow> failure + (model_output \<times> json option)" where
  "openai_reply_stream sdk start body chat =
     bind_err (os_events sdk body) (\<lambda>events.
       if (case chat of Some c \<Rightarrow> c | None \<Rightarrow> list_ex (object_is ''chat.completion.chunk'') events) then
         check (check_reply_choices ''delta'' events)
           (bind_err (chat_stream sdk events) (read_completion sdk start))
       else bind_err (responses_stream events) (read_response sdk start))"

definition openai_reply_whole :: "wire \<Rightarrow> openai_sdk \<Rightarrow> json option \<Rightarrow> string \<Rightarrow> bool option \<Rightarrow> failure + (model_output \<times> json option)" where
  "openai_reply_whole wr sdk start body chat =
     bind_err (json_object wr body ''reply'') (\<lambda>reply.
       bind_err (case chat of
           Some c \<Rightarrow> Inr c
         | None \<Rightarrow> if object_is ''chat.completion'' reply then Inr True
             else if object_is ''response'' reply then Inr False
             else Inl (UnreadableError (''There is no reader for an OpenAI '' @ os_repr sdk (field reply ''object'') @ '' reply.'')))
         (\<lambda>chat.
            if chat then check (check_reply_choices ''message'' [reply]) (read_completion sdk start reply)
            else read_response sdk start reply))"

definition openai_read_reply ::
  "wire \<Rightarrow> openai_sdk \<Rightarrow> json option \<Rightarrow> string \<Rightarrow> string \<Rightarrow> bool option \<Rightarrow> failure + (model_output \<times> json option)" where
  "openai_read_reply wr sdk start content_type body chat =
     (if event_stream content_type then openai_reply_stream sdk start body chat
      else openai_reply_whole wr sdk start body chat)"

text \<open>\<open>_whole\<close> and \<open>_check_parts\<close>: a part that would be read as less than the model is sent.\<close>

definition whole_part :: "fields \<Rightarrow> bool" where
  "whole_part part \<longleftrightarrow>
     (let carried = (\<lambda>name. case field part name of JStr s \<Rightarrow> s \<noteq> [] | _ \<Rightarrow> False) in
      if says part ''type'' ''input_image'' then carried ''image_url''
      else if says part ''type'' ''input_file'' then carried ''file_data''
      else True)"

definition check_part :: "openai_sdk \<Rightarrow> bool \<Rightarrow> json \<Rightarrow> failure option" where
  "check_part sdk result part =
     (case part of
        JObj ps \<Rightarrow>
          if result \<and> unhashable (field ps ''type'') then Some (OtherFailure ''TypeError'')
          else refuse_if ((result \<and> field ps ''type'' \<notin> {JStr ''input_text'', JStr ''input_image''}) \<or> \<not> whole_part ps)
            (''The request holds '' @ (if result then ''a tool result'' else ''a message'') @ '' with an ''
              @ os_repr sdk (field ps ''type'') @ '' part that would be read as less than the model is sent.'')
      | _ \<Rightarrow> None)"

definition check_parts :: "openai_sdk \<Rightarrow> json list \<Rightarrow> failure option" where
  "check_parts sdk entries =
     first_error (concat (map (\<lambda>e.
       (let ps = object_if e;
            result = (says ps ''type'' ''function_call_output'' \<or> says ps ''type'' ''custom_tool_call_output'')
        in case field ps (if result then ''output'' else ''content'') of
             JList parts \<Rightarrow> map (check_part sdk result) parts | _ \<Rightarrow> [])) entries))"

text \<open>\<open>_check_duplicates\<close>: two texts of a run of the assistant's items that carry one span.\<close>

definition duplicate_texts :: "wire \<Rightarrow> fields \<Rightarrow> string list" where
  "duplicate_texts wr entry =
     (case field entry ''content'' of
        JStr s \<Rightarrow> [s]
      | JList parts \<Rightarrow>
          map (\<lambda>p. text_or wr (field_or (object_if p) ''text'' (field_or (object_if p) ''refusal'' (JStr []))))
            (filter is_object parts)
      | _ \<Rightarrow> [])"

definition note_span :: "openai_sdk \<Rightarrow> (string \<times> string) list \<Rightarrow> string \<Rightarrow> failure + (string \<times> string) list" where
  "note_span sdk seen t =
     (case sr_text (os_spans sdk) t of
        None \<Rightarrow> Inr seen
      | Some (v, kept) \<Rightarrow>
          (case map_of seen v of
             None \<Rightarrow> Inr (seen @ [(v, kept)])
           | Some kept' \<Rightarrow>
               if kept' = kept then Inr seen
               else Inl (UnreadableError ''The request holds two different assistant texts that carry the same <content-internal> value, of which only the last would be read.'')))"

definition note_entry :: "wire \<Rightarrow> openai_sdk \<Rightarrow> (string \<times> string) list \<Rightarrow> json \<Rightarrow> failure + (string \<times> string) list" where
  "note_entry wr sdk seen e =
     (case e of
        JObj ps \<Rightarrow>
          if \<not> os_assistant_item sdk ps then Inr []
          else if \<not> says ps ''role'' ''assistant'' then Inr seen
          else fold_err (note_span sdk) seen (duplicate_texts wr ps)
      | _ \<Rightarrow> Inr [])"

text \<open>\<open>_assistant_texts\<close>.\<close>

definition assistant_texts :: "json \<Rightarrow> json list" where
  "assistant_texts e =
     (case (says (object_if e) ''role'' ''assistant'', field (object_if e) ''content'') of
        (True, JStr s) \<Rightarrow> [JStr s]
      | (True, JList parts) \<Rightarrow>
          map (\<lambda>p. field (object_if p) ''text'') (filter (\<lambda>p. has (object_if p) ''text'') parts)
      | _ \<Rightarrow> [])"

text \<open>\<open>read_responses_request\<close>.\<close>

definition input_entries :: "fields \<Rightarrow> failure + json list" where
  "input_entries request =
     (case field request ''input'' of
        JStr s \<Rightarrow> Inr [JObj [(''role'', JStr ''user''), (''content'', JStr s)]]
      | JList entries \<Rightarrow> Inr entries
      | _ \<Rightarrow> Inl (UnreadableError ''The request has no input.''))"

definition check_kept_elsewhere :: "fields \<Rightarrow> failure option" where
  "check_kept_elsewhere request =
     first_error
       [refuse_if (field request ''previous_response_id'' \<noteq> JNull \<or> field request ''conversation'' \<noteq> JNull)
          ''The request continues a conversation the provider keeps, which this sidecar is not shown.'',
        refuse_if (field request ''prompt'' \<noteq> JNull)
          ''The request names a prompt the provider keeps, whose text this sidecar is not shown.'',
        refuse_if (truthy (field request ''background''))
          ''The request asks for a reply that is fetched later, which this sidecar would not be shown.'']"

definition check_input_item :: "json \<Rightarrow> failure option" where
  "check_input_item e =
     (if says (object_if e) ''type'' ''function_call'' then check_arguments ''request'' (field (object_if e) ''arguments'')
      else None)"

definition instructions_message :: "string \<Rightarrow> chat_message" where
  "instructions_message t =
     \<lparr>cm_role = System, cm_id = None, cm_content = Text t, cm_text = t, cm_content_list = [TextItem t],
      cm_model = None, cm_tool_calls = None, cm_tool_call_id = None, cm_error = None\<rparr>"

definition with_instructions :: "fields \<Rightarrow> messages \<Rightarrow> messages" where
  "with_instructions request ms =
     (case field request ''instructions'' of
        JStr t \<Rightarrow> if t = [] then ms else instructions_message t # ms
      | _ \<Rightarrow> ms)"

definition responses_read_request :: "wire \<Rightarrow> openai_sdk \<Rightarrow> json option \<Rightarrow> fields \<Rightarrow> failure + messages" where
  "responses_read_request wr sdk start request =
     check (check_kept_elsewhere request)
       (bind_err (input_entries request) (\<lambda>entries.
         let texts = concat (map assistant_texts entries) in
         check (check_parts sdk entries)
           (bind_err (fold_err (note_entry wr sdk) [] entries) (\<lambda>seen.
             check (check_internal ''request'' texts)
               (check (first_error (map check_input_item entries))
                 (bind_err (reader_error ''The request holds input that can't be read.''
                     (os_input sdk start entries (model_named request))) (\<lambda>ms.
                   check (check_internal_kept (os_spans sdk) ''request'' texts ms)
                     (Inr (with_instructions request ms)))))))))"

section \<open>The format\<close>

definition responses_api :: "wire \<Rightarrow> openai_sdk \<Rightarrow> wire_api" where
  "responses_api wr sdk =
     \<lparr>wa_conversation = ''input'', wa_read = responses_read_request wr sdk, wa_offered = os_offered sdk,
      wa_rejected_turn = responses_rejected_turn sdk, wa_settled = \<lambda>entry. entry,
      wa_turn_at = responses_turn_at sdk, wa_call_ids = responses_call_ids, wa_call_of = responses_call_of wr,
      wa_result_of = responses_result_of, wa_results_in = responses_results_in, wa_pick = responses_pick wr\<rparr>"

lemma is_output_same: "same x y \<Longrightarrow> is_output x = is_output y"
proof -
  assume s: "same x y"
  show ?thesis
  proof (cases "\<exists>ps. x = JObj ps")
    case True
    then obtain ps qs where x: "x = JObj ps" "y = JObj qs" "same (JObj ps) (JObj qs)" using s same_object by blast
    have "is_output (JObj rs) = (case text_id (field rs ''type'') of Some t \<Rightarrow> ends_with t ''_output'' | None \<Rightarrow> False)" for rs
      by (cases "field rs ''type''") (simp_all add: is_output_def)
    then show ?thesis using x(1,2) same_text_id [OF x(3)] by simp
  next
    case False
    then have "object_if x = []" by (intro object_if_empty) blast
    moreover have "object_if y = []" using False s same_to_object by (intro object_if_empty) blast
    ultimately show ?thesis by (simp add: is_output_def)
  qed
qed

interpretation responses_calls: edited_format "responses_api wr sdk"
  using is_output_same entry_id_same
  by unfold_locales
    (auto simp: responses_api_def responses_call_of_def responses_pick_def find_Some_iff item_call_id_def Let_def split: option.splits if_splits)

end
