(* ===== verification/Formats.thy ===== *)
theory Formats
  imports Anthropic Responses
begin

text \<open>
  The three formats together, as \<open>_api_of\<close> and the functions that read and edit a reply choose among
  them, and what holds of amending a request in any of them.
\<close>

section \<open>The formats of the sidecar\<close>

definition api_of :: "wire \<Rightarrow> anthropic_sdk \<Rightarrow> openai_sdk \<Rightarrow> stream_format \<Rightarrow> wire_api" where
  "api_of wr a o' f =
     (case f of
        AnthropicMessages \<Rightarrow> anthropic_api wr a
      | OpenAIChat \<Rightarrow> chat_api wr o'
      | OpenAIResponses \<Rightarrow> responses_api wr o')"

definition formats :: "wire \<Rightarrow> anthropic_sdk \<Rightarrow> openai_sdk \<Rightarrow> wire" where
  "formats wr a o' =
     wr\<lparr>wr_api := api_of wr a o',
        wr_anthropic_reply := anthropic_read_reply wr a,
        wr_openai_reply := openai_read_reply wr o',
        wr_anthropic_edit := anthropic_edit wr,
        wr_openai_edit := openai_edit wr o'\<rparr>"

lemma formats_api [simp]: "wr_api (formats wr a o') = api_of wr a o'"
  by (simp add: formats_def)

interpretation any_format: edited_format "api_of wr a o' f"
  by (cases f) (simp_all add: api_of_def anthropic_calls.edited_format_axioms chat_calls.edited_format_axioms responses_calls.edited_format_axioms)

section \<open>An edited turn\<close>

lemma amend_Some:
  assumes "amend wr api found turn = Inr (Some entries, restored)"
  obtains calls results where "amended_calls wr api found turn = Inr calls"
    "amended_results api found turn = Inr results" "entries = sp_rebuild found calls results"
  using assms by (auto simp: amend_def Let_def bind_err_Inr split: if_splits)

lemma edited_whole:
  assumes "amendments wr' f message (ed_taken_out turn) changed notes = Inr (ed_amendments turn)"
    "wr_api wr' f = api_of wr a o' f"
    "told_once (api_of wr a o' f) turn" "distinct (ed_order turn)"
    "ids_of (result_id (api_of wr a o' f)) (ed_order turn) (sp_results found) = filter (\<lambda>i. i \<in> there) (ed_order turn)"
    "amend wr' (api_of wr a o' f) found turn = Inr (Some entries, restored)"
  shows "\<exists>calls results. entries = sp_rebuild found calls results
    \<and> set (ed_order turn) \<subseteq> {i. call_named (api_of wr a o' f) i calls}
    \<and> ids_of (result_id (api_of wr a o' f)) (ed_order turn) results
        = filter (\<lambda>i. i \<in> there \<or> map_of (ed_taken_out turn) i \<noteq> None) (ed_order turn)
    \<and> subseq (sp_results found) results"
proof -
  have ok: "amendments_ok (api_of wr a o' f) turn"
    using any_format.amendments_calls [OF assms(2,1)] assms(3) by (simp add: amendments_ok_def)
  from amend_Some [OF assms(6)] obtain calls results where
      c: "amended_calls wr' (api_of wr a o' f) found turn = Inr calls"
        "amended_results (api_of wr a o' f) found turn = Inr results" "entries = sp_rebuild found calls results"
    by blast
  show ?thesis
    using c(3) any_format.all_calls_back [OF c(1) ok] results_back [OF c(2) ok assms(4,5)] by blast
qed

text \<open>A conversation to try this on: the writers write a message as Chat Completions has it, and the
  client was handed a turn with one of its two calls.\<close>

definition chat_call :: "tool_call \<Rightarrow> json" where
  "chat_call c =
     JObj [(''id'', JStr (tc_id c)), (''type'', JStr ''function''),
       (''function'', JObj [(''name'', JStr (tc_function c)), (''arguments'', JObj (tc_arguments c))])]"

definition chat_written :: "chat_message \<Rightarrow> json" where
  "chat_written m =
     (case cm_tool_call_id m of
        Some i \<Rightarrow> JObj [(''role'', JStr ''tool''), (''tool_call_id'', JStr i),
          (''content'', JStr (case cm_error m of None \<Rightarrow> cm_text m | Some (k, t) \<Rightarrow> t))]
      | None \<Rightarrow> JObj [(''role'', JStr ''assistant''), (''tool_calls'', JList (map chat_call (calls_of_message m)))])"

definition no_spans :: span_reader where
  "no_spans = \<lparr>sr_text = \<lambda>_. None, sr_kept = \<lambda>_. []\<rparr>"

definition plain_openai :: openai_sdk where
  "plain_openai =
     \<lparr>os_messages = \<lambda>_ _ _. Inr [], os_input = \<lambda>_ _ _. Inr [], os_turn = \<lambda>_ ms. Inr (map chat_written ms),
      os_items = \<lambda>_ _. Inr [], os_completion = \<lambda>_ _. Inl (OtherFailure []),
      os_response = \<lambda>_ _. Inl (OtherFailure []), os_events = \<lambda>_. Inr [], os_chunks = \<lambda>_. None,
      os_handles = \<lambda>_. True, os_chat_offered = \<lambda>_. Inr ([], None, JNull), os_offered = \<lambda>_. Inr ([], None, JNull),
      os_without_reasoning = \<lambda>t. t, os_assistant_item = \<lambda>_. False, os_spans = no_spans, os_repr = \<lambda>_. []\<rparr>"

definition plain_anthropic :: anthropic_sdk where
  "plain_anthropic =
     \<lparr>as_messages = \<lambda>_ _ _. Inr [], as_message = \<lambda>_ _. Inr [], as_output = \<lambda>_ _. Inl (OtherFailure []),
      as_events = \<lambda>_. Inr [], as_accumulate = \<lambda>_ _. None, as_offered = \<lambda>_. Inr ([], None, JNull),
      as_spans = no_spans, as_repr = \<lambda>_. []\<rparr>"

definition bare_wire :: wire where
  "bare_wire =
     \<lparr>wr_loads = \<lambda>_. None, wr_dumps = \<lambda>_. [], wr_sorted = \<lambda>_. [], wr_str = \<lambda>_. [], wr_hash = \<lambda>t. t,
      wr_api = \<lambda>_. \<lparr>wa_conversation = [], wa_read = \<lambda>_ _. Inr [], wa_offered = \<lambda>_. Inr ([], None, JNull),
        wa_rejected_turn = \<lambda>_ _ _. Inr [], wa_settled = \<lambda>e. e, wa_turn_at = \<lambda>_ _. None, wa_call_ids = \<lambda>_. [],
        wa_call_of = \<lambda>_. (None, JNull, JNull, JNull), wa_result_of = \<lambda>_. (JNull, JNull),
        wa_results_in = \<lambda>_. [], wa_pick = \<lambda>_ _. Inl (OtherFailure [])\<rparr>,
      wr_anthropic_reply = \<lambda>_ _ _. Inl (OtherFailure []), wr_openai_reply = \<lambda>_ _ _ _. Inl (OtherFailure []),
      wr_anthropic_edit = \<lambda>_ _ _. Inl (OtherFailure []), wr_openai_edit = \<lambda>_ _ _ _. Inl (OtherFailure [])\<rparr>"

definition plain_wire :: wire where
  "plain_wire = formats bare_wire plain_anthropic plain_openai"

definition a_call :: "string \<Rightarrow> tool_call" where
  "a_call i = \<lparr>tc_id = i, tc_function = ''bash'', tc_arguments = [], tc_parse_error = None, tc_view = None\<rparr>"

definition a_turn :: chat_message where
  "a_turn =
     \<lparr>cm_role = Assistant, cm_id = Some ''m'', cm_content = Text [], cm_text = [], cm_content_list = [],
      cm_model = None, cm_tool_calls = Some [a_call ''a'', a_call ''b''], cm_tool_call_id = None, cm_error = None\<rparr>"

definition a_amendment :: amendment where
  "a_amendment =
     \<lparr>am_call = chat_call (a_call ''a''),
      am_result = [chat_written (rejection (a_call ''a'') ''no'')], am_after = None\<rparr>"

definition an_edit :: edited where
  "an_edit =
     \<lparr>ed_sent = 1, ed_mark = [], ed_order = [''a'', ''b''], ed_taken_out = [(''a'', ''no'')], ed_originals = [],
      ed_modified = [], ed_amendments = [(''a'', a_amendment)]\<rparr>"

definition b_result :: json where
  "b_result = JObj [(''role'', JStr ''tool''), (''tool_call_id'', JStr ''b''), (''content'', JStr ''done'')]"

definition handed_turn :: spliced where
  "handed_turn =
     \<lparr>sp_start = 1, sp_end = 3, sp_calls = [chat_call (a_call ''b'')], sp_results = [b_result],
      sp_rebuild = \<lambda>own told. JObj (dict_set [(''role'', JStr ''assistant'')] ''tool_calls'' (JList own)) # told\<rparr>"

lemma an_edit_amendments:
  "amendments plain_wire OpenAIChat a_turn (ed_taken_out an_edit) [] None = Inr (ed_amendments an_edit)"
  by code_simp

definition amended_turn :: "json list" where
  "amended_turn =
     sp_rebuild handed_turn [chat_call (a_call ''a''), chat_call (a_call ''b'')]
       (am_result a_amendment @ [b_result])"

lemma an_edit_told_once: "told_once (api_of bare_wire plain_anthropic plain_openai OpenAIChat) an_edit"
  by code_simp

lemma an_edit_held:
  "ids_of (result_id (api_of bare_wire plain_anthropic plain_openai OpenAIChat)) (ed_order an_edit) (sp_results handed_turn)
     = filter (\<lambda>i. i \<in> {''b''}) (ed_order an_edit)"
  by code_simp

lemma an_edit_amended:
  "amend plain_wire (api_of bare_wire plain_anthropic plain_openai OpenAIChat) handed_turn an_edit
     = Inr (Some amended_turn, [])"
  by code_simp



section \<open>Turns added to a request\<close>

lemma indexed_segments: "concat (map2 (@) parts (map (\<lambda>e. [e]) es)) = concat (map2 (\<lambda>p e. p @ [e]) parts es)"
  by (simp add: zip_map2 comp_def case_prod_unfold)

lemma told_parts:
  assumes "amend_request wr provider body told [] f = Inr ad" "json_object wr body ''request'' = Inr request"
    "format_of_request provider request f = Inr g" "ad_body ad = Some b"
  shows "\<exists>parts. length parts = Suc (length (conversation_of request (wr_api wr g)))
    \<and> (\<forall>k<length parts. written_turns (wr_api wr g) (turns_after told k) = Inr (parts ! k))
    \<and> b = wr_dumps wr (JObj (dict_set request (wa_conversation (wr_api wr g))
        (JList (concat (map2 (\<lambda>p e. p @ [e]) (butlast parts) (conversation_of request (wr_api wr g))) @ last parts))))"
proof -
  let ?es = "conversation_of request (wr_api wr g)"
  from assms obtain sent where w: "with_turns (wr_api wr g) told 0 (map (\<lambda>e. [e]) ?es) = Inr sent"
    and b: "b = wr_dumps wr (JObj (dict_set request (wa_conversation (wr_api wr g)) (JList sent)))"
    by (auto simp: amend_request_def with_api_def bind_err_Inr Let_def split: if_splits)
  from with_turns_parts [OF w] obtain parts rest where p: "length parts = length ?es"
      "written_turns (wr_api wr g) (turns_after told (length ?es)) = Inr rest"
      "\<forall>k<length ?es. written_turns (wr_api wr g) (turns_after told k) = Inr (parts ! k)"
      "sent = concat (map2 (@) parts (map (\<lambda>e. [e]) ?es)) @ rest"
    by auto
  show ?thesis
  proof (intro exI conjI allI impI)
    show "length (parts @ [rest]) = Suc (length ?es)" using p(1) by simp
    show "b = wr_dumps wr (JObj (dict_set request (wa_conversation (wr_api wr g))
        (JList (concat (map2 (\<lambda>p e. p @ [e]) (butlast (parts @ [rest])) ?es) @ last (parts @ [rest])))))"
      using b p(4) by (simp add: indexed_segments)
    fix k assume "k < length (parts @ [rest])"
    then show "written_turns (wr_api wr g) (turns_after told k) = Inr ((parts @ [rest]) ! k)"
      using p(1-3) by (auto simp: nth_append less_Suc_eq)
  qed
qed

end
