(* ===== verification/SentinelField.thy ===== *)
theory SentinelField
  imports Anthropic
begin

text \<open>
  What an Inspect client is told of an exchange: the \<open>sentinel\<close> field (\<open>sidecar/_inspect_client.py\<close>),
  and where it goes in a reply. How pydantic writes a decision, a report, a message or a call, and
  how an exception is written, are parameters; a field that is \<open>None\<close> is left out.
\<close>

section \<open>The field\<close>

record field_config =
  fd_call :: "tool_call \<Rightarrow> json"
  fd_decision :: "bool \<Rightarrow> decision \<Rightarrow> json"
  fd_report :: "report \<Rightarrow> json"
  fd_message :: "chat_message \<Rightarrow> json"
  fd_error :: "failed \<Rightarrow> string"

definition step_call :: "step \<Rightarrow> tool_call option" where
  "step_call s =
     (case s of BeforeToolCall t \<Rightarrow> Some (bt_call t) | AfterToolCall t \<Rightarrow> Some (at_call t) | _ \<Rightarrow> None)"

text \<open>\<open>record_json\<close>.\<close>

definition call_field :: "step \<Rightarrow> fields" where
  "call_field s = (case step_call s of None \<Rightarrow> [] | Some c \<Rightarrow> [(''call'', JStr (tc_id c))])"

definition entry_head :: "string \<Rightarrow> string \<Rightarrow> string \<Rightarrow> fields" where
  "entry_head kind path factory = [(''kind'', JStr kind), (''path'', JStr path), (''factory'', JStr factory)]"

fun record_json :: "field_config \<Rightarrow> event \<Rightarrow> json" where
  "record_json fc (Recorded path factory step r) =
     JObj (entry_head ''record'' path factory
       @ [(''name'', JStr (rp_name r)), (''function'', JStr (rp_function r)), (''report'', fd_report fc (rp_report r))]
       @ call_field step)"
| "record_json fc (MonitorFailed path factory step f) =
     JObj (entry_head ''failed'' path factory
       @ [(''name'', JStr (f_name f)), (''function'', JStr (f_function f)), (''error'', JStr (fd_error fc f))]
       @ call_field step)"
| "record_json fc (Cancelled path factory step name) =
     JObj (entry_head ''cancelled'' path factory @ [(''name'', JStr name)] @ call_field step)"
| "record_json fc (Bypassed path factory step name) =
     JObj (entry_head ''bypassed'' path factory @ [(''name'', JStr name)] @ call_field step)"
| "record_json fc (Superseded path factory step r) =
     JObj (entry_head ''superseded'' path factory
       @ [(''name'', JStr (rp_name r)), (''function'', JStr (rp_function r)), (''report'', fd_report fc (RDec (rp_report r)))]
       @ call_field step)"

primrec outcome_text :: "outcome \<Rightarrow> string" where
  "outcome_text ProceedOutcome = ''proceed''"
| "outcome_text RejectOutcome = ''reject''"
| "outcome_text TerminateOutcome = ''terminate''"

definition optional :: "string \<Rightarrow> json option \<Rightarrow> fields" where
  "optional name j = (case j of None \<Rightarrow> [] | Some j \<Rightarrow> [(name, j)])"

definition step_json :: "field_config \<Rightarrow> bool \<Rightarrow> judged_step \<Rightarrow> json" where
  "step_json fc trimmed js =
     JObj ([(''stage'', JStr (stage_text (js_stage js)))]
       @ optional ''call'' (map_option JStr (js_call js))
       @ optional ''original'' (map_option (fd_call fc) (js_original js))
       @ [(''decision'', fd_decision fc trimmed
            (case js_decision js of Some d \<Rightarrow> d | None \<Rightarrow> decision_proceed None []))]
       @ (if trimmed then [] else [(''recorded'', JList (map (record_json fc) (js_records js)))]))"

definition withheld_json :: "field_config \<Rightarrow> withheld \<Rightarrow> json" where
  "withheld_json fc w =
     JObj [(''message'', fd_message fc (wh_message w)), (''results'', JObj (map (\<lambda>(i, t). (i, JStr t)) (wh_told w)))]"

definition sentinel_field :: "field_config \<Rightarrow> exchange \<Rightarrow> outcome \<Rightarrow> bool \<Rightarrow> fields" where
  "sentinel_field fc xc out trimmed =
     [(''version'', JInt 1), (''outcome'', JStr (outcome_text out))]
       @ (if trimmed then [(''trimmed'', JBool True)] else [])
       @ [(''steps'', JList (map (step_json fc trimmed) (xc_judged xc)))]
       @ optional ''withheld'' (map_option (withheld_json fc) (xc_withheld xc))
       @ optional ''proposed'' (map_option (withheld_json fc) (xc_proposed xc))"

section \<open>Where it goes\<close>

text \<open>\<open>_last_event\<close>: the last event that ends the reply, or else the last chunk of a chat.\<close>

definition last_events :: "string list" where
  "last_events = [''message_delta'', ''response.completed'', ''response.incomplete'', ''response.failed'']"

fun last_event :: "nat \<Rightarrow> nat option \<times> nat option \<Rightarrow> stream_event list \<Rightarrow> failure + nat option" where
  "last_event n found [] = Inr (case fst found of Some i \<Rightarrow> Some i | None \<Rightarrow> snd found)"
| "last_event n found (e # es) =
     (case se_data e of
        None \<Rightarrow> last_event (Suc n) found es
      | Some data \<Rightarrow>
          (case one_of last_events (field data ''type'') of
             None \<Rightarrow> Inl (OtherFailure ''TypeError'')
           | Some True \<Rightarrow> last_event (Suc n) (Some n, snd found) es
           | Some False \<Rightarrow>
               last_event (Suc n)
                 (if says data ''object'' ''chat.completion.chunk'' then (fst found, Some n) else found) es))"

definition put_field :: "fields \<Rightarrow> stream_event \<Rightarrow> stream_event" where
  "put_field f e = set_data (dict_set (data_of e) ''sentinel'' (JObj f)) e"

definition with_sentinel :: "wire \<Rightarrow> string \<Rightarrow> string \<Rightarrow> fields \<Rightarrow> failure + string" where
  "with_sentinel wr content_type body f =
     (if \<not> event_stream content_type then
        bind_err (json_object wr body ''reply'') (\<lambda>reply.
          Inr (wr_dumps wr (JObj (dict_set reply ''sentinel'' (JObj f)))))
      else
        bind_err (events_written wr body) (\<lambda>events.
          bind_err (last_event 0 (None, None) events) (\<lambda>n.
            case n of
              None \<Rightarrow> Inl (UnreadableError ''The reply stream has no event the field can go in.'')
            | Some i \<Rightarrow> Inr (write_events (wr_dumps wr) (events[i := put_field f (events ! i)])))))"

section \<open>The sample a request is from\<close>

text \<open>\<open>inspect_sample\<close>; how pydantic reads the header is a parameter.\<close>

definition inspect_context :: string where
  "inspect_context = ''x-inspect-context''"

definition sample_named :: "(string \<Rightarrow> inspect_sample option) \<Rightarrow> (string \<times> string) list \<Rightarrow> failure + inspect_sample option" where
  "sample_named read headers =
     (case map_of headers inspect_context of
        None \<Rightarrow> Inr None
      | Some v \<Rightarrow>
          (case read v of
             None \<Rightarrow> Inl (UnreadableError (''The request's '' @ inspect_context @ '' header isn't one this sidecar can read.''))
           | Some s \<Rightarrow> Inr (Some s)))"

end
