(* ===== verification/Handler.thy ===== *)
theory Handler
  imports History Formats SentinelField
begin

text \<open>
  The handler (\<open>sidecar/_handler.py\<close>): what it judges of a request and of its reply, and what it
  answers the proxy. It is written over the sidecar's memory, with what may happen while it waits: at
  each wait other exchanges may change what is shared, and the time limit may run out, as the
  configuration says for the wait's number. A sentinel's judgment is a parameter: what it decides or
  raises, what it records and how it leaves the run's store, which it is given as the wait for it
  leaves it. \<open>hs_asked\<close> keeps, beside the code's own state, what the sentinel was asked and what it
  decided; \<open>hs_exchange\<close> is the exchange of the request or reply at hand, which nobody else changes.
  A wait for another's judgment that takes more than \<open>hn_patience\<close> waits counts as a failure.
\<close>

section \<open>Configuration and state\<close>

record asked_step =
  ak_run :: nat
  ak_conversation :: string
  ak_step :: step
  ak_decision :: "decision option"

record handler_state =
  hs_sidecar :: sidecar
  hs_judging :: "(string \<times> string \<times> string) list"
  hs_awaits :: nat
  hs_exchange :: exchange
  hs_asked :: "asked_step list"

type_synonym sentinel =
  "eval_context option \<Rightarrow> proxy_context \<Rightarrow> fields \<Rightarrow> step \<Rightarrow> (failure + decision option) \<times> event list \<times> fields"

record sidecar_handler =
  hn_edit :: edit_config
  hn_history :: history_config
  hn_field :: field_config
  hn_header :: "string \<Rightarrow> inspect_sample option"
  hn_sentinel :: sentinel
  hn_watched :: "stage list"
  hn_reject_status :: int
  hn_time_limit :: string
  hn_eval_results :: bool
  hn_tasks :: "(string \<times> file_task) list"
  hn_runtime_registration :: bool
  hn_task_expiry :: rat
  hn_max_registrations :: nat
  hn_call_type :: "tool_call \<Rightarrow> json"
  hn_result_dump :: "chat_message \<Rightarrow> string"
  hn_viewed_tools :: "string list"
  hn_view :: "tool_call \<Rightarrow> string option \<Rightarrow> json"
  hn_others :: "nat \<Rightarrow> handler_state \<Rightarrow> handler_state"
  hn_expires :: "nat \<Rightarrow> bool"
  hn_patience :: nat

definition hn_wire :: "sidecar_handler \<Rightarrow> wire" where
  "hn_wire hn = ec_wire (hn_edit hn)"

definition max_rejections :: nat where
  "max_rejections = 3"

definition not_approved :: string where
  "not_approved = ''Tool call not approved.''"

definition not_run_message :: string where
  "not_run_message = ''This call was not run, because another call in the same turn was rejected.''"

section \<open>Steps that may fail or wait\<close>

type_synonym 'a io = "handler_state \<Rightarrow> (failure + 'a) \<times> handler_state"

definition ret :: "'a \<Rightarrow> 'a io" where
  "ret x w = (Inr x, w)"

definition raise_err :: "failure \<Rightarrow> 'a io" where
  "raise_err ex w = (Inl ex, w)"

definition lift_err :: "failure + 'a \<Rightarrow> 'a io" where
  "lift_err r w = (r, w)"

definition bind_io :: "'a io \<Rightarrow> ('a \<Rightarrow> 'b io) \<Rightarrow> 'b io" where
  "bind_io m f w = (case m w of (Inl ex, w') \<Rightarrow> (Inl ex, w') | (Inr x, w') \<Rightarrow> f x w')"

definition change :: "(handler_state \<Rightarrow> handler_state) \<Rightarrow> unit io" where
  "change f w = (Inr (), f w)"

definition look :: "(handler_state \<Rightarrow> 'a) \<Rightarrow> 'a io" where
  "look f w = (Inr (f w), w)"

definition on_sidecar :: "(sidecar \<Rightarrow> 'a \<times> sidecar) \<Rightarrow> 'a io" where
  "on_sidecar f w = (case f (hs_sidecar w) of (x, s) \<Rightarrow> (Inr x, w\<lparr>hs_sidecar := s\<rparr>))"

definition out_of_time :: "sidecar_handler \<Rightarrow> failure" where
  "out_of_time hn = TimeLimitError (hn_time_limit hn)"

text \<open>A wait: what others do meanwhile, and whether the time limit runs out during it.\<close>

definition pause :: "sidecar_handler \<Rightarrow> unit io" where
  "pause hn w =
     (let n = hs_awaits w;
          w' = (hn_others hn n w)\<lparr>hs_awaits := Suc n, hs_exchange := hs_exchange w, hs_asked := hs_asked w\<rparr>
      in if hn_expires hn n then (Inl (out_of_time hn), w') else (Inr (), w'))"

text \<open>A reader or writer that waits, and then gives what it gives.\<close>

definition waiting :: "sidecar_handler \<Rightarrow> failure + 'a \<Rightarrow> 'a io" where
  "waiting hn r = bind_io (pause hn) (\<lambda>_. lift_err r)"

section \<open>What is shared\<close>

definition the_run :: "nat \<Rightarrow> handler_state \<Rightarrow> sidecar_run" where
  "the_run r w = run_at r (hs_sidecar w)"

definition update_run :: "nat \<Rightarrow> (sidecar_run \<Rightarrow> sidecar_run) \<Rightarrow> handler_state \<Rightarrow> handler_state" where
  "update_run r f w = w\<lparr>hs_sidecar := set_run r (f (the_run r w)) (hs_sidecar w)\<rparr>"

definition the_conversation :: "nat \<Rightarrow> string \<Rightarrow> handler_state \<Rightarrow> conversation" where
  "the_conversation r ck w =
     (case map_of (rn_conversations (the_run r w)) ck of None \<Rightarrow> new_conversation | Some cv \<Rightarrow> cv)"

definition update_conversation ::
  "nat \<Rightarrow> string \<Rightarrow> (conversation \<Rightarrow> conversation) \<Rightarrow> handler_state \<Rightarrow> handler_state" where
  "update_conversation r ck f w =
     update_run r (\<lambda>run. run\<lparr>rn_conversations :=
       dict_set (rn_conversations run) ck (f (the_conversation r ck w))\<rparr>) w"

definition update_attempt :: "nat option \<Rightarrow> (attempt \<Rightarrow> attempt) \<Rightarrow> handler_state \<Rightarrow> handler_state" where
  "update_attempt a f w =
     (case a of
        None \<Rightarrow> w
      | Some n \<Rightarrow>
          (let s = hs_sidecar w
           in w\<lparr>hs_sidecar := s\<lparr>sc_attempt_objects := (sc_attempt_objects s)[n := f (sc_attempt_objects s ! n)]\<rparr>\<rparr>))"

definition update_exchange :: "(exchange \<Rightarrow> exchange) \<Rightarrow> handler_state \<Rightarrow> handler_state" where
  "update_exchange f w = w\<lparr>hs_exchange := f (hs_exchange w)\<rparr>"

section \<open>Keys, marks and digests\<close>

text \<open>\<open>_run_key\<close>.\<close>

definition run_key :: "bool \<Rightarrow> string \<Rightarrow> string" where
  "run_key named key = (if named then ''sample:'' else ''opening:'') @ key"

text \<open>\<open>_ended\<close>.\<close>

definition ended_refusal_of :: "sidecar_run \<Rightarrow> string list \<Rightarrow> refusal option" where
  "ended_refusal_of run marks =
     (case rn_refusal run of
        Some r \<Rightarrow> Some r
      | None \<Rightarrow>
          (case find (\<lambda>mark. map_of (rn_ended_at run) mark \<noteq> None) marks of
             None \<Rightarrow> None | Some mark \<Rightarrow> map_of (rn_ended_at run) mark))"

definition ends :: "decision option \<Rightarrow> bool" where
  "ends d \<longleftrightarrow> (case d of None \<Rightarrow> False | Some d \<Rightarrow> d_action d = Terminate)"

text \<open>\<open>_model\<close>.\<close>

definition step_model :: "string \<Rightarrow> string \<Rightarrow> string" where
  "step_model provider model =
     (if starts_with model (provider @ ''/'') then model else provider @ ''/'' @ model)"

text \<open>\<open>_opening\<close>.\<close>

definition first_role :: "role \<Rightarrow> messages \<Rightarrow> messages" where
  "first_role r ms = take 1 (filter (\<lambda>m. cm_role m = r) ms)"

definition opening_of :: "sidecar_handler \<Rightarrow> messages \<Rightarrow> string" where
  "opening_of hn ms =
     take 16 (wr_hash (hn_wire hn) (join [CHR 0x00] (map cm_text (first_role System ms @ first_role User ms))))"

text \<open>\<open>_digest\<close>.\<close>

primrec role_text :: "role \<Rightarrow> string" where
  "role_text System = ''system''"
| "role_text User = ''user''"
| "role_text Assistant = ''assistant''"
| "role_text Tool = ''tool''"

definition own_calls :: "chat_message \<Rightarrow> tool_call list" where
  "own_calls m = (if cm_role m = Assistant then calls_of_message m else [])"

definition message_digest :: "sidecar_handler \<Rightarrow> chat_message \<Rightarrow> string" where
  "message_digest hn m =
     wr_hash (hn_wire hn) (wr_sorted (hn_wire hn)
       (JList [JStr (role_text (cm_role m)), JStr (cm_text m),
         JList (map (\<lambda>c. JList [JStr (tc_id c), JStr (tc_function c), JObj (tc_arguments c)]) (own_calls m)),
         (if cm_role m = Tool then id_json (cm_tool_call_id m) else JNull)]))"

text \<open>\<open>_calls\<close>.\<close>

definition count_call :: "(string \<times> nat) list \<Rightarrow> tool_call \<Rightarrow> (string \<times> nat) list" where
  "count_call calls c =
     dict_set calls (tc_id c) (Suc (case map_of calls (tc_id c) of None \<Rightarrow> 0 | Some n \<Rightarrow> n))"

definition count_calls :: "messages \<Rightarrow> (string \<times> nat) list" where
  "count_calls ms = foldl count_call [] (concat (map own_calls ms))"

text \<open>\<open>_edit_lost\<close>.\<close>

definition edit_lost :: "sidecar_run \<Rightarrow> edited list \<Rightarrow> messages \<Rightarrow> bool" where
  "edit_lost run here ms =
     (let ids = map fst (count_calls ms)
            @ concat (map (\<lambda>m. case cm_tool_call_id m of
                Some i \<Rightarrow> if cm_role m = Tool then [i] else [] | None \<Rightarrow> []) ms)
      in list_ex (\<lambda>(ck, cv). list_ex (\<lambda>turn. turn \<notin> set here \<and> list_ex (\<lambda>i. i \<in> set (ed_order turn)) ids) (cv_edited cv))
           (rn_conversations run))"

text \<open>\<open>_result_digest\<close>.\<close>

definition result_digest :: "sidecar_handler \<Rightarrow> string \<Rightarrow> tool_call \<Rightarrow> chat_message \<Rightarrow> nat \<Rightarrow> string" where
  "result_digest hn said call result index =
     wr_hash (hn_wire hn)
       (wr_sorted (hn_wire hn)
          (JList [JStr said, JStr (tc_id call), JInt (int index), hn_call_type hn call, JStr (tc_function call),
            JObj (tc_arguments call), id_json (tc_parse_error call)])
        @ [CHR 0x00] @ hn_result_dump hn result)"

section \<open>Judging\<close>

text \<open>\<open>_judge\<close>.\<close>

definition add_events :: "nat \<Rightarrow> event list \<Rightarrow> sidecar \<Rightarrow> sidecar" where
  "add_events n es s = s\<lparr>sc_record_objects := (sc_record_objects s)[n := sc_record_objects s ! n @ es]\<rparr>"

definition judged_now ::
  "sidecar_handler \<Rightarrow> held \<Rightarrow> nat \<Rightarrow> step \<Rightarrow> nat \<Rightarrow> eval_context option \<Rightarrow> decision option io" where
  "judged_now hn h r step recorded eval w =
     (let (result, events, store) = hn_sentinel hn eval (he_proxy h) (rn_store (the_run r w)) step;
          w1 = update_run r (\<lambda>run. run\<lparr>rn_store := store\<rparr>) w;
          w2 = w1\<lparr>hs_sidecar := add_events (he_recorder h) events (hs_sidecar w1)\<rparr>
      in case result of
           Inl ex \<Rightarrow> (Inl ex, w2)
         | Inr d \<Rightarrow>
             (Inr d, update_exchange (\<lambda>xc. xc\<lparr>xc_judged := xc_judged xc @
                [\<lparr>js_stage = stage_of step, js_call = map_option tc_id (step_call step), js_decision = d,
                  js_records = drop recorded (sc_record_objects (hs_sidecar w2) ! he_recorder h),
                  js_original = None\<rparr>]\<rparr>)
                (w2\<lparr>hs_asked := hs_asked w2 @
                   [\<lparr>ak_run = r, ak_conversation = step_conversation step, ak_step = step, ak_decision = d\<rparr>]\<rparr>)))"

definition judge_step :: "sidecar_handler \<Rightarrow> held \<Rightarrow> nat \<Rightarrow> step \<Rightarrow> decision option io" where
  "judge_step hn h r step =
     bind_io (look (\<lambda>w. (length (sc_record_objects (hs_sidecar w) ! he_recorder h), rn_eval (the_run r w))))
       (\<lambda>(recorded, eval). bind_io (pause hn) (\<lambda>_. judged_now hn h r step recorded eval))"

text \<open>\<open>_end\<close>.\<close>

definition clear_turns :: "conversation \<Rightarrow> conversation" where
  "clear_turns cv = cv\<lparr>cv_rejected := [], cv_edited := []\<rparr>"

definition forget_turns_at :: "nat \<Rightarrow> string \<Rightarrow> conversation \<Rightarrow> conversation" where
  "forget_turns_at sent mark cv =
     cv\<lparr>cv_rejected := map (\<lambda>p. if rj_sent p = sent \<and> rj_mark p = mark then p\<lparr>rj_added := False\<rparr> else p) (cv_rejected cv)\<rparr>"

definition end_of :: "held \<Rightarrow> refusal \<Rightarrow> sidecar_run \<Rightarrow> sidecar_run" where
  "end_of h refusal run =
     (if he_named h then
        run\<lparr>rn_in_a_row := [], rn_refusal := Some refusal,
            rn_conversations := map (\<lambda>(ck, cv). (ck, clear_turns cv)) (rn_conversations run)\<rparr>
      else
        run\<lparr>rn_in_a_row := [],
            rn_ended_at := (if he_answered h then dict_set (rn_ended_at run) (he_mark h) refusal else rn_ended_at run),
            rn_conversations := map (\<lambda>(ck, cv).
              (ck, if ck = he_conversation h then forget_turns_at (he_sent h) (he_mark h) cv else cv)) (rn_conversations run)\<rparr>)"

definition end_refusal :: "string \<Rightarrow> refusal" where
  "end_refusal spot =
     \<lparr>rf_status = 400, rf_message = ''A sentinel ended this run '' @ spot @ ''.'', rf_sentinel = None\<rparr>"

definition end_here :: "held \<Rightarrow> nat \<Rightarrow> string \<Rightarrow> refusal io" where
  "end_here h r spot w =
     (Inr (end_refusal spot),
      update_run r (end_of h (end_refusal spot)) (update_exchange (\<lambda>xc. xc\<lparr>xc_ended := True\<rparr>) w))"

text \<open>\<open>_with_field\<close>.\<close>

definition field_of :: "sidecar_handler \<Rightarrow> exchange \<Rightarrow> outcome \<Rightarrow> fields" where
  "field_of hn xc out = sentinel_field (hn_field hn) xc out (\<not> hn_eval_results hn)"

definition with_field :: "sidecar_handler \<Rightarrow> refusal \<Rightarrow> proxy_context \<Rightarrow> exchange \<Rightarrow> outcome \<Rightarrow> refusal" where
  "with_field hn refusal proxy xc out =
     (if px_inspect proxy = None then refusal else refusal\<lparr>rf_sentinel := Some (field_of hn xc out)\<rparr>)"

text \<open>\<open>_view\<close>.\<close>

definition view_of :: "sidecar_handler \<Rightarrow> sidecar_run \<Rightarrow> tool_call \<Rightarrow> json" where
  "view_of hn run call =
     (let task = (case rn_eval run of None \<Rightarrow> None | Some ev \<Rightarrow> map_of (hn_tasks hn) (ec_task ev));
          named = (case task of None \<Rightarrow> None | Some t \<Rightarrow> map_of (ft_tools t) (tc_function call))
      in hn_view hn call
           (case named of
              Some t \<Rightarrow> Some t
            | None \<Rightarrow> if tc_function call \<in> set (hn_viewed_tools hn) then Some (''inspect_ai/'' @ tc_function call) else None))"

end
