(* ===== verification/RequestSide.thy ===== *)
theory RequestSide
  imports Handler
begin

text \<open>
  Judging a request (\<open>request\<close>, \<open>_request\<close> and \<open>_results\<close> of \<open>sidecar/_handler.py\<close>): the results the
  client sends of calls it ran, each judged once, and then the request itself, with the turns it was
  never handed put back.
\<close>

section \<open>The calls a client holds\<close>

text \<open>The call a result is of: the message it is in, the words with it, and its place among those with
  its id.\<close>

type_synonym made_call = "chat_message \<times> tool_call \<times> string \<times> nat"

type_synonym calls_so_far = "(string \<times> made_call) list \<times> (string \<times> nat) list"

definition nat_at :: "(string \<times> nat) list \<Rightarrow> string \<Rightarrow> nat" where
  "nat_at d i = (case map_of d i of None \<Rightarrow> 0 | Some n \<Rightarrow> n)"

definition words_of :: "(string \<times> string list) list \<Rightarrow> chat_message \<Rightarrow> string \<Rightarrow> nat \<Rightarrow> string" where
  "words_of said entry i index =
     (let written = (case map_of said i of None \<Rightarrow> [] | Some ws \<Rightarrow> ws)
      in if index < length written then written ! index else cm_text entry)"

definition note_call ::
  "(string \<times> string list) list \<Rightarrow> chat_message \<Rightarrow> calls_so_far \<Rightarrow> tool_call \<Rightarrow> calls_so_far" where
  "note_call said entry st call =
     (let (made, occurrences) = st; i = tc_id call; index = nat_at occurrences i
      in (dict_set made i (entry, call, words_of said entry i index, index), dict_set occurrences i (Suc index)))"

definition note_calls :: "(string \<times> string list) list \<Rightarrow> chat_message \<Rightarrow> calls_so_far \<Rightarrow> calls_so_far" where
  "note_calls said entry st = foldl (note_call said entry) st (own_calls entry)"

text \<open>The calls the client holds count as handed out.\<close>

definition issue_call :: "(string \<times> nat) list \<Rightarrow> string \<times> nat \<Rightarrow> (string \<times> nat) list" where
  "issue_call issued p = dict_set issued (fst p) (max (nat_at issued (fst p)) (snd p))"

definition issue_calls :: "(string \<times> nat) list \<Rightarrow> conversation \<Rightarrow> conversation" where
  "issue_calls held_calls cv = cv\<lparr>cv_issued := foldl issue_call (cv_issued cv) held_calls\<rparr>"

section \<open>One result\<close>

text \<open>What a request's results are judged with: its run and conversation, the calls the client holds,
  those whose rejections the client put back, and the changed calls, as they ran.\<close>

record results_of =
  ro_held :: held
  ro_run :: nat
  ro_calls :: "(string \<times> nat) list"
  ro_restored :: "string list"
  ro_ran :: "(string \<times> tool_call) list"

primrec await_judged :: "sidecar_handler \<Rightarrow> string \<times> string \<times> string \<Rightarrow> nat \<Rightarrow> unit io" where
  "await_judged hn key 0 =
     (\<lambda>w. if key \<in> set (hs_judging w) then (Inl (OtherFailure ''still being judged''), w) else (Inr (), w))"
| "await_judged hn key (Suc n) =
     (\<lambda>w. if key \<in> set (hs_judging w) then bind_io (pause hn) (\<lambda>_. await_judged hn key n) w else (Inr (), w))"

definition with_judging :: "string \<times> string \<times> string \<Rightarrow> 'a io \<Rightarrow> 'a io" where
  "with_judging key m w =
     (case m (w\<lparr>hs_judging := key # hs_judging w\<rparr>) of
        (result, w') \<Rightarrow> (result, w'\<lparr>hs_judging := filter (\<lambda>k. k \<noteq> key) (hs_judging w')\<rparr>))"

definition add_new :: "'a \<Rightarrow> 'a list \<Rightarrow> 'a list" where
  "add_new x xs = (if x \<in> set xs then xs else xs @ [x])"

definition mark_judged :: "string \<Rightarrow> conversation \<Rightarrow> conversation" where
  "mark_judged digest cv = cv\<lparr>cv_judged := add_new digest (cv_judged cv)\<rparr>"

text \<open>The step of a result.\<close>

definition result_step ::
  "sidecar_handler \<Rightarrow> held \<Rightarrow> sidecar_run \<Rightarrow> conversation \<Rightarrow> chat_message \<Rightarrow> tool_call \<Rightarrow> nat \<Rightarrow> chat_message \<Rightarrow> failure + step" where
  "result_step hn h run cv assistant call index entry =
     (let sent = map_of (cv_made cv) (occurrence (tc_id call) index) in
      case (case sent of Some md \<Rightarrow> Some (md_message_id md) | None \<Rightarrow> cm_id assistant) of
        None \<Rightarrow> Inl (OtherFailure ''AssertionError'')
      | Some message_id \<Rightarrow>
          Inr (AfterToolCall
            \<lparr>at_conversation = he_conversation h, at_message = cm_text assistant, at_message_id = message_id,
             at_call = call, at_result = entry, at_output = None, at_view = view_of hn run call,
             at_input = map_option md_input sent, at_agent_messages = None, at_history = Some (cv_sent cv),
             at_human_decisions = None, at_tools = map_option md_tools sent,
             at_tool_choice = map_option md_tool_choice sent, at_truncated = TruncationUnknown\<rparr>))"

definition judge_result_step ::
  "sidecar_handler \<Rightarrow> results_of \<Rightarrow> string \<Rightarrow> tool_call \<Rightarrow> step \<Rightarrow> refusal option io" where
  "judge_result_step hn ro digest call step =
     bind_io (judge_step hn (ro_held ro) (ro_run ro) step) (\<lambda>d.
       if ends d then
         bind_io (end_here (ro_held ro) (ro_run ro) (''at the result of the call to '' @ tc_function call)) (\<lambda>rf. ret (Some rf))
       else
         bind_io (change (update_conversation (ro_run ro) (he_conversation (ro_held ro)) (mark_judged digest))) (\<lambda>_. ret None))"

definition put_back :: "results_of \<Rightarrow> chat_message \<Rightarrow> bool" where
  "put_back ro entry \<longleftrightarrow> (case cm_tool_call_id entry of None \<Rightarrow> False | Some i \<Rightarrow> i \<in> set (ro_restored ro))"

definition judge_unless_judged ::
  "sidecar_handler \<Rightarrow> results_of \<Rightarrow> made_call \<Rightarrow> tool_call \<Rightarrow> string \<Rightarrow> chat_message \<Rightarrow> refusal option io" where
  "judge_unless_judged hn ro found call digest entry w =
     (let (assistant, proposed, words, index) = found; h = ro_held ro;
          cv = the_conversation (ro_run ro) (he_conversation h) w
      in if digest \<in> set (cv_judged cv) \<or> put_back ro entry then (Inr None, w)
         else case result_step hn h (the_run (ro_run ro) w) cv assistant call index entry of
                Inl ex \<Rightarrow> (Inl ex, w)
              | Inr step \<Rightarrow>
                  with_judging (he_run h, he_conversation h, digest) (judge_result_step hn ro digest call step) w)"

definition fewer_calls :: "string \<Rightarrow> failure" where
  "fewer_calls i = UnreadableError (''The request holds fewer calls with the id '' @ quoted i
     @ '' than its conversation did, so its results can'' @ apostrophe @ ''t be told apart from those judged before.'')"

definition result_call :: "results_of \<Rightarrow> made_call \<Rightarrow> tool_call" where
  "result_call ro found =
     (let (assistant, call, words, index) = found
      in case map_of (ro_ran ro) (tc_id call) of None \<Rightarrow> call | Some changed \<Rightarrow> changed)"

definition digest_of_result :: "sidecar_handler \<Rightarrow> results_of \<Rightarrow> made_call \<Rightarrow> chat_message \<Rightarrow> string" where
  "digest_of_result hn ro found entry =
     (let (assistant, call, words, index) = found in result_digest hn words (result_call ro found) entry index)"

definition judge_result :: "sidecar_handler \<Rightarrow> results_of \<Rightarrow> made_call \<Rightarrow> chat_message \<Rightarrow> refusal option io" where
  "judge_result hn ro found entry w =
     (let h = ro_held ro; call = result_call ro found;
          cv = the_conversation (ro_run ro) (he_conversation h) w;
          digest = digest_of_result hn ro found entry; key = (he_run h, he_conversation h, digest)
      in if nat_at (ro_calls ro) (tc_id call) < nat_at (cv_issued cv) (tc_id call) then (Inl (fewer_calls (tc_id call)), w)
         else if key \<in> set (hs_judging w) then
           bind_io (await_judged hn key (hn_patience hn)) (\<lambda>_ w'.
             case ended_refusal_of (the_run (ro_run ro) w') (he_marks h) of
               Some rf \<Rightarrow> (Inr (Some rf), w')
             | None \<Rightarrow> judge_unless_judged hn ro found call digest entry w') w
         else judge_unless_judged hn ro found call digest entry w)"

section \<open>Every result\<close>

definition id_text :: "string option \<Rightarrow> string" where
  "id_text i = (case i of None \<Rightarrow> ''None'' | Some i \<Rightarrow> quoted i)"

definition no_call :: "string option \<Rightarrow> failure" where
  "no_call i = UnreadableError (''The request holds a result for a call it doesn'' @ apostrophe @ ''t hold: '' @ id_text i @ ''.'')"

definition call_made :: "calls_so_far \<Rightarrow> chat_message \<Rightarrow> made_call option" where
  "call_made st entry = map_of (fst st) (case cm_tool_call_id entry of None \<Rightarrow> [] | Some i \<Rightarrow> i)"

fun results_loop ::
  "sidecar_handler \<Rightarrow> results_of \<Rightarrow> (string \<times> string list) list \<Rightarrow> calls_so_far \<Rightarrow> messages \<Rightarrow> refusal option io" where
  "results_loop hn ro said st [] = ret None"
| "results_loop hn ro said st (entry # entries) =
     (let st' = note_calls said entry st in
      if cm_role entry \<noteq> Tool then results_loop hn ro said st' entries
      else case call_made st' entry of
             None \<Rightarrow> raise_err (no_call (cm_tool_call_id entry))
           | Some found \<Rightarrow>
               bind_io (judge_result hn ro found entry) (\<lambda>ended.
                 case ended of Some rf \<Rightarrow> ret (Some rf) | None \<Rightarrow> results_loop hn ro said st' entries))"

text \<open>\<open>_results\<close>.\<close>

definition judge_results ::
  "sidecar_handler \<Rightarrow> results_of \<Rightarrow> (string \<times> string list) list \<Rightarrow> messages \<Rightarrow> refusal option io" where
  "judge_results hn ro said client =
     (if ToolResultStage \<notin> set (hn_watched hn) then ret None
      else bind_io (change (update_conversation (ro_run ro) (he_conversation (ro_held ro)) (issue_calls (ro_calls ro))))
        (\<lambda>_. results_loop hn ro said ([], []) client))"


section \<open>What the client was never handed\<close>

record proxy_request =
  rq_id :: string
  rq_provider :: string
  rq_model :: string
  rq_user :: "string option"
  rq_body :: string
  rq_headers :: "(string \<times> string) list"
  rq_format :: "stream_format option"

text \<open>A kept point or turn that the request continues from.\<close>

definition continues :: "string list \<Rightarrow> nat \<Rightarrow> string \<Rightarrow> bool" where
  "continues marks sent mark \<longleftrightarrow> sent < length marks \<and> marks ! sent = mark"

definition continued_points :: "string list \<Rightarrow> conversation \<Rightarrow> rejected list" where
  "continued_points marks cv = filter (\<lambda>p. continues marks (rj_sent p) (rj_mark p)) (cv_rejected cv)"

definition continued_edits :: "string list \<Rightarrow> conversation \<Rightarrow> edited list" where
  "continued_edits marks cv = filter (\<lambda>t. continues marks (ed_sent t) (ed_mark t)) (cv_edited cv)"

text \<open>The turns to tell the model of, by where they go: those the client does not hold.\<close>

definition untold :: "sidecar_handler \<Rightarrow> string list \<Rightarrow> rejected \<Rightarrow> refused_turn list" where
  "untold hn holds p = filter (\<lambda>t. message_digest hn (fst t) \<notin> set holds) (rj_turns p)"

definition turns_to_tell :: "sidecar_handler \<Rightarrow> string list \<Rightarrow> rejected list \<Rightarrow> (nat \<times> refused_turn list) list" where
  "turns_to_tell hn holds points =
     foldl (\<lambda>told p. if rj_added p \<and> untold hn holds p \<noteq> [] then dict_set told (rj_sent p) (untold hn holds p) else told)
       [] points"

text \<open>The rejections of the turns it does hold; a point's turns and what is written of them go together.\<close>

definition refused_of ::
  "sidecar_handler \<Rightarrow> string list \<Rightarrow> (string \<times> amendment) list \<Rightarrow> rejected \<Rightarrow> failure + (string \<times> amendment) list" where
  "refused_of hn holds refused p =
     (if length (rj_turns p) \<noteq> length (rj_written p) then Inl (OtherFailure ''ValueError'')
      else Inr (foldl (\<lambda>d (turn, written).
        if message_digest hn (fst turn) \<in> set holds then dict_merge d written else d)
        refused (zip (rj_turns p) (rj_written p))))"

fun refused_calls ::
  "sidecar_handler \<Rightarrow> string list \<Rightarrow> (string \<times> amendment) list \<Rightarrow> rejected list \<Rightarrow> failure + (string \<times> amendment) list" where
  "refused_calls hn holds refused [] = Inr refused"
| "refused_calls hn holds refused (p # ps) =
     bind_err (refused_of hn holds refused p) (\<lambda>d. refused_calls hn holds d ps)"

definition changed_calls :: "edited list \<Rightarrow> (string \<times> tool_call) list" where
  "changed_calls edited = foldl (\<lambda>d t. dict_merge d (ed_modified t)) [] edited"

definition edit_is_lost :: failure where
  "edit_is_lost = UnreadableError (''The request holds a call this sidecar changed or took out, after earlier entries of its conversation changed, so which call ran can'' @ apostrophe @ ''t be told.'')"

section \<open>The sample's facts\<close>

definition sample_text :: "wire \<Rightarrow> json \<Rightarrow> string" where
  "sample_text wr j = (case j of JStr s \<Rightarrow> quoted s | j \<Rightarrow> wr_str wr j)"

text \<open>\<open>_eval\<close>.\<close>

definition eval_for :: "sidecar_handler \<Rightarrow> inspect_sample \<Rightarrow> eval_context option io" where
  "eval_for hn sample =
     (case map_of (hn_tasks hn) (sm_task sample) of
        None \<Rightarrow>
          bind_io (on_sidecar (registration (sm_eval_id sample) (sm_task sample)))
            (\<lambda>facts. ret (case facts of None \<Rightarrow> None | Some f \<Rightarrow> eval_context_of f sample))
      | Some task \<Rightarrow>
          (case eval_context_of task sample of
             None \<Rightarrow> raise_err (UnregisteredSampleError (''The task '' @ quoted (sm_task sample)
               @ '' is registered with this sidecar beforehand, without the sample ''
               @ sample_text (hn_wire hn) (sm_sample_id sample) @ ''.''))
           | Some ev \<Rightarrow> ret (Some ev)))"

text \<open>A run keeps the facts it first found.\<close>

definition keep_eval :: "eval_context option \<Rightarrow> sidecar_run \<Rightarrow> sidecar_run" where
  "keep_eval ev run = (if rn_eval run = None then run\<lparr>rn_eval := ev\<rparr> else run)"

definition find_eval :: "sidecar_handler \<Rightarrow> inspect_sample option \<Rightarrow> nat \<Rightarrow> unit io" where
  "find_eval hn sample r =
     (case sample of
        None \<Rightarrow> ret ()
      | Some sample \<Rightarrow> bind_io (eval_for hn sample) (\<lambda>ev. change (update_run r (keep_eval ev))))"

section \<open>A request\<close>

definition request_step :: "held \<Rightarrow> conversation \<Rightarrow> messages \<Rightarrow> step" where
  "request_step h cv messages =
     BeforeGenerate
       \<lparr>bg_model = he_model h, bg_conversation = he_conversation h, bg_input = messages, bg_agent_messages = None,
        bg_history = Some (cv_sent cv), bg_human_decisions = None, bg_tools = of_tools (he_offered h),
        bg_tool_choice = of_tool_choice (he_offered h), bg_config = of_config (he_offered h)\<rparr>"

definition refuse_with_field :: "sidecar_handler \<Rightarrow> proxy_context \<Rightarrow> outcome \<Rightarrow> refusal \<Rightarrow> answer_to io" where
  "refuse_with_field hn proxy out rf w =
     (Inr (RefuseWith (with_field hn rf proxy (hs_exchange w) out)), w)"

text \<open>The request put to the sentinel, unless nothing watches; then whether its run has ended meanwhile.\<close>

definition judge_request :: "sidecar_handler \<Rightarrow> held \<Rightarrow> nat \<Rightarrow> messages \<Rightarrow> refusal option io" where
  "judge_request hn h r messages =
     (if ModelInput \<notin> set (hn_watched hn) then ret None
      else bind_io (look (the_conversation r (he_conversation h))) (\<lambda>cv.
        bind_io (judge_step hn h r (request_step h cv messages)) (\<lambda>d.
          if ends d then bind_io (end_here h r ''before the model was called'') (\<lambda>rf. ret (Some rf)) else ret None)))"

definition ended_now :: "held \<Rightarrow> nat \<Rightarrow> refusal option io" where
  "ended_now h r = look (\<lambda>w. ended_refusal_of (the_run r w) (he_marks h))"

text \<open>Each check in turn, until one refuses.\<close>

fun first_refusal :: "refusal option io list \<Rightarrow> refusal option io" where
  "first_refusal [] = ret None"
| "first_refusal (c # cs) = bind_io c (\<lambda>rf. case rf of None \<Rightarrow> first_refusal cs | Some rf \<Rightarrow> ret (Some rf))"

text \<open>What a request is judged with: as it is sent on, as the client sent it, and what was put back.\<close>

record read_in =
  ri_messages :: messages
  ri_client :: messages
  ri_edited :: "edited list"
  ri_amended :: amended
  ri_refused :: "(string \<times> amendment) list"

definition pass_on_request :: "sidecar_handler \<Rightarrow> proxy_request \<Rightarrow> held \<Rightarrow> nat \<Rightarrow> read_in \<Rightarrow> answer_to io" where
  "pass_on_request hn rq h r ri =
     bind_io (change (update_conversation r (he_conversation h) (\<lambda>cv.
         record_sent (hn_history hn) cv (ri_messages ri)
           (case ad_body (ri_amended ri) of None \<Rightarrow> rq_body rq | Some body \<Rightarrow> body)))) (\<lambda>_.
       bind_io (look hs_exchange) (\<lambda>xc.
         bind_io (on_sidecar (\<lambda>s. ((), hold (rq_id rq) (h\<lparr>he_exchange := xc\<rparr>) s))) (\<lambda>_.
           ret (case ad_body (ri_amended ri) of None \<Rightarrow> PassOn | Some body \<Rightarrow> ReplaceBody body))))"

definition judge_read_request :: "sidecar_handler \<Rightarrow> proxy_request \<Rightarrow> held \<Rightarrow> nat \<Rightarrow> read_in \<Rightarrow> answer_to io" where
  "judge_read_request hn rq h r ri =
     bind_io (lift_err (call_texts (hn_wire hn) (rq_provider rq) (rq_body rq) (rq_format rq))) (\<lambda>said.
       bind_io (lift_err (held_rejections (hn_wire hn) (rq_provider rq) (rq_body rq) (ri_refused ri) (rq_format rq))) (\<lambda>put_back.
         bind_io
           (first_refusal
             [judge_results hn
                \<lparr>ro_held = h, ro_run = r, ro_calls = count_calls (ri_client ri),
                 ro_restored = ad_restored (ri_amended ri) @ put_back, ro_ran = changed_calls (ri_edited ri)\<rparr>
                said (ri_client ri),
              judge_request hn h r (ri_messages ri),
              ended_now h r])
           (\<lambda>refused. case refused of
              Some rf \<Rightarrow> refuse_with_field hn (he_proxy h) TerminateOutcome rf
            | None \<Rightarrow> pass_on_request hn rq h r ri)))"

text \<open>Reading the request, and what it is sent on as.\<close>

definition read_request_in :: "sidecar_handler \<Rightarrow> proxy_request \<Rightarrow> nat \<Rightarrow> string \<Rightarrow> string list \<Rightarrow> (read_in \<times> offered) io" where
  "read_request_in hn rq r ck marks =
     (let wr = hn_wire hn; provider = rq_provider rq; body = rq_body rq; f = rq_format rq in
      bind_io (look (\<lambda>w. cv_noted (the_conversation r ck w))) (\<lambda>start.
      bind_io (waiting hn (read_request wr provider body f start)) (\<lambda>client.
      bind_io (lift_err (offered_by wr provider body f)) (\<lambda>sends.
      bind_io (look (the_conversation r ck)) (\<lambda>cv.
      bind_io (look (the_run r)) (\<lambda>run.
        let holds = map (message_digest hn) client; points = continued_points marks cv; edited = continued_edits marks cv in
        bind_io (lift_err (refused_calls hn holds [] points)) (\<lambda>refused.
          if edit_lost run edited client then raise_err edit_is_lost
          else bind_io (waiting hn (amend_request wr provider body (turns_to_tell hn holds points) edited f)) (\<lambda>amended.
            let whole = (\<lambda>messages. (\<lparr>ri_messages = messages, ri_client = client, ri_edited = edited,
                  ri_amended = amended, ri_refused = refused\<rparr>, sends)) in
            case ad_body amended of
              None \<Rightarrow> ret (whole client)
            | Some body' \<Rightarrow>
                bind_io (look (\<lambda>w. cv_noted (the_conversation r ck w))) (\<lambda>start'.
                  bind_io (waiting hn (read_request wr provider body' f start')) (\<lambda>messages.
                    ret (whole messages)))))))))))"

definition conversation_key :: "inspect_sample option \<Rightarrow> string \<Rightarrow> string" where
  "conversation_key sample opening =
     (case sample of None \<Rightarrow> opening | Some s \<Rightarrow> sm_uuid s @ ''/'' @ sm_attempt s @ ''/'' @ opening)"

definition request_key :: "inspect_sample option \<Rightarrow> string \<Rightarrow> string" where
  "request_key sample opening =
     (case sample of None \<Rightarrow> run_key False opening | Some s \<Rightarrow> run_key True (sm_uuid s))"

text \<open>The held request, before its recorder is known.\<close>

definition hold_of ::
  "sidecar_handler \<Rightarrow> proxy_request \<Rightarrow> inspect_sample option \<Rightarrow> nat option \<Rightarrow> proxy_context \<Rightarrow> string \<Rightarrow> string list \<Rightarrow>
     sidecar_run \<Rightarrow> read_in \<times> offered \<Rightarrow> stream_format \<Rightarrow> nat \<Rightarrow> held" where
  "hold_of hn rq sample attempt proxy opening marks run found f recorder =
     \<lparr>he_run = request_key sample opening, he_conversation = conversation_key sample opening,
      he_named = (sample \<noteq> None), he_sample_attempt = (case sample of None \<Rightarrow> [] | Some s \<Rightarrow> sm_attempt s),
      he_answered = list_ex (\<lambda>mark. mark \<in> set (rn_answered run)) (butlast marks),
      he_model = step_model (rq_provider rq) (rq_model rq), he_format = f, he_recorder = recorder,
      he_input = ri_messages (fst found), he_calls = count_calls (ri_client (fst found)), he_offered = snd found,
      he_marks = marks, he_proxy = proxy, he_attempt = attempt, he_exchange = new_exchange\<rparr>"

definition add_conversation :: "string \<Rightarrow> sidecar_run \<Rightarrow> sidecar_run" where
  "add_conversation ck run =
     (if map_of (rn_conversations run) ck = None
      then run\<lparr>rn_conversations := rn_conversations run @ [(ck, new_conversation)]\<rparr> else run)"

text \<open>\<open>_request\<close>: what its run says, and unless that has ended, the request.\<close>

definition proxy_of :: "proxy_request \<Rightarrow> inspect_sample option \<Rightarrow> proxy_context" where
  "proxy_of rq sample =
     \<lparr>px_provider = rq_provider rq, px_model = rq_model rq, px_user = rq_user rq,
      px_headers = rq_headers rq, px_inspect = sample\<rparr>"

definition answer_going_on ::
  "sidecar_handler \<Rightarrow> proxy_request \<Rightarrow> inspect_sample option \<Rightarrow> nat option \<Rightarrow> string \<Rightarrow> nat \<Rightarrow> string list \<Rightarrow> answer_to io" where
  "answer_going_on hn rq sample attempt opening r marks =
     bind_io (find_eval hn sample r) (\<lambda>_.
     bind_io (change (update_run r (add_conversation (conversation_key sample opening)))) (\<lambda>_.
     bind_io (read_request_in hn rq r (conversation_key sample opening) marks) (\<lambda>found.
     bind_io (look (the_run r)) (\<lambda>run.
     bind_io (lift_err (request_format (hn_wire hn) (rq_provider rq) (rq_body rq) (rq_format rq))) (\<lambda>f.
     bind_io (on_sidecar (recorder_for (rq_id rq))) (\<lambda>recorder.
       judge_read_request hn rq
         (hold_of hn rq sample attempt (proxy_of rq sample) opening marks run found f recorder) r (fst found)))))))"

definition answer_in_run ::
  "sidecar_handler \<Rightarrow> proxy_request \<Rightarrow> inspect_sample option \<Rightarrow> nat option \<Rightarrow> string \<Rightarrow> nat \<Rightarrow> answer_to io" where
  "answer_in_run hn rq sample attempt opening r =
     bind_io (lift_err (request_marks (hn_wire hn) (rq_provider rq) (rq_body rq) (rq_format rq))) (\<lambda>marks.
     bind_io (look (\<lambda>w. ended_refusal_of (the_run r w) marks)) (\<lambda>refusal.
       case refusal of
         Some rf \<Rightarrow> ret (RefuseWith (with_field hn rf (proxy_of rq sample) new_exchange TerminateOutcome))
       | None \<Rightarrow> answer_going_on hn rq sample attempt opening r marks))"

definition answer_request ::
  "sidecar_handler \<Rightarrow> proxy_request \<Rightarrow> inspect_sample option \<Rightarrow> nat option \<Rightarrow> answer_to io" where
  "answer_request hn rq sample attempt =
     bind_io (waiting hn (read_opening (hn_wire hn) (rq_provider rq) (rq_body rq) (rq_format rq))) (\<lambda>first.
     bind_io (on_sidecar (run_for (request_key sample (opening_of hn first)))) (\<lambda>r.
       answer_in_run hn rq sample attempt (opening_of hn first) r))"

text \<open>\<open>request\<close>. Reading the header raises no other failure.\<close>

definition request_id :: string where
  "request_id = ''x-irid''"

definition begin_request :: "proxy_request \<Rightarrow> handler_state \<Rightarrow> nat option \<times> handler_state" where
  "begin_request rq w =
     (case map_of (rq_headers rq) request_id of
        None \<Rightarrow> (None, w)
      | Some i \<Rightarrow>
          if i = [] then (None, w)
          else (let (a, s) = begin_attempt i (rq_id rq) (hs_sidecar w); (r, s') = recorder_for (rq_id rq) s
                in (Some a, w\<lparr>hs_sidecar := s'\<rparr>)))"

definition settle_request :: "nat option \<Rightarrow> failure + answer_to \<Rightarrow> handler_state \<Rightarrow> handler_state" where
  "settle_request attempt answer =
     update_attempt attempt
       (case answer of
          Inl ex \<Rightarrow> attempt_not_judged (not_judged ex)
        | Inr (RefuseWith rf) \<Rightarrow> decide_attempt TerminateOutcome None
        | Inr _ \<Rightarrow> (\<lambda>a. a\<lparr>ta_state := AwaitingReply\<rparr>))"

definition handle_request :: "sidecar_handler \<Rightarrow> proxy_request \<Rightarrow> answer_to io" where
  "handle_request hn rq w =
     (case begin_request rq w of (attempt, w1) \<Rightarrow>
        (case sample_named (hn_header hn) (rq_headers rq) of
           Inl (UnreadableError t) \<Rightarrow>
             (Inr (RefuseWith \<lparr>rf_status = 400, rf_message = t, rf_sentinel = None\<rparr>),
              update_attempt attempt (attempt_not_judged Unreadable) w1)
         | Inl ex \<Rightarrow> (Inl ex, w1)
         | Inr sample \<Rightarrow>
             (case answer_request hn rq sample attempt (w1\<lparr>hs_exchange := new_exchange\<rparr>) of
                (answer, w2) \<Rightarrow> (answer, settle_request attempt answer w2))))"

end
