(* ===== verification/ReplySide.thy ===== *)
theory ReplySide
  imports RequestSide
begin

text \<open>
  Judging a reply (\<open>reply\<close>, \<open>_reply\<close>, \<open>_judge_reply\<close>, \<open>_passed\<close>, \<open>_edit\<close> and \<open>_reject\<close> of
  \<open>sidecar/_handler.py\<close>): the model's turn, then each of its calls, before the client is handed any.
  The rejected calls are taken out and the changed ones go out changed, or the turn is refused whole.
\<close>

section \<open>A turn that goes on\<close>

record proxy_reply =
  ry_id :: string
  ry_provider :: string
  ry_status :: int
  ry_content_type :: string
  ry_body :: string
  ry_format :: "stream_format option"

definition made_kept :: nat where
  "made_kept = 64"

text \<open>The calls handed out, each in its place among those with its id.\<close>

definition hand_out :: "held \<Rightarrow> string \<Rightarrow> (string \<times> nat) list \<times> conversation \<Rightarrow> tool_call \<Rightarrow> (string \<times> nat) list \<times> conversation" where
  "hand_out h message_id st call =
     (let (seen, cv) = st; i = tc_id call; index = nat_at seen i in
      (dict_set seen i (Suc index),
       cv\<lparr>cv_made := dict_set (cv_made cv) (occurrence i index)
            \<lparr>md_input = he_input h, md_tools = of_tools (he_offered h),
             md_tool_choice = of_tool_choice (he_offered h), md_message_id = message_id\<rparr>,
          cv_issued := dict_set (cv_issued cv) i (max (nat_at (cv_issued cv) i) (Suc index))\<rparr>))"

definition drop_oldest :: "conversation \<Rightarrow> conversation" where
  "drop_oldest cv = cv\<lparr>cv_made := drop (length (cv_made cv) - made_kept) (cv_made cv)\<rparr>"

definition count_passed :: "held \<Rightarrow> sidecar_run \<Rightarrow> sidecar_run" where
  "count_passed h run =
     run\<lparr>rn_in_a_row := filter (\<lambda>p. fst p \<noteq> he_sample_attempt h) (rn_in_a_row run),
         rn_answered := (if he_named h then rn_answered run else add_new (he_mark h) (rn_answered run))\<rparr>"

text \<open>\<open>_passed\<close>.\<close>

definition pass_turn :: "held \<Rightarrow> nat \<Rightarrow> chat_message option \<Rightarrow> unit io" where
  "pass_turn h r message =
     bind_io (change (update_run r (count_passed h))) (\<lambda>_.
       case message of
         None \<Rightarrow> ret ()
       | Some m \<Rightarrow>
           (case (calls_of_message m, cm_id m) of
              (c # cs, None) \<Rightarrow> raise_err (OtherFailure ''AssertionError'')
            | (calls, message_id) \<Rightarrow>
                change (update_conversation r (he_conversation h) (\<lambda>cv.
                  drop_oldest (snd (foldl (hand_out h (case message_id of None \<Rightarrow> [] | Some i \<Rightarrow> i)) (he_calls h, cv) calls))))))"

section \<open>A turn that is edited\<close>

type_synonym rejections = "(tool_call \<times> decision) list"

definition reason_of :: "decision \<Rightarrow> string" where
  "reason_of d = (case d_message d of None \<Rightarrow> not_approved | Some t \<Rightarrow> if t = [] then not_approved else t)"

definition reasons_of :: "rejections \<Rightarrow> (string \<times> string) list" where
  "reasons_of rejected = foldl (\<lambda>d (c, dec). dict_set d (tc_id c) (reason_of dec)) [] rejected"

definition handed_calls :: "(string \<times> string) list \<Rightarrow> (string \<times> tool_call) list \<Rightarrow> tool_call list \<Rightarrow> tool_call list" where
  "handed_calls reasons modified calls =
     map (\<lambda>c. case map_of modified (tc_id c) of None \<Rightarrow> c | Some m \<Rightarrow> m)
       (filter (\<lambda>c. tc_id c \<notin> fst ` set reasons) calls)"

definition handed_message :: "(string \<times> string) list \<Rightarrow> (string \<times> tool_call) list \<Rightarrow> chat_message \<Rightarrow> chat_message" where
  "handed_message reasons modified m =
     m\<lparr>cm_tool_calls := Some (handed_calls reasons modified (calls_of_message m))\<rparr>"

definition edited_turn ::
  "held \<Rightarrow> (string \<times> string) list \<Rightarrow> (string \<times> tool_call) list \<Rightarrow> (string \<times> amendment) list \<Rightarrow> chat_message \<Rightarrow> edited" where
  "edited_turn h reasons modified written m =
     \<lparr>ed_sent = he_sent h, ed_mark = he_mark h, ed_order = map tc_id (calls_of_message m), ed_taken_out = reasons,
      ed_originals = filter (\<lambda>p. map_of modified (fst p) \<noteq> None) (calls_by_id m),
      ed_modified = modified, ed_amendments = written\<rparr>"

definition changes_sent :: failure where
  "changes_sent = UnreadableError ''The reply as edited changes what the client was already sent.''"

text \<open>\<open>_edit\<close>.\<close>

definition edit_turn ::
  "sidecar_handler \<Rightarrow> proxy_reply \<Rightarrow> held \<Rightarrow> nat \<Rightarrow> model_output \<Rightarrow> chat_message \<Rightarrow> json option \<Rightarrow> json option \<Rightarrow>
     rejections \<Rightarrow> (string \<times> tool_call) list \<Rightarrow> string \<Rightarrow> answer_to io" where
  "edit_turn hn ry h r output m start noted_now rejected modified released =
     (let reasons = reasons_of rejected in
      bind_io (waiting hn (amendments (hn_wire hn) (he_format h) m reasons (map fst modified) noted_now)) (\<lambda>written.
      bind_io (waiting hn (edit_reply (hn_edit hn) (ry_provider ry) (ry_content_type ry) (ry_body ry) (ry_format ry)
          \<lparr>es_removed = map fst reasons, es_modified = modified\<rparr> output start)) (\<lambda>body.
        if \<not> starts_with body released then raise_err changes_sent
        else
          bind_io (change (update_conversation r (he_conversation h) (\<lambda>cv.
            cv\<lparr>cv_edited := cv_edited cv @ [edited_turn h reasons modified written m]\<rparr>))) (\<lambda>_.
          bind_io (change (update_exchange (\<lambda>xc. xc\<lparr>xc_proposed := Some \<lparr>wh_message = m, wh_told = reasons\<rparr>\<rparr>))) (\<lambda>_.
          bind_io (pass_turn h r (Some (handed_message reasons modified m))) (\<lambda>_.
            ret (ReplaceBody body)))))))"

section \<open>A turn that is refused\<close>

definition told_of :: "(string \<times> string) list \<Rightarrow> chat_message \<Rightarrow> (string \<times> string) list" where
  "told_of reasons m =
     foldl (\<lambda>d c. dict_set d (tc_id c) (case map_of reasons (tc_id c) of None \<Rightarrow> not_run_message | Some why \<Rightarrow> why))
       [] (calls_of_message m)"

text \<open>The turn kept where the client comes back to: with those rejected there before it.\<close>

definition add_turn ::
  "held \<Rightarrow> refused_turn \<Rightarrow> (string \<times> amendment) list \<Rightarrow> conversation \<Rightarrow> conversation" where
  "add_turn h turn written cv =
     (let here = (\<lambda>p. rj_sent p = he_sent h \<and> rj_mark p = he_mark h \<and> rj_added p) in
      case first_place here (cv_rejected cv) of
        None \<Rightarrow> cv\<lparr>cv_rejected := cv_rejected cv @
          [\<lparr>rj_sent = he_sent h, rj_mark = he_mark h, rj_turns = [turn], rj_written = [written], rj_added = True\<rparr>]\<rparr>
      | Some i \<Rightarrow>
          (let p = cv_rejected cv ! i
           in cv\<lparr>cv_rejected := (cv_rejected cv)[i := p\<lparr>rj_turns := rj_turns p @ [turn], rj_written := rj_written p @ [written]\<rparr>]\<rparr>))"

definition rejected_message :: "tool_call \<Rightarrow> string \<Rightarrow> string" where
  "rejected_message call why = ''A sentinel rejected the call to '' @ tc_function call @ '': '' @ why"

text \<open>\<open>_reject\<close>; the first rejection is the one the client is refused with.\<close>

definition reject_turn ::
  "sidecar_handler \<Rightarrow> held \<Rightarrow> nat \<Rightarrow> chat_message \<Rightarrow> json option \<Rightarrow> rejections \<Rightarrow> answer_to io" where
  "reject_turn hn h r m noted_now rejected =
     (let reasons = reasons_of rejected; told = told_of reasons m; call = fst (hd rejected);
          why = (case map_of reasons (tc_id call) of None \<Rightarrow> [] | Some t \<Rightarrow> t) in
      bind_io (look (\<lambda>w. Suc (nat_at (rn_in_a_row (the_run r w)) (he_sample_attempt h)))) (\<lambda>count.
      bind_io (if max_rejections \<le> count then ret None
               else bind_io (waiting hn (amendments (hn_wire hn) (he_format h) m told [] noted_now)) (\<lambda>a. ret (Some a))) (\<lambda>written.
      bind_io (change (update_exchange (\<lambda>xc. xc\<lparr>xc_withheld := Some \<lparr>wh_message = m, wh_told = told\<rparr>, xc_message := Some why\<rparr>))) (\<lambda>_.
      bind_io (change (update_run r (\<lambda>run. run\<lparr>rn_in_a_row := dict_set (rn_in_a_row run) (he_sample_attempt h) count\<rparr>))) (\<lambda>_.
        case written of
          None \<Rightarrow>
            bind_io (end_here h r (''at the call to '' @ tc_function call @ '' after '' @ nat_text max_rejections
                @ '' rejected turns in a row'')) (\<lambda>rf. ret (RefuseWith rf))
        | Some w \<Rightarrow>
            bind_io (change (update_conversation r (he_conversation h) (add_turn h (m, told, noted_now) w))) (\<lambda>_.
              ret (RefuseWith \<lparr>rf_status = hn_reject_status hn, rf_message = rejected_message call why, rf_sentinel = None\<rparr>)))))))"

section \<open>Judging the model's turn\<close>

definition reply_step :: "held \<Rightarrow> conversation \<Rightarrow> model_output \<Rightarrow> step" where
  "reply_step h cv output =
     AfterGenerate
       \<lparr>ag_model = he_model h, ag_conversation = he_conversation h, ag_input = he_input h, ag_agent_messages = None,
        ag_history = Some (cv_sent cv), ag_human_decisions = None, ag_tools = of_tools (he_offered h),
        ag_tool_choice = of_tool_choice (he_offered h), ag_config = of_config (he_offered h), ag_output = output\<rparr>"

definition call_step :: "sidecar_handler \<Rightarrow> held \<Rightarrow> sidecar_run \<Rightarrow> conversation \<Rightarrow> chat_message \<Rightarrow> tool_call \<Rightarrow> failure + step" where
  "call_step hn h run cv m call =
     (case cm_id m of
        None \<Rightarrow> Inl (OtherFailure ''AssertionError'')
      | Some message_id \<Rightarrow>
          Inr (BeforeToolCall
            \<lparr>bt_conversation = he_conversation h, bt_message = cm_text m, bt_message_id = message_id, bt_call = call,
             bt_view = view_of hn run call, bt_input = Some (he_input h), bt_agent_messages = None,
             bt_history = Some (cv_sent cv), bt_human_decisions = None, bt_tools = Some (of_tools (he_offered h)),
             bt_tool_choice = Some (of_tool_choice (he_offered h))\<rparr>))"

text \<open>What the client is never handed as the model proposed it keeps the proposal, for the log.\<close>

definition keep_original :: "tool_call \<Rightarrow> exchange \<Rightarrow> exchange" where
  "keep_original call xc =
     xc\<lparr>xc_judged := butlast (xc_judged xc) @ [(last (xc_judged xc))\<lparr>js_original := Some call\<rparr>]\<rparr>"

text \<open>The calls in turn: a terminate refuses at once, and otherwise what was rejected or changed.\<close>

type_synonym sorted_calls = "rejections \<times> (string \<times> tool_call) list"

definition sort_call :: "tool_call \<Rightarrow> decision \<Rightarrow> sorted_calls \<Rightarrow> sorted_calls" where
  "sort_call call d st =
     (case (d_action d, d_modified d) of
        (Modify, Some m) \<Rightarrow> (fst st, dict_set (snd st) (tc_id call) m)
      | _ \<Rightarrow> (fst st @ [(call, d)], snd st))"

fun judge_calls ::
  "sidecar_handler \<Rightarrow> held \<Rightarrow> nat \<Rightarrow> chat_message \<Rightarrow> tool_call list \<Rightarrow> sorted_calls \<Rightarrow> (refusal + sorted_calls) io" where
  "judge_calls hn h r m [] st = ret (Inr st)"
| "judge_calls hn h r m (call # calls) st =
     bind_io (look (\<lambda>w. call_step hn h (the_run r w) (the_conversation r (he_conversation h) w) m call)) (\<lambda>made.
     bind_io (lift_err made) (\<lambda>step.
     bind_io (judge_step hn h r step) (\<lambda>decision.
       case decision of
         None \<Rightarrow> judge_calls hn h r m calls st
       | Some d \<Rightarrow>
           if d_action d = Proceed then judge_calls hn h r m calls st
           else if d_action d = Terminate then
             bind_io (end_here h r (''at the call to '' @ tc_function call)) (\<lambda>rf. ret (Inl rf))
           else bind_io (change (update_exchange (keep_original call))) (\<lambda>_.
             judge_calls hn h r m calls (sort_call call d st)))))"

text \<open>\<open>_ended_meanwhile\<close>.\<close>

definition ended_meanwhile :: "held \<Rightarrow> nat \<Rightarrow> refusal option io" where
  "ended_meanwhile h r w =
     (case ended_refusal_of (the_run r w) (he_marks h) of
        None \<Rightarrow> (Inr None, w)
      | Some rf \<Rightarrow> (Inr (Some rf), update_exchange (\<lambda>xc. xc\<lparr>xc_ended := True\<rparr>) w))"

text \<open>An edit that cannot be made refuses the turn whole, unless no call of it was rejected.\<close>

definition modify_error :: failure where
  "modify_error = OtherFailure (''ModifyError: The sentinel changed a call this sidecar can'' @ apostrophe @ ''t change in the reply.'')"

fun is_unreadable :: "failure \<Rightarrow> bool" where
  "is_unreadable (UnreadableError t) = True"
| "is_unreadable (TooLargeError t) = True"
| "is_unreadable ex = False"

definition or_refused_whole :: "'a io \<Rightarrow> 'a io \<Rightarrow> 'a io" where
  "or_refused_whole m other w =
     (case m w of (Inl ex, w') \<Rightarrow> if is_unreadable ex then other w' else (Inl ex, w') | result \<Rightarrow> result)"

definition settle_turn ::
  "sidecar_handler \<Rightarrow> proxy_reply \<Rightarrow> held \<Rightarrow> nat \<Rightarrow> model_output \<Rightarrow> chat_message \<Rightarrow> json option \<Rightarrow> json option \<Rightarrow>
     sorted_calls \<Rightarrow> string \<Rightarrow> answer_to io" where
  "settle_turn hn ry h r output m start noted_now st released =
     (let (rejected, modified) = st; reject = reject_turn hn h r m noted_now rejected in
      if rejected = [] \<and> modified = [] then bind_io (pass_turn h r (Some m)) (\<lambda>_. ret PassOn)
      else if list_all (\<lambda>c. tc_id c \<in> (tc_id \<circ> fst) ` set rejected) (calls_of_message m) then reject
      else or_refused_whole (edit_turn hn ry h r output m start noted_now rejected modified released)
             (if rejected = [] then raise_err modify_error else reject))"

definition refuse_ended :: "held \<Rightarrow> nat \<Rightarrow> answer_to io \<Rightarrow> answer_to io" where
  "refuse_ended h r go_on =
     bind_io (ended_meanwhile h r) (\<lambda>rf. case rf of Some rf \<Rightarrow> ret (RefuseWith rf) | None \<Rightarrow> go_on)"

definition judge_message ::
  "sidecar_handler \<Rightarrow> proxy_reply \<Rightarrow> held \<Rightarrow> nat \<Rightarrow> model_output \<Rightarrow> json option \<Rightarrow> json option \<Rightarrow> string \<Rightarrow> answer_to io" where
  "judge_message hn ry h r output start noted_now released =
     (case output_message output of
        None \<Rightarrow> refuse_ended h r (bind_io (pass_turn h r None) (\<lambda>_. ret PassOn))
      | Some m \<Rightarrow>
          bind_io (judge_calls hn h r m (if ToolCallStage \<in> set (hn_watched hn) then calls_of_message m else []) ([], []))
            (\<lambda>judged. case judged of
               Inl rf \<Rightarrow> ret (RefuseWith rf)
             | Inr st \<Rightarrow> refuse_ended h r (settle_turn hn ry h r output m start noted_now st released)))"

definition judge_output :: "sidecar_handler \<Rightarrow> held \<Rightarrow> nat \<Rightarrow> model_output \<Rightarrow> refusal option io" where
  "judge_output hn h r output =
     (if ModelOutputStage \<notin> set (hn_watched hn) then ret None
      else bind_io (look (the_conversation r (he_conversation h))) (\<lambda>cv.
        bind_io (judge_step hn h r (reply_step h cv output)) (\<lambda>d.
          if ends d then bind_io (end_here h r (''at the model'' @ apostrophe @ ''s reply'')) (\<lambda>rf. ret (Some rf)) else ret None)))"

text \<open>\<open>_judge_reply\<close>.\<close>

definition never_shown :: "string \<Rightarrow> failure" where
  "never_shown i = UnreadableError (''The reply '' @ quoted i @ '' answers a request this sidecar was never shown, or no longer keeps.'')"

definition judge_reply :: "sidecar_handler \<Rightarrow> proxy_reply \<Rightarrow> held option \<Rightarrow> string \<Rightarrow> answer_to io" where
  "judge_reply hn ry held released =
     (if \<not> succeeded (ry_status ry) then ret PassOn
      else case held of
        None \<Rightarrow> raise_err (never_shown (ry_id ry))
      | Some h \<Rightarrow>
          bind_io (on_sidecar (run_for (he_run h))) (\<lambda>r.
          bind_io (change (update_run r (add_conversation (he_conversation h)))) (\<lambda>_.
          bind_io (look (\<lambda>w. cv_noted (the_conversation r (he_conversation h) w))) (\<lambda>start.
          bind_io (waiting hn (read_reply_noted (hn_wire hn) (ry_provider ry) (ry_content_type ry) (ry_body ry) (ry_format ry) start))
            (\<lambda>(output, noted_now).
          bind_io (change (update_conversation r (he_conversation h) (\<lambda>cv. cv\<lparr>cv_noted := noted_now\<rparr>))) (\<lambda>_.
            refuse_ended h r
              (bind_io (judge_output hn h r output) (\<lambda>refused. case refused of
                 Some rf \<Rightarrow> ret (RefuseWith rf)
               | None \<Rightarrow> judge_message hn ry h r output start noted_now released))))))))"

section \<open>A reply\<close>

definition refused_outcome :: "exchange \<Rightarrow> outcome" where
  "refused_outcome xc = (if xc_ended xc then TerminateOutcome else RejectOutcome)"

text \<open>\<open>_reply\<close>: what an Inspect client is told of the exchange.\<close>

definition body_handed :: "proxy_reply \<Rightarrow> answer_to \<Rightarrow> string" where
  "body_handed ry answer = (case answer of ReplaceBody b \<Rightarrow> b | _ \<Rightarrow> ry_body ry)"

definition tell_client :: "sidecar_handler \<Rightarrow> proxy_reply \<Rightarrow> held \<Rightarrow> string \<Rightarrow> answer_to \<Rightarrow> answer_to io" where
  "tell_client hn ry h released answer w =
     (if px_inspect (he_proxy h) = None then (Inr answer, w)
      else case answer of
        RefuseWith rf \<Rightarrow>
          (Inr (RefuseWith (with_field hn rf (he_proxy h) (hs_exchange w) (refused_outcome (hs_exchange w)))), w)
      | _ \<Rightarrow>
          (case with_sentinel (hn_wire hn) (ry_content_type ry) (body_handed ry answer)
                  (field_of hn (hs_exchange w) ProceedOutcome) of
             Inr body \<Rightarrow> (Inr (if starts_with body released then ReplaceBody body else answer), w)
           | Inl ex \<Rightarrow> if is_unreadable ex then (Inr answer, w) else (Inl ex, w)))"

definition answer_reply :: "sidecar_handler \<Rightarrow> proxy_reply \<Rightarrow> held option \<Rightarrow> string \<Rightarrow> answer_to io" where
  "answer_reply hn ry held released =
     bind_io (judge_reply hn ry held released) (\<lambda>answer.
       case held of
         None \<Rightarrow> ret answer
       | Some h \<Rightarrow> if \<not> succeeded (ry_status ry) then ret answer else tell_client hn ry h released answer)"

text \<open>\<open>reply\<close>: where the attempt stands after it.\<close>

definition settle_reply :: "proxy_reply \<Rightarrow> held \<Rightarrow> failure + answer_to \<Rightarrow> handler_state \<Rightarrow> handler_state" where
  "settle_reply ry h result w =
     (let xc = hs_exchange w in
      update_attempt (he_attempt h)
        (case result of
           Inl ex \<Rightarrow> attempt_not_judged (not_judged ex)
         | Inr answer \<Rightarrow>
             if \<not> succeeded (ry_status ry) then attempt_not_judged ProviderErrorStatus
             else (case answer of
                RefuseWith rf \<Rightarrow>
                  if xc_ended xc then (\<lambda>a. (decide_attempt TerminateOutcome None a)\<lparr>ta_withheld := xc_withheld xc\<rparr>)
                  else (\<lambda>a. (decide_attempt RejectOutcome (xc_message xc) a)\<lparr>ta_withheld := xc_withheld xc\<rparr>)
              | _ \<Rightarrow> (\<lambda>a. (decide_attempt ProceedOutcome None a)\<lparr>ta_proposed := xc_proposed xc\<rparr>)))
        w)"

definition handle_reply :: "sidecar_handler \<Rightarrow> proxy_reply \<Rightarrow> string \<Rightarrow> answer_to io" where
  "handle_reply hn ry released w =
     (case release (ry_id ry) (hs_sidecar w) of (held, s) \<Rightarrow>
        (case held of
           None \<Rightarrow> answer_reply hn ry None released (w\<lparr>hs_sidecar := s\<rparr>)
         | Some h \<Rightarrow>
             (case answer_reply hn ry (Some h) released
                (update_attempt (he_attempt h) (\<lambda>a. a\<lparr>ta_state := BeingJudged\<rparr>)
                  (w\<lparr>hs_sidecar := s, hs_exchange := he_exchange h\<rparr>)) of
                (result, w') \<Rightarrow> (result, settle_reply ry h result w'))))"

end
