(* ===== verification/ForEvals.thy ===== *)
theory ForEvals
  imports ReplySide
begin

text \<open>
  What an eval may ask of the handler beside its requests (\<open>sidecar/_handler.py\<close>): what a request or a
  sample came to, the end of a sample, and the registration of its tasks. \<open>reply_not_judged\<close> lets go of
  a request whose reply no one hands over.
\<close>

section \<open>What became of a request\<close>

definition reply_not_judged :: "string \<Rightarrow> unjudged \<Rightarrow> handler_state \<Rightarrow> handler_state" where
  "reply_not_judged i reason w =
     (case release i (hs_sidecar w) of
        (None, s) \<Rightarrow> w\<lparr>hs_sidecar := s\<rparr>
      | (Some h, s) \<Rightarrow> update_attempt (he_attempt h) (attempt_not_judged reason) (w\<lparr>hs_sidecar := s\<rparr>))"

datatype request_result = ResultOf attempt "event list" | ResultDropped | ResultUnknown

fun all_records :: "nat list \<Rightarrow> sidecar \<Rightarrow> event list option \<times> sidecar" where
  "all_records [] s = (Some [], s)"
| "all_records (a # as') s =
     (case records_of (ta_exchange (sc_attempt_objects s ! a)) s of
        (None, s1) \<Rightarrow> (None, s1)
      | (Some es, s1) \<Rightarrow>
          (case all_records as' s1 of (None, s2) \<Rightarrow> (None, s2) | (Some rest, s2) \<Rightarrow> (Some (es @ rest), s2)))"

definition result_of_request :: "string \<Rightarrow> sidecar \<Rightarrow> request_result \<times> sidecar" where
  "result_of_request i s =
     (case attempts_for i s of
        (NeverSeen, s1) \<Rightarrow> (ResultUnknown, s1)
      | (AttemptsDropped, s1) \<Rightarrow> (ResultDropped, s1)
      | (AttemptsKept as', s1) \<Rightarrow>
          (case all_records as' s1 of
             (None, s2) \<Rightarrow> (ResultDropped, s2)
           | (Some es, s2) \<Rightarrow> (ResultOf (sc_attempt_objects s2 ! last as') es, s2)))"

section \<open>What became of a sample\<close>

record sample_result =
  sr_outcome :: outcome
  sr_store :: fields

definition result_of_sample :: "string \<Rightarrow> sidecar \<Rightarrow> sample_result option \<times> sidecar" where
  "result_of_sample uuid s =
     (case existing_run (run_key True uuid) s of
        (None, s1) \<Rightarrow> (None, s1)
      | (Some r, s1) \<Rightarrow>
          (Some \<lparr>sr_outcome = (if rn_refusal (run_at r s1) = None then ProceedOutcome else TerminateOutcome),
                 sr_store = rn_store (run_at r s1)\<rparr>, s1))"

definition end_sample :: "string \<Rightarrow> sidecar \<Rightarrow> bool \<times> sidecar" where
  "end_sample uuid s = end_run (run_key True uuid) s"

section \<open>Registering a task\<close>

definition task_expiry :: rat where
  "task_expiry = 24 * 60 * 60"

definition max_task_expiry :: rat where
  "max_task_expiry = 30 * 24 * 60 * 60"

datatype registration_result = RegisteredBefore | RegisteredFor rat | NotTaken string | TasksFull string

definition register_task :: "sidecar_handler \<Rightarrow> string \<Rightarrow> task_facts \<Rightarrow> rat option \<Rightarrow> sidecar \<Rightarrow> registration_result \<times> sidecar" where
  "register_task hn eval_id facts expiry s =
     (if map_of (hn_tasks hn) (tf_task facts) \<noteq> None then (RegisteredBefore, s)
      else if \<not> hn_runtime_registration hn then (NotTaken ''This sidecar takes no tasks registered by an eval.'', s)
      else
        (let granted = min (case expiry of None \<Rightarrow> task_expiry | Some t \<Rightarrow> t) (hn_task_expiry hn);
             (taken, s1) = register eval_id (tf_task facts) facts granted (hn_max_registrations hn) s
         in (if taken then RegisteredFor granted
             else TasksFull (''This sidecar already keeps the '' @ nat_text (hn_max_registrations hn)
               @ '' tasks registered by evals that it takes. One is taken again once a kept task expires.''), s1)))"

end
