(* ===== verification/HandlerLaws.thy ===== *)
theory HandlerLaws
  imports ForEvals SidecarStateProps
begin

text \<open>
  How to reason about the handler: an operation succeeds exactly when each of its parts does, and a
  relation between the state before and after holds of an operation when it holds of its parts and of
  what others do while it waits. The locale \<open>rely\<close> states what is needed of such a relation; it is
  interpreted below on the growth of what is remembered.
\<close>

section \<open>An operation that succeeds\<close>

named_theorems io_Inr "when an operation returns a value"

lemma ret_Inr [io_Inr]: "ret x w = (Inr y, w') \<longleftrightarrow> y = x \<and> w' = w"
  by (auto simp: ret_def)

lemma raise_err_Inr [io_Inr]: "raise_err ex w = (Inr y, w') \<longleftrightarrow> False"
  by (simp add: raise_err_def)

lemma lift_err_Inr [io_Inr]: "lift_err r w = (Inr y, w') \<longleftrightarrow> r = Inr y \<and> w' = w"
  by (auto simp: lift_err_def)

lemma bind_io_Inr [io_Inr]:
  "bind_io m f w = (Inr y, w'') \<longleftrightarrow> (\<exists>x w'. m w = (Inr x, w') \<and> f x w' = (Inr y, w''))"
  by (auto simp: bind_io_def split: prod.splits sum.splits)

lemma change_Inr [io_Inr]: "change f w = (Inr y, w') \<longleftrightarrow> w' = f w"
  by (auto simp: change_def)

lemma look_Inr [io_Inr]: "look f w = (Inr y, w') \<longleftrightarrow> y = f w \<and> w' = w"
  by (auto simp: look_def)

lemma on_sidecar_Inr [io_Inr]:
  "on_sidecar f w = (Inr y, w') \<longleftrightarrow> y = fst (f (hs_sidecar w)) \<and> w' = w\<lparr>hs_sidecar := snd (f (hs_sidecar w))\<rparr>"
  by (auto simp: on_sidecar_def split: prod.splits)

lemma waiting_Inr [io_Inr]: "waiting hn r w = (Inr y, w') \<longleftrightarrow> r = Inr y \<and> pause hn w = (Inr (), w')"
  by (auto simp: waiting_def io_Inr)

section \<open>What an operation leaves\<close>

definition throughout :: "(handler_state \<Rightarrow> handler_state \<Rightarrow> bool) \<Rightarrow> 'a io \<Rightarrow> bool" where
  "throughout R m \<longleftrightarrow> (\<forall>w. R w (snd (m w)))"

definition others_do :: "(handler_state \<Rightarrow> handler_state \<Rightarrow> bool) \<Rightarrow> sidecar_handler \<Rightarrow> bool" where
  "others_do R hn \<longleftrightarrow> (\<forall>n w. R w ((hn_others hn n w)
     \<lparr>hs_awaits := Suc n, hs_exchange := hs_exchange w, hs_asked := hs_asked w\<rparr>))"

locale rely =
  fixes R :: "handler_state \<Rightarrow> handler_state \<Rightarrow> bool"
  assumes stays: "R w w"
    and goes_on: "R u v \<Longrightarrow> R v w \<Longrightarrow> R u w"
begin

lemma always_ret: "throughout R (ret x)"
  by (simp add: throughout_def ret_def stays)

lemma always_raise: "throughout R (raise_err ex)"
  by (simp add: throughout_def raise_err_def stays)

lemma always_lift: "throughout R (lift_err r)"
  by (simp add: throughout_def lift_err_def stays)

lemma always_look: "throughout R (look f)"
  by (simp add: throughout_def look_def stays)

lemma always_bind:
  assumes "throughout R m" "\<And>x. throughout R (f x)"
  shows "throughout R (bind_io m f)"
proof (unfold throughout_def, intro allI)
  fix w
  obtain r w' where m: "m w = (r, w')" by (cases "m w")
  have "R w w'" using assms(1) m unfolding throughout_def by (metis snd_conv)
  then show "R w (snd (bind_io m f w))"
    using assms(2) m goes_on by (cases r) (auto simp: bind_io_def throughout_def)
qed

lemma always_change: "(\<And>w. R w (f w)) \<Longrightarrow> throughout R (change f)"
  by (simp add: throughout_def change_def)

lemma always_on_sidecar: "(\<And>w. R w (w\<lparr>hs_sidecar := snd (f (hs_sidecar w))\<rparr>)) \<Longrightarrow> throughout R (on_sidecar f)"
  by (simp add: throughout_def on_sidecar_def case_prod_unfold)

lemma always_pause: "others_do R hn \<Longrightarrow> throughout R (pause hn)"
  by (simp add: throughout_def others_do_def pause_def Let_def)

lemma always_waiting: "others_do R hn \<Longrightarrow> throughout R (waiting hn r)"
  by (simp add: waiting_def always_bind always_pause always_lift)

lemmas always_rules = always_ret always_raise always_lift always_look always_bind always_change always_on_sidecar
  always_pause always_waiting

end


section \<open>What is remembered\<close>

definition conversation_in :: "sidecar_run \<Rightarrow> string \<Rightarrow> conversation" where
  "conversation_in run ck = (case map_of (rn_conversations run) ck of None \<Rightarrow> new_conversation | Some cv \<Rightarrow> cv)"

lemma the_conversation_in: "the_conversation r ck w = conversation_in (the_run r w) ck"
  by (simp add: the_conversation_def conversation_in_def)

text \<open>Of a conversation: the results judged, how many calls were handed out, and what it sent.\<close>

definition conversation_grows :: "conversation \<Rightarrow> conversation \<Rightarrow> bool" where
  "conversation_grows cv cv' \<longleftrightarrow> set (cv_judged cv) \<subseteq> set (cv_judged cv')
     \<and> (\<forall>i. nat_at (cv_issued cv) i \<le> nat_at (cv_issued cv') i) \<and> prefix (cv_sent cv) (cv_sent cv')"

lemma conversation_grows_refl [simp]: "conversation_grows cv cv"
  by (simp add: conversation_grows_def)

lemma conversation_grows_trans: "conversation_grows a b \<Longrightarrow> conversation_grows b c \<Longrightarrow> conversation_grows a c"
  unfolding conversation_grows_def by (meson order_trans prefix_order.trans subset_trans)

lemma conversation_grows_fields [simp]:
  "conversation_grows cv (cv\<lparr>cv_rejected := a\<rparr>)" "conversation_grows cv (cv\<lparr>cv_edited := b\<rparr>)"
  "conversation_grows cv (cv\<lparr>cv_noted := c\<rparr>)" "conversation_grows cv (cv\<lparr>cv_made := d\<rparr>)"
  "conversation_grows cv (cv\<lparr>cv_rejected := a, cv_edited := b\<rparr>)"
  by (simp_all add: conversation_grows_def)

text \<open>Of a run: that it ended, where it ended, what was passed on, and its conversations.\<close>

definition run_remembers :: "sidecar_run \<Rightarrow> sidecar_run \<Rightarrow> bool" where
  "run_remembers run run' \<longleftrightarrow> (rn_refusal run \<noteq> None \<longrightarrow> rn_refusal run' \<noteq> None)
     \<and> set (rn_answered run) \<subseteq> set (rn_answered run')
     \<and> (\<forall>mark. map_of (rn_ended_at run) mark \<noteq> None \<longrightarrow> map_of (rn_ended_at run') mark \<noteq> None)
     \<and> (\<forall>ck. conversation_grows (conversation_in run ck) (conversation_in run' ck))"

lemma run_remembers_refl [simp]: "run_remembers run run"
  by (simp add: run_remembers_def)

lemma run_remembers_trans: "run_remembers a b \<Longrightarrow> run_remembers b c \<Longrightarrow> run_remembers a c"
  unfolding run_remembers_def by (meson conversation_grows_trans subset_trans)

definition memory_grows :: "sidecar \<Rightarrow> sidecar \<Rightarrow> bool" where
  "memory_grows s s' \<longleftrightarrow> length (sc_run_objects s) \<le> length (sc_run_objects s')
     \<and> (\<forall>r. run_there s r \<longrightarrow> run_remembers (run_at r s) (run_at r s'))"

definition goes_on_well :: "sidecar \<Rightarrow> sidecar \<Rightarrow> bool" where
  "goes_on_well s s' \<longleftrightarrow> memory_grows s s'
     \<and> (runs_ok s \<longrightarrow> runs_ok s' \<and> runs_grow s s' \<and> (\<forall>k until. sealed k until s \<longrightarrow> sealed k until s'))"

lemma memory_grows_refl [simp]: "memory_grows s s"
  by (simp add: memory_grows_def)

lemma memory_grows_trans: "memory_grows a b \<Longrightarrow> memory_grows b c \<Longrightarrow> memory_grows a c"
  unfolding memory_grows_def run_there_def by (meson order_trans order_less_le_trans run_remembers_trans)

lemma goes_on_well_refl [simp]: "goes_on_well s s"
  by (simp add: goes_on_well_def runs_grow_refl)

lemma goes_on_well_trans: "goes_on_well a b \<Longrightarrow> goes_on_well b c \<Longrightarrow> goes_on_well a c"
  unfolding goes_on_well_def by (meson memory_grows_trans runs_grow_trans)

lemma goes_on_well_leaves: "leaves_runs s s' \<Longrightarrow> goes_on_well s s'"
  using runs_ok_frame [of s s'] sealed_frame [of _ _ s s']
  by (auto simp: goes_on_well_def memory_grows_def leaves_runs_def run_there_def run_at_def)

lemma goes_on_well_set_run:
  assumes "run_there s r \<Longrightarrow> run_remembers (run_at r s) run"
  shows "goes_on_well s (set_run r run s)"
proof -
  have m: "memory_grows s (set_run r run s)"
    unfolding memory_grows_def
  proof (intro conjI allI impI)
    fix x assume "run_there s x"
    then show "run_remembers (run_at x s) (run_at x (set_run r run s))"
      using assms by (cases "x = r") (auto simp: set_run_def run_at_def run_there_def)
  qed (simp add: set_run_def)
  have f: "sc_runs (set_run r run s) = sc_runs s" "sc_ended (set_run r run s) = sc_ended s"
    "sc_now (set_run r run s) = sc_now s" by (simp_all add: set_run_def)
  have "runs_grow s (set_run r run s)"
    using m f by (auto simp: runs_grow_def memory_grows_def run_ended_def run_remembers_def run_there_def set_run_def run_at_def)
  with m f runs_ok_grow [of s "set_run r run s"] show ?thesis
    by (auto simp: goes_on_well_def intro: sealed_frame)
qed

lemma goes_on_well_run_for: "goes_on_well s (snd (run_for k s))"
proof -
  have "sc_run_objects (snd (run_for k s)) = sc_run_objects s \<or> sc_run_objects (snd (run_for k s)) = sc_run_objects s @ [new_run]"
  proof -
    have get: "sc_run_objects (snd (get_run k s)) = sc_run_objects s" "sc_run_objects (snd (get_ended k s)) = sc_run_objects s" for s
      by (auto simp: get_run_def get_ended_def split: prod.splits dest: leaves_clock3 simp: leaves_runs_def)
    obtain a s1 where 1: "get_run k s = (a, s1)" by (cases "get_run k s")
    obtain b s2 where 2: "get_ended k s1 = (b, s2)" by (cases "get_ended k s1")
    from get [of s] get [of s1] 1 2 have o: "sc_run_objects s1 = sc_run_objects s" "sc_run_objects s2 = sc_run_objects s" by auto
    obtain ts s4 where 3: "clock2 (s2\<lparr>sc_run_objects := sc_run_objects s2 @ [new_run]\<rparr>) = (ts, s4)"
      by (cases "clock2 (s2\<lparr>sc_run_objects := sc_run_objects s2 @ [new_run]\<rparr>)")
    with o have "sc_run_objects s4 = sc_run_objects s @ [new_run]"
      by (auto dest!: leaves_clock2 simp: leaves_runs_def)
    with 1 2 3 o show ?thesis by (auto simp: run_for_def add_run_def split: option.splits)
  qed
  then have "memory_grows s (snd (run_for k s))"
    by (auto simp: memory_grows_def run_there_def run_at_def nth_append)
  then show ?thesis
    using run_for_ok(1,2,4) [of s k "fst (run_for k s)" "snd (run_for k s)"] by (auto simp: goes_on_well_def)
qed

section \<open>What the sentinel is asked\<close>

text \<open>A step as the interface promises it: its history is given and no agent's own messages, and the
  tools are there exactly when the model's input is.\<close>

definition step_typed :: "step \<Rightarrow> bool" where
  "step_typed s \<longleftrightarrow> step_agent_messages s = None \<and> step_human_decisions s = None \<and> step_history s \<noteq> None
     \<and> (step_tools s = None \<longleftrightarrow> step_input s = None) \<and> (step_tool_choice s = None \<longleftrightarrow> step_input s = None)
     \<and> (stage_of s \<noteq> ToolResultStage \<longrightarrow> step_input s \<noteq> None)
     \<and> (case s of AfterToolCall t \<Rightarrow> cm_role (at_result t) = Tool \<and> at_output t = None \<and> at_truncated t = TruncationUnknown
        | _ \<Rightarrow> True)"

definition typed_ask :: "sidecar_handler \<Rightarrow> asked_step \<Rightarrow> bool" where
  "typed_ask hn a \<longleftrightarrow> stage_of (ak_step a) \<in> set (hn_watched hn) \<and> step_typed (ak_step a)
     \<and> ak_conversation a = step_conversation (ak_step a)"

definition state_grows :: "sidecar_handler \<Rightarrow> handler_state \<Rightarrow> handler_state \<Rightarrow> bool" where
  "state_grows hn w w' \<longleftrightarrow> goes_on_well (hs_sidecar w) (hs_sidecar w')
     \<and> (\<exists>new. hs_asked w' = hs_asked w @ new \<and> list_all (typed_ask hn) new)"

definition others_remember :: "sidecar_handler \<Rightarrow> bool" where
  "others_remember hn \<longleftrightarrow> (\<forall>n w. goes_on_well (hs_sidecar w) (hs_sidecar (hn_others hn n w)))"

lemma state_grows_refl: "state_grows hn w w"
  by (simp add: state_grows_def)

lemma state_grows_trans:
  assumes "state_grows hn u v" "state_grows hn v w" shows "state_grows hn u w"
proof -
  from assms obtain a b where "hs_asked v = hs_asked u @ a" "hs_asked w = hs_asked v @ b"
    "list_all (typed_ask hn) a" "list_all (typed_ask hn) b" by (auto simp: state_grows_def)
  then have "hs_asked w = hs_asked u @ (a @ b)" "list_all (typed_ask hn) (a @ b)" by simp_all
  then show ?thesis using assms goes_on_well_trans unfolding state_grows_def by blast
qed

interpretation growing: rely "state_grows hn"
  by unfold_locales (rule state_grows_refl, erule (1) state_grows_trans)

lemma others_grow: "others_remember hn \<Longrightarrow> others_do (state_grows hn) hn"
  by (simp add: others_do_def others_remember_def state_grows_def)

end
