(* ===== verification/HandlerGrowth.thy ===== *)
theory HandlerGrowth
  imports HandlerLaws
begin

text \<open>
  Every operation of the handler only adds to what the sidecar remembers, and puts to the sentinel only
  steps of the stages it watches, as the interface promises them, whatever else goes on meanwhile.
\<close>

section \<open>Changes that keep what is remembered\<close>

named_theorems grow "operations that keep what is remembered"

declare growing.always_ret [grow] growing.always_raise [grow] growing.always_lift [grow]
  growing.always_look [grow] growing.always_bind [grow] growing.always_pause [OF others_grow, grow]
  growing.always_waiting [OF others_grow, grow]

lemma always_option:
  "(x = None \<Longrightarrow> throughout R a) \<Longrightarrow> (\<And>y. x = Some y \<Longrightarrow> throughout R (f y)) \<Longrightarrow> throughout R (case x of None \<Rightarrow> a | Some y \<Rightarrow> f y)"
  by (cases x) auto

lemma always_if: "(b \<Longrightarrow> throughout R x) \<Longrightarrow> (\<not> b \<Longrightarrow> throughout R y) \<Longrightarrow> throughout R (if b then x else y)"
  by simp

lemma always_pair: "(\<And>a b. p = (a, b) \<Longrightarrow> throughout R (f a b)) \<Longrightarrow> throughout R (case p of (a, b) \<Rightarrow> f a b)"
  by (cases p) auto

lemma always_sum:
  "(\<And>a. x = Inl a \<Longrightarrow> throughout R (f a)) \<Longrightarrow> (\<And>b. x = Inr b \<Longrightarrow> throughout R (g b)) \<Longrightarrow>
     throughout R (case x of Inl a \<Rightarrow> f a | Inr b \<Rightarrow> g b)"
  by (cases x) auto

lemmas always_cases = always_option always_if always_pair always_sum

lemma grow_sidecar: "goes_on_well (hs_sidecar w) s \<Longrightarrow> hs_asked w' = hs_asked w \<Longrightarrow> hs_sidecar w' = s \<Longrightarrow> state_grows hn w w'"
  by (simp add: state_grows_def)

lemma grow_exchange [simp]: "state_grows hn w (update_exchange f w)"
  by (simp add: state_grows_def update_exchange_def)

lemma grow_attempt [simp]: "state_grows hn w (update_attempt a f w)"
  by (auto simp: state_grows_def update_attempt_def Let_def goes_on_well_leaves split: option.splits)

lemma grow_run_there:
  "(run_there (hs_sidecar w) r \<Longrightarrow> run_remembers (the_run r w) (f (the_run r w))) \<Longrightarrow> state_grows hn w (update_run r f w)"
  by (auto simp: update_run_def the_run_def intro!: grow_sidecar goes_on_well_set_run)

lemma grow_run: "(\<And>run. run_remembers run (f run)) \<Longrightarrow> state_grows hn w (update_run r f w)"
  by (rule grow_run_there)

lemma conversation_in_set:
  "conversation_in (run\<lparr>rn_conversations := dict_set (rn_conversations run) ck cv\<rparr>) k = (if k = ck then cv else conversation_in run k)"
  by (simp add: conversation_in_def)

lemma grow_conversation:
  assumes "\<And>cv. conversation_grows cv (f cv)"
  shows "state_grows hn w (update_conversation r ck f w)"
  unfolding update_conversation_def
  by (rule grow_run_there) (auto simp: run_remembers_def conversation_in_set the_conversation_in assms)

lemma run_remembers_fields [simp]:
  "run_remembers run (run\<lparr>rn_in_a_row := a\<rparr>)" "run_remembers run (run\<lparr>rn_store := b\<rparr>)"
  "run_remembers run (run\<lparr>rn_eval := c\<rparr>)"
  by (simp_all add: run_remembers_def conversation_in_def)

lemma grow_leaves: "(\<And>s. leaves_runs s (snd (f s))) \<Longrightarrow> throughout (state_grows hn) (on_sidecar f)"
  by (rule growing.always_on_sidecar) (auto intro!: grow_sidecar goes_on_well_leaves)

lemma grow_run_for [grow]: "throughout (state_grows hn) (on_sidecar (run_for k))"
  by (rule growing.always_on_sidecar) (auto intro!: grow_sidecar goes_on_well_run_for)

lemma grow_recorder_for [grow]: "throughout (state_grows hn) (on_sidecar (recorder_for k))"
  by (rule grow_leaves) (rule leaves_recorder_for)

lemma grow_registration [grow]: "throughout (state_grows hn) (on_sidecar (registration e t))"
  by (rule grow_leaves) (rule leaves_registration)

lemma grow_hold [grow]: "throughout (state_grows hn) (on_sidecar (\<lambda>s. ((), hold k h s)))"
  by (rule grow_leaves) (simp add: leaves_hold)

lemma grow_change_exchange [grow]: "throughout (state_grows hn) (change (update_exchange f))"
  by (rule growing.always_change) simp

lemma grow_change_run: "(\<And>run. run_remembers run (f run)) \<Longrightarrow> throughout (state_grows hn) (change (update_run r f))"
  by (rule growing.always_change) (rule grow_run)

lemma grow_change_conversation:
  "(\<And>cv. conversation_grows cv (f cv)) \<Longrightarrow> throughout (state_grows hn) (change (update_conversation r ck f))"
  by (rule growing.always_change) (rule grow_conversation)

section \<open>Judging a step\<close>

lemma add_events_leaves: "leaves_runs s (add_events n es s)"
  by (simp add: add_events_def)

lemma asked_grow:
  "typed_ask hn a \<Longrightarrow> state_grows hn w (w\<lparr>hs_asked := hs_asked w @ [a]\<rparr>)"
  by (auto simp: state_grows_def)

lemma grow_judged_now:
  assumes "stage_of step \<in> set (hn_watched hn)" "step_typed step"
  shows "throughout (state_grows hn) (judged_now hn h r step recorded eval)"
  unfolding throughout_def
proof
  fix w
  obtain result events store where s: "hn_sentinel hn eval (he_proxy h) (rn_store (the_run r w)) step = (result, events, store)"
    by (cases "hn_sentinel hn eval (he_proxy h) (rn_store (the_run r w)) step")
  define w1 where "w1 = update_run r (\<lambda>run. run\<lparr>rn_store := store\<rparr>) w"
  define w2 where "w2 = w1\<lparr>hs_sidecar := add_events (he_recorder h) events (hs_sidecar w1)\<rparr>"
  have "state_grows hn w w1" unfolding w1_def by (rule grow_run) simp
  moreover have "state_grows hn w1 w2"
    unfolding w2_def by (rule grow_sidecar) (auto intro: goes_on_well_leaves add_events_leaves)
  ultimately have g: "state_grows hn w w2" by (rule state_grows_trans)
  show "state_grows hn w (snd (judged_now hn h r step recorded eval w))"
  proof (cases result)
    case (Inl ex)
    then show ?thesis using g by (simp add: judged_now_def s w1_def [symmetric] w2_def [symmetric])
  next
    case (Inr d)
    define a where "a = \<lparr>ak_run = r, ak_conversation = step_conversation step, ak_step = step, ak_decision = d\<rparr>"
    have "typed_ask hn a" using assms by (simp add: typed_ask_def a_def)
    from state_grows_trans [OF g asked_grow [OF this]] have "state_grows hn w (update_exchange f (w2\<lparr>hs_asked := hs_asked w2 @ [a]\<rparr>))" for f
      by (rule state_grows_trans) simp
    then show ?thesis
      by (simp only: judged_now_def s Inr w1_def [symmetric] w2_def [symmetric] a_def [symmetric]
          Let_def prod.case sum.case snd_conv)
  qed
qed

lemma grow_judge_step:
  assumes "others_remember hn" "stage_of step \<in> set (hn_watched hn)" "step_typed step"
  shows "throughout (state_grows hn) (judge_step hn h r step)"
  unfolding judge_step_def
  by (auto intro!: growing.always_bind growing.always_look growing.always_pause others_grow grow_judged_now assms)

lemma map_of_values: "map_of (map (\<lambda>(k, v). (k, f k v)) kvs) k = map_option (f k) (map_of kvs k)"
  by (induction kvs) auto

lemma clear_turns_grows [simp]: "conversation_grows cv (clear_turns cv)"
  by (simp add: clear_turns_def)

lemma forget_turns_grows [simp]: "conversation_grows cv (forget_turns_at sent mark cv)"
  by (simp add: forget_turns_at_def)

lemma end_of_remembers: "run_remembers run (end_of h refusal run)"
  by (auto simp: run_remembers_def end_of_def conversation_in_def map_of_values split: option.splits)

lemma grow_end_here [grow]: "throughout (state_grows hn) (end_here h r spot)"
  unfolding throughout_def end_here_def snd_conv
  by (rule allI, rule state_grows_trans [OF grow_exchange], rule grow_run, rule end_of_remembers)

section \<open>A request\<close>

lemma grow_judging: "state_grows hn w (w\<lparr>hs_judging := ks\<rparr>)"
  by (simp add: state_grows_def)

lemma grow_with_judging:
  assumes "throughout (state_grows hn) m" shows "throughout (state_grows hn) (with_judging key m)"
  unfolding throughout_def
proof
  fix w
  obtain x w' where m: "m (w\<lparr>hs_judging := key # hs_judging w\<rparr>) = (x, w')" by fastforce
  then have "state_grows hn (w\<lparr>hs_judging := key # hs_judging w\<rparr>) w'" using assms by (metis throughout_def snd_conv)
  from state_grows_trans [OF state_grows_trans [OF grow_judging this] grow_judging]
  show "state_grows hn w (snd (with_judging key m w))" using m by (simp add: with_judging_def)
qed

lemma grow_await: "others_remember hn \<Longrightarrow> throughout (state_grows hn) (await_judged hn key n)"
proof (induction n)
  case (Suc n)
  have "throughout (state_grows hn) (bind_io (pause hn) (\<lambda>_. await_judged hn key n))"
    by (intro grow Suc)
  then show ?case by (auto simp: throughout_def state_grows_refl)
qed (simp add: throughout_def state_grows_refl)

lemma nat_at_set: "nat_at (dict_set d k n) i = (if i = k then n else nat_at d i)"
  by (simp add: nat_at_def)

lemma issue_fold: "nat_at issued i \<le> nat_at (foldl issue_call issued ps) i"
proof (induction ps arbitrary: issued)
  case (Cons p ps)
  have "nat_at issued i \<le> nat_at (issue_call issued p) i" by (simp add: issue_call_def nat_at_set)
  also have "\<dots> \<le> nat_at (foldl issue_call (issue_call issued p) ps) i" by (rule Cons.IH)
  finally show ?case by simp
qed simp

lemma issue_grows [simp]: "conversation_grows cv (issue_calls calls cv)"
  by (simp add: conversation_grows_def issue_calls_def issue_fold)

lemma mark_judged_grows [simp]: "conversation_grows cv (mark_judged digest cv)"
  by (auto simp: conversation_grows_def mark_judged_def add_new_def)

lemma record_sent_grows [simp]: "conversation_grows cv (record_sent hc cv input body)"
  by (simp add: conversation_grows_def record_sent_def Let_def)

lemma result_step_typed:
  assumes "result_step hn h run cv assistant call index entry = Inr step" "cm_role entry = Tool"
  shows "stage_of step = ToolResultStage" "step_typed step"
  using assms by (auto simp: result_step_def step_typed_def Let_def split: option.splits)

lemma grow_judge_result_step:
  assumes "others_remember hn" "stage_of step \<in> set (hn_watched hn)" "step_typed step"
  shows "throughout (state_grows hn) (judge_result_step hn ro digest call step)"
  unfolding judge_result_step_def
  by (intro grow always_cases grow_judge_step grow_change_conversation mark_judged_grows assms)

lemma grow_judge_unless:
  assumes "others_remember hn" "ToolResultStage \<in> set (hn_watched hn)" "cm_role entry = Tool"
  shows "throughout (state_grows hn) (judge_unless_judged hn ro found call digest entry)"
  unfolding throughout_def
proof
  fix w
  obtain assistant proposed words index where f: "found = (assistant, proposed, words, index)" by (cases found)
  show "state_grows hn w (snd (judge_unless_judged hn ro found call digest entry w))"
  proof (cases "result_step hn (ro_held ro) (the_run (ro_run ro) w)
      (the_conversation (ro_run ro) (he_conversation (ro_held ro)) w) assistant call index entry")
    case (Inr step)
    from result_step_typed [OF Inr assms(3)] assms(1,2)
    have "throughout (state_grows hn) (with_judging (he_run (ro_held ro), he_conversation (ro_held ro), digest)
        (judge_result_step hn ro digest call step))"
      by (intro grow_with_judging grow_judge_result_step) auto
    with Inr f show ?thesis by (auto simp: judge_unless_judged_def Let_def state_grows_refl throughout_def)
  qed (use f in \<open>auto simp: judge_unless_judged_def Let_def state_grows_refl\<close>)
qed

lemma grow_after_wait:
  assumes "throughout (state_grows hn) m" "throughout (state_grows hn) k"
  shows "throughout (state_grows hn) (bind_io m (\<lambda>_ w'. case g w' of Some rf \<Rightarrow> (Inr (Some rf), w') | None \<Rightarrow> k w'))"
  by (rule growing.always_bind [OF assms(1)])
    (use assms(2) in \<open>auto simp: throughout_def state_grows_refl split: option.splits\<close>)

lemma grow_judge_result:
  assumes "others_remember hn" "ToolResultStage \<in> set (hn_watched hn)" "cm_role entry = Tool"
  shows "throughout (state_grows hn) (judge_result hn ro found entry)"
proof -
  note u = grow_judge_unless [OF assms]
  note a = grow_after_wait [OF grow_await [OF assms(1)] u]
  show ?thesis
    using u a by (simp add: throughout_def judge_result_def Let_def state_grows_refl)
qed

lemma grow_results_loop:
  assumes "others_remember hn" "ToolResultStage \<in> set (hn_watched hn)"
  shows "throughout (state_grows hn) (results_loop hn ro said st entries)"
proof (induction entries arbitrary: st)
  case (Cons entry entries)
  show ?case
    by (simp only: results_loop.simps Let_def, intro grow always_cases Cons.IH grow_judge_result assms)
      auto
qed (simp add: grow)

lemma grow_judge_results [grow]: "others_remember hn \<Longrightarrow> throughout (state_grows hn) (judge_results hn ro said client)"
  unfolding judge_results_def
  by (rule always_if; (intro grow grow_change_conversation issue_grows grow_results_loop)?) auto

lemma request_step_typed: "stage_of (request_step h cv ms) = ModelInput" "step_typed (request_step h cv ms)"
  by (simp_all add: request_step_def step_typed_def)

lemma grow_judge_request [grow]: "others_remember hn \<Longrightarrow> throughout (state_grows hn) (judge_request hn h r ms)"
  unfolding judge_request_def
  by (intro grow always_cases grow_judge_step) (auto simp: request_step_typed)

lemma grow_ended_now [grow]: "throughout (state_grows hn) (ended_now h r)"
  unfolding ended_now_def by (intro grow)

lemma grow_first_refusal: "(\<And>c. c \<in> set cs \<Longrightarrow> throughout (state_grows hn) c) \<Longrightarrow> throughout (state_grows hn) (first_refusal cs)"
  by (induction cs) (auto intro!: grow always_cases)

lemma grow_refuse_with_field [grow]: "throughout (state_grows hn) (refuse_with_field hn proxy out rf)"
  by (simp add: throughout_def refuse_with_field_def state_grows_refl)

lemma grow_pass_on [grow]: "throughout (state_grows hn) (pass_on_request hn rq h r ri)"
  unfolding pass_on_request_def by (intro grow grow_change_conversation record_sent_grows)

lemma grow_judge_read [grow]: "others_remember hn \<Longrightarrow> throughout (state_grows hn) (judge_read_request hn rq h r ri)"
  unfolding judge_read_request_def
  by (intro grow always_cases grow_first_refusal) (auto intro: grow)

lemma grow_read_in [grow]: "others_remember hn \<Longrightarrow> throughout (state_grows hn) (read_request_in hn rq r ck marks)"
  unfolding read_request_in_def Let_def by (intro grow always_cases)

lemma grow_find_eval [grow]: "throughout (state_grows hn) (find_eval hn sample r)"
  unfolding find_eval_def eval_for_def
  by (intro grow always_cases grow_change_run) (simp add: keep_eval_def)

lemma add_conversation_remembers: "run_remembers run (add_conversation ck run)"
  by (auto simp: add_conversation_def run_remembers_def conversation_in_def map_add_def split: option.splits)

lemma grow_in_run [grow]: "others_remember hn \<Longrightarrow> throughout (state_grows hn) (answer_in_run hn rq sample attempt opening r)"
  unfolding answer_in_run_def answer_going_on_def
  by (intro grow always_cases grow_change_run add_conversation_remembers)

lemma grow_answer_request: "others_remember hn \<Longrightarrow> throughout (state_grows hn) (answer_request hn rq sample attempt)"
  unfolding answer_request_def by (intro grow)

lemma grow_begin_request: "state_grows hn w (snd (begin_request rq w))"
proof -
  have "leaves_runs s (snd (recorder_for k (snd (begin_attempt i k s))))" for s k i
    using leaves_runs_trans [OF leaves_begin_attempt leaves_recorder_for] .
  then have "state_grows hn w (w\<lparr>hs_sidecar := snd (recorder_for k (snd (begin_attempt i k (hs_sidecar w))))\<rparr>)" for k i
    by (intro grow_sidecar goes_on_well_leaves) auto
  then show ?thesis by (auto simp: begin_request_def state_grows_refl case_prod_unfold Let_def split: option.splits)
qed

lemma grow_handle_request: "others_remember hn \<Longrightarrow> throughout (state_grows hn) (handle_request hn rq)"
  unfolding throughout_def
proof
  fix w assume o: "others_remember hn"
  obtain attempt w1 where b: "begin_request rq w = (attempt, w1)" by fastforce
  then have g: "state_grows hn w w1" using grow_begin_request by (metis snd_conv)
  have a: "state_grows hn w (snd (answer_request hn rq sample attempt (w1\<lparr>hs_exchange := new_exchange\<rparr>)))" for sample
  proof -
    have "state_grows hn w1 (w1\<lparr>hs_exchange := new_exchange\<rparr>)" by (simp add: state_grows_def)
    with g grow_answer_request [OF o] show ?thesis unfolding throughout_def by (meson state_grows_trans)
  qed
  show "state_grows hn w (snd (handle_request hn rq w))"
    using a g state_grows_trans [OF g grow_attempt] state_grows_trans [OF a grow_attempt] unfolding handle_request_def b prod.case settle_request_def
    by (auto split: sum.splits failure.splits prod.splits simp: b) (metis snd_conv)+
qed

section \<open>A reply\<close>

lemma hand_out_grows: "conversation_grows cv (snd (foldl (hand_out h i) (seen, cv) calls))"
proof (induction calls arbitrary: seen cv)
  case (Cons c cs)
  obtain seen' cv' where s: "hand_out h i (seen, cv) c = (seen', cv')" by fastforce
  then have "conversation_grows cv cv'" by (auto simp: hand_out_def Let_def conversation_grows_def nat_at_set)
  from conversation_grows_trans [OF this Cons.IH [of cv' seen']] show ?case by (simp add: s)
qed simp

lemma drop_oldest_grows: "conversation_grows cv (drop_oldest cv)"
  by (simp add: drop_oldest_def)

lemma count_passed_remembers: "run_remembers run (count_passed h run)"
  by (auto simp: run_remembers_def count_passed_def conversation_in_def add_new_def)

lemma grow_pass_turn [grow]: "throughout (state_grows hn) (pass_turn h r m)"
proof -
  have k: "conversation_grows cv (drop_oldest (snd (foldl (hand_out h i) (seen, cv) calls)))" for cv i seen calls
    using conversation_grows_trans [OF hand_out_grows drop_oldest_grows] .
  have c: "throughout (state_grows hn) (change (update_conversation r (he_conversation h) (\<lambda>cv.
      drop_oldest (snd (foldl (hand_out h i) (he_calls h, cv) calls)))))" for i calls
    by (rule grow_change_conversation, rule k)
  show ?thesis
    unfolding pass_turn_def
    by (intro grow always_cases grow_change_run count_passed_remembers)
      (auto simp del: foldl_Cons foldl_Nil split: list.splits option.splits intro!: grow c)
qed

lemma grow_edit_turn [grow]:
  "others_remember hn \<Longrightarrow> throughout (state_grows hn) (edit_turn hn ry h r output m start noted_now rejected modified released)"
  unfolding edit_turn_def Let_def by (intro grow always_cases grow_change_conversation conversation_grows_fields)

lemma add_turn_grows: "conversation_grows cv (add_turn h turn written cv)"
  by (auto simp: add_turn_def Let_def split: option.splits)

lemma grow_reject_turn [grow]: "others_remember hn \<Longrightarrow> throughout (state_grows hn) (reject_turn hn h r m noted_now rejected)"
  unfolding reject_turn_def Let_def
  by (intro grow always_cases grow_change_conversation grow_change_run add_turn_grows run_remembers_fields)

lemma reply_step_typed: "stage_of (reply_step h cv out) = ModelOutputStage" "step_typed (reply_step h cv out)"
  by (simp_all add: reply_step_def step_typed_def)

lemma call_step_typed:
  "call_step hn h run cv m call = Inr step \<Longrightarrow> stage_of step = ToolCallStage \<and> step_typed step"
  by (auto simp: call_step_def step_typed_def split: option.splits)

lemma grow_typed_step:
  assumes "\<And>step. x = Inr step \<Longrightarrow> throughout (state_grows hn) (f step)"
  shows "throughout (state_grows hn) (bind_io (lift_err x) f)"
  using assms by (cases x) (auto simp: throughout_def bind_io_def lift_err_def state_grows_refl)

lemma grow_judge_calls:
  assumes "others_remember hn" "ToolCallStage \<in> set (hn_watched hn)"
  shows "throughout (state_grows hn) (judge_calls hn h r m calls st)"
proof (induction calls arbitrary: st)
  case (Cons call calls)
  have j: "throughout (state_grows hn) (bind_io (lift_err made) (\<lambda>step. bind_io (judge_step hn h r step) k))"
    if "\<And>d. throughout (state_grows hn) (k d)" "\<And>step. made = Inr step \<Longrightarrow> stage_of step = ToolCallStage \<and> step_typed step" for made k
    using that assms by (auto intro!: grow_typed_step grow grow_judge_step)
  have l: "throughout (state_grows hn) (bind_io (look g) k)" if "\<And>w. throughout (state_grows hn) (k (g w))" for g :: "handler_state \<Rightarrow> failure + step" and k :: "failure + step \<Rightarrow> (refusal + sorted_calls) io"
    using that by (auto simp: throughout_def bind_io_def look_def)
  show ?case
    unfolding judge_calls.simps
    by (rule l, rule j) (auto intro!: grow always_cases Cons.IH dest: call_step_typed)
qed (simp add: grow)

lemma grow_ended_meanwhile [grow]: "throughout (state_grows hn) (ended_meanwhile h r)"
  by (auto simp: throughout_def ended_meanwhile_def state_grows_refl split: option.splits)

lemma grow_refuse_ended: "throughout (state_grows hn) m \<Longrightarrow> throughout (state_grows hn) (refuse_ended h r m)"
  unfolding refuse_ended_def by (intro grow always_cases)

lemma grow_or_refused:
  assumes "throughout (state_grows hn) m" "throughout (state_grows hn) k" shows "throughout (state_grows hn) (or_refused_whole m k)"
  unfolding throughout_def
proof
  fix w
  obtain x w' where m: "m w = (x, w')" by fastforce
  with assms have "state_grows hn w w'" "state_grows hn w' (snd (k w'))" by (metis throughout_def snd_conv)+
  then show "state_grows hn w (snd (or_refused_whole m k w))"
    using state_grows_trans by (auto simp: or_refused_whole_def m split: sum.splits)
qed

lemma grow_settle_turn: "others_remember hn \<Longrightarrow> throughout (state_grows hn) (settle_turn hn ry h r output m start noted_now st released)"
  unfolding settle_turn_def Let_def by (intro grow always_cases grow_or_refused)

lemma grow_judge_message [grow]:
  assumes "others_remember hn"
  shows "throughout (state_grows hn) (judge_message hn ry h r output start noted_now released)"
proof -
  have "throughout (state_grows hn) (judge_calls hn h r m (if ToolCallStage \<in> set (hn_watched hn) then calls_of_message m else []) ([], []))" for m
    using grow_judge_calls [OF assms] by (simp add: grow)
  then show ?thesis
    unfolding judge_message_def
    by (intro grow always_cases grow_refuse_ended grow_settle_turn assms)
qed

lemma grow_judge_output [grow]: "others_remember hn \<Longrightarrow> throughout (state_grows hn) (judge_output hn h r output)"
  unfolding judge_output_def
  by (intro grow always_cases grow_judge_step) (auto simp: reply_step_typed)

lemma grow_judge_reply [grow]: "others_remember hn \<Longrightarrow> throughout (state_grows hn) (judge_reply hn ry held released)"
  unfolding judge_reply_def
  by (intro grow always_cases grow_refuse_ended grow_change_run grow_change_conversation
      add_conversation_remembers conversation_grows_fields)

lemma grow_tell_client [grow]: "throughout (state_grows hn) (tell_client hn ry h released answer)"
  by (auto simp: throughout_def tell_client_def state_grows_refl split: answer_to.splits sum.splits)

lemma grow_answer_reply: "others_remember hn \<Longrightarrow> throughout (state_grows hn) (answer_reply hn ry held released)"
  unfolding answer_reply_def by (intro grow always_cases)

lemma grow_settle_reply: "state_grows hn w (settle_reply ry h result w)"
  unfolding settle_reply_def Let_def by (rule grow_attempt)

lemma grow_handle_reply: "others_remember hn \<Longrightarrow> throughout (state_grows hn) (handle_reply hn ry released)"
  unfolding throughout_def
proof
  fix w :: handler_state assume o: "others_remember hn"
  obtain held s where r: "release (ry_id ry) (hs_sidecar w) = (held, s)" by fastforce
  have g: "state_grows hn w (w\<lparr>hs_sidecar := s\<rparr>)" "state_grows hn w (w\<lparr>hs_sidecar := s, hs_exchange := xc\<rparr>)" for xc
    using leaves_release [of "hs_sidecar w" "ry_id ry"] r by (auto intro!: grow_sidecar goes_on_well_leaves)
  have a: "state_grows hn w (snd (answer_reply hn ry held released w'))" if "state_grows hn w w'" for w'
    using grow_answer_reply [OF o, of ry held released] that unfolding throughout_def by (meson state_grows_trans)
  show "state_grows hn w (snd (handle_reply hn ry released w))"
  proof (cases held)
    case None
    then show ?thesis using a [OF g(1)] by (simp add: handle_reply_def r)
  next
    case (Some h)
    let ?w = "update_attempt (he_attempt h) (\<lambda>a. a\<lparr>ta_state := BeingJudged\<rparr>) (w\<lparr>hs_sidecar := s, hs_exchange := he_exchange h\<rparr>)"
    obtain x w' where x: "answer_reply hn ry held released ?w = (x, w')" by fastforce
    have "state_grows hn w w'" using a [OF state_grows_trans [OF g(2) grow_attempt]] x by (metis snd_conv)
    then show ?thesis using x Some state_grows_trans [OF _ grow_settle_reply] by (simp add: handle_reply_def r)
  qed
qed

end
