(* ===== verification/HandlerRuns.thy ===== *)
theory HandlerRuns
  imports HandlerGrowth
begin

text \<open>
  The handler over time: any sequence of requests, replies and what evals ask, with anything that
  remembers as much going on at each wait. What is remembered is never forgotten, every step put to
  the sentinel is as the interface promises it, and a sample that an eval has ended is refused.
\<close>

section \<open>Operations in a row\<close>

datatype handler_op =
    OnRequest proxy_request
  | OnReply proxy_reply string
  | OnNotJudged string unjudged
  | OnRequestResult string
  | OnSampleResult string
  | OnEndSample string
  | OnRecords string
  | OnRegister string task_facts "rat option"

definition with_sidecar :: "(sidecar \<Rightarrow> 'a \<times> sidecar) \<Rightarrow> handler_state \<Rightarrow> handler_state" where
  "with_sidecar f w = w\<lparr>hs_sidecar := snd (f (hs_sidecar w))\<rparr>"

fun do_handler_op :: "sidecar_handler \<Rightarrow> handler_state \<Rightarrow> handler_op \<Rightarrow> handler_state" where
  "do_handler_op hn w (OnRequest rq) = snd (handle_request hn rq w)"
| "do_handler_op hn w (OnReply ry released) = snd (handle_reply hn ry released w)"
| "do_handler_op hn w (OnNotJudged i reason) = reply_not_judged i reason w"
| "do_handler_op hn w (OnRequestResult i) = with_sidecar (result_of_request i) w"
| "do_handler_op hn w (OnSampleResult uuid) = with_sidecar (result_of_sample uuid) w"
| "do_handler_op hn w (OnEndSample uuid) = with_sidecar (end_sample uuid) w"
| "do_handler_op hn w (OnRecords i) = with_sidecar (records_of i) w"
| "do_handler_op hn w (OnRegister eval_id facts expiry) = with_sidecar (register_task hn eval_id facts expiry) w"

definition do_handler_ops :: "sidecar_handler \<Rightarrow> handler_state \<Rightarrow> handler_op list \<Rightarrow> handler_state" where
  "do_handler_ops hn w ops = foldl (do_handler_op hn) w ops"

definition started :: "rat \<Rightarrow> rat list \<Rightarrow> handler_state" where
  "started expiry ticks =
     \<lparr>hs_sidecar = memory_state expiry ticks, hs_judging = [], hs_awaits = 0, hs_exchange = new_exchange, hs_asked = []\<rparr>"

section \<open>Operations of evals\<close>

lemma get_run_objects [simp]:
  "sc_run_objects (snd (get_run k s)) = sc_run_objects s" "sc_run_objects (snd (get_ended k s)) = sc_run_objects s"
  by (auto simp: get_run_def get_ended_def split: prod.splits dest!: leaves_clock3 simp: leaves_runs_def)

lemma memory_grows_same: "sc_run_objects s' = sc_run_objects s \<Longrightarrow> memory_grows s s'"
  by (simp add: memory_grows_def run_at_def)

lemma memory_grows_more: "sc_run_objects s' = sc_run_objects s @ xs \<Longrightarrow> memory_grows s s'"
  by (simp add: memory_grows_def run_at_def run_there_def nth_append)

lemma goes_on_well_existing_run: "goes_on_well s (snd (existing_run k s))"
  using get_run_ok(1,2) [of s k "fst (get_run k s)" "snd (get_run k s)"]
    sealed_get_run [of _ _ s k "fst (get_run k s)" "snd (get_run k s)"]
  by (auto simp: existing_run_def goes_on_well_def memory_grows_same)

lemma refuse_run_remembers: "goes_on_well s (refuse_run r s)"
  unfolding refuse_run_def
  by (auto intro!: goes_on_well_set_run simp: run_remembers_def conversation_in_def)

lemma note_ended_memory: "memory_grows s (note_ended k refusal s)"
proof -
  obtain b s1 where 1: "get_ended k s = (b, s1)" by fastforce
  then have o1: "sc_run_objects s1 = sc_run_objects s" using get_run_objects(2) [of k s] by simp
  obtain r s2 where 2: "add_run (new_run\<lparr>rn_refusal := refusal\<rparr>) s1 = (r, s2)" by fastforce
  then have o2: "sc_run_objects s2 = sc_run_objects s1 @ [new_run\<lparr>rn_refusal := refusal\<rparr>]" by (auto simp: add_run_def)
  obtain ts s3 where 3: "clock2 s2 = (ts, s3)" by fastforce
  then have "sc_run_objects s3 = sc_run_objects s2" using leaves_clock2 by (auto simp: leaves_runs_def)
  with 1 2 3 o1 o2 show ?thesis
    by (cases b) (simp_all add: note_ended_def memory_grows_same memory_grows_more)
qed

lemma goes_on_well_end_run: "goes_on_well s (snd (end_run k s))"
proof -
  obtain t s1 where 1: "read_clock s = (t, s1)" by fastforce
  obtain r gone m where 2: "pop_kept t k (sc_runs s1) = (r, gone, m)" by (cases "pop_kept t k (sc_runs s1)")
  have o: "sc_run_objects s1 = sc_run_objects s" using read_clock_fields(8) [of s] 1 by simp
  have m: "memory_grows s (s1\<lparr>sc_runs := m\<rparr>)" using o by (simp add: memory_grows_same)
  have "memory_grows s (snd (end_run k s))"
  proof (cases r)
    case None
    then show ?thesis using 1 2 o memory_grows_same [of "snd (get_ended k (s1\<lparr>sc_runs := m\<rparr>))" s]
      by (simp add: end_run_def case_prod_unfold Let_def)
  next
    case (Some x)
    have "memory_grows (s1\<lparr>sc_runs := m\<rparr>) (refuse_run x (s1\<lparr>sc_runs := m\<rparr>))"
      using refuse_run_remembers by (simp add: goes_on_well_def)
    from memory_grows_trans [OF memory_grows_trans [OF m this] note_ended_memory]
    show ?thesis using 1 2 Some by (simp add: end_run_def Let_def)
  qed
  then show ?thesis
    using end_run_ok(1-3) [of s k "fst (end_run k s)" "snd (end_run k s)"] by (auto simp: goes_on_well_def)
qed

lemma all_records_leave: "leaves_runs s (snd (all_records xs s))"
proof (induction xs arbitrary: s)
  case (Cons a xs)
  obtain e s1 where 1: "records_of (ta_exchange (sc_attempt_objects s ! a)) s = (e, s1)" by fastforce
  then have l: "leaves_runs s s1" using leaves_records_of by (metis snd_conv)
  obtain rest s2 where 2: "all_records xs s1 = (rest, s2)" by fastforce
  then have "leaves_runs s1 s2" using Cons.IH by (metis snd_conv)
  with l have "leaves_runs s s2" by (rule leaves_runs_trans)
  with l show ?case using 1 2 by (auto split: option.splits)
qed simp

lemma result_of_request_leaves: "leaves_runs s (snd (result_of_request i s))"
proof -
  obtain k s1 where 1: "attempts_for i s = (k, s1)" by fastforce
  then have l: "leaves_runs s s1" using leaves_attempts_for by (metis snd_conv)
  have "leaves_runs s s2" if "all_records xs s1 = (e, s2)" for xs e s2
    using leaves_runs_trans [OF l] all_records_leave that by (metis snd_conv)
  with l show ?thesis using 1 by (auto simp: result_of_request_def split: attempts_kept.splits prod.splits option.splits)
qed

lemma goes_on_well_result: "goes_on_well s (snd (result_of_sample uuid s))"
  using goes_on_well_existing_run [of s "run_key True uuid"]
  by (auto simp: result_of_sample_def split: prod.splits option.splits)

lemma register_task_leaves: "leaves_runs s (snd (register_task hn e facts x s))"
  using leaves_register by (auto simp: register_task_def Let_def split: prod.splits) (metis snd_conv)+

lemma grow_with_sidecar: "(\<And>s. goes_on_well s (snd (f s))) \<Longrightarrow> state_grows hn w (with_sidecar f w)"
  unfolding with_sidecar_def by (rule grow_sidecar) auto

lemma grow_not_judged: "state_grows hn w (reply_not_judged i reason w)"
proof -
  obtain held s where r: "release i (hs_sidecar w) = (held, s)" by fastforce
  have "state_grows hn w (w\<lparr>hs_sidecar := s\<rparr>)"
    using leaves_release [of "hs_sidecar w" i] r by (auto intro!: grow_sidecar goes_on_well_leaves)
  then show ?thesis using state_grows_trans [OF _ grow_attempt] r by (auto simp: reply_not_judged_def split: option.splits)
qed

lemma grow_op:
  assumes "others_remember hn" shows "state_grows hn w (do_handler_op hn w p)"
proof (cases p)
  case (OnEndSample uuid)
  have "state_grows hn w (with_sidecar (end_sample uuid) w)"
    by (rule grow_with_sidecar) (simp add: end_sample_def goes_on_well_end_run)
  then show ?thesis using OnEndSample by simp
qed (use grow_handle_request [OF assms] grow_handle_reply [OF assms] in
    \<open>auto simp: throughout_def intro!: grow_with_sidecar grow_not_judged goes_on_well_result
      goes_on_well_leaves result_of_request_leaves leaves_records_of register_task_leaves\<close>)

lemma grow_ops: "others_remember hn \<Longrightarrow> state_grows hn w (do_handler_ops hn w ps)"
proof (induction ps arbitrary: w)
  case (Cons p ps)
  from state_grows_trans [OF grow_op [OF Cons.prems] Cons.IH [OF Cons.prems]] show ?case
    by (simp add: do_handler_ops_def)
qed (simp add: do_handler_ops_def state_grows_refl)

text \<open>Another handler's operations are among what may go on meanwhile.\<close>

lemma others_by_handler:
  assumes "others_remember other" "\<And>n w. hn_others hn n w = do_handler_ops other w (between n)"
  shows "others_remember hn"
  using grow_ops [OF assms(1)] assms(2) by (simp add: others_remember_def state_grows_def)

section \<open>A sample that has ended\<close>

lemma pause_asks_nothing: "hs_asked (snd (pause hn w)) = hs_asked w"
  by (simp add: pause_def Let_def)

text \<open>What follows once the run is found to have ended.\<close>

definition refuses :: "failure + answer_to \<Rightarrow> bool" where
  "refuses result \<longleftrightarrow> (case result of Inr (RefuseWith rf) \<Rightarrow> True | Inr _ \<Rightarrow> False | Inl _ \<Rightarrow> True)"

lemma bind_step:
  assumes "m w = (Inr x, w1)" shows "bind_io m f w = f x w1"
  using assms by (simp add: bind_io_def)

lemma bind_stop:
  assumes "m w = (Inl ex, w1)" shows "bind_io m f w = (Inl ex, w1)"
  using assms by (simp add: bind_io_def)

lemma waiting_cases:
  obtains (stop) ex where "waiting hn r w = (Inl ex, snd (pause hn w))"
  | (go) x where "r = Inr x" "waiting hn r w = (Inr x, snd (pause hn w))"
proof (cases "fst (pause hn w)")
  case (Inl ex)
  then show ?thesis using stop [of ex] by (simp add: waiting_def bind_io_def case_prod_unfold)
next
  case (Inr u)
  then show ?thesis using stop go
    by (cases r) (simp_all add: waiting_def bind_io_def lift_err_def case_prod_unfold)
qed

lemma ended_in_run:
  assumes "rn_refusal (the_run r w) \<noteq> None" "answer_in_run hn rq sample attempt opening r w = (result, w')"
  shows "refuses result \<and> w' = w"
proof -
  obtain rf where rf: "rn_refusal (the_run r w) = Some rf" using assms(1) by blast
  have "ended_refusal_of (the_run r w) marks = Some rf" for marks
    using rf by (simp add: ended_refusal_of_def)
  then show ?thesis
    using assms(2) unfolding answer_in_run_def
    by (auto simp: bind_io_def lift_err_def look_def ret_def refuses_def split: sum.splits)
qed

lemma sealed_request_refused:
  assumes "others_remember hn" "runs_ok (hs_sidecar w)"
    "sealed (run_key True (sm_uuid sample)) until (hs_sidecar w)"
    "answer_request hn rq (Some sample) attempt w = (result, w')" "sc_now (hs_sidecar w') < until"
  shows "refuses result \<and> hs_asked w' = hs_asked w"
proof -
  let ?k = "run_key True (sm_uuid sample)"
  define w1 where "w1 = snd (pause hn w)"
  have asked: "hs_asked w1 = hs_asked w" by (simp add: w1_def pause_asks_nothing)
  have "state_grows hn w w1"
    using growing.always_pause [OF others_grow [OF assms(1)]] by (simp add: throughout_def w1_def)
  then have ok: "runs_ok (hs_sidecar w1)" "sealed ?k until (hs_sidecar w1)"
    using assms(2,3) by (auto simp: state_grows_def goes_on_well_def)
  obtain r s where f: "run_for ?k (hs_sidecar w1) = (r, s)" by fastforce
  show ?thesis
  proof (cases rule: waiting_cases [of hn "read_opening (hn_wire hn) (rq_provider rq) (rq_body rq) (rq_format rq)" w])
    case (stop ex)
    have "answer_request hn rq (Some sample) attempt w = (Inl ex, w1)"
      unfolding answer_request_def w1_def by (rule bind_stop) (rule stop)
    then show ?thesis using assms(4) asked by (simp add: refuses_def)
  next
    case (go first)
    define w2 where "w2 = w1\<lparr>hs_sidecar := s\<rparr>"
    have "on_sidecar (run_for ?k) w1 = (Inr r, w2)" by (simp add: on_sidecar_def f w2_def)
    then have "answer_request hn rq (Some sample) attempt w
        = answer_in_run hn rq (Some sample) attempt (opening_of hn first) r w2"
      using go(2) unfolding w1_def [symmetric] answer_request_def by (simp add: bind_io_def request_key_def)
    with assms(4) have a: "answer_in_run hn rq (Some sample) attempt (opening_of hn first) r w2 = (result, w')" by simp
    have "state_grows hn w2 w'"
      using grow_in_run [OF assms(1)] a unfolding throughout_def by (metis snd_conv)
    moreover have "runs_ok (hs_sidecar w2)" using run_for_ok(1) [OF ok(1) f] by (simp add: w2_def)
    ultimately have "sc_now s \<le> sc_now (hs_sidecar w')"
      by (auto simp: state_grows_def goes_on_well_def runs_grow_def w2_def)
    then have "run_ended s r" using run_for_ok(5) [OF ok(1) f ok(2)] assms(5) by simp
    then have "rn_refusal (the_run r w2) \<noteq> None" by (simp add: run_ended_def the_run_def w2_def)
    from ended_in_run [OF this a] asked show ?thesis by (simp add: w2_def)
  qed
qed

lemma settle_keeps [simp]:
  "hs_asked (update_attempt a f w) = hs_asked w"
  "sc_now (hs_sidecar (update_attempt a f w)) = sc_now (hs_sidecar w)"
  by (auto simp: update_attempt_def Let_def split: option.splits)

lemma begin_keeps [simp]: "hs_asked (snd (begin_request rq w)) = hs_asked w"
  by (auto simp: begin_request_def Let_def split: option.splits prod.splits)

lemma ended_sample_stays_refused:
  assumes "others_remember hn" "runs_ok (hs_sidecar w)" "end_sample uuid (hs_sidecar w) = (True, s)"
    "w1 = do_handler_ops hn (w\<lparr>hs_sidecar := s\<rparr>) between"
    "sample_named (hn_header hn) (rq_headers rq) = Inr (Some sample)" "sm_uuid sample = uuid"
    "handle_request hn rq w1 = (result, w2)" "sc_now (hs_sidecar w2) < sc_now s + ex_expiry (sc_ended s)"
  shows "refuses result \<and> hs_asked w2 = hs_asked w1"
proof -
  let ?k = "run_key True uuid"
  have e: "end_run ?k (hs_sidecar w) = (True, s)" using assms(3) by (simp add: end_sample_def)
  have "state_grows hn (w\<lparr>hs_sidecar := s\<rparr>) w1" unfolding assms(4) by (rule grow_ops [OF assms(1)])
  then have 1: "runs_ok (hs_sidecar w1)" "sealed ?k (sc_now s + ex_expiry (sc_ended s)) (hs_sidecar w1)"
    using end_run_ok(1,4) [OF assms(2) e] by (auto simp: state_grows_def goes_on_well_def)
  obtain attempt w3 where b: "begin_request rq w1 = (attempt, w3)" by fastforce
  have "state_grows hn w1 w3" using grow_begin_request b by (metis snd_conv)
  with 1 have 3: "runs_ok (hs_sidecar w3)" "sealed ?k (sc_now s + ex_expiry (sc_ended s)) (hs_sidecar w3)"
    by (auto simp: state_grows_def goes_on_well_def)
  obtain x w4 where a: "answer_request hn rq (Some sample) attempt (w3\<lparr>hs_exchange := new_exchange\<rparr>) = (x, w4)" by fastforce
  have r: "result = x" "w2 = settle_request attempt x w4"
    using assms(7) by (auto simp: handle_request_def b assms(5) a)
  have "refuses x \<and> hs_asked w4 = hs_asked w3"
    using sealed_request_refused [OF assms(1) _ _ a, of "sc_now s + ex_expiry (sc_ended s)"] 3 assms(6,8) r
    by (simp add: settle_request_def)
  moreover have "hs_asked w3 = hs_asked w1" using begin_keeps b by (metis snd_conv)
  ultimately show ?thesis using r by (simp add: settle_request_def)
qed

end
