(* ===== verification/JudgedReplies.thy ===== *)
theory JudgedReplies
  imports HandlerRuns
begin

text \<open>
  What a client is handed of a reply: only after the whole of it was judged, and only as it was
  decided. The abstract account takes the steps the sentinel was asked about, with its decisions, and
  says which calls go out, changed or not.
\<close>

section \<open>What asks the sentinel nothing\<close>

definition same_asked :: "handler_state \<Rightarrow> handler_state \<Rightarrow> bool" where
  "same_asked w w' \<longleftrightarrow> hs_asked w' = hs_asked w"

interpretation asking: rely same_asked
  by unfold_locales (simp_all add: same_asked_def)

lemma others_ask_nothing: "others_do same_asked hn"
  by (simp add: others_do_def same_asked_def)

named_theorems quiet "operations that ask the sentinel nothing"

declare asking.always_ret [quiet] asking.always_raise [quiet] asking.always_lift [quiet] asking.always_look [quiet]
  asking.always_bind [quiet] asking.always_pause [OF others_ask_nothing, quiet]
  asking.always_waiting [OF others_ask_nothing, quiet]

lemma quiet_change [quiet]: "(\<And>w. hs_asked (f w) = hs_asked w) \<Longrightarrow> throughout same_asked (change f)"
  by (rule asking.always_change) (simp add: same_asked_def)

lemma quiet_sidecar [quiet]: "throughout same_asked (on_sidecar f)"
  by (rule asking.always_on_sidecar) (simp add: same_asked_def)

lemma asked_updates [simp]:
  "hs_asked (update_run r f w) = hs_asked w" "hs_asked (update_conversation r ck g w) = hs_asked w"
  "hs_asked (update_exchange k w) = hs_asked w"
  by (simp_all add: update_run_def update_conversation_def update_exchange_def)

lemma quietD: "throughout same_asked m \<Longrightarrow> m w = (x, w') \<Longrightarrow> hs_asked w' = hs_asked w"
  unfolding throughout_def same_asked_def by (metis snd_conv)

lemma quiet_end_here [quiet]: "throughout same_asked (end_here h r spot)"
  by (simp add: throughout_def same_asked_def end_here_def)

lemma quiet_pass_turn [quiet]: "throughout same_asked (pass_turn h r m)"
  unfolding pass_turn_def
  by (intro quiet always_cases) (auto split: list.splits option.splits intro!: quiet)

lemma quiet_edit_turn [quiet]: "throughout same_asked (edit_turn hn ry h r output m start noted_now rejected modified released)"
  unfolding edit_turn_def Let_def by (intro quiet always_cases) simp_all

lemma quiet_reject_turn [quiet]: "throughout same_asked (reject_turn hn h r m noted_now rejected)"
  unfolding reject_turn_def Let_def by (intro quiet always_cases) simp_all

lemma quiet_ended_meanwhile [quiet]: "throughout same_asked (ended_meanwhile h r)"
  by (auto simp: throughout_def same_asked_def ended_meanwhile_def split: option.splits)

lemma quiet_or_refused [quiet]:
  assumes "throughout same_asked m" "throughout same_asked k" shows "throughout same_asked (or_refused_whole m k)"
  unfolding throughout_def
proof
  fix w
  obtain x w' where m: "m w = (x, w')" by fastforce
  have "hs_asked w' = hs_asked w" "hs_asked (snd (k w')) = hs_asked w'"
    using assms quietD [OF assms(1) m] quietD [OF assms(2), of w' "fst (k w')" "snd (k w')"] by simp_all
  then show "same_asked w (snd (or_refused_whole m k w))"
    by (auto simp: or_refused_whole_def m same_asked_def split: sum.splits)
qed

lemma quiet_settle_turn [quiet]: "throughout same_asked (settle_turn hn ry h r output m start noted_now st released)"
  unfolding settle_turn_def Let_def by (intro quiet always_cases)

section \<open>What was asked of a reply\<close>

text \<open>One judgment leaves one step asked.\<close>

lemma judge_step_asks:
  assumes "judge_step hn h r step w = (Inr d, w')"
  shows "hs_asked w' = hs_asked w @
    [\<lparr>ak_run = r, ak_conversation = step_conversation step, ak_step = step, ak_decision = d\<rparr>]"
proof -
  from assms obtain recorded eval w1 where p: "pause hn w = (Inr (), w1)" and j: "judged_now hn h r step recorded eval w1 = (Inr d, w')"
    by (auto simp: judge_step_def io_Inr)
  obtain result events store where s: "hn_sentinel hn eval (he_proxy h) (rn_store (the_run r w1)) step = (result, events, store)"
    by (cases "hn_sentinel hn eval (he_proxy h) (rn_store (the_run r w1)) step")
  have "hs_asked w1 = hs_asked w" using pause_asks_nothing p by (metis snd_conv)
  with j s show ?thesis by (auto simp: judged_now_def Let_def split: sum.splits)
qed

text \<open>What the decisions on a turn's calls come to.\<close>

definition sort_asked :: "sorted_calls \<Rightarrow> tool_call \<times> decision option \<Rightarrow> sorted_calls" where
  "sort_asked st p =
     (case snd p of None \<Rightarrow> st | Some d \<Rightarrow> if d_action d = Proceed then st else sort_call (fst p) d st)"

definition decided_calls :: "(tool_call \<times> decision option) list \<Rightarrow> sorted_calls" where
  "decided_calls ps = foldl sort_asked ([], []) ps"

text \<open>The steps asked about calls, in their order.\<close>

definition asked_call :: "tool_call \<Rightarrow> asked_step \<Rightarrow> bool" where
  "asked_call call a \<longleftrightarrow> (case ak_step a of BeforeToolCall t \<Rightarrow> bt_call t = call | _ \<Rightarrow> False) \<and> \<not> ends (ak_decision a)"

lemma call_step_asked:
  "call_step hn h run cv m call = Inr step \<Longrightarrow> \<exists>t. step = BeforeToolCall t \<and> bt_call t = call"
  by (auto simp: call_step_def split: option.splits)

lemma judge_calls_asks:
  assumes "judge_calls hn h r m calls st w = (Inr (Inr st'), w')"
  shows "\<exists>asked. hs_asked w' = hs_asked w @ asked \<and> list_all2 asked_call calls asked
    \<and> st' = foldl sort_asked st (zip calls (map ak_decision asked))"
  using assms
proof (induction calls arbitrary: st w)
  case Nil
  then show ?case by (simp add: io_Inr)
next
  case (Cons call calls)
  from Cons.prems obtain step d w1 where
    s: "call_step hn h (the_run r w) (the_conversation r (he_conversation h) w) m call = Inr step"
    and j: "judge_step hn h r step w = (Inr d, w1)"
    and k: "(case d of None \<Rightarrow> judge_calls hn h r m calls st
       | Some d \<Rightarrow>
           if d_action d = Proceed then judge_calls hn h r m calls st
           else if d_action d = Terminate then
             bind_io (end_here h r (''at the call to '' @ tc_function call)) (\<lambda>rf. ret (Inl rf))
           else bind_io (change (update_exchange (keep_original call))) (\<lambda>_.
             judge_calls hn h r m calls (sort_call call d st))) w1 = (Inr (Inr st'), w')"
    by (auto simp: io_Inr)
  let ?a = "\<lparr>ak_run = r, ak_conversation = step_conversation step, ak_step = step, ak_decision = d\<rparr>"
  obtain w2 where w2: "hs_asked w2 = hs_asked w1" "\<not> ends d"
    "judge_calls hn h r m calls (sort_asked st (call, d)) w2 = (Inr (Inr st'), w')"
  proof (cases d)
    case None
    then show ?thesis using k that [of w1] by (simp add: sort_asked_def ends_def)
  next
    case (Some dec)
    then show ?thesis using k that [of w1] that [of "update_exchange (keep_original call) w1"]
      by (auto simp: sort_asked_def ends_def io_Inr split: if_splits)
  qed
  from Cons.IH [OF w2(3)] obtain asked where a: "hs_asked w' = hs_asked w2 @ asked" "list_all2 asked_call calls asked"
    "st' = foldl sort_asked (sort_asked st (call, d)) (zip calls (map ak_decision asked))" by blast
  have "asked_call call ?a" using call_step_asked [OF s] w2(2) by (auto simp: asked_call_def)
  then show ?case
    using a w2(1) judge_step_asks [OF j] by (intro exI [of _ "?a # asked"]) simp
qed

section \<open>What goes out\<close>

definition edits_decided :: "sorted_calls \<Rightarrow> edits" where
  "edits_decided st = \<lparr>es_removed = map fst (reasons_of (fst st)), es_modified = snd st\<rparr>"

text \<open>A reply is passed on as it was when nothing was rejected or changed, and otherwise the body in its
  place reads back as the same message with exactly the calls that were decided, and starts as what
  the client has already been sent.\<close>

definition handed_over ::
  "sidecar_handler \<Rightarrow> proxy_reply \<Rightarrow> json option \<Rightarrow> model_output \<Rightarrow> string \<Rightarrow> sorted_calls \<Rightarrow> answer_to \<Rightarrow> bool" where
  "handed_over hn ry start output released st a =
     (case a of
        PassOn \<Rightarrow> st = ([], [])
      | ReplaceBody body \<Rightarrow> st \<noteq> ([], []) \<and> starts_with body released
          \<and> (\<exists>read notes before after.
               read_reply (hn_wire hn) (ry_provider ry) (ry_content_type ry) body (ry_format ry) start = Inr (read, notes)
             \<and> output_message output = Some before \<and> output_message read = Some after
             \<and> list_all2 same_call (made_calls_of (calls_of_message after))
                 (intended_calls (edits_decided st) (calls_of_message before))
             \<and> same (JObj (ec_rest (hn_edit hn) after)) (JObj (ec_rest (hn_edit hn) before)))
      | RefuseWith rf \<Rightarrow> True)"

lemma check_edited_None:
  assumes "check_edited ec was now es = None"
  shows "\<exists>before after. output_message was = Some before \<and> output_message now = Some after
    \<and> list_all2 same_call (made_calls_of (calls_of_message after)) (intended_calls es (calls_of_message before))
    \<and> same (JObj (ec_rest ec after)) (JObj (ec_rest ec before))"
  using assms
  by (auto simp: check_edited_def output_message_def Let_def split: list.splits if_splits)

lemma edit_turn_hands:
  assumes "edit_turn hn ry h r output m start noted_now rejected modified released w = (Inr a, w')"
    "(rejected, modified) \<noteq> ([], [])"
  shows "handed_over hn ry start output released (rejected, modified) a"
proof -
  from assms(1) obtain body where
    a: "a = ReplaceBody body" "starts_with body released" and
    e: "edit_reply (hn_edit hn) (ry_provider ry) (ry_content_type ry) (ry_body ry) (ry_format ry)
          \<lparr>es_removed = map fst (reasons_of rejected), es_modified = modified\<rparr> output start = Inr body"
    by (auto simp: edit_turn_def Let_def io_Inr split: if_splits)
  from e obtain read nts where
    "read_reply (hn_wire hn) (ry_provider ry) (ry_content_type ry) body (ry_format ry) start = Inr (read, nts)"
    "check_edited (hn_edit hn) output read \<lparr>es_removed = map fst (reasons_of rejected), es_modified = modified\<rparr> = None"
    by (auto simp: edit_reply_def bind_err_Inr hn_wire_def split: option.splits)
  with check_edited_None [OF this(2)] a assms(2) show ?thesis
    by (auto simp: handed_over_def edits_decided_def)
qed

lemma reject_turn_refuses: "reject_turn hn h r m noted_now rejected w = (Inr a, w') \<Longrightarrow> \<exists>rf. a = RefuseWith rf"
  by (auto simp: reject_turn_def Let_def io_Inr split: option.splits)

lemma settle_turn_hands:
  assumes "settle_turn hn ry h r output m start noted_now st released w = (Inr a, w')"
  shows "handed_over hn ry start output released st a"
proof -
  obtain rejected modified where st: "st = (rejected, modified)" by fastforce
  consider (all) "rejected = []" "modified = []" "a = PassOn"
    | (refused) rf where "a = RefuseWith rf"
    | (edit) w1 where "(rejected, modified) \<noteq> ([], [])"
        "edit_turn hn ry h r output m start noted_now rejected modified released w = (Inr a, w1)"
    using assms unfolding settle_turn_def st Let_def or_refused_whole_def
    by (auto simp: io_Inr split: if_splits sum.splits prod.splits dest!: reject_turn_refuses)
  then show ?thesis
  proof cases
    case edit
    then show ?thesis using edit_turn_hands st by simp
  qed (simp_all add: handed_over_def st)
qed

section \<open>A whole reply\<close>

definition calls_to_judge :: "sidecar_handler \<Rightarrow> model_output \<Rightarrow> tool_call list" where
  "calls_to_judge hn output =
     (case output_message output of
        None \<Rightarrow> []
      | Some m \<Rightarrow> if ToolCallStage \<in> set (hn_watched hn) then calls_of_message m else [])"

definition asked_output :: "sidecar_handler \<Rightarrow> model_output \<Rightarrow> asked_step list \<Rightarrow> bool" where
  "asked_output hn output asked \<longleftrightarrow>
     (if ModelOutputStage \<in> set (hn_watched hn) then
        (case asked of
           [a] \<Rightarrow> (case ak_step a of AfterGenerate t \<Rightarrow> ag_output t = output | _ \<Rightarrow> False) \<and> \<not> ends (ak_decision a)
         | _ \<Rightarrow> False)
      else asked = [])"

text \<open>What an Inspect client is told with the reply, where it can be.\<close>

definition told_with :: "sidecar_handler \<Rightarrow> proxy_reply \<Rightarrow> held \<Rightarrow> string \<Rightarrow> answer_to \<Rightarrow> answer_to \<Rightarrow> bool" where
  "told_with hn ry h released judged a \<longleftrightarrow> a = judged
     \<or> px_inspect (he_proxy h) \<noteq> None
       \<and> (\<exists>body f. with_sentinel (hn_wire hn) (ry_content_type ry) (body_handed ry judged) f = Inr body
            \<and> starts_with body released \<and> a = ReplaceBody body)"

lemma judge_output_asks:
  assumes "judge_output hn h r output w = (Inr None, w')"
  shows "\<exists>asked. hs_asked w' = hs_asked w @ asked \<and> asked_output hn output asked"
proof (cases "ModelOutputStage \<in> set (hn_watched hn)")
  case True
  with assms obtain cv d where j: "judge_step hn h r (reply_step h cv output) w = (Inr d, w')" "\<not> ends d"
    by (auto simp: judge_output_def io_Inr split: if_splits)
  with judge_step_asks [OF j(1)] True show ?thesis by (auto simp: asked_output_def reply_step_def)
qed (use assms in \<open>auto simp: judge_output_def asked_output_def io_Inr\<close>)

lemma refuse_ended_Inr:
  assumes "refuse_ended h r go_on w = (Inr a, w')"
  shows "(\<exists>rf. a = RefuseWith rf) \<or> (\<exists>w1. hs_asked w1 = hs_asked w \<and> go_on w1 = (Inr a, w'))"
  using assms quietD [OF quiet_ended_meanwhile]
  by (auto simp: refuse_ended_def io_Inr split: option.splits)

lemma judge_message_asks:
  assumes "judge_message hn ry h r output start noted_now released w = (Inr a, w')" "\<forall>rf. a \<noteq> RefuseWith rf"
  shows "\<exists>asked. hs_asked w' = hs_asked w @ asked \<and> list_all2 asked_call (calls_to_judge hn output) asked
    \<and> handed_over hn ry start output released (decided_calls (zip (calls_to_judge hn output) (map ak_decision asked))) a"
proof (cases "output_message output")
  case None
  with assms obtain w1 where w1: "hs_asked w1 = hs_asked w" "bind_io (pass_turn h r None) (\<lambda>_. ret PassOn) w1 = (Inr a, w')"
    using refuse_ended_Inr [of h r "bind_io (pass_turn h r None) (\<lambda>_. ret PassOn)" w a w'] by (auto simp: judge_message_def)
  then have "hs_asked w' = hs_asked w" "a = PassOn"
    using quietD [OF quiet_pass_turn, of h r None w1] by (auto simp: io_Inr)
  then show ?thesis using None by (auto simp: calls_to_judge_def handed_over_def decided_calls_def)
next
  case (Some m)
  let ?calls = "if ToolCallStage \<in> set (hn_watched hn) then calls_of_message m else []"
  have c: "calls_to_judge hn output = ?calls" using Some by (simp add: calls_to_judge_def)
  from assms Some obtain st w1 where j: "judge_calls hn h r m ?calls ([], []) w = (Inr (Inr st), w1)"
    and e: "refuse_ended h r (settle_turn hn ry h r output m start noted_now st released) w1 = (Inr a, w')"
  proof -
    from assms Some obtain x w1 where j: "judge_calls hn h r m ?calls ([], []) w = (Inr x, w1)"
      and e: "(case x of Inl rf \<Rightarrow> ret (RefuseWith rf)
         | Inr st \<Rightarrow> refuse_ended h r (settle_turn hn ry h r output m start noted_now st released)) w1 = (Inr a, w')"
      by (auto simp: judge_message_def io_Inr)
    then show ?thesis using assms(2) that by (cases x) (auto simp: io_Inr)
  qed
  from judge_calls_asks [OF j] obtain asked where
    a: "hs_asked w1 = hs_asked w @ asked" "list_all2 asked_call ?calls asked" "st = decided_calls (zip ?calls (map ak_decision asked))"
    by (auto simp: decided_calls_def)
  from refuse_ended_Inr [OF e] assms(2) obtain w2 where
    s: "hs_asked w2 = hs_asked w1" "settle_turn hn ry h r output m start noted_now st released w2 = (Inr a, w')" by auto
  have "hs_asked w' = hs_asked w @ asked" using quietD [OF quiet_settle_turn s(2)] s(1) a(1) by simp
  then show ?thesis using a(2,3) settle_turn_hands [OF s(2)] c by auto
qed

lemma judge_reply_asks:
  assumes "judge_reply hn ry held released w = (Inr a, w')" "succeeded (ry_status ry)" "\<forall>rf. a \<noteq> RefuseWith rf"
  shows "\<exists>start output noted_now of_turn of_calls.
      read_reply_noted (hn_wire hn) (ry_provider ry) (ry_content_type ry) (ry_body ry) (ry_format ry) start = Inr (output, noted_now)
    \<and> hs_asked w' = hs_asked w @ of_turn @ of_calls \<and> asked_output hn output of_turn
    \<and> list_all2 asked_call (calls_to_judge hn output) of_calls
    \<and> handed_over hn ry start output released (decided_calls (zip (calls_to_judge hn output) (map ak_decision of_calls))) a"
proof -
  from assms(1,2) obtain h where h: "held = Some h" by (cases held) (auto simp: judge_reply_def io_Inr)
  define r where "r = fst (run_for (he_run h) (hs_sidecar w))"
  define w1 where "w1 = update_run r (add_conversation (he_conversation h))
    (w\<lparr>hs_sidecar := snd (run_for (he_run h) (hs_sidecar w))\<rparr>)"
  define start where "start = cv_noted (the_conversation r (he_conversation h) w1)"
  from assms(1,2) obtain mo noted_now w2 where
    rd: "read_reply_noted (hn_wire hn) (ry_provider ry) (ry_content_type ry) (ry_body ry) (ry_format ry) start = Inr (mo, noted_now)" and
    p: "pause hn w1 = (Inr (), w2)" and
    go: "refuse_ended h r (bind_io (judge_output hn h r mo) (\<lambda>refused. case refused of
           Some rf \<Rightarrow> ret (RefuseWith rf)
         | None \<Rightarrow> judge_message hn ry h r mo start noted_now released))
       (update_conversation r (he_conversation h) (\<lambda>cv. cv\<lparr>cv_noted := noted_now\<rparr>) w2) = (Inr a, w')"
    unfolding judge_reply_def h r_def w1_def start_def by (auto simp: io_Inr)
  define w3 where "w3 = update_conversation r (he_conversation h) (\<lambda>cv. cv\<lparr>cv_noted := noted_now\<rparr>) w2"
  have 3: "hs_asked w3 = hs_asked w" using p pause_asks_nothing [of hn w1] by (simp add: w1_def w3_def)
  note go = go [folded w3_def]
  from refuse_ended_Inr [OF go] assms(3) obtain w4 w5 where
    4: "hs_asked w4 = hs_asked w3" "judge_output hn h r mo w4 = (Inr None, w5)"
      "judge_message hn ry h r mo start noted_now released w5 = (Inr a, w')"
    by (auto simp: io_Inr split: option.splits)
  from judge_output_asks [OF 4(2)] judge_message_asks [OF 4(3) assms(3)] rd 3 4(1) show ?thesis
    by (metis append.assoc)
qed

lemma tell_client_tells:
  assumes "tell_client hn ry h released judged w = (Inr a, w')" "\<forall>rf. a \<noteq> RefuseWith rf"
  shows "told_with hn ry h released judged a \<and> w' = w \<and> (\<forall>rf. judged \<noteq> RefuseWith rf)"
  using assms
  by (auto simp: tell_client_def told_with_def split: if_splits answer_to.splits sum.splits)

lemma reply_asks:
  assumes "handle_reply hn ry released w = (Inr a, w')" "succeeded (ry_status ry)" "\<forall>rf. a \<noteq> RefuseWith rf"
  shows "\<exists>h start output noted_now of_turn of_calls judged.
      fst (release (ry_id ry) (hs_sidecar w)) = Some h
    \<and> read_reply_noted (hn_wire hn) (ry_provider ry) (ry_content_type ry) (ry_body ry) (ry_format ry) start = Inr (output, noted_now)
    \<and> hs_asked w' = hs_asked w @ of_turn @ of_calls \<and> asked_output hn output of_turn
    \<and> list_all2 asked_call (calls_to_judge hn output) of_calls
    \<and> handed_over hn ry start output released (decided_calls (zip (calls_to_judge hn output) (map ak_decision of_calls))) judged
    \<and> told_with hn ry h released judged a"
proof -
  obtain held s where r: "release (ry_id ry) (hs_sidecar w) = (held, s)" by fastforce
  show ?thesis
  proof (cases held)
    case None
    with assms(1,2) r show ?thesis by (auto simp: handle_reply_def answer_reply_def judge_reply_def io_Inr)
  next
    case (Some h)
    define w0 where "w0 = update_attempt (he_attempt h) (\<lambda>a. a\<lparr>ta_state := BeingJudged\<rparr>) (w\<lparr>hs_sidecar := s, hs_exchange := he_exchange h\<rparr>)"
    obtain x w1 where a: "answer_reply hn ry (Some h) released w0 = (x, w1)" by fastforce
    from assms(1) r Some a have x: "x = Inr a" "hs_asked w' = hs_asked w1"
      by (auto simp: handle_reply_def w0_def settle_reply_def Let_def)
    from a x(1) assms(2) obtain judged w2 where
      j: "judge_reply hn ry (Some h) released w0 = (Inr judged, w2)" "tell_client hn ry h released judged w2 = (Inr a, w1)"
      by (auto simp: answer_reply_def io_Inr)
    note t = tell_client_tells [OF j(2) assms(3)]
    have "hs_asked w0 = hs_asked w" by (simp add: w0_def)
    with judge_reply_asks [OF j(1) assms(2)] t x(2) r Some show ?thesis by fastforce
  qed
qed

end
