(* ===== verification/JudgedRequests.thy ===== *)
theory JudgedRequests
  imports JudgedReplies
begin

text \<open>
  What of a request goes on to the model: every result of a call the client ran was put to the sentinel,
  once however often it is sent, or is a rejection the sidecar wrote itself. This rests on the memory
  of the sidecar only growing while others go on.
\<close>

section \<open>The results a client sends\<close>

text \<open>Each result with the call it is of.\<close>

fun results_in :: "(string \<times> string list) list \<Rightarrow> calls_so_far \<Rightarrow> messages \<Rightarrow> (made_call \<times> chat_message) list" where
  "results_in said st [] = []"
| "results_in said st (entry # entries) =
     (let st' = note_calls said entry st in
      (if cm_role entry = Tool then
         (case call_made st' entry of None \<Rightarrow> [] | Some found \<Rightarrow> [(found, entry)]) else [])
      @ results_in said st' entries)"

definition judged_at :: "results_of \<Rightarrow> handler_state \<Rightarrow> string \<Rightarrow> bool" where
  "judged_at ro w digest \<longleftrightarrow> digest \<in> set (cv_judged (the_conversation (ro_run ro) (he_conversation (ro_held ro)) w))"

definition result_settled :: "sidecar_handler \<Rightarrow> results_of \<Rightarrow> handler_state \<Rightarrow> made_call \<times> chat_message \<Rightarrow> bool" where
  "result_settled hn ro w p \<longleftrightarrow> judged_at ro w (digest_of_result hn ro (fst p) (snd p)) \<or> put_back ro (snd p)"

lemma judged_at_grows:
  assumes "state_grows hn w w'" "run_there (hs_sidecar w) (ro_run ro)" "judged_at ro w digest"
  shows "judged_at ro w' digest"
proof -
  have "run_remembers (the_run (ro_run ro) w) (the_run (ro_run ro) w')"
    using assms(1,2) by (simp add: state_grows_def goes_on_well_def memory_grows_def the_run_def)
  then have "conversation_grows (the_conversation (ro_run ro) ck w) (the_conversation (ro_run ro) ck w')" for ck
    by (simp add: run_remembers_def the_conversation_in)
  then show ?thesis using assms(3) unfolding judged_at_def conversation_grows_def by blast
qed

lemma result_settled_grows:
  "state_grows hn w w' \<Longrightarrow> run_there (hs_sidecar w) (ro_run ro) \<Longrightarrow> result_settled hn ro w p \<Longrightarrow> result_settled hn ro w' p"
  using judged_at_grows by (auto simp: result_settled_def)

lemma there_grows: "state_grows hn w w' \<Longrightarrow> run_there (hs_sidecar w) r \<Longrightarrow> run_there (hs_sidecar w') r"
  by (auto simp: state_grows_def goes_on_well_def memory_grows_def run_there_def)

section \<open>One result\<close>

text \<open>The step asked about a result, of a result not judged before.\<close>

definition asked_result :: "results_of \<Rightarrow> made_call \<times> chat_message \<Rightarrow> asked_step \<Rightarrow> bool" where
  "asked_result ro p a \<longleftrightarrow>
     (case ak_step a of AfterToolCall t \<Rightarrow> at_result t = snd p \<and> at_call t = result_call ro (fst p) | _ \<Rightarrow> False)
     \<and> \<not> ends (ak_decision a)"

definition asked_newly :: "sidecar_handler \<Rightarrow> results_of \<Rightarrow> handler_state \<Rightarrow> (made_call \<times> chat_message) list \<Rightarrow> asked_step list \<Rightarrow> bool" where
  "asked_newly hn ro w results asked \<longleftrightarrow>
     (\<forall>a\<in>set asked. \<exists>p\<in>set results. asked_result ro p a \<and> \<not> result_settled hn ro w p)"

lemma mark_judged_there:
  "run_there (hs_sidecar w) (ro_run ro) \<Longrightarrow>
     judged_at ro (update_conversation (ro_run ro) (he_conversation (ro_held ro)) (mark_judged digest) w) digest"
  by (auto simp: judged_at_def the_conversation_in update_conversation_def update_run_def the_run_def run_at_def
      set_run_def run_there_def conversation_in_def mark_judged_def add_new_def)

lemma judge_unless_None:
  assumes "others_remember hn" "ToolResultStage \<in> set (hn_watched hn)" "cm_role entry = Tool"
    "run_there (hs_sidecar w) (ro_run ro)"
    "digest = digest_of_result hn ro found entry" "call = result_call ro found"
    "judge_unless_judged hn ro found call digest entry w = (Inr None, w')"
  shows "result_settled hn ro w' (found, entry)
    \<and> (\<exists>asked. hs_asked w' = hs_asked w @ asked \<and> asked_newly hn ro w [(found, entry)] asked)"
proof -
  obtain assistant proposed words index where f: "found = (assistant, proposed, words, index)" by (cases found)
  let ?cv = "the_conversation (ro_run ro) (he_conversation (ro_held ro)) w"
  show ?thesis
  proof (cases "digest \<in> set (cv_judged ?cv) \<or> put_back ro entry")
    case True
    with assms(5-7) f have "w' = w" by (simp add: judge_unless_judged_def)
    with True assms(5) show ?thesis
      by (auto simp: result_settled_def judged_at_def asked_newly_def)
  next
    case False
    with assms(7) f obtain step where
      s: "result_step hn (ro_held ro) (the_run (ro_run ro) w) ?cv assistant call index entry = Inr step" and
      m: "with_judging (he_run (ro_held ro), he_conversation (ro_held ro), digest) (judge_result_step hn ro digest call step) w = (Inr None, w')"
      by (auto simp: judge_unless_judged_def Let_def split: sum.splits)
    let ?w = "w\<lparr>hs_judging := (he_run (ro_held ro), he_conversation (ro_held ro), digest) # hs_judging w\<rparr>"
    from m obtain w1 where w1: "judge_result_step hn ro digest call step ?w = (Inr None, w1)"
      "hs_sidecar w' = hs_sidecar w1" "hs_asked w' = hs_asked w1"
      by (auto simp: with_judging_def split: prod.splits)
    from w1(1) obtain d w2 where j: "judge_step hn (ro_held ro) (ro_run ro) step ?w = (Inr d, w2)" "\<not> ends d"
      "w1 = update_conversation (ro_run ro) (he_conversation (ro_held ro)) (mark_judged digest) w2"
      by (auto simp: judge_result_step_def io_Inr split: if_splits)
    have t: "stage_of step = ToolResultStage" "step_typed step"
      "\<exists>t. step = AfterToolCall t \<and> at_result t = entry \<and> at_call t = call"
      using result_step_typed [OF s assms(3)] s by (auto simp: result_step_def Let_def split: option.splits)
    have "state_grows hn ?w w2"
      using grow_judge_step [OF assms(1), of step] t(1,2) assms(2) j(1) unfolding throughout_def by (metis snd_conv)
    then have "run_there (hs_sidecar w2) (ro_run ro)" using there_grows assms(4) by fastforce
    from mark_judged_there [OF this, of digest] have "judged_at ro w1 digest" by (simp add: j(3))
    then have "judged_at ro w' digest" by (simp add: judged_at_def the_conversation_def the_run_def w1(2))
    moreover have "asked_newly hn ro w [(found, entry)]
        [\<lparr>ak_run = ro_run ro, ak_conversation = step_conversation step, ak_step = step, ak_decision = d\<rparr>]"
      using t(3) j(2) False assms(5,6)
      by (auto simp: asked_newly_def asked_result_def result_settled_def judged_at_def)
    moreover have "hs_asked w' = hs_asked w @ [\<lparr>ak_run = ro_run ro, ak_conversation = step_conversation step, ak_step = step, ak_decision = d\<rparr>]"
      using judge_step_asks [OF j(1)] w1(3) j(3) by simp
    ultimately show ?thesis using assms(5) by (auto simp: result_settled_def)
  qed
qed

lemma quiet_await: "throughout same_asked (await_judged hn key n)"
proof (induction n)
  case (Suc n)
  have "throughout same_asked (bind_io (pause hn) (\<lambda>_. await_judged hn key n))"
    by (intro quiet Suc)
  then show ?case by (auto simp: throughout_def same_asked_def)
qed (simp add: throughout_def same_asked_def)

lemma asked_newly_earlier:
  assumes "state_grows hn w w1" "run_there (hs_sidecar w) (ro_run ro)" "asked_newly hn ro w1 results asked"
  shows "asked_newly hn ro w results asked"
  using assms result_settled_grows unfolding asked_newly_def by blast

lemma judge_result_None:
  assumes "others_remember hn" "ToolResultStage \<in> set (hn_watched hn)" "cm_role entry = Tool"
    "run_there (hs_sidecar w) (ro_run ro)" "judge_result hn ro found entry w = (Inr None, w')"
  shows "result_settled hn ro w' (found, entry)
    \<and> (\<exists>asked. hs_asked w' = hs_asked w @ asked \<and> asked_newly hn ro w [(found, entry)] asked)"
proof -
  let ?call = "result_call ro found" and ?digest = "digest_of_result hn ro found entry"
  let ?key = "(he_run (ro_held ro), he_conversation (ro_held ro), ?digest)"
  from assms(5) consider
      (now) "judge_unless_judged hn ro found ?call ?digest entry w = (Inr None, w')"
    | (waited) w1 where "await_judged hn ?key (hn_patience hn) w = (Inr (), w1)"
        "judge_unless_judged hn ro found ?call ?digest entry w1 = (Inr None, w')"
    by (auto simp: judge_result_def Let_def io_Inr split: if_splits option.splits)
  then show ?thesis
  proof cases
    case now
    then show ?thesis using judge_unless_None [OF assms(1-4) refl refl] by blast
  next
    case waited
    have g: "state_grows hn w w1" using grow_await [OF assms(1)] waited(1) unfolding throughout_def by (metis snd_conv)
    have q: "hs_asked w1 = hs_asked w" using quietD [OF quiet_await waited(1)] .
    from judge_unless_None [OF assms(1-3) there_grows [OF g assms(4)] refl refl waited(2)] q
      asked_newly_earlier [OF g assms(4)] show ?thesis by auto
  qed
qed

section \<open>Every result\<close>

lemma results_loop_None:
  assumes "others_remember hn" "ToolResultStage \<in> set (hn_watched hn)"
    "run_there (hs_sidecar w) (ro_run ro)" "results_loop hn ro said st entries w = (Inr None, w')"
  shows "(\<forall>p\<in>set (results_in said st entries). result_settled hn ro w' p)
    \<and> (\<exists>asked. hs_asked w' = hs_asked w @ asked \<and> asked_newly hn ro w (results_in said st entries) asked)"
  using assms(3,4)
proof (induction entries arbitrary: st w)
  case Nil
  then show ?case by (simp add: io_Inr asked_newly_def)
next
  case (Cons entry entries)
  let ?st = "note_calls said entry st"
  show ?case
  proof (cases "cm_role entry = Tool")
    case False
    with Cons.prems have "results_loop hn ro said ?st entries w = (Inr None, w')" by (simp add: Let_def)
    from Cons.IH [OF Cons.prems(1) this] False show ?thesis by (simp add: Let_def)
  next
    case True
    with Cons.prems(2) obtain found w1 where f: "call_made ?st entry = Some found"
      and j: "judge_result hn ro found entry w = (Inr None, w1)"
      and l: "results_loop hn ro said ?st entries w1 = (Inr None, w')"
      by (auto simp: Let_def io_Inr split: option.splits)
    have g: "state_grows hn w w1"
      using grow_judge_result [OF assms(1,2) True] j unfolding throughout_def by (metis snd_conv)
    have g': "state_grows hn w1 w'" using grow_results_loop [OF assms(1,2)] l unfolding throughout_def by (metis snd_conv)
    note t = there_grows [OF g Cons.prems(1)]
    from judge_result_None [OF assms(1,2) True Cons.prems(1) j] obtain asked where
      a: "result_settled hn ro w1 (found, entry)" "hs_asked w1 = hs_asked w @ asked"
        "asked_newly hn ro w [(found, entry)] asked" by blast
    from Cons.IH [OF t l] obtain more' where
      b: "\<forall>p\<in>set (results_in said ?st entries). result_settled hn ro w' p" "hs_asked w' = hs_asked w1 @ more'"
        "asked_newly hn ro w1 (results_in said ?st entries) more'" by blast
    from asked_newly_earlier [OF g Cons.prems(1) b(3)] a(3)
    have n: "asked_newly hn ro w (results_in said st (entry # entries)) (asked @ more')"
      using f True by (auto simp: asked_newly_def Let_def)
    from result_settled_grows [OF g' t a(1)] b(1) f True
    have "\<forall>p\<in>set (results_in said st (entry # entries)). result_settled hn ro w' p" by (auto simp: Let_def)
    with n a(2) b(2) show ?thesis by (metis append.assoc)
  qed
qed

lemma judge_results_None:
  assumes "others_remember hn" "ToolResultStage \<in> set (hn_watched hn)"
    "run_there (hs_sidecar w) (ro_run ro)" "judge_results hn ro said client w = (Inr None, w')"
  shows "(\<forall>p\<in>set (results_in said ([], []) client). result_settled hn ro w' p)
    \<and> (\<exists>asked. hs_asked w' = hs_asked w @ asked \<and> asked_newly hn ro w (results_in said ([], []) client) asked)"
proof -
  let ?w = "update_conversation (ro_run ro) (he_conversation (ro_held ro)) (issue_calls (ro_calls ro)) w"
  have g: "state_grows hn w ?w" by (rule grow_conversation) simp
  from assms(2,4) have "results_loop hn ro said ([], []) client ?w = (Inr None, w')"
    by (auto simp: judge_results_def io_Inr)
  from results_loop_None [OF assms(1,2) there_grows [OF g assms(3)] this] asked_newly_earlier [OF g assms(3)]
  show ?thesis by auto
qed

text \<open>A result that was settled is not asked about again, however the request state_grows.\<close>

lemma judged_once:
  assumes "others_remember hn" "ToolResultStage \<in> set (hn_watched hn)" "run_there (hs_sidecar w) (ro_run ro)"
    "judge_results hn ro said client w = (Inr None, w1)" "state_grows hn w1 w2"
    "ro_run later = ro_run ro" "he_conversation (ro_held later) = he_conversation (ro_held ro)"
    "ro_ran later = ro_ran ro" "set (ro_restored ro) \<subseteq> set (ro_restored later)"
    "judge_results hn later said' client' w2 = (Inr None, w3)"
  shows "\<exists>asked. hs_asked w3 = hs_asked w2 @ asked
    \<and> (\<forall>a\<in>set asked. \<exists>p\<in>set (results_in said' ([], []) client') - set (results_in said ([], []) client). asked_result later p a)"
proof -
  have g: "state_grows hn w w1" using grow_judge_results [OF assms(1)] assms(4) unfolding throughout_def by (metis snd_conv)
  note t1 = there_grows [OF g assms(3)] and t2 = there_grows [OF assms(5) there_grows [OF g assms(3)]]
  have same_at: "result_settled hn later u p" if "result_settled hn ro u p" for u p
    using that assms(6-9)
    by (auto simp: result_settled_def judged_at_def digest_of_result_def result_call_def put_back_def
        split: option.splits prod.splits)
  have "\<forall>p\<in>set (results_in said ([], []) client). result_settled hn later w2 p"
    using judge_results_None [OF assms(1-4)] result_settled_grows [OF assms(5) t1] same_at by blast
  with judge_results_None [OF assms(1,2) _ assms(10)] t2 assms(6) show ?thesis
    unfolding asked_newly_def by fastforce
qed

section \<open>A whole request\<close>

definition results_of_request :: "held \<Rightarrow> nat \<Rightarrow> read_in \<Rightarrow> string list \<Rightarrow> results_of" where
  "results_of_request h r ri back_again =
     \<lparr>ro_held = h, ro_run = r, ro_calls = count_calls (ri_client ri),
      ro_restored = ad_restored (ri_amended ri) @ back_again, ro_ran = changed_calls (ri_edited ri)\<rparr>"

definition asked_request :: "sidecar_handler \<Rightarrow> messages \<Rightarrow> asked_step list \<Rightarrow> bool" where
  "asked_request hn messages asked \<longleftrightarrow>
     (if ModelInput \<in> set (hn_watched hn) then
        (case asked of
           [a] \<Rightarrow> (case ak_step a of BeforeGenerate t \<Rightarrow> bg_input t = messages | _ \<Rightarrow> False) \<and> \<not> ends (ak_decision a)
         | _ \<Rightarrow> False)
      else asked = [])"

lemma judge_request_asks:
  assumes "judge_request hn h r messages w = (Inr None, w')"
  shows "\<exists>asked. hs_asked w' = hs_asked w @ asked \<and> asked_request hn messages asked"
proof (cases "ModelInput \<in> set (hn_watched hn)")
  case True
  with assms obtain cv d where j: "judge_step hn h r (request_step h cv messages) w = (Inr d, w')" "\<not> ends d"
    by (auto simp: judge_request_def io_Inr split: if_splits)
  with judge_step_asks [OF j(1)] True show ?thesis by (auto simp: asked_request_def request_step_def)
qed (use assms in \<open>auto simp: judge_request_def asked_request_def io_Inr\<close>)

lemma the_run_update:
  "the_run r (update_run r f w) = (if run_there (hs_sidecar w) r then f (the_run r w) else the_run r w)"
proof (cases "run_there (hs_sidecar w) r")
  case True
  then show ?thesis by (simp add: update_run_def the_run_def run_at_def set_run_def run_there_def)
next
  case False
  then show ?thesis by (simp add: update_run_def the_run_def run_at_def set_run_def run_there_def list_update_beyond)
qed

lemma conversation_update_ends:
  "rn_refusal (the_run r (update_conversation r ck f w)) = rn_refusal (the_run r w)"
  "rn_ended_at (the_run r (update_conversation r ck f w)) = rn_ended_at (the_run r w)"
  by (simp_all add: update_conversation_def the_run_update)

lemma pass_on_keeps:
  assumes "pass_on_request hn rq h r ri w = (Inr a, w')"
  shows "hs_asked w' = hs_asked w" "ended_refusal_of (the_run r w') marks = ended_refusal_of (the_run r w) marks"
proof -
  let ?w = "update_conversation r (he_conversation h) (\<lambda>cv. record_sent (hn_history hn) cv (ri_messages ri)
           (case ad_body (ri_amended ri) of None \<Rightarrow> rq_body rq | Some body \<Rightarrow> body)) w"
  from assms have w': "w' = ?w\<lparr>hs_sidecar := hold (rq_id rq) (h\<lparr>he_exchange := hs_exchange ?w\<rparr>) (hs_sidecar ?w)\<rparr>"
    by (auto simp: pass_on_request_def io_Inr)
  show "hs_asked w' = hs_asked w" by (simp add: w')
  have "sc_run_objects (hs_sidecar w') = sc_run_objects (hs_sidecar ?w)"
    using leaves_hold [of "hs_sidecar ?w" "rq_id rq" "h\<lparr>he_exchange := hs_exchange ?w\<rparr>"]
    unfolding w' leaves_runs_def by simp
  then have "the_run r w' = the_run r ?w" by (simp add: the_run_def run_at_def)
  then have e: "rn_refusal (the_run r w') = rn_refusal (the_run r w)" "rn_ended_at (the_run r w') = rn_ended_at (the_run r w)"
    by (simp_all only: conversation_update_ends)
  show "ended_refusal_of (the_run r w') marks = ended_refusal_of (the_run r w) marks"
    unfolding ended_refusal_of_def e by (rule refl)
qed

lemma first_refusal_None:
  "first_refusal (c # cs) w = (Inr None, w') \<longleftrightarrow> (\<exists>w1. c w = (Inr None, w1) \<and> first_refusal cs w1 = (Inr None, w'))"
  by (auto simp: io_Inr split: option.splits)

lemma judge_read_passes:
  assumes "judge_read_request hn rq h r ri w = (Inr a, w')" "\<forall>rf. a \<noteq> RefuseWith rf"
    "others_remember hn" "ToolResultStage \<in> set (hn_watched hn)" "run_there (hs_sidecar w) r"
  shows "\<exists>said back_again asked of_request.
      call_texts (hn_wire hn) (rq_provider rq) (rq_body rq) (rq_format rq) = Inr said
    \<and> held_rejections (hn_wire hn) (rq_provider rq) (rq_body rq) (ri_refused ri) (rq_format rq) = Inr back_again
    \<and> (\<forall>p\<in>set (results_in said ([], []) (ri_client ri)). result_settled hn (results_of_request h r ri back_again) w' p)
    \<and> hs_asked w' = hs_asked w @ asked @ of_request
    \<and> asked_newly hn (results_of_request h r ri back_again) w (results_in said ([], []) (ri_client ri)) asked
    \<and> asked_request hn (ri_messages ri) of_request
    \<and> ended_refusal_of (the_run r w') (he_marks h) = None"
proof -
  from assms(1) obtain said back_again x w3 where
    s: "call_texts (hn_wire hn) (rq_provider rq) (rq_body rq) (rq_format rq) = Inr said"
      "held_rejections (hn_wire hn) (rq_provider rq) (rq_body rq) (ri_refused ri) (rq_format rq) = Inr back_again" and
    f: "first_refusal
          [judge_results hn (results_of_request h r ri back_again) said (ri_client ri),
           judge_request hn h r (ri_messages ri), ended_now h r] w = (Inr x, w3)" and
    k: "(case x of Some rf \<Rightarrow> refuse_with_field hn (he_proxy h) TerminateOutcome rf
         | None \<Rightarrow> pass_on_request hn rq h r ri) w3 = (Inr a, w')"
    by (auto simp: judge_read_request_def results_of_request_def io_Inr simp del: first_refusal.simps)
  let ?ro = "results_of_request h r ri back_again"
  have x: "x = None" using k assms(2) by (cases x) (auto simp: refuse_with_field_def)
  with f obtain w1 w2 where
    1: "judge_results hn ?ro said (ri_client ri) w = (Inr None, w1)" and
    2: "judge_request hn h r (ri_messages ri) w1 = (Inr None, w2)" and
    3: "ended_refusal_of (the_run r w2) (he_marks h) = None" "w3 = w2"
    by (auto simp: first_refusal_None ended_now_def io_Inr simp del: first_refusal.simps(2))
  have r: "ro_run ?ro = r" by (simp add: results_of_request_def)
  have g1: "state_grows hn w w1" using grow_judge_results [OF assms(3)] 1 unfolding throughout_def by (metis snd_conv)
  have g2: "state_grows hn w1 w2" using grow_judge_request [OF assms(3)] 2 unfolding throughout_def by (metis snd_conv)
  from k x 3(2) have p: "pass_on_request hn rq h r ri w2 = (Inr a, w')" by simp
  have g3: "state_grows hn w2 w'" using grow_pass_on [of hn rq h r ri] p unfolding throughout_def by (metis snd_conv)
  from judge_results_None [OF assms(3,4) _ 1] assms(5) r obtain asked where
    a: "\<forall>p\<in>set (results_in said ([], []) (ri_client ri)). result_settled hn ?ro w1 p" "hs_asked w1 = hs_asked w @ asked"
      "asked_newly hn ?ro w (results_in said ([], []) (ri_client ri)) asked" by auto
  from judge_request_asks [OF 2] obtain of_request where
    b: "hs_asked w2 = hs_asked w1 @ of_request" "asked_request hn (ri_messages ri) of_request" by blast
  have "run_there (hs_sidecar w1) (ro_run ?ro)" using there_grows [OF g1] assms(5) r by simp
  with a(1) have "\<forall>p\<in>set (results_in said ([], []) (ri_client ri)). result_settled hn ?ro w' p"
    using result_settled_grows [OF state_grows_trans [OF g2 g3]] by blast
  with s a(2,3) b pass_on_keeps [OF p] 3(1) show ?thesis by auto
qed

lemma read_in_client:
  assumes "read_request_in hn rq r ck marks w = (Inr (ri, sends), w')"
  shows "\<exists>start. read_request (hn_wire hn) (rq_provider rq) (rq_body rq) (rq_format rq) start = Inr (ri_client ri)"
  using assms by (fastforce simp: read_request_in_def Let_def io_Inr split: if_splits option.splits)

lemma quiet_find_eval: "throughout same_asked (find_eval hn sample r)"
  unfolding find_eval_def eval_for_def by (intro quiet always_cases) simp

lemma quiet_read_in: "throughout same_asked (read_request_in hn rq r ck marks)"
  unfolding read_request_in_def Let_def by (intro quiet always_cases)

lemma settled_attempt [simp]:
  "result_settled hn ro (update_attempt a f w) p = result_settled hn ro w p"
  "the_run r (update_attempt a f w) = the_run r w"
proof -
  have "sc_run_objects (hs_sidecar (update_attempt a f w)) = sc_run_objects (hs_sidecar w)"
    by (simp add: update_attempt_def Let_def split: option.splits)
  then show r: "the_run r (update_attempt a f w) = the_run r w" for r by (simp add: the_run_def run_at_def)
  show "result_settled hn ro (update_attempt a f w) p = result_settled hn ro w p"
    by (simp add: result_settled_def judged_at_def the_conversation_in r)
qed

definition request_judged ::
  "sidecar_handler \<Rightarrow> proxy_request \<Rightarrow> nat \<Rightarrow> string list \<Rightarrow> handler_state \<Rightarrow> handler_state \<Rightarrow> bool" where
  "request_judged hn rq r marks w w' \<longleftrightarrow> (\<exists>h ri sends start u v said back_again asked of_request.
      read_request_in hn rq r (he_conversation h) marks u = (Inr (ri, sends), v)
    \<and> read_request (hn_wire hn) (rq_provider rq) (rq_body rq) (rq_format rq) start = Inr (ri_client ri)
    \<and> call_texts (hn_wire hn) (rq_provider rq) (rq_body rq) (rq_format rq) = Inr said
    \<and> held_rejections (hn_wire hn) (rq_provider rq) (rq_body rq) (ri_refused ri) (rq_format rq) = Inr back_again
    \<and> (\<forall>p\<in>set (results_in said ([], []) (ri_client ri)). result_settled hn (results_of_request h r ri back_again) w' p)
    \<and> hs_asked w' = hs_asked w @ asked @ of_request
    \<and> asked_newly hn (results_of_request h r ri back_again) v (results_in said ([], []) (ri_client ri)) asked
    \<and> asked_request hn (ri_messages ri) of_request
    \<and> ended_refusal_of (the_run r w') marks = None)"

lemma going_on_judged:
  assumes "answer_going_on hn rq sample attempt opening r marks w = (Inr a, w')" "\<forall>rf. a \<noteq> RefuseWith rf"
    "others_remember hn" "ToolResultStage \<in> set (hn_watched hn)" "run_there (hs_sidecar w) r"
  shows "request_judged hn rq r marks w w'"
proof -
  let ?ck = "conversation_key sample opening"
  from assms(1) obtain w1 ri sends w2 f where
    e: "find_eval hn sample r w = (Inr (), w1)" and
    d: "read_request_in hn rq r ?ck marks (update_run r (add_conversation ?ck) w1) = (Inr (ri, sends), w2)" and
    k: "bind_io (on_sidecar (recorder_for (rq_id rq))) (\<lambda>recorder.
       judge_read_request hn rq
         (hold_of hn rq sample attempt (proxy_of rq sample) opening marks (the_run r w2) (ri, sends) f recorder) r ri) w2 = (Inr a, w')"
    by (auto simp: answer_going_on_def io_Inr simp del: bind_io_Inr) (auto simp: bind_io_Inr io_Inr)
  obtain recorder s where rec: "recorder_for (rq_id rq) (hs_sidecar w2) = (recorder, s)" by fastforce
  define w3 where "w3 = w2\<lparr>hs_sidecar := s\<rparr>"
  define h where "h = hold_of hn rq sample attempt (proxy_of rq sample) opening marks (the_run r w2) (ri, sends) f recorder"
  have hm: "he_marks h = marks" "he_conversation h = ?ck" by (simp_all add: h_def hold_of_def)
  from k have j: "judge_read_request hn rq h r ri w3 = (Inr a, w')"
    by (simp add: bind_io_def on_sidecar_def rec w3_def h_def)
  have ge: "state_grows hn w w1" using grow_find_eval [of hn sample r] e unfolding throughout_def by (metis snd_conv)
  have gd: "state_grows hn (update_run r (add_conversation ?ck) w1) w2"
    using grow_read_in [OF assms(3)] d unfolding throughout_def by (metis snd_conv)
  have g2: "state_grows hn w w2" using state_grows_trans [OF state_grows_trans [OF ge grow_run [OF add_conversation_remembers]] gd] .
  have g3: "state_grows hn w2 w3"
    using grow_recorder_for [of hn "rq_id rq"] unfolding throughout_def on_sidecar_def w3_def
    by (metis (mono_tags, lifting) case_prod_conv rec snd_conv)
  have q: "hs_asked w2 = hs_asked w"
    using quietD [OF quiet_find_eval, of hn sample r, OF e] quietD [OF quiet_read_in, of hn rq r, OF d] by simp
  note t2 = there_grows [OF g2 assms(5)]
  from judge_read_passes [OF j assms(2-4) there_grows [OF g3 t2]] obtain said back_again asked of_request where
    p: "call_texts (hn_wire hn) (rq_provider rq) (rq_body rq) (rq_format rq) = Inr said"
      "held_rejections (hn_wire hn) (rq_provider rq) (rq_body rq) (ri_refused ri) (rq_format rq) = Inr back_again"
      "\<forall>p\<in>set (results_in said ([], []) (ri_client ri)). result_settled hn (results_of_request h r ri back_again) w' p"
      "hs_asked w' = hs_asked w3 @ asked @ of_request"
      "asked_newly hn (results_of_request h r ri back_again) w3 (results_in said ([], []) (ri_client ri)) asked"
      "asked_request hn (ri_messages ri) of_request" "ended_refusal_of (the_run r w') (he_marks h) = None" by blast
  have "asked_newly hn (results_of_request h r ri back_again) w2 (results_in said ([], []) (ri_client ri)) asked"
    by (rule asked_newly_earlier [OF g3 _ p(5)]) (simp add: results_of_request_def t2)
  note newly = this
  from read_in_client [OF d] obtain start where
    st: "read_request (hn_wire hn) (rq_provider rq) (rq_body rq) (rq_format rq) start = Inr (ri_client ri)" by blast
  show ?thesis
    unfolding request_judged_def
    by (rule exI [of _ h], rule exI [of _ ri], rule exI [of _ sends], rule exI [of _ start],
        rule exI [of _ "update_run r (add_conversation ?ck) w1"], rule exI [of _ w2], rule exI [of _ said],
        rule exI [of _ back_again], rule exI [of _ asked], rule exI [of _ of_request])
      (use d st p newly q hm in \<open>simp add: w3_def\<close>)
qed

lemma run_found:
  assumes "answer_request hn rq sample attempt w = (Inr a, w')" "others_remember hn" "runs_ok (hs_sidecar w)"
  shows "\<exists>opening r w1. answer_in_run hn rq sample attempt opening r w1 = (Inr a, w')
    \<and> run_there (hs_sidecar w1) r \<and> hs_asked w1 = hs_asked w"
proof -
  from assms(1) obtain first w1 where p: "pause hn w = (Inr (), w1)" and
    k: "bind_io (on_sidecar (run_for (request_key sample (opening_of hn first)))) (\<lambda>r.
       answer_in_run hn rq sample attempt (opening_of hn first) r) w1 = (Inr a, w')"
    by (auto simp: answer_request_def io_Inr simp del: bind_io_Inr on_sidecar_Inr) (auto simp: bind_io_Inr io_Inr)
  have "state_grows hn w w1"
    using growing.always_pause [OF others_grow [OF assms(2)]] p unfolding throughout_def by (metis snd_conv)
  then have ok: "runs_ok (hs_sidecar w1)" using assms(3) by (simp add: state_grows_def goes_on_well_def)
  obtain r s where f: "run_for (request_key sample (opening_of hn first)) (hs_sidecar w1) = (r, s)" by fastforce
  have "hs_asked w1 = hs_asked w" using pause_asks_nothing p by (metis snd_conv)
  moreover have "run_there s r" using run_for_ok(3) [OF ok f] .
  moreover have "answer_in_run hn rq sample attempt (opening_of hn first) r (w1\<lparr>hs_sidecar := s\<rparr>) = (Inr a, w')"
    using k by (simp add: bind_io_def on_sidecar_def f)
  ultimately show ?thesis by (intro exI [of _ "opening_of hn first"] exI [of _ r] exI [of _ "w1\<lparr>hs_sidecar := s\<rparr>"]) simp
qed

lemma request_asks:
  assumes "handle_request hn rq w = (Inr a, w')" "\<forall>rf. a \<noteq> RefuseWith rf" "others_remember hn"
    "ToolResultStage \<in> set (hn_watched hn)" "runs_ok (hs_sidecar w)"
  shows "\<exists>r marks. request_marks (hn_wire hn) (rq_provider rq) (rq_body rq) (rq_format rq) = Inr marks
    \<and> request_judged hn rq r marks w w'"
proof -
  obtain attempt w0 where b: "begin_request rq w = (attempt, w0)" by fastforce
  then have g: "state_grows hn w w0" "hs_asked w0 = hs_asked w" using grow_begin_request begin_keeps by (metis snd_conv)+
  from assms(1,2) b obtain sample w1 where
    s: "answer_request hn rq sample attempt (w0\<lparr>hs_exchange := new_exchange\<rparr>) = (Inr a, w1)"
      "w' = settle_request attempt (Inr a) w1"
    by (auto simp: handle_request_def split: sum.splits failure.splits prod.splits)
  have "runs_ok (hs_sidecar (w0\<lparr>hs_exchange := new_exchange\<rparr>))" using g(1) assms(5) by (simp add: state_grows_def goes_on_well_def)
  from run_found [OF s(1) assms(3) this] obtain begins r w2 where
    r: "answer_in_run hn rq sample attempt begins r w2 = (Inr a, w1)" "run_there (hs_sidecar w2) r" "hs_asked w2 = hs_asked w"
    using g(2) by auto
  from r(1) assms(2) obtain marks where
    m: "request_marks (hn_wire hn) (rq_provider rq) (rq_body rq) (rq_format rq) = Inr marks"
      "answer_going_on hn rq sample attempt begins r marks w2 = (Inr a, w1)"
    by (auto simp: answer_in_run_def io_Inr split: option.splits)
  from going_on_judged [OF m(2) assms(2-4) r(2)] have "request_judged hn rq r marks w2 w1" .
  then have "request_judged hn rq r marks w w'"
    unfolding request_judged_def s(2) settle_request_def by (simp add: r(3))
  with m(1) show ?thesis by blast
qed

end
