(* ===== verification/HandlerProps.thy ===== *)
theory HandlerProps
  imports JudgedRequests
begin

text \<open>
  What holds of the handler as a whole: what it remembers, what it asks, what it lets through, and how
  refused turns add up. The last section tries it on a small sidecar.
\<close>

section \<open>Refused turns\<close>

lemma add_turn_there:
  "\<exists>p\<in>set (cv_rejected (add_turn h turn written cv)). rj_added p \<and> rj_sent p = he_sent h \<and> rj_mark p = he_mark h
     \<and> turn \<in> set (rj_turns p)"
proof (cases "first_place (\<lambda>p. rj_sent p = he_sent h \<and> rj_mark p = he_mark h \<and> rj_added p) (cv_rejected cv)")
  case (Some i)
  then have i: "i < length (cv_rejected cv)" "rj_sent (cv_rejected cv ! i) = he_sent h"
    "rj_mark (cv_rejected cv ! i) = he_mark h" "rj_added (cv_rejected cv ! i)"
    by (auto simp: first_place_def find_Some_iff)
  with Some show ?thesis
    by (intro bexI [of _ "(cv_rejected cv ! i)\<lparr>rj_turns := rj_turns (cv_rejected cv ! i) @ [turn],
          rj_written := rj_written (cv_rejected cv ! i) @ [written]\<rparr>"])
      (auto simp: add_turn_def Let_def intro: set_update_memI)
qed (simp add: add_turn_def Let_def)

lemma the_conversation_update:
  "run_there (hs_sidecar w) r \<Longrightarrow> the_conversation r ck (update_conversation r ck f w) = f (the_conversation r ck w)"
  by (simp add: the_conversation_in update_conversation_def the_run_update conversation_in_set)

lemma update_run_there: "run_there (hs_sidecar (update_run r f w)) r = run_there (hs_sidecar w) r"
  by (simp add: update_run_def set_run_def run_there_def)

lemma exchange_parts [simp]:
  "hs_sidecar (update_exchange f w) = hs_sidecar w" "hs_exchange (update_exchange f w) = f (hs_exchange w)"
  "hs_exchange (update_run r g w) = hs_exchange w"
  by (simp_all add: update_exchange_def update_run_def)

lemma the_run_exchange [simp]: "the_run r (update_exchange f w) = the_run r w"
  by (simp add: the_run_def)

lemma ended_here:
  assumes "run_there (hs_sidecar w) r" "end_here h r spot w = (Inr rf, w')"
  shows "he_named h \<Longrightarrow> rn_refusal (the_run r w') = Some rf"
    "\<not> he_named h \<Longrightarrow> he_answered h \<Longrightarrow> map_of (rn_ended_at (the_run r w')) (he_mark h) = Some rf"
    "xc_ended (hs_exchange w')"
  using assms by (auto simp: end_here_def the_run_update end_of_def)

lemma in_a_row_kept: "rn_in_a_row (the_run r (update_conversation r ck f w)) = rn_in_a_row (the_run r w)"
  by (simp add: update_conversation_def the_run_update)

lemma reject_turn_third:
  assumes "run_there (hs_sidecar w) r" "reject_turn hn h r m noted_now rejected w = (Inr a, w')"
    "2 \<le> nat_at (rn_in_a_row (the_run r w)) (he_sample_attempt h)"
  shows "\<exists>rf. a = RefuseWith rf \<and> xc_ended (hs_exchange w') \<and> (he_named h \<longrightarrow> rn_refusal (the_run r w') = Some rf)
    \<and> (\<not> he_named h \<and> he_answered h \<longrightarrow> map_of (rn_ended_at (the_run r w')) (he_mark h) = Some rf)"
proof -
  from assms(2,3) obtain spot rf f g where e: "end_here h r spot (update_run r f (update_exchange g w)) = (Inr rf, w')" "a = RefuseWith rf"
    by (auto simp: reject_turn_def Let_def io_Inr max_rejections_def split: option.splits)
  have "run_there (hs_sidecar (update_run r f (update_exchange g w))) r" using assms(1) by (simp add: update_run_there)
  from ended_here [OF this e(1)] e(2) show ?thesis by blast
qed

lemma reject_turn_kept:
  assumes "others_remember hn" "run_there (hs_sidecar w) r" "reject_turn hn h r m noted_now rejected w = (Inr a, w')"
    "n = nat_at (rn_in_a_row (the_run r w)) (he_sample_attempt h)" "n < 2"
  shows "\<exists>rf p. a = RefuseWith rf \<and> rf_status rf = hn_reject_status hn
    \<and> nat_at (rn_in_a_row (the_run r w')) (he_sample_attempt h) = Suc n
    \<and> p \<in> set (cv_rejected (the_conversation r (he_conversation h) w')) \<and> rj_added p
    \<and> rj_sent p = he_sent h \<and> rj_mark p = he_mark h \<and> (m, told_of (reasons_of rejected) m, noted_now) \<in> set (rj_turns p)"
proof -
  from assms(3-5) obtain written w1 g where p: "pause hn w = (Inr (), w1)" and
    w': "w' = update_conversation r (he_conversation h) (add_turn h (m, told_of (reasons_of rejected) m, noted_now) written)
      (update_run r (\<lambda>run. run\<lparr>rn_in_a_row := dict_set (rn_in_a_row run) (he_sample_attempt h) (Suc n)\<rparr>) (update_exchange g w1))" and
    a: "\<exists>rf. a = RefuseWith rf \<and> rf_status rf = hn_reject_status hn"
    by (auto simp: reject_turn_def Let_def io_Inr max_rejections_def split: option.splits)
  let ?u = "update_run r (\<lambda>run. run\<lparr>rn_in_a_row := dict_set (rn_in_a_row run) (he_sample_attempt h) (Suc n)\<rparr>) (update_exchange g w1)"
  have "state_grows hn w w1"
    using growing.always_pause [OF others_grow [OF assms(1)]] p unfolding throughout_def by (metis snd_conv)
  then have t: "run_there (hs_sidecar w1) r" using there_grows assms(2) by blast
  then have u: "run_there (hs_sidecar ?u) r" by (simp add: update_run_there)
  have "nat_at (rn_in_a_row (the_run r w')) (he_sample_attempt h) = Suc n"
    unfolding w' in_a_row_kept using t by (simp add: the_run_update nat_at_set)
  moreover have "the_conversation r (he_conversation h) w'
      = add_turn h (m, told_of (reasons_of rejected) m, noted_now) written (the_conversation r (he_conversation h) ?u)"
    unfolding w' by (rule the_conversation_update [OF u])
  moreover obtain q where
    "q \<in> set (cv_rejected (add_turn h (m, told_of (reasons_of rejected) m, noted_now) written (the_conversation r (he_conversation h) ?u)))"
    "rj_added q \<and> rj_sent q = he_sent h \<and> rj_mark q = he_mark h \<and> (m, told_of (reasons_of rejected) m, noted_now) \<in> set (rj_turns q)"
    using add_turn_there by blast
  moreover obtain rf where "a = RefuseWith rf" "rf_status rf = hn_reject_status hn" using a by blast
  ultimately show ?thesis by (intro exI [of _ rf] exI [of _ q]) simp
qed
section \<open>A small sidecar\<close>

definition demo_message :: "role \<Rightarrow> string \<Rightarrow> tool_call list option \<Rightarrow> string option \<Rightarrow> chat_message" where
  "demo_message r t calls result =
     \<lparr>cm_role = r, cm_id = Some ''m'', cm_content = Text t, cm_text = t, cm_content_list = [TextItem t],
      cm_model = None, cm_tool_calls = calls, cm_tool_call_id = result, cm_error = None\<rparr>"

definition demo_messages :: messages where
  "demo_messages =
     [demo_message User ''go'' None None, demo_message Assistant ''ok'' (Some [a_call ''a'']) None,
      demo_message Tool ''done'' None (Some ''a'')]"

text \<open>The model proposes a call, which the sentinel changes.\<close>

definition demo_call :: "int \<Rightarrow> tool_call" where
  "demo_call n = (a_call ''b'')\<lparr>tc_arguments := [(''n'', JInt n)]\<rparr>"

definition demo_turn :: "int \<Rightarrow> model_output" where
  "demo_turn n =
     \<lparr>mo_model = ''m'', mo_choices = [\<lparr>ch_message = demo_message Assistant ''now'' (Some [demo_call n]) None,
        ch_stop_reason = ''tool_calls''\<rparr>]\<rparr>"

definition demo_api :: wire_api where
  "demo_api =
     \<lparr>wa_conversation = ''messages'', wa_read = \<lambda>_ _. Inr demo_messages, wa_offered = \<lambda>_. Inr ([], None, JNull),
      wa_rejected_turn = \<lambda>_ _ _. Inr [], wa_settled = \<lambda>e. e, wa_turn_at = \<lambda>_ _. None, wa_call_ids = \<lambda>_. [],
      wa_call_of = \<lambda>_. (None, JNull, JNull, JNull), wa_result_of = \<lambda>_. (JNull, JNull), wa_results_in = \<lambda>_. [],
      wa_pick = \<lambda>_ i. Inr (JStr i, [])\<rparr>"

definition demo_wire :: wire where
  "demo_wire =
     \<lparr>wr_loads = \<lambda>_. Some (JObj [(''messages'', JList [JStr ''x'', JStr ''y''])]), wr_dumps = \<lambda>_. [], wr_sorted = \<lambda>_. ''s'',
      wr_str = \<lambda>_. [], wr_hash = \<lambda>t. t, wr_api = \<lambda>_. demo_api,
      wr_anthropic_reply = \<lambda>_ _ _. Inl (OtherFailure []),
      wr_openai_reply = \<lambda>_ _ body _. Inr (demo_turn (if body = ''edited'' then 2 else 1), None),
      wr_anthropic_edit = \<lambda>_ _ _. Inl (OtherFailure []), wr_openai_edit = \<lambda>_ _ _ _. Inr ''edited''\<rparr>"

definition demo_sentinel :: sentinel where
  "demo_sentinel eval proxy store step =
     (Inr (case step of
        BeforeToolCall t \<Rightarrow> Some ((plain_decision Modify None [])\<lparr>d_modified := Some (demo_call 2)\<rparr>)
      | _ \<Rightarrow> None), [], store)"

definition demo_handler :: "(nat \<Rightarrow> handler_state \<Rightarrow> handler_state) \<Rightarrow> sidecar_handler" where
  "demo_handler others =
     \<lparr>hn_edit = \<lparr>ec_wire = demo_wire, ec_rest = \<lambda>_. []\<rparr>,
      hn_history = \<lparr>hy_loads = \<lambda>_. None, hy_dump = \<lambda>_. [], hy_text = \<lambda>_. [], hy_digest = \<lambda>t. t\<rparr>,
      hn_field = \<lparr>fd_call = \<lambda>_. JNull, fd_decision = \<lambda>_ _. JNull, fd_report = \<lambda>_. JNull, fd_message = \<lambda>_. JNull,
        fd_error = \<lambda>_. []\<rparr>,
      hn_header = \<lambda>h. if h = ''sample'' then Some \<lparr>sm_eval_id = ''e'', sm_task = ''t'', sm_sample_id = JInt 1, sm_epoch = 1,
        sm_uuid = ''u'', sm_attempt = ''1''\<rparr> else None,
      hn_sentinel = demo_sentinel, hn_watched = [ModelInput, ModelOutputStage, ToolCallStage, ToolResultStage],
      hn_reject_status = 400, hn_time_limit = [], hn_eval_results = True, hn_tasks = [], hn_runtime_registration = True,
      hn_task_expiry = 10, hn_max_registrations = 10, hn_call_type = \<lambda>_. JNull, hn_result_dump = \<lambda>_. [],
      hn_viewed_tools = [], hn_view = \<lambda>_ _. JNull, hn_others = others, hn_expires = \<lambda>_. False, hn_patience = 3\<rparr>"

definition idle :: sidecar_handler where
  "idle = demo_handler (\<lambda>n w. w)"

text \<open>Beside the handler's own requests, an eval ends a sample at every wait.\<close>

definition busy :: sidecar_handler where
  "busy = demo_handler (\<lambda>n w. do_handler_ops idle w [OnEndSample ''other''])"

definition demo_request :: "(string \<times> string) list \<Rightarrow> proxy_request" where
  "demo_request headers =
     \<lparr>rq_id = ''1'', rq_provider = ''openai'', rq_model = ''m'', rq_user = None, rq_body = ''body'', rq_headers = headers,
      rq_format = Some OpenAIChat\<rparr>"

definition demo_reply :: proxy_reply where
  "demo_reply =
     \<lparr>ry_id = ''1'', ry_provider = ''openai'', ry_status = 200, ry_content_type = ''application/json'', ry_body = ''reply'',
      ry_format = Some OpenAIChat\<rparr>"

lemma idle_remembers: "others_remember idle"
  by (simp add: others_remember_def idle_def demo_handler_def)

lemma busy_remembers: "others_remember busy"
  by (rule others_by_handler [OF idle_remembers, of _ "\<lambda>_. [OnEndSample ''other'']"]) (simp add: busy_def demo_handler_def)

definition demo_request_held :: held where
  "demo_request_held =
     \<lparr>he_run = ''r'', he_conversation = ''c'', he_named = False, he_sample_attempt = [], he_answered = True, he_model = ''m'',
      he_format = OpenAIChat, he_recorder = 0, he_input = demo_messages, he_calls = [(''a'', 1)],
      he_offered = \<lparr>of_tools = [], of_tool_choice = ChoiceText ''none'', of_config = JNull\<rparr>, he_marks = [''m0'', ''m1''],
      he_proxy = \<lparr>px_provider = ''openai'', px_model = ''m'', px_user = None, px_headers = [], px_inspect = None\<rparr>,
      he_attempt = None, he_exchange = new_exchange\<rparr>"

definition demo_waiting :: handler_state where
  "demo_waiting = (started 10 [])\<lparr>hs_sidecar := hold ''1'' demo_request_held (memory_state 10 [])\<rparr>"

text \<open>A reply is judged in these steps; the sidecar's state after each.\<close>

lemma reply_in_steps:
  assumes "release (ry_id ry) (hs_sidecar w) = (Some h, s)" "he_attempt h = None" "px_inspect (he_proxy h) = None"
    "succeeded (ry_status ry)" "run_for (he_run h) s = (r, sb)"
    "wa = update_run r (add_conversation (he_conversation h)) (w\<lparr>hs_exchange := he_exchange h, hs_sidecar := sb\<rparr>)"
    "read_reply_noted (hn_wire hn) (ry_provider ry) (ry_content_type ry) (ry_body ry) (ry_format ry)
       (cv_noted (the_conversation r (he_conversation h) wa)) = Inr (mo, noted_now)"
    "output_message mo = Some m" "pause hn wa = (Inr (), wb)"
    "wc = update_conversation r (he_conversation h) (\<lambda>cv. cv\<lparr>cv_noted := noted_now\<rparr>) wb"
    "ended_meanwhile h r wc = (Inr None, wc)" "judge_output hn h r mo wc = (Inr None, wd)"
    "judge_calls hn h r m (calls_to_judge hn mo) ([], []) wd = (Inr (Inr st), we)"
    "ended_meanwhile h r we = (Inr None, we)"
    "settle_turn hn ry h r mo m (cv_noted (the_conversation r (he_conversation h) wa)) noted_now st released we = (Inr a, wg)"
  shows "handle_reply hn ry released w = (Inr a, wg)"
proof -
  have m: "judge_message hn ry h r mo (cv_noted (the_conversation r (he_conversation h) wa)) noted_now released wd = (Inr a, wg)"
    using assms(8,13-15) by (simp add: judge_message_def calls_to_judge_def bind_io_def refuse_ended_def)
  have j: "judge_reply hn ry (Some h) released (w\<lparr>hs_sidecar := s, hs_exchange := he_exchange h\<rparr>) = (Inr a, wg)"
    using assms(4-7,9-12) m
    by (simp add: judge_reply_def bind_io_def on_sidecar_def change_def look_def waiting_def lift_err_def refuse_ended_def)
  show ?thesis
    using assms(1-4) j
    by (simp add: handle_reply_def answer_reply_def bind_io_def update_attempt_def tell_client_def settle_reply_def)
qed

definition demo_output :: model_output where
  "demo_output = demo_turn 1"

definition demo_said :: chat_message where
  "demo_said = demo_message Assistant ''now'' (Some [demo_call 1]) None"

definition demo_begun :: handler_state where
  "demo_begun = update_run 0 (add_conversation ''c'')
     (demo_waiting\<lparr>hs_exchange := new_exchange, hs_sidecar := snd (run_for ''r'' (snd (release ''1'' (hs_sidecar demo_waiting))))\<rparr>)"

definition demo_read :: handler_state where
  "demo_read = update_conversation 0 ''c'' (\<lambda>cv. cv\<lparr>cv_noted := None\<rparr>) (snd (pause idle demo_begun))"

definition demo_turn_judged :: handler_state where
  "demo_turn_judged = snd (judge_output idle demo_request_held 0 demo_output demo_read)"

definition demo_calls_judged :: handler_state where
  "demo_calls_judged = snd (judge_calls idle demo_request_held 0 demo_said [demo_call 1] ([], []) demo_turn_judged)"

definition demo_passed :: handler_state where
  "demo_passed = snd (settle_turn idle demo_reply demo_request_held 0 demo_output demo_said None None ([], [(''b'', demo_call 2)]) [] demo_calls_judged)"

lemma demo_1: "release ''1'' (hs_sidecar demo_waiting) = (Some demo_request_held, snd (release ''1'' (hs_sidecar demo_waiting)))"
  by (rule prod_eqI) (code_simp, simp)

lemma demo_2: "fst (run_for ''r'' (snd (release ''1'' (hs_sidecar demo_waiting)))) = 0"
  by code_simp

lemma demo_3: "fst (pause idle demo_begun) = Inr ()"
  by code_simp

lemma demo_4: "ended_meanwhile demo_request_held 0 demo_read = (Inr None, demo_read)"
  by code_simp

lemma demo_5: "fst (judge_output idle demo_request_held 0 demo_output demo_read) = Inr None"
  by code_simp

lemma demo_6: "fst (judge_calls idle demo_request_held 0 demo_said [demo_call 1] ([], []) demo_turn_judged) = Inr (Inr ([], [(''b'', demo_call 2)]))"
  by code_simp

lemma demo_7: "ended_meanwhile demo_request_held 0 demo_calls_judged = (Inr None, demo_calls_judged)"
  by code_simp

lemma demo_8: "fst (settle_turn idle demo_reply demo_request_held 0 demo_output demo_said None None ([], [(''b'', demo_call 2)]) [] demo_calls_judged)
    = Inr (ReplaceBody ''edited'')"
  by code_simp

lemma demo_9: "cv_noted (the_conversation 0 ''c'' demo_begun) = None"
  by code_simp


lemma demo_reply_edited: "handle_reply idle demo_reply [] demo_waiting = (Inr (ReplaceBody ''edited''), demo_passed)"
proof (rule reply_in_steps [where h = demo_request_held and r = 0 and mo = demo_output and m = demo_said and noted_now = None
      and s = "snd (release ''1'' (hs_sidecar demo_waiting))"
      and sb = "snd (run_for ''r'' (snd (release ''1'' (hs_sidecar demo_waiting))))"
      and wa = demo_begun and wb = "snd (pause idle demo_begun)" and wc = demo_read and wd = demo_turn_judged
      and we = demo_calls_judged and st = "([], [(''b'', demo_call 2)])"])
  have h: "he_attempt demo_request_held = None" "px_inspect (he_proxy demo_request_held) = None" "he_run demo_request_held = ''r''"
    "he_conversation demo_request_held = ''c''" "he_exchange demo_request_held = new_exchange" by (simp_all add: demo_request_held_def)
  show "release (ry_id demo_reply) (hs_sidecar demo_waiting) = (Some demo_request_held, snd (release ''1'' (hs_sidecar demo_waiting)))"
    using demo_1 by (simp add: demo_reply_def)
  show "run_for (he_run demo_request_held) (snd (release ''1'' (hs_sidecar demo_waiting)))
      = (0, snd (run_for ''r'' (snd (release ''1'' (hs_sidecar demo_waiting)))))"
    using demo_2 by (simp add: h prod_eq_iff)
  show "demo_begun = update_run 0 (add_conversation (he_conversation demo_request_held)) (demo_waiting\<lparr>hs_exchange := he_exchange demo_request_held,
      hs_sidecar := snd (run_for ''r'' (snd (release ''1'' (hs_sidecar demo_waiting))))\<rparr>)"
    by (simp add: demo_begun_def h)
  show "read_reply_noted (hn_wire idle) (ry_provider demo_reply) (ry_content_type demo_reply) (ry_body demo_reply)
      (ry_format demo_reply) (cv_noted (the_conversation 0 (he_conversation demo_request_held) demo_begun)) = Inr (demo_output, None)"
    by (simp add: h demo_9) code_simp
  show "pause idle demo_begun = (Inr (), snd (pause idle demo_begun))" using demo_3 by (simp add: prod_eq_iff)
  show "demo_read = update_conversation 0 (he_conversation demo_request_held) (\<lambda>cv. cv\<lparr>cv_noted := None\<rparr>) (snd (pause idle demo_begun))"
    by (simp add: demo_read_def h)
  show "ended_meanwhile demo_request_held 0 demo_read = (Inr None, demo_read)" by (rule demo_4)
  show "judge_output idle demo_request_held 0 demo_output demo_read = (Inr None, demo_turn_judged)"
    using demo_5 by (simp add: demo_turn_judged_def prod_eq_iff)
  have "calls_to_judge idle demo_output = [demo_call 1]" by code_simp
  then show "judge_calls idle demo_request_held 0 demo_said (calls_to_judge idle demo_output) ([], []) demo_turn_judged
      = (Inr (Inr ([], [(''b'', demo_call 2)])), demo_calls_judged)"
    using demo_6 by (simp add: demo_calls_judged_def prod_eq_iff)
  show "ended_meanwhile demo_request_held 0 demo_calls_judged = (Inr None, demo_calls_judged)" by (rule demo_7)
  show "settle_turn idle demo_reply demo_request_held 0 demo_output demo_said (cv_noted (the_conversation 0 (he_conversation demo_request_held) demo_begun))
      None ([], [(''b'', demo_call 2)]) [] demo_calls_judged = (Inr (ReplaceBody ''edited''), demo_passed)"
    using demo_8 by (simp add: h demo_9 demo_passed_def prod_eq_iff)
  show "output_message demo_output = Some demo_said" by (simp add: demo_output_def demo_turn_def demo_said_def output_message_def)
  show "succeeded (ry_status demo_reply)" by (simp add: demo_reply_def succeeded_def)
qed (simp_all add: demo_request_held_def)


lemma demo_request_passes: "fst (handle_request busy (demo_request []) (started 10 [])) = Inr PassOn"
  by code_simp

lemma demo_request_asks: "length (hs_asked (snd (handle_request busy (demo_request []) (started 10 [])))) = 2"
  by code_simp

definition demo_results :: results_of where
  "demo_results = \<lparr>ro_held = demo_request_held, ro_run = 0, ro_calls = [(''a'', 1)], ro_restored = [], ro_ran = []\<rparr>"

definition demo_judged :: handler_state where
  "demo_judged = snd (judge_results idle demo_results [] demo_messages demo_read)"

lemma demo_judges: "fst (judge_results idle demo_results [] demo_messages demo_read) = Inr None"
  by code_simp

lemma demo_judges_again: "fst (judge_results idle demo_results [] demo_messages demo_judged) = Inr None"
  by code_simp

lemma demo_judged_once: "length (hs_asked demo_judged) = 1"
  by code_simp

lemma demo_there_0: "run_there (hs_sidecar demo_read) 0"
  by code_simp

lemma demo_there: "run_there (hs_sidecar demo_read) (ro_run demo_results)"
  using demo_there_0 by (simp add: demo_results_def)

lemma demo_rejects:
  "\<not> isl (fst (reject_turn idle demo_request_held 0 demo_said None [(demo_call 1, plain_decision Reject None [])] demo_read))"
  by code_simp

definition demo_sample :: inspect_sample where
  "demo_sample = \<lparr>sm_eval_id = ''e'', sm_task = ''t'', sm_sample_id = JInt 1, sm_epoch = 1, sm_uuid = ''u'', sm_attempt = ''1''\<rparr>"

definition demo_known :: handler_state where
  "demo_known = (started 10 [])\<lparr>hs_sidecar := snd (run_for (run_key True ''u'') (memory_state 10 []))\<rparr>"

definition demo_ended :: handler_state where
  "demo_ended = demo_known\<lparr>hs_sidecar := snd (end_sample ''u'' (hs_sidecar demo_known))\<rparr>"

lemma demo_known_ok: "runs_ok (hs_sidecar demo_known)"
  using run_for_ok(1) [OF memory_state_ok, of "run_key True ''u''" 10 "[]" "fst (run_for (run_key True ''u'') (memory_state 10 []))"
      "snd (run_for (run_key True ''u'') (memory_state 10 []))"]
  by (simp add: demo_known_def)

lemma demo_ends: "fst (end_sample ''u'' (hs_sidecar demo_known)) = True"
  by code_simp

lemma demo_soon:
  "sc_now (hs_sidecar (snd (handle_request idle (demo_request [(''x-inspect-context'', ''sample'')]) demo_ended)))
     < sc_now (snd (end_sample ''u'' (hs_sidecar demo_known))) + ex_expiry (sc_ended (snd (end_sample ''u'' (hs_sidecar demo_known))))"
  by code_simp


section \<open>What the handler does\<close>

text \<open>C10: Whatever requests, replies and questions of evals come, in any order and with anything that
  remembers as much going on at each wait, every step put to the sentinel is of a stage it watches and
  is as the interface promises it: the model's messages and the tools are there together or not at all,
  the history is given, and a result is a tool's message.\<close>

theorem asked_steps_typed:
  assumes "others_remember hn"
  shows "list_all (typed_ask hn) (hs_asked (do_handler_ops hn (started expiry ticks) ops))"
  using grow_ops [OF assms, of "started expiry ticks" ops] by (auto simp: state_grows_def started_def)

theorem asked_steps_typed_witness:
  "list_all (typed_ask busy) (hs_asked (do_handler_ops busy (started 10 []) [OnRequest (demo_request [])]))
     \<and> length (hs_asked (do_handler_ops busy (started 10 []) [OnRequest (demo_request [])])) = 2"
  by (rule conjI [OF asked_steps_typed [OF busy_remembers]]) (simp add: do_handler_ops_def demo_request_asks)



text \<open>C7: A reply of the model is handed to the client only after all of it was judged, and only as decided:
  the turn and then every call of it, in order, were put to the sentinel, where it watches them, and none
  ended the run; and the client is handed the reply as it was if nothing was rejected or changed, or else a
  body that starts as what it was already sent, and reads back as the same message with exactly the calls
  that were not rejected, changed as decided. An Inspect client is besides told of the decisions in it.\<close>

theorem reply_judged_before_handed:
  assumes "handle_reply hn ry released w = (Inr a, w')" "succeeded (ry_status ry)" "\<forall>rf. a \<noteq> RefuseWith rf"
  shows "\<exists>h start output noted_now of_turn of_calls judged.
      fst (release (ry_id ry) (hs_sidecar w)) = Some h
    \<and> read_reply_noted (hn_wire hn) (ry_provider ry) (ry_content_type ry) (ry_body ry) (ry_format ry) start = Inr (output, noted_now)
    \<and> hs_asked w' = hs_asked w @ of_turn @ of_calls \<and> asked_output hn output of_turn
    \<and> list_all2 asked_call (calls_to_judge hn output) of_calls
    \<and> handed_over hn ry start output released (decided_calls (zip (calls_to_judge hn output) (map ak_decision of_calls))) judged
    \<and> told_with hn ry h released judged a"
  using assms by (rule reply_asks)

theorem reply_judged_before_handed_witness:
  "\<exists>h start output noted_now of_turn of_calls judged.
      fst (release ''1'' (hs_sidecar demo_waiting)) = Some h
    \<and> hs_asked demo_passed = hs_asked demo_waiting @ of_turn @ of_calls \<and> asked_output idle output of_turn
    \<and> list_all2 asked_call (calls_to_judge idle output) of_calls
    \<and> handed_over idle demo_reply start output [] (decided_calls (zip (calls_to_judge idle output) (map ak_decision of_calls))) judged
    \<and> told_with idle demo_reply h [] judged (ReplaceBody ''edited'')
    \<and> read_reply_noted (hn_wire idle) ''openai'' ''application/json'' ''reply'' (Some OpenAIChat) start = Inr (output, noted_now)"
proof -
  have s: "succeeded (ry_status demo_reply)" by (simp add: demo_reply_def succeeded_def)
  have r: "ry_id demo_reply = ''1''" "ry_provider demo_reply = ''openai''" "ry_content_type demo_reply = ''application/json''"
    "ry_body demo_reply = ''reply''" "ry_format demo_reply = Some OpenAIChat" by (simp_all add: demo_reply_def)
  show ?thesis using reply_judged_before_handed [OF demo_reply_edited s] unfolding r by fast
qed

text \<open>A request goes on to the model only after it was judged: every result in it of a call the client ran
  was judged in its conversation, now or before, or is a rejection the sidecar wrote itself; only results
  that were not settled were put to the sentinel now, then the request as it is sent on, and none of these
  decisions ended the run, which no one else had ended either.\<close>

theorem request_judged_before_sent:
  assumes "handle_request hn rq w = (Inr a, w')" "\<forall>rf. a \<noteq> RefuseWith rf" "others_remember hn"
    "ToolResultStage \<in> set (hn_watched hn)" "runs_ok (hs_sidecar w)"
  shows "\<exists>r marks. request_marks (hn_wire hn) (rq_provider rq) (rq_body rq) (rq_format rq) = Inr marks
    \<and> request_judged hn rq r marks w w'"
  using assms by (rule request_asks)

theorem request_judged_before_sent_witness:
  "\<exists>r marks. request_judged busy (demo_request []) r marks (started 10 [])
     (snd (handle_request busy (demo_request []) (started 10 [])))"
proof -
  have h: "handle_request busy (demo_request []) (started 10 [])
      = (Inr PassOn, snd (handle_request busy (demo_request []) (started 10 [])))"
    using demo_request_passes by (simp add: prod_eq_iff)
  have t: "ToolResultStage \<in> set (hn_watched busy)" by (simp add: busy_def demo_handler_def)
  have ok: "runs_ok (hs_sidecar (started 10 []))" by (simp add: started_def memory_state_ok)
  show ?thesis using request_judged_before_sent [OF h _ busy_remembers t ok] by blast
qed







end
