(* ===== verification/Base64.thy ===== *)
theory Base64
  imports Prelude
begin

text \<open>
  Python's \<open>base64.b64encode\<close> and \<open>base64.b64decode(..., validate=True)\<close>, which carry a body or
  a part of one in a JSON string between a proxy hook and the sidecar. Decoding is strict, as it
  is with \<open>validate\<close>: nothing but digits, and only the padding that is due; the bits after
  the last byte are not looked at.
\<close>

definition base64_digits :: string where
  "base64_digits = ''ABCDEFGHIJKLMNOPQRSTUVWXYZabcdefghijklmnopqrstuvwxyz0123456789+/''"

definition digit_of :: "nat \<Rightarrow> char" where
  "digit_of n = base64_digits ! (n mod 64)"

definition digit_value :: "char \<Rightarrow> nat option" where
  "digit_value c = map_option fst (find (\<lambda>p. snd p = c) (zip [0..<64] base64_digits))"

definition padding :: char where
  "padding = CHR ''=''"

abbreviation byte_at :: "char \<Rightarrow> nat" where
  "byte_at c \<equiv> of_char c"

fun b64_encode :: "string \<Rightarrow> string" where
  "b64_encode [] = []"
| "b64_encode [a] =
     [digit_of (byte_at a div 4), digit_of (byte_at a mod 4 * 16), padding, padding]"
| "b64_encode [a, b] =
     [digit_of (byte_at a div 4), digit_of (byte_at a mod 4 * 16 + byte_at b div 16),
      digit_of (byte_at b mod 16 * 4), padding]"
| "b64_encode (a # b # c # more) =
     [digit_of (byte_at a div 4), digit_of (byte_at a mod 4 * 16 + byte_at b div 16),
      digit_of (byte_at b mod 16 * 4 + byte_at c div 64), digit_of (byte_at c mod 64)] @ b64_encode more"

definition first_byte :: "nat \<Rightarrow> nat \<Rightarrow> char" where
  "first_byte p q = char_of (p * 4 + q div 16)"

definition second_byte :: "nat \<Rightarrow> nat \<Rightarrow> char" where
  "second_byte q r = char_of (q mod 16 * 16 + r div 4)"

definition third_byte :: "nat \<Rightarrow> nat \<Rightarrow> char" where
  "third_byte r s = char_of (r mod 4 * 64 + s)"

fun b64_decode :: "string \<Rightarrow> string option" where
  "b64_decode [] = Some []"
| "b64_decode (p # q # r # s # more) =
     (case (digit_value p, digit_value q) of
        (Some p', Some q') \<Rightarrow>
          (case (digit_value r, digit_value s) of
             (Some r', Some s') \<Rightarrow>
               map_option (\<lambda>bytes. [first_byte p' q', second_byte q' r', third_byte r' s'] @ bytes) (b64_decode more)
           | (Some r', None) \<Rightarrow>
               if s = padding \<and> more = [] then Some [first_byte p' q', second_byte q' r'] else None
           | (None, _) \<Rightarrow>
               if r = padding \<and> s = padding \<and> more = [] then Some [first_byte p' q'] else None)
      | _ \<Rightarrow> None)"
| "b64_decode _ = None"

section \<open>Decoding what was encoded\<close>

lemma digit_values: "list_all (\<lambda>n. digit_value (base64_digits ! n) = Some n) [0..<64]"
  by code_simp

lemma digit_value_of [simp]: "n < 64 \<Longrightarrow> digit_value (digit_of n) = Some n"
  using digit_values by (simp add: list_all_iff digit_of_def)

lemma digit_value_padding [simp]: "digit_value padding = None"
  by code_simp

lemma byte_bound: "byte_at c < (256::nat)"
  by simp

lemma byte_parts [simp]:
  "byte_at a div 4 < (64::nat)" "byte_at a mod 4 * 16 < (64::nat)"
  "byte_at a mod 4 * 16 + byte_at b div 16 < (64::nat)" "byte_at b mod 16 * 4 < (64::nat)"
  "byte_at b mod 16 * 4 + byte_at c div 64 < (64::nat)" "byte_at c mod 64 < (64::nat)"
proof -
  have d: "byte_at a div 4 < (64::nat)" "byte_at b div 16 < (16::nat)" "byte_at c div 64 < (4::nat)"
    using byte_bound [of a] byte_bound [of b] byte_bound [of c] by (simp_all add: less_mult_imp_div_less)
  have m: "byte_at a mod 4 < (4::nat)" "byte_at b mod 16 < (16::nat)" "byte_at c mod 64 < (64::nat)" by simp_all
  from d m show "byte_at a div 4 < (64::nat)" "byte_at a mod 4 * 16 < (64::nat)"
    "byte_at a mod 4 * 16 + byte_at b div 16 < (64::nat)" "byte_at b mod 16 * 4 < (64::nat)"
    "byte_at b mod 16 * 4 + byte_at c div 64 < (64::nat)" "byte_at c mod 64 < (64::nat)"
    by linarith+
qed

lemma bytes_back [simp]:
  "first_byte (byte_at a div 4) (byte_at a mod 4 * 16) = a"
  "first_byte (byte_at a div 4) (byte_at a mod 4 * 16 + byte_at b div 16) = a"
  "second_byte (byte_at a mod 4 * 16 + byte_at b div 16) (byte_at b mod 16 * 4) = b"
  "second_byte (byte_at a mod 4 * 16 + byte_at b div 16) (byte_at b mod 16 * 4 + byte_at c div 64) = b"
  "third_byte (byte_at b mod 16 * 4 + byte_at c div 64) (byte_at c mod 64) = c"
proof -
  have ab: "byte_at b div 16 < (16::nat)" and bc: "byte_at c div 64 < (4::nat)"
    using byte_bound [of b] byte_bound [of c] by (simp_all add: less_mult_imp_div_less)
  have f: "x div 4 * 4 + x mod 4 = x" "x div 16 * 16 + x mod 16 = x" "x div 64 * 64 + x mod 64 = x" for x :: nat
    by (rule div_mult_mod_eq)+
  show "first_byte (byte_at a div 4) (byte_at a mod 4 * 16) = a"
    by (simp add: first_byte_def f)
  show "first_byte (byte_at a div 4) (byte_at a mod 4 * 16 + byte_at b div 16) = a"
    using ab by (simp add: first_byte_def f)
  show "second_byte (byte_at a mod 4 * 16 + byte_at b div 16) (byte_at b mod 16 * 4) = b"
    using ab by (simp add: second_byte_def f)
  show "second_byte (byte_at a mod 4 * 16 + byte_at b div 16) (byte_at b mod 16 * 4 + byte_at c div 64) = b"
    using ab bc by (simp add: second_byte_def f)
  show "third_byte (byte_at b mod 16 * 4 + byte_at c div 64) (byte_at c mod 64) = c"
    using bc by (simp add: third_byte_def f)
qed

theorem b64_decode_encode [simp]: "b64_decode (b64_encode bytes) = Some bytes"
  by (induction bytes rule: b64_encode.induct) simp_all

lemma b64_encode_inj: "b64_encode x = b64_encode y \<Longrightarrow> x = y"
  by (metis b64_decode_encode option.inject)

lemma length_b64_encode: "length (b64_encode bytes) = 4 * ((length bytes + 2) div 3)"
proof (induction bytes rule: b64_encode.induct)
  case (4 a b c more)
  have "(length more + 5) div 3 = Suc ((length more + 2) div 3)" by presburger
  with 4 show ?case by (simp add: add.commute)
qed simp_all

end
