(* ===== verification/JsonRpc.thy ===== *)
theory JsonRpc
  imports Errors
begin

text \<open>
  JSON-RPC 2.0 as the sidecar's endpoints answer it (\<open>sidecar/_json_rpc.py\<close>): the codes of its
  errors, the reading of a call, and the answers. JSON and pydantic's reading of a call are
  parameters; a \<open>ValidationError\<close> is its list of places and messages.
\<close>

section \<open>Codes\<close>

definition parse_error :: int where "parse_error = -32700"

definition invalid_request :: int where "invalid_request = -32600"

definition method_not_found :: int where "method_not_found = -32601"

definition invalid_params_code :: int where "invalid_params_code = -32602"

definition registration_refused :: int where "registration_refused = -32001"

definition unknown_sample :: int where "unknown_sample = -32002"

definition unreadable_code :: int where "unreadable_code = -32003"

definition sentinel_failed :: int where "sentinel_failed = -32004"

definition time_limit_code :: int where "time_limit_code = -32005"

definition unregistered_code :: int where "unregistered_code = -32006"

definition unknown_stream :: int where "unknown_stream = -32007"

definition registrations_full :: int where "registrations_full = -32008"

section \<open>Calls and answers\<close>

record rpc_error =
  re_code :: int
  re_message :: string

abbreviation rpc :: "int \<Rightarrow> string \<Rightarrow> rpc_error" where
  "rpc code message \<equiv> \<lparr>re_code = code, re_message = message\<rparr>"

datatype call_id = NumberId int | TextId string

record rpc_call =
  ca_method :: string
  ca_params :: fields
  ca_id :: "call_id option"

type_synonym invalid = "(string list \<times> string) list"

text \<open>\<open>read_call\<close>.\<close>

definition read_call ::
  "(string \<Rightarrow> json option) \<Rightarrow> (json \<Rightarrow> rpc_call option) \<Rightarrow> string \<Rightarrow> rpc_error + rpc_call" where
  "read_call loads_json call_of body =
     (case loads_json body of
        None \<Rightarrow> Inl (rpc parse_error ''The body is not JSON.'')
      | Some parsed \<Rightarrow>
          (case call_of parsed of
             None \<Rightarrow> Inl (rpc invalid_request ''The body is not one JSON-RPC 2.0 request.'')
           | Some call \<Rightarrow> Inr call))"

text \<open>\<open>invalid_params\<close>: where the parameters are wrong and how, never the values sent.\<close>

definition invalid_params :: "invalid \<Rightarrow> rpc_error" where
  "invalid_params errors =
     rpc invalid_params_code
       (''The parameters don'' @ apostrophe @ ''t fit: ''
        @ join ''; '' (map (\<lambda>(place, msg). join ''.'' place @ '': '' @ msg) errors))"

text \<open>\<open>failed\<close> and \<open>answered\<close>: a call without an id is a notification, which is not answered.\<close>

datatype http_answer = NoContent | JsonBody int json

fun call_id_json :: "call_id option \<Rightarrow> json" where
  "call_id_json None = JNull"
| "call_id_json (Some (NumberId n)) = JInt n"
| "call_id_json (Some (TextId t)) = JStr t"

definition failed_call :: "call_id option \<Rightarrow> rpc_error \<Rightarrow> http_answer" where
  "failed_call i ex =
     JsonBody 200 (JObj
       [(''jsonrpc'', JStr ''2.0''), (''id'', call_id_json i),
        (''error'', JObj [(''code'', JInt (re_code ex)), (''message'', JStr (re_message ex))])])"

definition answered_call :: "call_id option \<Rightarrow> json \<Rightarrow> http_answer" where
  "answered_call i result =
     (case i of
        None \<Rightarrow> NoContent
      | Some _ \<Rightarrow> JsonBody 200 (JObj
          [(''jsonrpc'', JStr ''2.0''), (''id'', call_id_json i), (''result'', result)]))"

text \<open>The names of \<open>NotJudged\<close>.\<close>

fun unjudged_text :: "unjudged \<Rightarrow> string" where
  "unjudged_text Unreadable = ''unreadable''"
| "unjudged_text Unregistered = ''unregistered''"
| "unjudged_text TimeLimit = ''time_limit''"
| "unjudged_text JudgingError = ''error''"
| "unjudged_text ProviderErrorStatus = ''provider_error''"
| "unjudged_text CutOff = ''cut_off''"

end
