(* ===== verification/ProxyStreams.thy ===== *)
theory ProxyStreams
  imports Base64 JsonRpc Wire ReplyStreamProps
begin

text \<open>
  Reply streams through the endpoint for proxies (\<open>ReplyStreams\<close> of \<open>sidecar/_proxy_streams.py\<close>):
  what a proxy hook feeds in by calls it may send again, and what it collects. The streams are in
  an arena, as a call that waits holds one that may have been let go of meanwhile. A call is
  answered at once or waits; a call that waits is resumed by a step of its own, and so are the
  tasks that judge and collect. The end of serving is not modelled.
\<close>

section \<open>Calls, outputs and streams\<close>

record begin_reply =
  bg_id :: string
  bg_provider :: string
  bg_format :: "stream_format option"
  bg_model :: string
  bg_user :: "string option"
  bg_status :: int
  bg_content_type :: string
  bg_keepalive :: bool

datatype stream_output =
    ReleaseOutput string
  | RefuseOutput int string "json option"
  | ErrorEventOutput string "unjudged option"
  | FinishedOutput

datatype stream_result = Taken | NextRelease nat "stream_output list"

type_synonym rpc_answer = "rpc_error + stream_result"

datatype stream_call =
    BeginReply begin_reply
  | ReplyChunk string nat string
  | EndReply string
  | AbortReply string
  | AskRelease string nat

record proxy_config =
  pc_max_body :: nat
  pc_max_pending :: nat
  pc_poll :: rat
  pc_expiry :: rat
  pc_early :: bool
  pc_keepalive :: bool
  pc_loads :: "string \<Rightarrow> json option"
  pc_dumps :: "json \<Rightarrow> string"
  pc_takes :: "stream_format \<Rightarrow> stream_event list \<Rightarrow> bool"
  pc_reply :: "begin_reply \<Rightarrow> string \<Rightarrow> string \<Rightarrow> judged"
  pc_digest :: "string \<Rightarrow> string"
  pc_field :: "fields \<Rightarrow> json option"

text \<open>The bytes of the chunks taken are kept, where the code keeps their digests; of the stream's
  outputs, \<open>op_read\<close> were read by the task that collects them, which holds \<open>op_holding\<close> until
  there is room for it.\<close>

record open_reply =
  op_config :: stream_config
  op_begun :: begin_reply
  op_stream :: reply_state
  op_chunks :: "string list"
  op_fed :: "bool list"
  op_read :: nat
  op_holding :: "sent_output option"
  op_outputs :: "stream_output list"
  op_base :: nat
  op_pending :: nat
  op_error :: "rpc_error option"
  op_done :: bool
  op_ended :: bool
  op_touched :: rat

datatype pending_wait = ForChunk nat nat | ForTurn nat nat string | ForEnd nat | ForOutput nat string rat

record proxy_streams =
  ps_known :: "(string \<times> nat) list"
  ps_opened :: "open_reply list"
  ps_serving :: bool
  ps_now :: rat
  ps_waiting :: "(nat \<times> pending_wait) list"
  ps_calls :: nat

definition no_streams :: proxy_streams where
  "no_streams = \<lparr>ps_known = [], ps_opened = [], ps_serving = True, ps_now = 0, ps_waiting = [], ps_calls = 0\<rparr>"

definition change_open :: "nat \<Rightarrow> (open_reply \<Rightarrow> open_reply) \<Rightarrow> proxy_streams \<Rightarrow> proxy_streams" where
  "change_open j f w = w\<lparr>ps_opened := (ps_opened w)[j := f (ps_opened w ! j)]\<rparr>"

section \<open>What was not judged\<close>

text \<open>\<open>_not_judged\<close> of \<open>sidecar/_proxy_endpoint.py\<close>.\<close>

fun unjudged_error :: "failure \<Rightarrow> string \<Rightarrow> rpc_error" where
  "unjudged_error (TimeLimitError t) what = rpc time_limit_code t"
| "unjudged_error (UnregisteredSampleError t) what = rpc unregistered_code t"
| "unjudged_error (TooLargeError t) what = rpc unreadable_code t"
| "unjudged_error (UnreadableError t) what =
     rpc unreadable_code (''The '' @ what @ '' couldn'' @ apostrophe @ ''t be read, so it was not judged.'')"
| "unjudged_error (OtherFailure t) what =
     rpc sentinel_failed (''The sentinel failed, so the '' @ what @ '' was not judged.'')"

section \<open>Outputs\<close>

definition keepalive_bytes :: string where
  "keepalive_bytes = '': keepalive'' @ newline @ newline"

text \<open>\<open>_output\<close>: the fields of a refusal are validated, which may raise.\<close>

definition refuse_output :: "proxy_config \<Rightarrow> refusal \<Rightarrow> failure + stream_output" where
  "refuse_output pc refused =
     (let kept = (case rf_sentinel refused of None \<Rightarrow> Some None | Some f \<Rightarrow> map_option Some (pc_field pc f))
      in case kept of
           None \<Rightarrow> Inl (OtherFailure ''ValidationError'')
         | Some f \<Rightarrow>
             if 400 \<le> rf_status refused \<and> rf_status refused \<le> 599
             then Inr (RefuseOutput (rf_status refused) (rf_message refused) f)
             else Inl (OtherFailure ''ValidationError''))"

fun kept_output :: "proxy_config \<Rightarrow> sent_output \<Rightarrow> failure + stream_output" where
  "kept_output pc (SendOn data) = Inr (ReleaseOutput (b64_encode data))"
| "kept_output pc KeepAlive = Inr (ReleaseOutput (b64_encode keepalive_bytes))"
| "kept_output pc (ErrorOut data why) = Inr (ErrorEventOutput (b64_encode data) why)"
| "kept_output pc Finished = Inr FinishedOutput"
| "kept_output pc (RefuseClient refused) = refuse_output pc refused"

fun output_size :: "stream_output \<Rightarrow> nat" where
  "output_size (ReleaseOutput data) = length data"
| "output_size (ErrorEventOutput data why) = length data"
| "output_size _ = 0"

definition outputs_size :: "stream_output list \<Rightarrow> nat" where
  "outputs_size os = sum_list (map output_size os)"

section \<open>Calls\<close>

datatype call_outcome = Now rpc_answer | Later pending_wait

text \<open>The stream the handler makes for a reply.\<close>

definition config_for :: "proxy_config \<Rightarrow> begin_reply \<Rightarrow> stream_config" where
  "config_for pc given =
     \<lparr>cf_status = bg_status given, cf_content_type = bg_content_type given, cf_early = pc_early pc,
      cf_provider = bg_provider given, cf_format = bg_format given, cf_max_held = pc_max_body pc,
      cf_max_pending = pc_max_pending pc, cf_keepalive = (pc_keepalive pc \<and> bg_keepalive given),
      cf_loads = pc_loads pc, cf_dumps = pc_dumps pc, cf_takes = pc_takes pc, cf_reply = pc_reply pc given\<rparr>"

definition new_open :: "proxy_config \<Rightarrow> begin_reply \<Rightarrow> rat \<Rightarrow> open_reply" where
  "new_open pc given t =
     \<lparr>op_config = config_for pc given, op_begun = given, op_stream = start_state (config_for pc given),
      op_chunks = [], op_fed = [], op_read = 0, op_holding = None, op_outputs = [], op_base = 0,
      op_pending = 0, op_error = None, op_done = False, op_ended = False, op_touched = t\<rparr>"

definition touch :: "proxy_streams \<Rightarrow> nat \<Rightarrow> proxy_streams" where
  "touch w j = change_open j (\<lambda>p. p\<lparr>op_touched := ps_now w\<rparr>) w"

definition begin_stream :: "proxy_config \<Rightarrow> begin_reply \<Rightarrow> proxy_streams \<Rightarrow> call_outcome \<times> proxy_streams" where
  "begin_stream pc given w =
     (case map_of (ps_known w) (bg_id given) of
        Some j \<Rightarrow>
          if op_begun (ps_opened w ! j) \<noteq> given
          then (Now (Inl (rpc invalid_params_code
                  (''The reply '' @ quoted (bg_id given) @ '' was begun with other details.''))), w)
          else (Now (Inr Taken), touch w j)
      | None \<Rightarrow>
          if \<not> ps_serving w
          then (Now (Inl (rpc invalid_request
                  (''This endpoint doesn'' @ apostrophe @ ''t serve reply streams.''))), w)
          else (Now (Inr Taken),
                w\<lparr>ps_known := ps_known w @ [(bg_id given, length (ps_opened w))],
                  ps_opened := ps_opened w @ [new_open pc given (ps_now w)]\<rparr>))"

text \<open>\<open>_find\<close>.\<close>

definition no_stream :: "string \<Rightarrow> rpc_error" where
  "no_stream i = rpc unknown_stream
     (''There is no reply stream '' @ quoted i @ '': it was never begun, or has ended or expired.'')"

definition on_stream ::
  "string \<Rightarrow> proxy_streams \<Rightarrow> (nat \<Rightarrow> proxy_streams \<Rightarrow> call_outcome \<times> proxy_streams) \<Rightarrow> call_outcome \<times> proxy_streams" where
  "on_stream i w f =
     (case map_of (ps_known w) i of
        None \<Rightarrow> (Now (Inl (no_stream i)), w)
      | Some j \<Rightarrow> f j (touch w j))"

text \<open>\<open>chunk\<close>, up to where it waits: for the sending of the chunk it repeats, or for its turn to be
  fed.\<close>

definition take_chunk :: "proxy_config \<Rightarrow> string \<Rightarrow> nat \<Rightarrow> string \<Rightarrow> nat \<Rightarrow> proxy_streams \<Rightarrow> call_outcome \<times> proxy_streams" where
  "take_chunk pc i n sent j w =
     (let p = ps_opened w ! j
      in case b64_decode sent of
           None \<Rightarrow> (Now (Inl (rpc invalid_params_code
                      (''The parameters don'' @ apostrophe @ ''t fit: data: A chunk is base64.''))), w)
         | Some data \<Rightarrow>
             if n < length (op_chunks p) then
               (if pc_digest pc (op_chunks p ! n) \<noteq> pc_digest pc data
                then (Now (Inl (rpc invalid_params_code (''Chunk '' @ nat_text n @ '' of the reply '' @ quoted i
                        @ '' was sent before with other bytes.''))), w)
                else if op_fed p ! n then (Now (Inr Taken), w)
                else (Later (ForChunk j n), w))
             else if length (op_chunks p) < n then
               (Now (Inl (rpc invalid_params_code (''Chunk '' @ nat_text n @ '' of the reply '' @ quoted i
                      @ '' comes before chunk '' @ nat_text (length (op_chunks p)) @ ''.''))), w)
             else (Later (ForTurn j n data),
                   change_open j (\<lambda>p. p\<lparr>op_chunks := op_chunks p @ [data], op_fed := op_fed p @ [False]\<rparr>) w))"

text \<open>\<open>abort\<close>.\<close>

definition abort_open :: "open_reply \<Rightarrow> open_reply" where
  "abort_open p = p\<lparr>op_stream := abort (op_stream p), op_done := True\<rparr>"

definition forget :: "string \<Rightarrow> (string \<times> nat) list \<Rightarrow> (string \<times> nat) list" where
  "forget i ks = filter (\<lambda>p. fst p \<noteq> i) ks"

definition abort_stream :: "string \<Rightarrow> proxy_streams \<Rightarrow> proxy_streams" where
  "abort_stream i w =
     (case map_of (ps_known w) i of
        None \<Rightarrow> w
      | Some j \<Rightarrow> change_open j abort_open (w\<lparr>ps_known := forget i (ps_known w)\<rparr>))"

text \<open>\<open>next\<close>, up to where it waits: what the hook has is collected.\<close>

definition collect_taken :: "nat \<Rightarrow> open_reply \<Rightarrow> open_reply" where
  "collect_taken n p =
     (let k = min n (op_base p + length (op_outputs p)) - op_base p
      in p\<lparr>op_pending := op_pending p - outputs_size (take k (op_outputs p)),
           op_outputs := drop k (op_outputs p), op_base := op_base p + k\<rparr>)"

definition ask_release :: "proxy_config \<Rightarrow> string \<Rightarrow> nat \<Rightarrow> nat \<Rightarrow> proxy_streams \<Rightarrow> call_outcome \<times> proxy_streams" where
  "ask_release pc i n j w =
     (if n < op_base (ps_opened w ! j)
      then (Now (Inl (rpc invalid_params_code (''The outputs of the reply '' @ quoted i @ '' before ''
              @ nat_text (op_base (ps_opened w ! j)) @ '' were collected.''))), w)
      else (Later (ForOutput j i (ps_now w + pc_poll pc)), change_open j (collect_taken n) w))"

fun call_stream :: "proxy_config \<Rightarrow> stream_call \<Rightarrow> proxy_streams \<Rightarrow> call_outcome \<times> proxy_streams" where
  "call_stream pc (BeginReply given) w = begin_stream pc given w"
| "call_stream pc (ReplyChunk i n sent) w = on_stream i w (take_chunk pc i n sent)"
| "call_stream pc (EndReply i) w = on_stream i w (\<lambda>j w. (Later (ForEnd j), w))"
| "call_stream pc (AbortReply i) w = (Now (Inr Taken), abort_stream i w)"
| "call_stream pc (AskRelease i n) w = on_stream i w (ask_release pc i n)"

section \<open>Calls that waited\<close>

text \<open>One chunk is fed at a time, and the end comes after the chunks before it: the lock is given in
  the order it was asked for.\<close>

fun wants_turn :: "pending_wait \<Rightarrow> nat option" where
  "wants_turn (ForTurn j n data) = Some j"
| "wants_turn (ForEnd j) = Some j"
| "wants_turn _ = None"

definition first_in_line :: "(nat \<times> pending_wait) list \<Rightarrow> nat \<Rightarrow> nat option" where
  "first_in_line ws j = map_option fst (find (\<lambda>p. wants_turn (snd p) = Some j) ws)"

definition ended_already :: "string \<Rightarrow> rpc_error" where
  "ended_already i = rpc invalid_request (''The reply '' @ quoted i @ '' has already been ended.'')"

definition feed_chunk :: "nat \<Rightarrow> string \<Rightarrow> open_reply \<Rightarrow> (rpc_answer \<times> open_reply) option" where
  "feed_chunk n data p =
     (case feed (op_config p) data (op_stream p) of
        Waits \<Rightarrow> None
      | Took s \<Rightarrow> Some (Inr Taken, p\<lparr>op_stream := s, op_fed := (op_fed p)[n := True]\<rparr>)
      | InputEnded \<Rightarrow> Some (Inl (ended_already (bg_id (op_begun p))), p\<lparr>op_fed := (op_fed p)[n := True]\<rparr>))"

definition end_open :: "open_reply \<Rightarrow> open_reply" where
  "end_open p = p\<lparr>op_stream := end_input (op_stream p)\<rparr>"

text \<open>The rest of \<open>next\<close>: once there is output, the stream is done, or the wait is over. The stream
  of the call's id is let go of once all was collected.\<close>

definition answer_release :: "nat \<Rightarrow> string \<Rightarrow> proxy_streams \<Rightarrow> rpc_answer \<times> proxy_streams" where
  "answer_release j i w =
     (let p = ps_opened w ! j; w1 = touch w j
      in case (op_outputs p, op_error p) of
           ([], Some ex) \<Rightarrow> (Inl ex, w1)
         | (os, _) \<Rightarrow>
             (Inr (NextRelease (op_base p + length os) os),
              if op_done p \<and> os = [] then w1\<lparr>ps_known := forget i (ps_known w1)\<rparr> else w1))"

definition resume :: "nat \<Rightarrow> pending_wait \<Rightarrow> proxy_streams \<Rightarrow> (rpc_answer \<times> proxy_streams) option" where
  "resume c x w =
     (case x of
        ForChunk j n \<Rightarrow> if op_fed (ps_opened w ! j) ! n then Some (Inr Taken, w) else None
      | ForTurn j n data \<Rightarrow>
          if first_in_line (ps_waiting w) j \<noteq> Some c then None
          else map_option (\<lambda>(a, p). (a, change_open j (\<lambda>_. p) w)) (feed_chunk n data (ps_opened w ! j))
      | ForEnd j \<Rightarrow>
          if first_in_line (ps_waiting w) j \<noteq> Some c then None
          else Some (Inr Taken, change_open j end_open w)
      | ForOutput j i deadline \<Rightarrow>
          if op_outputs (ps_opened w ! j) \<noteq> [] \<or> op_done (ps_opened w ! j) \<or> deadline \<le> ps_now w
          then Some (answer_release j i w) else None)"

section \<open>The tasks of a stream\<close>

text \<open>\<open>_collect\<close>: an output is read, unless the stream was aborted, and kept once there is room; what
  the stream raises, or what raises here, ends it.\<close>

definition end_collecting :: "rpc_error option \<Rightarrow> open_reply \<Rightarrow> open_reply" where
  "end_collecting ex p =
     p\<lparr>op_holding := None, op_error := ex, op_done := True, op_ended := True\<rparr>"

definition keep_output :: "proxy_config \<Rightarrow> sent_output \<Rightarrow> open_reply \<Rightarrow> open_reply" where
  "keep_output pc given p =
     (case kept_output pc given of
        Inl ex \<Rightarrow> end_collecting (Some (unjudged_error ex ''reply'')) p
      | Inr kept \<Rightarrow>
          p\<lparr>op_holding := None, op_outputs := op_outputs p @ [kept],
            op_pending := op_pending p + output_size kept\<rparr>)"

definition collect_step :: "proxy_config \<Rightarrow> open_reply \<Rightarrow> open_reply option" where
  "collect_step pc p =
     (let s = op_stream p
      in if op_ended p then None
         else case op_holding p of
           Some given \<Rightarrow>
             if pc_max_pending pc \<le> op_pending p \<and> \<not> op_done p then None
             else Some (keep_output pc given p)
         | None \<Rightarrow>
             if op_read p < length (st_out s) \<and> \<not> st_aborted s
             then Some (p\<lparr>op_holding := Some (st_out s ! op_read p), op_read := Suc (op_read p)\<rparr>)
             else if op_read p < length (st_out s) \<or> st_phase s = Over
             then Some (end_collecting (map_option (\<lambda>ex. unjudged_error ex ''reply'') (st_raised s)) p)
             else None)"

text \<open>\<open>_sweep\<close>: a stream no call has named for a while is aborted.\<close>

definition forgotten :: "proxy_config \<Rightarrow> proxy_streams \<Rightarrow> string list" where
  "forgotten pc w =
     map fst (filter (\<lambda>(i, j). pc_expiry pc < ps_now w - op_touched (ps_opened w ! j)) (ps_known w))"

definition sweep :: "proxy_config \<Rightarrow> proxy_streams \<Rightarrow> proxy_streams" where
  "sweep pc w = fold abort_stream (forgotten pc w) w"

section \<open>What happens\<close>

datatype proxy_event =
    Calls stream_call
  | Resumes nat
  | Works nat
  | Breathes nat
  | Collects nat
  | Sweeps
  | Passes rat

definition answer_call :: "proxy_config \<Rightarrow> stream_call \<Rightarrow> proxy_streams \<Rightarrow> (nat \<times> rpc_answer) option \<times> proxy_streams" where
  "answer_call pc call w =
     (let c = ps_calls w
      in case call_stream pc call (w\<lparr>ps_calls := Suc c\<rparr>) of
           (Now a, w') \<Rightarrow> (Some (c, a), w')
         | (Later x, w') \<Rightarrow> (None, w'\<lparr>ps_waiting := ps_waiting w' @ [(c, x)]\<rparr>))"

definition resume_call :: "nat \<Rightarrow> proxy_streams \<Rightarrow> (nat \<times> rpc_answer) option \<times> proxy_streams" where
  "resume_call c w =
     (case Option.bind (map_of (ps_waiting w) c) (\<lambda>x. resume c x w) of
        None \<Rightarrow> (None, w)
      | Some (a, w') \<Rightarrow> (Some (c, a), w'\<lparr>ps_waiting := filter (\<lambda>p. fst p \<noteq> c) (ps_waiting w')\<rparr>))"

definition task_step :: "nat \<Rightarrow> (open_reply \<Rightarrow> open_reply option) \<Rightarrow> proxy_streams \<Rightarrow> proxy_streams" where
  "task_step j f w =
     (if j < length (ps_opened w)
      then (case f (ps_opened w ! j) of None \<Rightarrow> w | Some p \<Rightarrow> change_open j (\<lambda>_. p) w)
      else w)"

definition stream_task :: "(stream_config \<Rightarrow> reply_state \<Rightarrow> reply_state option) \<Rightarrow> open_reply \<Rightarrow> open_reply option" where
  "stream_task f p = map_option (\<lambda>s. p\<lparr>op_stream := s\<rparr>) (f (op_config p) (op_stream p))"

fun proxy_step :: "proxy_config \<Rightarrow> proxy_event \<Rightarrow> proxy_streams \<Rightarrow> (nat \<times> rpc_answer) option \<times> proxy_streams" where
  "proxy_step pc (Calls call) w = answer_call pc call w"
| "proxy_step pc (Resumes c) w = resume_call c w"
| "proxy_step pc (Works j) w = (None, task_step j (stream_task run_step) w)"
| "proxy_step pc (Breathes j) w = (None, task_step j (stream_task keep_alive) w)"
| "proxy_step pc (Collects j) w = (None, task_step j (collect_step pc) w)"
| "proxy_step pc Sweeps w = (None, sweep pc w)"
| "proxy_step pc (Passes t) w = (None, if 0 \<le> t then w\<lparr>ps_now := ps_now w + t\<rparr> else w)"

definition proxy_run :: "proxy_config \<Rightarrow> proxy_event list \<Rightarrow> proxy_streams" where
  "proxy_run pc es = foldl (\<lambda>w e. snd (proxy_step pc e w)) no_streams es"

end
