(* ===== verification/StreamGrowth.thy ===== *)
theory StreamGrowth
  imports ReplyStreamProps
begin

text \<open>
  How a reply stream goes on: what was sent stays sent, what was taken stays taken, and a stream
  that is closed, or whose input has ended, stays so.
\<close>

definition goes_from :: "reply_state \<Rightarrow> reply_state \<Rightarrow> bool" where
  "goes_from s s' \<longleftrightarrow>
     prefix (st_out s) (st_out s') \<and> st_fed s' = st_fed s
     \<and> (closed_stream s \<longrightarrow> closed_stream s') \<and> (st_ended s \<longrightarrow> st_ended s')
     \<and> (st_aborted s \<longrightarrow> st_aborted s')"

lemma goes_from_refl [simp]: "goes_from s s"
  by (simp add: goes_from_def)

lemma goes_from_trans: "goes_from s t \<Longrightarrow> goes_from t u \<Longrightarrow> goes_from s u"
  by (auto simp: goes_from_def)

lemma put_out_from: "goes_from t s \<Longrightarrow> goes_from t (put_out o' s)"
  by (auto simp: goes_from_def put_out_def closed_stream_def intro: prefix_order.trans)

lemma field_from [simp]:
  "goes_from t (s\<lparr>st_phase := ph\<rparr>) \<longleftrightarrow> goes_from t s"
  "goes_from t (s\<lparr>st_reading := rd\<rparr>) \<longleftrightarrow> goes_from t s"
  "goes_from t (s\<lparr>st_sent := b\<rparr>) \<longleftrightarrow> goes_from t s"
  "goes_from t (s\<lparr>st_consumed := n\<rparr>) \<longleftrightarrow> goes_from t s"
  "goes_from t (s\<lparr>st_answer := a\<rparr>) \<longleftrightarrow> goes_from t s"
  "goes_from t (s\<lparr>st_held := h\<rparr>) \<longleftrightarrow> goes_from t s"
  "goes_from t (s\<lparr>st_raised := x\<rparr>) \<longleftrightarrow> goes_from t s"
  "goes_from t (s\<lparr>st_not_judged := y\<rparr>) \<longleftrightarrow> goes_from t s"
  by (simp_all add: goes_from_def closed_stream_def)

lemma finish_from: "goes_from t s \<Longrightarrow> goes_from t (finish_stream s)"
  by (auto simp: goes_from_def finish_stream_def closed_stream_def)

lemma ends_from:
  "goes_from t s \<Longrightarrow> goes_from t (stop s)"
  "goes_from t s \<Longrightarrow> goes_from t (last_out o' s)"
  "goes_from t s \<Longrightarrow> goes_from t (raise_failure ex s)"
  "goes_from t s \<Longrightarrow> goes_from t (fail_turn cf r why s)"
  "goes_from t s \<Longrightarrow> goes_from t (no_judgment y s)"
  by (auto simp: stop_def last_out_def raise_failure_def fail_turn_def no_judgment_def
      intro: finish_from put_out_from split: option.splits bool.splits)

lemmas from_rules = put_out_from ends_from

lemma ask_from: "goes_from s (ask_handler cf s)"
  by (auto simp: ask_handler_def Let_def intro!: from_rules split: judged.splits answer_to.splits)

lemma judge_from: "goes_from s (judge_early cf s)" "goes_from s (judge_whole cf s)"
  by (auto simp: judge_early_def judge_whole_def Let_def intro!: from_rules
      split: judged.splits answer_to.splits)

lemma look_from:
  "look_early cf s = Some s' \<Longrightarrow> goes_from s s'"
  "look_whole cf s = Some s' \<Longrightarrow> goes_from s s'"
  "look_error s = Some s' \<Longrightarrow> goes_from s s'"
  by (auto simp: look_early_def look_whole_def look_error_def Let_def intro!: from_rules
      split: if_splits prod.splits sum.splits option.splits)

lemma after_error_from: "goes_from s (after_error s)"
  by (auto simp: after_error_def intro!: from_rules)

lemma run_from: "run_step cf s = Some s' \<Longrightarrow> goes_from s s'"
  by (auto simp: run_step_def ask_from judge_from after_error_from look_from intro!: from_rules
      split: phase.splits stream_mode.splits if_splits)

lemma alive_from: "keep_alive cf s = Some s' \<Longrightarrow> goes_from s s'"
  by (auto simp: keep_alive_def intro!: from_rules split: if_splits)

lemma end_from: "goes_from s (end_input s)" "goes_from s (abort s)"
  by (auto simp: goes_from_def end_input_def abort_def closed_stream_def)

text \<open>What feeding takes: all of the data, or none of it by a stream that is closed then.\<close>

lemma feed_out: "feed cf data s = Took s' \<Longrightarrow> st_out s' = st_out s \<and> st_ended s' = st_ended s \<and> st_aborted s' = st_aborted s"
  by (auto simp: feed_def split: if_splits)

lemma feed_takes:
  assumes "feed cf data s = Took s'"
  shows "closed_stream s \<Longrightarrow> closed_stream s'"
    and "st_fed s' = st_fed s @ data \<or> (st_fed s' = st_fed s \<and> closed_stream s')"
  using assms by (auto simp: feed_def closed_stream_def split: if_splits)

end
