(* ===== verification/ProxyStreamsLaws.thy ===== *)
theory ProxyStreamsLaws
  imports ProxyStreams StreamGrowth
begin

text \<open>
  What one open reply stream keeps, whatever is called and whichever task goes on: its outputs are
  a part of all the stream gave, their size is what is counted, and the chunks are fed in order.
\<close>

named_theorems opened "what the operations on an open stream keep"

section \<open>Outputs\<close>

definition release_log :: "proxy_config \<Rightarrow> open_reply \<Rightarrow> (failure + stream_output) list" where
  "release_log pc p = map (kept_output pc) (st_out (op_stream p))"

definition given_out :: "open_reply \<Rightarrow> nat" where
  "given_out p = op_base p + length (op_outputs p)"

definition outputs_ok :: "proxy_config \<Rightarrow> open_reply \<Rightarrow> bool" where
  "outputs_ok pc p \<longleftrightarrow>
     given_out p \<le> op_read p \<and> op_read p \<le> length (st_out (op_stream p))
     \<and> map Inr (op_outputs p) = drop (op_base p) (take (given_out p) (release_log pc p))
     \<and> (op_holding p = None \<longrightarrow> op_ended p \<or> op_read p = given_out p)
     \<and> (\<forall>g. op_holding p = Some g \<longrightarrow>
          \<not> op_ended p \<and> op_read p = Suc (given_out p) \<and> g = st_out (op_stream p) ! given_out p)"

definition room_ok :: "proxy_config \<Rightarrow> open_reply \<Rightarrow> bool" where
  "room_ok pc p \<longleftrightarrow>
     op_pending p = outputs_size (op_outputs p)
     \<and> (op_done p \<or> op_outputs p = [] \<or> outputs_size (butlast (op_outputs p)) < pc_max_pending pc)"

definition open_ok :: "proxy_config \<Rightarrow> open_reply \<Rightarrow> bool" where
  "open_ok pc p \<longleftrightarrow>
     op_config p = config_for pc (op_begun p) \<and> reached (op_config p) (op_stream p)
     \<and> outputs_ok pc p \<and> room_ok pc p"

text \<open>Another moment of the same stream: all it gave before it has still given.\<close>

definition same_stream :: "open_reply \<Rightarrow> open_reply \<Rightarrow> bool" where
  "same_stream p q \<longleftrightarrow>
     op_begun q = op_begun p \<and> op_config q = op_config p
     \<and> prefix (st_out (op_stream p)) (st_out (op_stream q)) \<and> given_out p \<le> given_out q"

lemma same_stream_refl [simp]: "same_stream p p"
  by (simp add: same_stream_def)

lemma same_stream_trans: "same_stream p q \<Longrightarrow> same_stream q r \<Longrightarrow> same_stream p r"
  by (auto simp: same_stream_def intro: prefix_order.trans)

lemma same_stream_log: "same_stream p q \<Longrightarrow> prefix (release_log pc p) (release_log pc q)"
  by (auto simp: same_stream_def release_log_def prefix_def)

lemma new_open_ok: "open_ok pc (new_open pc given t)"
  by (auto simp: open_ok_def new_open_def outputs_ok_def room_ok_def given_out_def release_log_def
      outputs_size_def intro: reached.Fresh)

lemma take_more: "prefix xs ys \<Longrightarrow> n \<le> length xs \<Longrightarrow> take n ys = take n xs"
  by (auto simp: prefix_def)

lemma stream_changes:
  assumes "open_ok pc p" "prefix (st_out (op_stream p)) (st_out s)" "reached (op_config p) s"
  shows "open_ok pc (p\<lparr>op_stream := s\<rparr>)"
proof -
  let ?q = "p\<lparr>op_stream := s\<rparr>"
  have o: "outputs_ok pc p" using assms(1) by (simp add: open_ok_def)
  have l: "take (given_out p) (release_log pc ?q) = take (given_out p) (release_log pc p)"
    using o assms(2) by (intro take_more) (auto simp: release_log_def outputs_ok_def prefix_def)
  have n: "given_out p < length (st_out (op_stream p)) \<Longrightarrow> st_out s ! given_out p = st_out (op_stream p) ! given_out p"
    using assms(2) by (auto simp: prefix_def nth_append)
  from o assms(2) l n have "outputs_ok pc ?q"
    by (auto simp: outputs_ok_def given_out_def prefix_def split: option.splits)
  with assms show ?thesis by (simp add: open_ok_def room_ok_def)
qed

lemma stream_goes_on:
  assumes "open_ok pc p" "stream_step (op_config p) (op_stream p) s" "prefix (st_out (op_stream p)) (st_out s)"
  shows "open_ok pc (p\<lparr>op_stream := s\<rparr>)" "same_stream p (p\<lparr>op_stream := s\<rparr>)"
  using assms stream_changes [of pc p s] reached.Onward [of "op_config p" "op_stream p" s]
  by (auto simp: open_ok_def same_stream_def given_out_def)

lemma fields_kept [opened]:
  "open_ok pc p \<Longrightarrow> open_ok pc (p\<lparr>op_touched := t\<rparr>)"
  "open_ok pc p \<Longrightarrow> open_ok pc (p\<lparr>op_chunks := cs, op_fed := fs\<rparr>)"
  "open_ok pc p \<Longrightarrow> open_ok pc (p\<lparr>op_fed := fs\<rparr>)"
  "open_ok pc p \<Longrightarrow> open_ok pc (p\<lparr>op_done := True\<rparr>)"
  by (auto simp: open_ok_def outputs_ok_def room_ok_def given_out_def release_log_def)

lemma fields_same [opened]:
  "same_stream p (p\<lparr>op_touched := t\<rparr>)"
  "same_stream p (p\<lparr>op_chunks := cs, op_fed := fs\<rparr>)"
  "same_stream p (p\<lparr>op_fed := fs\<rparr>)"
  "same_stream p (p\<lparr>op_done := True\<rparr>)"
  by (simp_all add: same_stream_def given_out_def)

lemma end_open_ok [opened]: "open_ok pc p \<Longrightarrow> open_ok pc (end_open p)" "open_ok pc p \<Longrightarrow> same_stream p (end_open p)"
  unfolding end_open_def
  by (rule stream_goes_on, assumption, rule stream_step.EndInput, simp add: end_input_def)+

lemma abort_open_ok [opened]: "open_ok pc p \<Longrightarrow> open_ok pc (abort_open p)" "open_ok pc p \<Longrightarrow> same_stream p (abort_open p)"
proof -
  assume p: "open_ok pc p"
  have "open_ok pc (p\<lparr>op_stream := abort (op_stream p)\<rparr>)" "same_stream p (p\<lparr>op_stream := abort (op_stream p)\<rparr>)"
    by (rule stream_goes_on [OF p], rule stream_step.Abort, simp add: abort_def)+
  then show "open_ok pc (abort_open p)" "same_stream p (abort_open p)"
    unfolding abort_open_def by (auto simp: open_ok_def outputs_ok_def room_ok_def given_out_def
        release_log_def same_stream_def)
qed

lemma stream_task_ok:
  assumes "open_ok pc p" "stream_task f p = Some q"
    and "\<And>cf s s'. f cf s = Some s' \<Longrightarrow> stream_step cf s s'" "\<And>cf s s'. f cf s = Some s' \<Longrightarrow> goes_from s s'"
  shows "open_ok pc q" "same_stream p q"
  using assms(2) stream_goes_on [OF assms(1)] assms(3,4) by (auto simp: stream_task_def goes_from_def)

lemma feed_chunk_ok [opened]:
  assumes "open_ok pc p" "feed_chunk n data p = Some (a, q)"
  shows "open_ok pc q" "same_stream p q"
proof -
  from assms(2) consider (took) s where "feed (op_config p) data (op_stream p) = Took s"
      "q = p\<lparr>op_stream := s, op_fed := (op_fed p)[n := True]\<rparr>"
    | (not) "q = p\<lparr>op_fed := (op_fed p)[n := True]\<rparr>"
    by (auto simp: feed_chunk_def split: feed_result.splits)
  then have "open_ok pc q \<and> same_stream p q"
  proof cases
    case took
    note g = stream_goes_on [OF assms(1) stream_step.Feed [OF took(1)]]
    have "open_ok pc (p\<lparr>op_stream := s\<rparr>)" "same_stream p (p\<lparr>op_stream := s\<rparr>)"
      using g feed_out [OF took(1)] by simp_all
    from fields_kept(3) [OF this(1)] this(2) show ?thesis
      by (simp add: took(2) same_stream_def given_out_def)
  next
    case not
    with assms(1) show ?thesis by (simp add: opened)
  qed
  then show "open_ok pc q" "same_stream p q" by simp_all
qed

section \<open>Collecting\<close>

lemma outputs_size_append [simp]: "outputs_size (xs @ ys) = outputs_size xs + outputs_size ys"
  by (simp add: outputs_size_def)

lemma outputs_size_simps [simp]: "outputs_size [] = 0" "outputs_size [x] = output_size x"
  by (simp_all add: outputs_size_def)

lemma outputs_size_drop: "outputs_size (drop k os) = outputs_size os - outputs_size (take k os)"
  by (metis append_take_drop_id diff_add_inverse outputs_size_append)

lemma outputs_size_drop_le: "outputs_size (drop k os) \<le> outputs_size os"
  by (simp add: outputs_size_drop)

lemma butlast_drop_swap: "butlast (drop k os) = drop k (butlast os)"
  by (rule butlast_drop)

lemma end_collecting_ok:
  assumes "open_ok pc p"
  shows "open_ok pc (end_collecting ex p)" "same_stream p (end_collecting ex p)"
  using assms by (auto simp: end_collecting_def open_ok_def outputs_ok_def room_ok_def given_out_def
      release_log_def same_stream_def)

lemma keep_output_ok:
  assumes "open_ok pc p" "op_holding p = Some g" "op_done p \<or> op_pending p < pc_max_pending pc"
  shows "open_ok pc (keep_output pc g p)" "same_stream p (keep_output pc g p)"
proof -
  note o = assms(1) [unfolded open_ok_def outputs_ok_def room_ok_def]
  have g: "g = st_out (op_stream p) ! given_out p" "op_read p = Suc (given_out p)" "given_out p < length (st_out (op_stream p))"
    using o assms(2) by auto
  have "open_ok pc (keep_output pc g p) \<and> same_stream p (keep_output pc g p)"
  proof (cases "kept_output pc g")
    case (Inl ex)
    then show ?thesis using end_collecting_ok [OF assms(1)] by (simp add: keep_output_def)
  next
    case (Inr kept)
    let ?q = "p\<lparr>op_holding := None, op_outputs := op_outputs p @ [kept], op_pending := op_pending p + output_size kept\<rparr>"
    have l: "take (Suc (given_out p)) (release_log pc p) = take (given_out p) (release_log pc p) @ [Inr kept]"
      using g Inr by (simp add: release_log_def take_Suc_conv_app_nth)
    have n: "length (take (given_out p) (release_log pc p)) = given_out p"
      using g(3) by (simp add: release_log_def)
    have "op_base p \<le> given_out p" by (simp add: given_out_def)
    then have "map Inr (op_outputs p @ [kept]) = drop (op_base p) (take (Suc (given_out p)) (release_log pc p))"
      using o n by (simp add: l)
    moreover have "given_out ?q = Suc (given_out p)" "release_log pc ?q = release_log pc p"
      by (simp_all add: given_out_def release_log_def)
    ultimately have "outputs_ok pc ?q" using g o by (auto simp: outputs_ok_def)
    moreover have "room_ok pc ?q" using o assms(3) by (auto simp: room_ok_def)
    moreover have "op_config p = config_for pc (op_begun p)" "reached (op_config p) (op_stream p)" using o by blast+
    ultimately show ?thesis using Inr
      by (simp add: keep_output_def open_ok_def same_stream_def given_out_def)
  qed
  then show "open_ok pc (keep_output pc g p)" "same_stream p (keep_output pc g p)" by simp_all
qed

lemma read_output_ok:
  assumes "open_ok pc p" "op_holding p = None" "\<not> op_ended p" "op_read p < length (st_out (op_stream p))"
  shows "open_ok pc (p\<lparr>op_holding := Some (st_out (op_stream p) ! op_read p), op_read := Suc (op_read p)\<rparr>)"
    "same_stream p (p\<lparr>op_holding := Some (st_out (op_stream p) ! op_read p), op_read := Suc (op_read p)\<rparr>)"
  using assms by (auto simp: open_ok_def outputs_ok_def room_ok_def given_out_def release_log_def same_stream_def)

lemma collect_step_ok [opened]:
  assumes "open_ok pc p" "collect_step pc p = Some q"
  shows "open_ok pc q" "same_stream p q"
  using assms(2) end_collecting_ok [OF assms(1)] keep_output_ok [OF assms(1)] read_output_ok [OF assms(1)]
  by (auto simp: collect_step_def Let_def split: if_splits option.splits)

lemma collect_taken_ok [opened]:
  assumes "open_ok pc p" "op_base p \<le> n"
  shows "open_ok pc (collect_taken n p)" "same_stream p (collect_taken n p)"
    "given_out (collect_taken n p) = given_out p" "op_base (collect_taken n p) = min n (given_out p)"
proof -
  let ?k = "min n (given_out p) - op_base p" let ?q = "collect_taken n p"
  note o = assms(1) [unfolded open_ok_def outputs_ok_def room_ok_def]
  have k: "op_base p + ?k = min n (given_out p)" "?k \<le> length (op_outputs p)"
    using assms(2) by (auto simp: given_out_def)
  have q: "op_outputs ?q = drop ?k (op_outputs p)" "op_base ?q = op_base p + ?k" "op_read ?q = op_read p"
    "op_holding ?q = op_holding p" "op_ended ?q = op_ended p" "op_done ?q = op_done p" "op_stream ?q = op_stream p"
    "op_pending ?q = op_pending p - outputs_size (take ?k (op_outputs p))" "op_begun ?q = op_begun p" "op_config ?q = op_config p"
    by (simp_all add: collect_taken_def Let_def given_out_def)
  show given: "given_out ?q = given_out p" using k by (simp add: given_out_def q)
  show "op_base ?q = min n (given_out p)" using k by (simp add: q)
  have l: "release_log pc ?q = release_log pc p" by (simp add: release_log_def q)
  have "map Inr (op_outputs ?q) = drop (op_base ?q) (take (given_out p) (release_log pc p))"
    using o by (simp add: q drop_map [symmetric] add.commute)
  then have "outputs_ok pc ?q" using o given l by (auto simp: outputs_ok_def q)
  moreover have "room_ok pc ?q"
    using o outputs_size_drop_le [of ?k "butlast (op_outputs p)"]
    by (auto simp: room_ok_def q outputs_size_drop butlast_drop_swap)
  moreover have "op_config p = config_for pc (op_begun p)" "reached (op_config p) (op_stream p)" using o by blast+
  ultimately show "open_ok pc ?q" by (simp add: open_ok_def q)
  show "same_stream p ?q" by (simp add: same_stream_def given q)
qed

end
