(* ===== verification/ProxyStreamsRuns.thy ===== *)
theory ProxyStreamsRuns
  imports ProxyStreamsLaws
begin

text \<open>
  What the open reply streams keep over any sequence of calls, resumed calls, tasks and time.
\<close>

section \<open>Chunks in order\<close>

definition turn_of :: "nat \<Rightarrow> nat \<times> pending_wait \<Rightarrow> (nat \<times> string) option" where
  "turn_of j p = (case snd p of ForTurn j' n data \<Rightarrow> if j' = j then Some (n, data) else None | _ \<Rightarrow> None)"

definition turns_of :: "nat \<Rightarrow> (nat \<times> pending_wait) list \<Rightarrow> (nat \<times> string) list" where
  "turns_of j ws = List.map_filter (turn_of j) ws"

definition waiting_chunks :: "nat \<Rightarrow> string list \<Rightarrow> (nat \<times> string) list" where
  "waiting_chunks k cs = map (\<lambda>n. (n, cs ! n)) [k..<length cs]"

text \<open>\<open>k\<close> chunks were fed, and the stream took the first \<open>m\<close> of them: all, unless it was closed or
  its input had ended.\<close>

definition fed_upto :: "open_reply \<Rightarrow> nat \<Rightarrow> bool" where
  "fed_upto p k \<longleftrightarrow>
     k \<le> length (op_chunks p)
     \<and> op_fed p = replicate k True @ replicate (length (op_chunks p) - k) False
     \<and> (\<exists>m\<le>k. st_fed (op_stream p) = concat (take m (op_chunks p))
          \<and> (m = k \<or> closed_stream (op_stream p) \<or> st_ended (op_stream p)))"

definition chunks_ok :: "(nat \<times> pending_wait) list \<Rightarrow> nat \<Rightarrow> open_reply \<Rightarrow> bool" where
  "chunks_ok ws j p \<longleftrightarrow> (\<exists>k. fed_upto p k \<and> turns_of j ws = waiting_chunks k (op_chunks p))"

lemma turns_of_simps [simp]:
  "turns_of j [] = []"
  "turns_of j (ws @ vs) = turns_of j ws @ turns_of j vs"
  by (simp_all add: turns_of_def List.map_filter_def)

lemma turns_of_Cons: "turns_of j (p # ws) = (case turn_of j p of None \<Rightarrow> [] | Some t \<Rightarrow> [t]) @ turns_of j ws"
  by (simp add: turns_of_def List.map_filter_def split: option.splits)

lemma turns_of_none: "(\<And>p. p \<in> set ws \<Longrightarrow> turn_of j p = None) \<Longrightarrow> turns_of j ws = []"
  by (induction ws) (auto simp: turns_of_Cons)

lemma turns_of_one [simp]: "turns_of j [p] = (case turn_of j p of None \<Rightarrow> [] | Some t \<Rightarrow> [t])"
  by (simp add: turns_of_Cons)

lemma turns_of_filter:
  "(\<And>p. p \<in> set ws \<Longrightarrow> \<not> P p \<Longrightarrow> turn_of j p = None) \<Longrightarrow> turns_of j (filter P ws) = turns_of j ws"
  by (induction ws) (auto simp: turns_of_Cons)

lemma new_chunks_ok: "turns_of j ws = [] \<Longrightarrow> chunks_ok ws j (new_open pc given t)"
  unfolding chunks_ok_def
  by (rule exI [of _ 0]) (simp add: fed_upto_def new_open_def waiting_chunks_def start_state_def)

lemma chunks_ok_stream:
  assumes "chunks_ok ws j p" "goes_from (op_stream p) (op_stream q)" "op_chunks q = op_chunks p" "op_fed q = op_fed p"
  shows "chunks_ok ws j q"
proof -
  from assms(1) obtain k where k: "fed_upto p k" "turns_of j ws = waiting_chunks k (op_chunks p)"
    by (auto simp: chunks_ok_def)
  with assms(2-4) have "fed_upto q k" by (auto simp: fed_upto_def goes_from_def)
  with k assms(3) show ?thesis by (auto simp: chunks_ok_def)
qed

lemma chunks_ok_new:
  assumes "chunks_ok ws j p"
  shows "chunks_ok (ws @ [(c, ForTurn j (length (op_chunks p)) data)]) j
           (p\<lparr>op_chunks := op_chunks p @ [data], op_fed := op_fed p @ [False]\<rparr>)"
proof -
  from assms obtain k where k: "fed_upto p k" "turns_of j ws = waiting_chunks k (op_chunks p)"
    by (auto simp: chunks_ok_def)
  let ?q = "p\<lparr>op_chunks := op_chunks p @ [data], op_fed := op_fed p @ [False]\<rparr>"
  have "fed_upto ?q k"
    using k(1) by (auto simp: fed_upto_def Suc_diff_le replicate_append_same [symmetric])
  moreover have "waiting_chunks k (op_chunks ?q) = waiting_chunks k (op_chunks p) @ [(length (op_chunks p), data)]"
    using k(1) by (auto simp: waiting_chunks_def fed_upto_def nth_append)
  ultimately show ?thesis using k(2) by (auto simp: chunks_ok_def turn_of_def)
qed

lemma chunks_ok_fed:
  assumes "chunks_ok ws j p" "turns_of j ws = (n, data) # turns_of j vs" "feed_chunk n data p = Some (a, q)"
  shows "chunks_ok vs j q"
proof -
  from assms(1) obtain k m where k: "fed_upto p k" "turns_of j ws = waiting_chunks k (op_chunks p)"
    and m: "m \<le> k" "st_fed (op_stream p) = concat (take m (op_chunks p))"
      "m = k \<or> closed_stream (op_stream p) \<or> st_ended (op_stream p)"
    by (auto simp: chunks_ok_def fed_upto_def)
  have l: "k < length (op_chunks p)"
    using k(2) assms(2) by (cases "k < length (op_chunks p)") (auto simp: waiting_chunks_def)
  then have w: "waiting_chunks k (op_chunks p) = (k, op_chunks p ! k) # waiting_chunks (Suc k) (op_chunks p)"
    by (simp add: waiting_chunks_def upt_conv_Cons)
  with k(2) assms(2) have n: "n = k" "data = op_chunks p ! k" "turns_of j vs = waiting_chunks (Suc k) (op_chunks p)"
    by simp_all
  have q: "op_chunks q = op_chunks p" "op_fed q = (op_fed p)[n := True]"
    using assms(3) by (auto simp: feed_chunk_def split: feed_result.splits)
  have "(op_fed p)[k := True] = replicate (Suc k) True @ replicate (length (op_chunks p) - Suc k) False"
    using k(1) l by (auto simp: fed_upto_def list_update_append Suc_diff_Suc [symmetric] replicate_app_Cons_same)
  moreover have "\<exists>m\<le>Suc k. st_fed (op_stream q) = concat (take m (op_chunks p))
       \<and> (m = Suc k \<or> closed_stream (op_stream q) \<or> st_ended (op_stream q))"
  proof -
    from assms(3) consider (took) s where "feed (op_config p) data (op_stream p) = Took s" "op_stream q = s"
      | (not) "op_stream q = op_stream p" "st_ended (op_stream p)"
      by (auto simp: feed_chunk_def feed_def split: feed_result.splits if_splits)
    then show ?thesis
    proof cases
      case took
      note t = feed_takes [OF took(1)] feed_out [OF took(1)]
      show ?thesis
      proof (cases "st_fed s = st_fed (op_stream p) @ data \<and> m = k")
        case True
        then show ?thesis using m(2) l n(2) took(2) by (intro exI [of _ "Suc k"]) (simp add: take_Suc_conv_app_nth)
      next
        case False
        have f: "st_fed s = st_fed (op_stream p)"
        proof (rule ccontr)
          assume "st_fed s \<noteq> st_fed (op_stream p)"
          with t(2) False have "st_fed s = st_fed (op_stream p) @ data" "m \<noteq> k" by auto
          then have "closed_stream (op_stream p) \<or> st_ended (op_stream p)" using m(3) by simp
          then show False using took(1) \<open>st_fed s \<noteq> st_fed (op_stream p)\<close>
            by (auto simp: feed_def closed_stream_def split: if_splits)
        qed
        moreover have "closed_stream s \<or> st_ended s"
          using t False m(3) f by (cases "m = k") auto
        ultimately show ?thesis using m(1,2) took(2) by (intro exI [of _ m]) simp
      qed
    next
      case not
      with m show ?thesis by (intro exI [of _ m]) simp
    qed
  qed
  ultimately have "fed_upto q (Suc k)" using l by (auto simp: fed_upto_def q n(1))
  with n(3) show ?thesis by (auto simp: chunks_ok_def q)
qed

text \<open>The first in line for a stream is the first of its turns.\<close>

lemma first_turn_waits:
  assumes "first_in_line ws j = Some c" "map_of ws c = Some (ForTurn j n data)" "distinct (map fst ws)"
  shows "turns_of j ws = (n, data) # turns_of j (filter (\<lambda>p. fst p \<noteq> c) ws)"
proof -
  from assms(1) obtain p where p: "find (\<lambda>p. wants_turn (snd p) = Some j) ws = Some p" "fst p = c"
    by (auto simp: first_in_line_def)
  then obtain us vs where s: "ws = us @ p # vs" "\<And>u. u \<in> set us \<Longrightarrow> wants_turn (snd u) \<noteq> Some j"
    unfolding find_Some_iff
    by (metis (no_types, lifting) id_take_nth_drop in_set_conv_nth length_take min_less_iff_conj nth_take)
  have pc: "p = (c, ForTurn j n data)"
    using assms(2,3) p(2) s(1) by (metis Some_eq_map_of_iff in_set_conv_decomp map_of_is_SomeI option.inject prod.collapse)
  have u: "turn_of j u = None" if "u \<in> set us" for u
    using s(2) [OF that] by (auto simp: turn_of_def split: pending_wait.splits)
  have "c \<notin> fst ` set us" "c \<notin> fst ` set vs" using assms(3) s(1) p(2) by auto
  then have "filter (\<lambda>p. fst p \<noteq> c) us = us" "filter (\<lambda>p. fst p \<noteq> c) vs = vs"
    by (auto simp: filter_id_conv image_iff)
  then show ?thesis using s(1) pc u by (simp add: turns_of_Cons turns_of_none turn_of_def)
qed

section \<open>All the streams\<close>

fun waits_on :: "pending_wait \<Rightarrow> nat" where
  "waits_on (ForChunk j n) = j"
| "waits_on (ForTurn j n data) = j"
| "waits_on (ForEnd j) = j"
| "waits_on (ForOutput j i t) = j"

definition waits_right :: "proxy_streams \<Rightarrow> nat \<times> pending_wait \<Rightarrow> bool" where
  "waits_right w p \<longleftrightarrow>
     fst p < ps_calls w \<and> waits_on (snd p) < length (ps_opened w)
     \<and> (\<forall>j i t. snd p = ForOutput j i t \<longrightarrow> bg_id (op_begun (ps_opened w ! j)) = i)"

definition known_right :: "proxy_streams \<Rightarrow> bool" where
  "known_right w \<longleftrightarrow>
     (\<forall>i j. (i, j) \<in> set (ps_known w) \<longrightarrow> j < length (ps_opened w) \<and> bg_id (op_begun (ps_opened w ! j)) = i)"

definition streams_ok :: "proxy_config \<Rightarrow> proxy_streams \<Rightarrow> bool" where
  "streams_ok pc w \<longleftrightarrow>
     (\<forall>j<length (ps_opened w). open_ok pc (ps_opened w ! j) \<and> chunks_ok (ps_waiting w) j (ps_opened w ! j))
     \<and> known_right w \<and> distinct (map fst (ps_waiting w)) \<and> (\<forall>p\<in>set (ps_waiting w). waits_right w p)"

text \<open>Every stream goes on as the same stream.\<close>

definition go_on :: "proxy_streams \<Rightarrow> proxy_streams \<Rightarrow> bool" where
  "go_on w w' \<longleftrightarrow>
     length (ps_opened w) \<le> length (ps_opened w')
     \<and> (\<forall>j<length (ps_opened w). same_stream (ps_opened w ! j) (ps_opened w' ! j))"

lemma go_on_refl [simp]: "go_on w w"
  by (simp add: go_on_def)

lemma go_on_trans: "go_on w v \<Longrightarrow> go_on v u \<Longrightarrow> go_on w u"
  unfolding go_on_def by (meson le_trans less_le_trans same_stream_trans)

lemma streams_okD:
  assumes "streams_ok pc w" "j < length (ps_opened w)"
  shows "open_ok pc (ps_opened w ! j)" "chunks_ok (ps_waiting w) j (ps_opened w ! j)"
  using assms by (auto simp: streams_ok_def)

lemma known_open: "streams_ok pc w \<Longrightarrow> map_of (ps_known w) i = Some j \<Longrightarrow>
    j < length (ps_opened w) \<and> bg_id (op_begun (ps_opened w ! j)) = i"
  by (auto simp: streams_ok_def known_right_def dest: map_of_SomeD)

lemma change_open_simps [simp]:
  "length (ps_opened (change_open j f w)) = length (ps_opened w)"
  "ps_waiting (change_open j f w) = ps_waiting w" "ps_known (change_open j f w) = ps_known w"
  "ps_calls (change_open j f w) = ps_calls w" "ps_now (change_open j f w) = ps_now w"
  by (simp_all add: change_open_def)

lemma change_open_at: "k < length (ps_opened w) \<Longrightarrow>
    ps_opened (change_open j f w) ! k = (if k = j then f (ps_opened w ! j) else ps_opened w ! k)"
  by (simp add: change_open_def nth_list_update)

lemma same_begun: "same_stream p q \<Longrightarrow> op_begun q = op_begun p"
  by (simp add: same_stream_def)

lemma waits_right_go_on: "waits_right w p \<Longrightarrow> go_on w w' \<Longrightarrow> ps_calls w \<le> ps_calls w' \<Longrightarrow> waits_right w' p"
  by (auto simp: waits_right_def go_on_def dest!: same_begun)

lemma known_right_go_on: "known_right w \<Longrightarrow> go_on w w' \<Longrightarrow> set (ps_known w') \<subseteq> set (ps_known w) \<Longrightarrow> known_right w'"
  by (fastforce simp: known_right_def go_on_def dest!: same_begun)

text \<open>One stream changes, and with it whichever calls wait.\<close>

lemma change_one:
  assumes "streams_ok pc w" "j < length (ps_opened w)" "open_ok pc q" "same_stream (ps_opened w ! j) q"
    and "ps_opened w' = (ps_opened w)[j := q]" "set (ps_known w') \<subseteq> set (ps_known w)" "ps_calls w \<le> ps_calls w'"
    and "chunks_ok (ps_waiting w') j q"
    and "\<And>k. k \<noteq> j \<Longrightarrow> turns_of k (ps_waiting w') = turns_of k (ps_waiting w)"
    and "distinct (map fst (ps_waiting w'))" "\<And>p. p \<in> set (ps_waiting w') \<Longrightarrow> p \<in> set (ps_waiting w) \<or> waits_right w' p"
  shows "streams_ok pc w' \<and> go_on w w'"
proof
  show g: "go_on w w'" using assms(2,4,5) by (auto simp: go_on_def nth_list_update)
  have "open_ok pc (ps_opened w' ! k) \<and> chunks_ok (ps_waiting w') k (ps_opened w' ! k)"
    if "k < length (ps_opened w')" for k
    using that streams_okD [OF assms(1), of k] assms(2,3,5,8,9) by (auto simp: nth_list_update chunks_ok_def)
  moreover have "known_right w'" using assms(1,6) g by (auto simp: streams_ok_def intro: known_right_go_on)
  moreover have "\<forall>p\<in>set (ps_waiting w'). waits_right w' p"
    using assms(1,7,11) g unfolding streams_ok_def by (meson waits_right_go_on)
  ultimately show "streams_ok pc w'" using assms(10) by (auto simp: streams_ok_def)
qed

lemma change_quietly:
  assumes "streams_ok pc w" "j < length (ps_opened w)" "open_ok pc (f (ps_opened w ! j))"
    "same_stream (ps_opened w ! j) (f (ps_opened w ! j))" "chunks_ok (ps_waiting w) j (f (ps_opened w ! j))"
  shows "streams_ok pc (change_open j f w)" "go_on w (change_open j f w)"
proof -
  have "streams_ok pc (change_open j f w) \<and> go_on w (change_open j f w)"
    by (rule change_one [OF assms(1,2,3,4)]; use assms in \<open>auto simp: change_open_def streams_ok_def\<close>)
  then show "streams_ok pc (change_open j f w)" "go_on w (change_open j f w)" by simp_all
qed

lemma unchanged_opened:
  assumes "streams_ok pc w" "ps_opened w' = ps_opened w" "ps_waiting w' = ps_waiting w"
    "set (ps_known w') \<subseteq> set (ps_known w)" "ps_calls w \<le> ps_calls w'"
  shows "streams_ok pc w'" "go_on w w'"
proof -
  show g: "go_on w w'" using assms(2) by (simp add: go_on_def)
  from assms g show "streams_ok pc w'"
    by (auto simp: streams_ok_def intro: known_right_go_on waits_right_go_on)
qed

lemma touch_ok:
  assumes "streams_ok pc w" "j < length (ps_opened w)"
  shows "streams_ok pc (touch w j)" "go_on w (touch w j)"
proof -
  let ?f = "\<lambda>p. p\<lparr>op_touched := ps_now w\<rparr>"
  note o = streams_okD [OF assms]
  have "chunks_ok (ps_waiting w) j (?f (ps_opened w ! j))" by (rule chunks_ok_stream [OF o(2)]) simp_all
  note q = change_quietly [of pc w j ?f, OF assms fields_kept(1) [OF o(1)] fields_same(1) this]
  from q show "streams_ok pc (touch w j)" "go_on w (touch w j)" by (simp_all add: touch_def)
qed

lemma touch_simps [simp]:
  "length (ps_opened (touch w j)) = length (ps_opened w)" "ps_waiting (touch w j) = ps_waiting w"
  "ps_known (touch w j) = ps_known w" "ps_calls (touch w j) = ps_calls w" "ps_now (touch w j) = ps_now w"
  by (simp_all add: touch_def)

section \<open>What every event keeps\<close>

lemma forget_subset: "set (forget i ks) \<subseteq> set ks"
  by (auto simp: forget_def)

lemma abort_stream_ok:
  assumes "streams_ok pc w"
  shows "streams_ok pc (abort_stream i w)" "go_on w (abort_stream i w)"
proof -
  have "streams_ok pc (abort_stream i w) \<and> go_on w (abort_stream i w)"
  proof (cases "map_of (ps_known w) i")
    case None
    then show ?thesis using assms by (simp add: abort_stream_def)
  next
    case (Some j)
    let ?v = "w\<lparr>ps_known := forget i (ps_known w)\<rparr>"
    have v: "streams_ok pc ?v" "go_on w ?v" using unchanged_opened [OF assms, of ?v] forget_subset by auto
    have j: "j < length (ps_opened ?v)" using known_open [OF assms Some] by simp
    note o = streams_okD [OF v(1) j]
    have "chunks_ok (ps_waiting ?v) j (abort_open (ps_opened ?v ! j))"
      by (rule chunks_ok_stream [OF o(2)]) (simp_all add: abort_open_def end_from)
    with change_quietly [where f = abort_open, OF v(1) j abort_open_ok(1) [OF o(1)] abort_open_ok(2) [OF o(1)]] v(2) Some
    show ?thesis by (auto simp: abort_stream_def intro: go_on_trans)
  qed
  then show "streams_ok pc (abort_stream i w)" "go_on w (abort_stream i w)" by simp_all
qed

lemma sweep_ok:
  assumes "streams_ok pc w"
  shows "streams_ok pc (sweep pc w)" "go_on w (sweep pc w)"
proof -
  have "streams_ok pc (fold abort_stream names v) \<and> go_on w (fold abort_stream names v)"
    if "streams_ok pc v" "go_on w v" for names v
    using that
  proof (induction names arbitrary: v)
    case (Cons i names)
    show ?case using Cons.IH [OF abort_stream_ok(1) go_on_trans [OF _ abort_stream_ok(2)]] Cons.prems by simp
  qed simp
  then show "streams_ok pc (sweep pc w)" "go_on w (sweep pc w)" using assms by (simp_all add: sweep_def)
qed

lemma task_step_ok:
  assumes "streams_ok pc w"
    and "\<And>p q ws j. open_ok pc p \<Longrightarrow> f p = Some q \<Longrightarrow> chunks_ok ws j p \<Longrightarrow>
           open_ok pc q \<and> same_stream p q \<and> chunks_ok ws j q"
  shows "streams_ok pc (task_step j f w)" "go_on w (task_step j f w)"
  using assms(1) change_quietly [OF assms(1), of j] assms(2) [OF streams_okD(1) [OF assms(1), of j]]
    streams_okD(2) [OF assms(1), of j]
  by (auto simp: task_step_def split: option.splits)

lemma tasks_ok:
  assumes "streams_ok pc w"
  shows "streams_ok pc (task_step j (stream_task run_step) w)" "go_on w (task_step j (stream_task run_step) w)"
    "streams_ok pc (task_step j (stream_task keep_alive) w)" "go_on w (task_step j (stream_task keep_alive) w)"
    "streams_ok pc (task_step j (collect_step pc) w)" "go_on w (task_step j (collect_step pc) w)"
proof -
  have s: "open_ok pc q \<and> same_stream p q \<and> chunks_ok ws k q"
    if "open_ok pc p" "stream_task f p = Some q" "chunks_ok ws k p" "f = run_step \<or> f = keep_alive" for f p q ws k
  proof -
    have f: "stream_step cf r r'" "goes_from r r'" if "f cf r = Some r'" for cf r r'
      using that \<open>f = run_step \<or> f = keep_alive\<close> by (auto intro: stream_step.Run stream_step.Alive run_from alive_from)
    from stream_task_ok [OF that(1,2) f] that(2) f(2) chunks_ok_stream [OF that(3), of q]
    show ?thesis by (auto simp: stream_task_def)
  qed
  have c: "open_ok pc q \<and> same_stream p q \<and> chunks_ok ws k q"
    if "open_ok pc p" "collect_step pc p = Some q" "chunks_ok ws k p" for p q ws k
  proof -
    have "op_stream q = op_stream p" "op_chunks q = op_chunks p" "op_fed q = op_fed p"
      using that(2) by (auto simp: collect_step_def Let_def keep_output_def end_collecting_def split: if_splits option.splits sum.splits)
    with that collect_step_ok [OF that(1,2)] chunks_ok_stream [OF that(3), of q] show ?thesis by simp
  qed
  have t: "streams_ok pc (task_step j (stream_task f) w) \<and> go_on w (task_step j (stream_task f) w)"
    if "f = run_step \<or> f = keep_alive" for f
    using task_step_ok [OF assms, of "stream_task f"] s that by blast
  then show "streams_ok pc (task_step j (stream_task run_step) w)" "go_on w (task_step j (stream_task run_step) w)"
    "streams_ok pc (task_step j (stream_task keep_alive) w)" "go_on w (task_step j (stream_task keep_alive) w)"
    by simp_all
  show "streams_ok pc (task_step j (collect_step pc) w)" "go_on w (task_step j (collect_step pc) w)"
    using task_step_ok [OF assms, of "collect_step pc"] c by blast+
qed

section \<open>Calls\<close>

text \<open>A call that waits for what is no chunk's turn.\<close>

lemma wait_ok:
  assumes "streams_ok pc v" "\<forall>p\<in>set (ps_waiting v). fst p < c" "waits_right v (c, x)" "\<And>j. turn_of j (c, x) = None"
  shows "streams_ok pc (v\<lparr>ps_waiting := ps_waiting v @ [(c, x)]\<rparr>)"
  using assms by (auto simp: streams_ok_def chunks_ok_def waits_right_def known_right_def)

lemma begin_new_ok:
  assumes "streams_ok pc w"
  shows "streams_ok pc (w\<lparr>ps_known := ps_known w @ [(bg_id given, length (ps_opened w))],
           ps_opened := ps_opened w @ [new_open pc given (ps_now w)]\<rparr>)" (is "streams_ok pc ?v")
    and "go_on w (w\<lparr>ps_known := ps_known w @ [(bg_id given, length (ps_opened w))],
           ps_opened := ps_opened w @ [new_open pc given (ps_now w)]\<rparr>)"
proof -
  show g: "go_on w ?v" by (simp add: go_on_def nth_append)
  have t: "turns_of (length (ps_opened w)) (ps_waiting w) = []"
    using assms by (intro turns_of_none) (fastforce simp: streams_ok_def waits_right_def turn_of_def split: pending_wait.splits)
  have "known_right ?v"
    using assms by (auto simp: streams_ok_def known_right_def nth_append new_open_def less_Suc_eq)
  moreover have "waits_right ?v q" if "q \<in> set (ps_waiting w)" for q
    using waits_right_go_on [OF _ g, of q] assms that by (auto simp: streams_ok_def)
  ultimately show "streams_ok pc ?v"
    using assms t by (auto simp: streams_ok_def nth_append less_Suc_eq intro: new_open_ok new_chunks_ok)
qed

text \<open>What a call leaves: all is right, and so is what it waits for.\<close>

definition call_ok :: "proxy_config \<Rightarrow> nat \<Rightarrow> proxy_streams \<Rightarrow> call_outcome \<times> proxy_streams \<Rightarrow> bool" where
  "call_ok pc c w r \<longleftrightarrow>
     go_on w (snd r)
     \<and> (case fst r of
          Now a \<Rightarrow> streams_ok pc (snd r)
        | Later x \<Rightarrow> streams_ok pc ((snd r)\<lparr>ps_waiting := ps_waiting (snd r) @ [(c, x)]\<rparr>))"

lemma call_ok_now: "streams_ok pc w' \<Longrightarrow> go_on w w' \<Longrightarrow> call_ok pc c w (Now a, w')"
  by (simp add: call_ok_def)

lemma call_ok_later:
  assumes "streams_ok pc w'" "go_on w w'" "\<forall>p\<in>set (ps_waiting w'). fst p < c" "waits_right w' (c, x)"
    "\<And>j. turn_of j (c, x) = None"
  shows "call_ok pc c w (Later x, w')"
  using wait_ok [OF assms(1,3,4,5)] assms(2) by (simp add: call_ok_def)

lemma turn_of_other [simp]:
  "turn_of j (c, ForChunk k n) = None" "turn_of j (c, ForEnd k) = None" "turn_of j (c, ForOutput k i t) = None"
  by (simp_all add: turn_of_def)

lemma take_chunk_ok:
  assumes "streams_ok pc w" "j < length (ps_opened w)" "\<forall>p\<in>set (ps_waiting w). fst p < c" "c < ps_calls w"
  shows "call_ok pc c w (take_chunk pc i n sent j w)"
proof -
  let ?p = "ps_opened w ! j"
  note o = streams_okD [OF assms(1,2)]
  have later: "call_ok pc c w (Later (ForTurn j (length (op_chunks ?p)) data),
      change_open j (\<lambda>p. p\<lparr>op_chunks := op_chunks p @ [data], op_fed := op_fed p @ [False]\<rparr>) w)" for data
  proof -
    let ?q = "?p\<lparr>op_chunks := op_chunks ?p @ [data], op_fed := op_fed ?p @ [False]\<rparr>"
    let ?v = "(change_open j (\<lambda>p. p\<lparr>op_chunks := op_chunks p @ [data], op_fed := op_fed p @ [False]\<rparr>) w)
        \<lparr>ps_waiting := ps_waiting w @ [(c, ForTurn j (length (op_chunks ?p)) data)]\<rparr>"
    have "streams_ok pc ?v \<and> go_on w ?v"
    proof (rule change_one [OF assms(1,2) fields_kept(2) [OF o(1)] fields_same(2)])
      show "chunks_ok (ps_waiting ?v) j ?q" using chunks_ok_new [OF o(2)] by simp
      show "turns_of k (ps_waiting ?v) = turns_of k (ps_waiting w)" if "k \<noteq> j" for k
        using that by (simp add: turn_of_def)
      show "distinct (map fst (ps_waiting ?v))" using assms(1,3) by (auto simp: streams_ok_def)
      show "p \<in> set (ps_waiting w) \<or> waits_right ?v p" if "p \<in> set (ps_waiting ?v)" for p
        using that assms(2,4) by (auto simp: waits_right_def)
    qed (auto simp: change_open_def)
    then show ?thesis by (simp add: call_ok_def go_on_def)
  qed
  show ?thesis
    using later assms by (auto simp: take_chunk_def Let_def split: option.splits if_splits
        intro!: call_ok_now call_ok_later simp: waits_right_def)
qed

lemma ask_release_ok:
  assumes "streams_ok pc w" "j < length (ps_opened w)" "\<forall>p\<in>set (ps_waiting w). fst p < c" "c < ps_calls w"
    "bg_id (op_begun (ps_opened w ! j)) = i"
  shows "call_ok pc c w (ask_release pc i n j w)"
proof (cases "n < op_base (ps_opened w ! j)")
  case True
  then show ?thesis using assms by (auto simp: ask_release_def intro!: call_ok_now)
next
  case False
  note o = streams_okD [OF assms(1,2)]
  have b: "op_base (ps_opened w ! j) \<le> n" using False by simp
  have "chunks_ok (ps_waiting w) j (collect_taken n (ps_opened w ! j))"
    by (rule chunks_ok_stream [OF o(2)]) (simp_all add: collect_taken_def Let_def)
  from change_quietly [where f = "collect_taken n", OF assms(1,2) collect_taken_ok(1) [OF o(1) b] collect_taken_ok(2) [OF o(1) b] this]
  show ?thesis using False assms(2-5)
    by (auto simp: ask_release_def change_open_at collect_taken_def Let_def waits_right_def intro!: call_ok_later)
qed

lemma on_stream_ok:
  assumes "streams_ok pc w"
    and "\<And>j. j < length (ps_opened w) \<Longrightarrow> bg_id (op_begun (ps_opened (touch w j) ! j)) = i \<Longrightarrow>
           streams_ok pc (touch w j) \<Longrightarrow> call_ok pc c (touch w j) (f j (touch w j))"
  shows "call_ok pc c w (on_stream i w f)"
proof (cases "map_of (ps_known w) i")
  case None
  then show ?thesis using assms(1) by (simp add: on_stream_def call_ok_now)
next
  case (Some j)
  note k = known_open [OF assms(1) Some]
  note t = touch_ok [OF assms(1), of j]
  have "bg_id (op_begun (ps_opened (touch w j) ! j)) = i" using k by (simp add: touch_def change_open_at)
  from assms(2) [OF _ this] k t have "call_ok pc c (touch w j) (f j (touch w j))" by blast
  with t k Some show ?thesis by (auto simp: on_stream_def call_ok_def intro: go_on_trans)
qed

lemma call_stream_ok:
  assumes "streams_ok pc w" "\<forall>p\<in>set (ps_waiting w). fst p < c" "c < ps_calls w"
  shows "call_ok pc c w (call_stream pc call w)"
proof (cases call)
  case (BeginReply given)
  then show ?thesis
    using assms(1) begin_new_ok [OF assms(1), of given] touch_ok [OF assms(1)] known_open [OF assms(1)]
    by (auto simp: begin_stream_def intro!: call_ok_now split: option.splits)
next
  case (ReplyChunk i n sent)
  then show ?thesis using assms by (auto intro!: on_stream_ok take_chunk_ok)
next
  case (EndReply i)
  then show ?thesis using assms by (auto intro!: on_stream_ok call_ok_later simp: waits_right_def)
next
  case (AbortReply i)
  then show ?thesis using abort_stream_ok [OF assms(1)] by (auto intro!: call_ok_now)
next
  case (AskRelease i n)
  then show ?thesis using assms by (auto intro!: on_stream_ok ask_release_ok)
qed

lemma answer_call_ok:
  assumes "streams_ok pc w"
  shows "streams_ok pc (snd (answer_call pc call w))" "go_on w (snd (answer_call pc call w))"
proof -
  let ?v = "w\<lparr>ps_calls := Suc (ps_calls w)\<rparr>"
  have v: "streams_ok pc ?v" "go_on w ?v" using unchanged_opened [OF assms, of ?v] by auto
  have "call_ok pc (ps_calls w) ?v (call_stream pc call ?v)"
    using v(1) assms by (intro call_stream_ok) (auto simp: streams_ok_def waits_right_def)
  with v(2) show "streams_ok pc (snd (answer_call pc call w))" "go_on w (snd (answer_call pc call w))"
    by (auto simp: answer_call_def call_ok_def go_on_def Let_def split: call_outcome.splits prod.splits intro: same_stream_trans)
qed

section \<open>Calls that waited\<close>

lemma distinct_filter_keys: "distinct (map fst ws) \<Longrightarrow> distinct (map fst (filter P ws))"
  by (rule distinct_map_filter)

lemma leave_waiting:
  assumes "streams_ok pc w" "\<And>x. map_of (ps_waiting w) c = Some x \<Longrightarrow> \<forall>j. turn_of j (c, x) = None"
  shows "streams_ok pc (w\<lparr>ps_waiting := filter (\<lambda>p. fst p \<noteq> c) (ps_waiting w)\<rparr>)"
proof -
  have d: "distinct (map fst (ps_waiting w))" using assms(1) by (simp add: streams_ok_def)
  have "turns_of j (filter (\<lambda>p. fst p \<noteq> c) (ps_waiting w)) = turns_of j (ps_waiting w)" for j
  proof (rule turns_of_filter)
    fix p assume "p \<in> set (ps_waiting w)" "\<not> fst p \<noteq> c"
    then have "map_of (ps_waiting w) c = Some (snd p)" "p = (c, snd p)" using d by auto
    then show "turn_of j p = None" using assms(2) by metis
  qed
  then show ?thesis using assms(1)
    by (auto simp: streams_ok_def chunks_ok_def waits_right_def known_right_def distinct_filter_keys)
qed

lemma waiting_right: "streams_ok pc w \<Longrightarrow> map_of (ps_waiting w) c = Some x \<Longrightarrow> waits_right w (c, x)"
  by (auto simp: streams_ok_def dest: map_of_SomeD)

lemma answer_release_ok:
  assumes "streams_ok pc w" "j < length (ps_opened w)" "answer_release j i w = (a, w')"
  shows "streams_ok pc w'" "go_on w w'" "ps_waiting w' = ps_waiting w"
proof -
  note t = touch_ok [OF assms(1,2)]
  have "w' = touch w j \<or> w' = (touch w j)\<lparr>ps_known := forget i (ps_known w)\<rparr>"
    using assms(3) by (auto simp: answer_release_def Let_def split: list.splits option.splits if_splits)
  then have "streams_ok pc w' \<and> go_on w w' \<and> ps_waiting w' = ps_waiting w"
  proof
    assume "w' = touch w j" with t show ?thesis by simp
  next
    assume w': "w' = (touch w j)\<lparr>ps_known := forget i (ps_known w)\<rparr>"
    then show ?thesis
      using unchanged_opened [OF t(1), of w'] forget_subset [of i "ps_known w"] go_on_trans [OF t(2)] by auto
  qed
  then show "streams_ok pc w'" "go_on w w'" "ps_waiting w' = ps_waiting w" by simp_all
qed

lemma resume_turn_ok:
  assumes "streams_ok pc w" "map_of (ps_waiting w) c = Some (ForTurn j n data)"
    "first_in_line (ps_waiting w) j = Some c" "feed_chunk n data (ps_opened w ! j) = Some (a, q)"
  defines "w' \<equiv> (change_open j (\<lambda>_. q) w)\<lparr>ps_waiting := filter (\<lambda>p. fst p \<noteq> c) (ps_waiting w)\<rparr>"
  shows "streams_ok pc w'" "go_on w w'"
proof -
  let ?ws = "filter (\<lambda>p. fst p \<noteq> c) (ps_waiting w)"
  have j: "j < length (ps_opened w)" using waiting_right [OF assms(1,2)] by (simp add: waits_right_def)
  have d: "distinct (map fst (ps_waiting w))" using assms(1) by (simp add: streams_ok_def)
  note o = streams_okD [OF assms(1) j]
  note f = feed_chunk_ok [OF o(1) assms(4)]
  have "streams_ok pc w' \<and> go_on w w'"
  proof (rule change_one [OF assms(1) j f])
    show "chunks_ok (ps_waiting w') j q"
      using chunks_ok_fed [OF o(2) first_turn_waits [OF assms(3,2) d] assms(4)] by (simp add: w'_def)
    show "turns_of k (ps_waiting w') = turns_of k (ps_waiting w)" if "k \<noteq> j" for k
    proof -
      have "turns_of k ?ws = turns_of k (ps_waiting w)"
      proof (rule turns_of_filter)
        fix p assume "p \<in> set (ps_waiting w)" "\<not> fst p \<noteq> c"
        then have "p = (c, ForTurn j n data)" using d assms(2) by (metis map_of_eq_Some_iff option.inject prod.collapse)
        then show "turn_of k p = None" using that by (simp add: turn_of_def)
      qed
      then show ?thesis by (simp add: w'_def)
    qed
    show "distinct (map fst (ps_waiting w'))" using d by (simp add: w'_def distinct_filter_keys)
    show "p \<in> set (ps_waiting w) \<or> waits_right w' p" if "p \<in> set (ps_waiting w')" for p
      using that by (auto simp: w'_def)
  qed (auto simp: w'_def change_open_def)
  then show "streams_ok pc w'" "go_on w w'" by simp_all
qed

lemma resume_end_ok:
  assumes "streams_ok pc w" "j < length (ps_opened w)"
  shows "streams_ok pc (change_open j end_open w)" "go_on w (change_open j end_open w)"
proof -
  note o = streams_okD [OF assms]
  have "chunks_ok (ps_waiting w) j (end_open (ps_opened w ! j))"
    by (rule chunks_ok_stream [OF o(2)]) (simp_all add: end_open_def end_from)
  from change_quietly [where f = end_open, OF assms end_open_ok(1) [OF o(1)] end_open_ok(2) [OF o(1)] this]
  show "streams_ok pc (change_open j end_open w)" "go_on w (change_open j end_open w)" .
qed

lemma resume_call_ok:
  assumes "streams_ok pc w"
  shows "streams_ok pc (snd (resume_call c w)) \<and> go_on w (snd (resume_call c w))"
proof (cases "Option.bind (map_of (ps_waiting w) c) (\<lambda>x. resume c x w)")
  case None
  then show ?thesis using assms by (simp add: resume_call_def)
next
  case (Some r)
  then obtain x a w1 where x: "map_of (ps_waiting w) c = Some x" "resume c x w = Some (a, w1)" "r = (a, w1)"
    by (cases r) (auto simp: bind_eq_Some_conv)
  let ?v = "w1\<lparr>ps_waiting := filter (\<lambda>p. fst p \<noteq> c) (ps_waiting w1)\<rparr>"
  have s: "snd (resume_call c w) = ?v" using Some x by (simp add: resume_call_def)
  have plain: ?thesis if "streams_ok pc w1" "go_on w w1" "ps_waiting w1 = ps_waiting w" "\<And>j. turn_of j (c, x) = None"
    using leave_waiting [OF that(1), of c] that x(1) by (auto simp: s go_on_def)
  note right = waiting_right [OF assms x(1)]
  show ?thesis
  proof (cases x)
    case (ForChunk j n)
    with x(2) assms show ?thesis by (intro plain) (auto simp: resume_def split: if_splits)
  next
    case (ForTurn j n data)
    with x(2) obtain q where "first_in_line (ps_waiting w) j = Some c"
        "feed_chunk n data (ps_opened w ! j) = Some (a, q)" "w1 = change_open j (\<lambda>_. q) w"
      by (auto simp: resume_def split: if_splits)
    with resume_turn_ok [OF assms] x(1) ForTurn show ?thesis by (simp add: s)
  next
    case (ForEnd j)
    with x(2) right resume_end_ok [OF assms, of j] show ?thesis
      by (intro plain) (auto simp: resume_def waits_right_def split: if_splits)
  next
    case (ForOutput j i t)
    then have "answer_release j i w = (a, w1)" "j < length (ps_opened w)"
      using x(2) right by (auto simp: resume_def waits_right_def split: if_splits)
    from answer_release_ok [OF assms this(2,1)] ForOutput show ?thesis by (intro plain) auto
  qed
qed

section \<open>Any run\<close>

theorem proxy_step_ok:
  assumes "streams_ok pc w"
  shows "streams_ok pc (snd (proxy_step pc e w))" "go_on w (snd (proxy_step pc e w))"
  using answer_call_ok [OF assms] resume_call_ok [OF assms] tasks_ok [OF assms] sweep_ok [OF assms]
    unchanged_opened [OF assms, of "w\<lparr>ps_now := t\<rparr>" for t] assms
  by (cases e; auto)+

lemma no_streams_ok: "streams_ok pc no_streams"
  by (simp add: streams_ok_def no_streams_def known_right_def)

lemma proxy_run_snoc: "proxy_run pc (es @ [e]) = snd (proxy_step pc e (proxy_run pc es))"
  by (simp add: proxy_run_def)

lemma proxy_run_ok: "streams_ok pc (proxy_run pc es)"
  by (induction es rule: rev_induct) (simp_all add: no_streams_ok proxy_run_def proxy_step_ok)

end
