(* ===== verification/ProxyStreamsProps.thy ===== *)
theory ProxyStreamsProps
  imports ProxyStreamsRuns
begin

text \<open>
  What a proxy hook can rely on: it collects every output of its stream once and in order, though
  answers get lost and calls are sent again; a complete reply is the handler's answer whole; the
  chunks are fed in order; and no more output waits than is allowed. The first rests on the
  interface \<open>collected_log\<close> between whoever collects and whoever keeps the outputs.
\<close>

section \<open>The interface\<close>

text \<open>A log that grows, of which what is before \<open>base\<close> was let go of and what is before \<open>given\<close> was
  offered; asking names how many its client has, and waits, or is refused.\<close>

locale collected_log =
  fixes right :: "'s \<Rightarrow> bool"
    and all_given :: "'s \<Rightarrow> 'o list"
    and first_kept :: "'s \<Rightarrow> nat"
    and offered :: "'s \<Rightarrow> nat"
    and others :: "'s \<Rightarrow> 's \<Rightarrow> bool"
    and asked :: "nat \<Rightarrow> bool \<Rightarrow> 's \<Rightarrow> 's \<Rightarrow> bool"
    and heard :: "'o list \<Rightarrow> 's \<Rightarrow> 's \<Rightarrow> bool"
  assumes offered_given: "right s \<Longrightarrow> offered s \<le> length (all_given s)"
    and others_keep: "right s \<Longrightarrow> others s t \<Longrightarrow>
      right t \<and> prefix (all_given s) (all_given t) \<and> first_kept t = first_kept s \<and> offered s \<le> offered t"
    and asked_keeps: "right s \<Longrightarrow> asked n waits s t \<Longrightarrow> first_kept s \<le> n \<Longrightarrow> n \<le> offered s \<Longrightarrow>
      right t \<and> prefix (all_given s) (all_given t) \<and> first_kept t \<le> n \<and> offered s \<le> offered t
      \<and> (waits \<longrightarrow> first_kept t = n)"
    and heard_gives: "right s \<Longrightarrow> heard os s t \<Longrightarrow>
      right t \<and> prefix (all_given s) (all_given t) \<and> first_kept t = first_kept s \<and> offered s \<le> offered t
      \<and> first_kept s + length os \<le> offered s
      \<and> os = take (length os) (drop (first_kept s) (all_given s))"
begin

definition has_first :: "'o list \<Rightarrow> bool \<Rightarrow> 's \<Rightarrow> bool" where
  "has_first got waits s \<longleftrightarrow>
     right s \<and> got = take (length got) (all_given s) \<and> first_kept s \<le> length got \<and> length got \<le> offered s
     \<and> (waits \<longrightarrow> first_kept s = length got)"

lemma prefix_take: "prefix xs ys \<Longrightarrow> n \<le> length xs \<Longrightarrow> take n ys = take n xs"
  by (auto simp: prefix_def)

lemma has_first_grows:
  assumes "has_first got waits s" "right t" "prefix (all_given s) (all_given t)" "offered s \<le> offered t"
  shows "got = take (length got) (all_given t)" "length got \<le> offered t"
  using assms offered_given [of s] prefix_take [of "all_given s" "all_given t" "length got"]
  by (auto simp: has_first_def)

lemma has_first_others: "has_first got waits s \<Longrightarrow> others s t \<Longrightarrow> has_first got waits t"
  using others_keep [of s t] has_first_grows [of got waits s t] by (auto simp: has_first_def)

lemma has_first_asked: "has_first got waits s \<Longrightarrow> asked (length got) waits' s t \<Longrightarrow> has_first got waits' t"
  using asked_keeps [of s "length got" waits' t] has_first_grows [of got waits s t] by (auto simp: has_first_def)

lemma has_first_gives_up: "has_first got waits s \<Longrightarrow> has_first got False s"
  by (simp add: has_first_def)

lemma has_first_heard:
  assumes "has_first got True s" "heard os s t"
  shows "has_first (got @ os) False t"
proof -
  have r: "right s" and b: "first_kept s = length got" and got: "got = take (length got) (all_given s)"
    using assms(1) by (simp_all add: has_first_def)
  note h = heard_gives [OF r assms(2)]
  have "got @ os = take (length got + length os) (all_given s)"
    using got h b by (metis take_add)
  moreover have "length got + length os \<le> length (all_given s)" using h b offered_given [OF r] by simp
  ultimately have "got @ os = take (length (got @ os)) (all_given t)"
    using h prefix_take [of "all_given s" "all_given t" "length got + length os"] by simp
  moreover have "right t" "first_kept t \<le> length (got @ os)" "length (got @ os) \<le> offered t" using h b by simp_all
  ultimately show ?thesis by (simp only: has_first_def simp_thms)
qed

end

section \<open>The streams as such a log\<close>

text \<open>Asking on a stream is the one event that lets go of outputs.\<close>

fun asks_on :: "nat \<Rightarrow> proxy_event \<Rightarrow> proxy_streams \<Rightarrow> bool" where
  "asks_on j (Calls (AskRelease i n)) w \<longleftrightarrow> map_of (ps_known w) i = Some j"
| "asks_on j _ w \<longleftrightarrow> False"

definition base_of :: "nat \<Rightarrow> proxy_streams \<Rightarrow> nat" where
  "base_of j w = op_base (ps_opened w ! j)"

lemma base_of_change: "j < length (ps_opened w) \<Longrightarrow>
    base_of j (change_open k f w) = (if j = k then op_base (f (ps_opened w ! j)) else base_of j w)"
  by (simp add: base_of_def change_open_at)

lemma base_of_touch [simp]: "j < length (ps_opened w) \<Longrightarrow> base_of j (touch w k) = base_of j w"
  by (simp add: touch_def base_of_change) (simp add: base_of_def)

lemma base_of_fields [simp]:
  "base_of j (w\<lparr>ps_known := ks\<rparr>) = base_of j w" "base_of j (w\<lparr>ps_calls := c\<rparr>) = base_of j w"
  "base_of j (w\<lparr>ps_waiting := ws\<rparr>) = base_of j w" "base_of j (w\<lparr>ps_now := t\<rparr>) = base_of j w"
  by (simp_all add: base_of_def)

lemma base_of_new [simp]: "j < length (ps_opened w) \<Longrightarrow>
    base_of j (w\<lparr>ps_known := ks, ps_opened := ps_opened w @ ps\<rparr>) = base_of j w"
  by (simp add: base_of_def nth_append)

lemma base_of_same: "j < length (ps_opened w) \<Longrightarrow> op_base (f (ps_opened w ! j)) = op_base (ps_opened w ! j) \<Longrightarrow>
    base_of j (change_open k f w) = base_of j w"
  by (cases "j = k") (simp_all add: base_of_def change_open_at)

lemma base_of_put: "j < length (ps_opened w) \<Longrightarrow> op_base q = op_base (ps_opened w ! k) \<Longrightarrow>
    base_of j (change_open k (\<lambda>_. q) w) = base_of j w"
  by (cases "j = k") (simp_all add: base_of_def change_open_at)

lemma base_of_abort: "j < length (ps_opened w) \<Longrightarrow> base_of j (abort_stream i w) = base_of j w"
  by (auto simp: abort_stream_def base_of_same abort_open_def split: option.splits)

lemma abort_stream_length [simp]: "length (ps_opened (abort_stream i w)) = length (ps_opened w)"
  by (simp add: abort_stream_def split: option.splits)

lemma base_of_sweep: "j < length (ps_opened w) \<Longrightarrow> base_of j (sweep pc w) = base_of j w"
proof -
  assume "j < length (ps_opened w)"
  moreover have "j < length (ps_opened v) \<Longrightarrow> base_of j (fold abort_stream names v) = base_of j v" for names v
    by (induction names arbitrary: v) (simp_all add: base_of_abort)
  ultimately show ?thesis by (simp add: sweep_def)
qed

lemma base_of_task:
  assumes "j < length (ps_opened w)" "\<And>p q. f p = Some q \<Longrightarrow> op_base q = op_base p"
  shows "base_of j (task_step k f w) = base_of j w"
  using assms by (auto simp: task_step_def base_of_put split: option.splits)

lemma collect_step_base: "collect_step pc p = Some q \<Longrightarrow> op_base q = op_base p"
  by (auto simp: collect_step_def Let_def keep_output_def end_collecting_def split: if_splits option.splits sum.splits)

lemma stream_task_base: "stream_task f p = Some q \<Longrightarrow> op_base q = op_base p"
  by (auto simp: stream_task_def)

lemma base_of_call:
  assumes "j < length (ps_opened w)" "\<not> asks_on j (Calls call) w"
  shows "base_of j (snd (call_stream pc call w)) = base_of j w"
proof (cases call)
  case (AskRelease i n)
  then show ?thesis using assms
    by (auto simp: on_stream_def ask_release_def base_of_change split: option.splits)
qed (use assms in \<open>auto simp: begin_stream_def on_stream_def take_chunk_def Let_def base_of_same base_of_abort
      split: option.splits if_splits\<close>)

lemma base_of_resume:
  assumes "j < length (ps_opened w)" "resume c x w = Some (a, w')"
  shows "base_of j w' = base_of j w"
proof (cases x)
  case (ForTurn k n data)
  with assms obtain q where "feed_chunk n data (ps_opened w ! k) = Some (a, q)" "w' = change_open k (\<lambda>_. q) w"
    by (auto simp: resume_def split: if_splits)
  then show ?thesis using assms(1)
    by (auto simp: base_of_put feed_chunk_def split: feed_result.splits)
qed (use assms in \<open>auto simp: resume_def base_of_same end_open_def answer_release_def Let_def
      split: if_splits list.splits option.splits\<close>)

lemma base_of_step:
  assumes "j < length (ps_opened w)" "\<not> asks_on j e w"
  shows "base_of j (snd (proxy_step pc e w)) = base_of j w"
proof (cases e)
  case (Calls call)
  then show ?thesis
    using assms base_of_call [of j "w\<lparr>ps_calls := Suc (ps_calls w)\<rparr>" call pc]
    by (cases call) (auto simp: answer_call_def Let_def split: call_outcome.splits prod.splits)
next
  case (Resumes c)
  then show ?thesis using assms base_of_resume [OF assms(1)]
    by (auto simp: resume_call_def bind_eq_Some_conv split: option.splits)
qed (use assms in \<open>auto simp: base_of_task stream_task_base collect_step_base base_of_sweep\<close>)

text \<open>What asking and hearing do.\<close>

definition stream_right :: "proxy_config \<Rightarrow> nat \<Rightarrow> proxy_streams \<Rightarrow> bool" where
  "stream_right pc j w \<longleftrightarrow> streams_ok pc w \<and> j < length (ps_opened w)"

definition stream_log :: "proxy_config \<Rightarrow> nat \<Rightarrow> proxy_streams \<Rightarrow> (failure + stream_output) list" where
  "stream_log pc j w = release_log pc (ps_opened w ! j)"

definition stream_given :: "nat \<Rightarrow> proxy_streams \<Rightarrow> nat" where
  "stream_given j w = given_out (ps_opened w ! j)"

definition others_go :: "proxy_config \<Rightarrow> nat \<Rightarrow> proxy_streams \<Rightarrow> proxy_streams \<Rightarrow> bool" where
  "others_go pc j w w' \<longleftrightarrow> (\<exists>e. \<not> asks_on j e w \<and> w' = snd (proxy_step pc e w))"

definition hook_asks :: "proxy_config \<Rightarrow> string \<Rightarrow> nat \<Rightarrow> nat \<Rightarrow> bool \<Rightarrow> proxy_streams \<Rightarrow> proxy_streams \<Rightarrow> bool" where
  "hook_asks pc i j n waits w w' \<longleftrightarrow>
     (map_of (ps_known w) i = None \<or> map_of (ps_known w) i = Some j)
     \<and> (\<exists>a. answer_call pc (AskRelease i n) w = (a, w') \<and> (waits \<longleftrightarrow> a = None))"

definition hook_hears :: "nat \<Rightarrow> (failure + stream_output) list \<Rightarrow> proxy_streams \<Rightarrow> proxy_streams \<Rightarrow> bool" where
  "hook_hears j os w w' \<longleftrightarrow>
     (\<exists>c i t position outs. map_of (ps_waiting w) c = Some (ForOutput j i t)
        \<and> resume_call c w = (Some (c, Inr (NextRelease position outs)), w') \<and> os = map Inr outs)"

lemma go_on_at: "go_on w w' \<Longrightarrow> j < length (ps_opened w) \<Longrightarrow>
    j < length (ps_opened w') \<and> prefix (stream_log pc j w) (stream_log pc j w') \<and> stream_given j w \<le> stream_given j w'"
  using same_stream_log by (auto simp: go_on_def stream_log_def stream_given_def same_stream_def)

lemma asked_base:
  assumes "stream_right pc j w" "hook_asks pc i j n waits w w'" "base_of j w \<le> n" "n \<le> stream_given j w"
  shows "base_of j w' \<le> n \<and> (waits \<longrightarrow> base_of j w' = n)"
proof (cases "map_of (ps_known w) i")
  case None
  then show ?thesis using assms by (auto simp: hook_asks_def answer_call_def on_stream_def Let_def)
next
  case (Some k)
  let ?v = "touch (w\<lparr>ps_calls := Suc (ps_calls w)\<rparr>) j"
  have k: "k = j" "j < length (ps_opened w)" using assms(1,2) Some by (auto simp: hook_asks_def stream_right_def)
  have b: "op_base (ps_opened ?v ! j) = base_of j w" "given_out (ps_opened ?v ! j) = stream_given j w"
    using k by (simp_all add: touch_def change_open_at base_of_def given_out_def stream_given_def)
  have "op_base (collect_taken n (ps_opened ?v ! j)) = n"
    using assms(3,4) b by (simp add: collect_taken_def Let_def given_out_def)
  then have "base_of j w' = n"
    using assms(2,3) Some k b
    by (auto simp: hook_asks_def answer_call_def on_stream_def ask_release_def Let_def base_of_change split: if_splits)
  then show ?thesis by simp
qed

lemma heard_outputs:
  assumes "stream_right pc j w" "hook_hears j os w w'"
  shows "base_of j w + length os \<le> stream_given j w
    \<and> os = take (length os) (drop (base_of j w) (stream_log pc j w))"
proof -
  let ?p = "ps_opened w ! j"
  from assms(2) have o: "os = map Inr (op_outputs ?p)"
    by (auto simp: hook_hears_def resume_call_def resume_def answer_release_def Let_def
        split: option.splits if_splits list.splits)
  from assms(1) have "map Inr (op_outputs ?p) = drop (op_base ?p) (take (given_out ?p) (release_log pc ?p))"
    by (auto simp: stream_right_def streams_ok_def open_ok_def outputs_ok_def)
  then have m: "map Inr (op_outputs ?p) = take (length (op_outputs ?p)) (drop (op_base ?p) (release_log pc ?p))"
    by (simp add: drop_take given_out_def)
  have l: "length os = length (op_outputs ?p)" by (simp add: o)
  have "os = take (length os) (drop (base_of j w) (stream_log pc j w))"
    unfolding l base_of_def stream_log_def by (rule trans [OF o m])
  moreover have "base_of j w + length os \<le> stream_given j w" by (simp add: o base_of_def stream_given_def given_out_def)
  ultimately show ?thesis by blast
qed

interpretation hooked: collected_log "stream_right pc j" "stream_log pc j" "base_of j" "stream_given j"
    "others_go pc j" "hook_asks pc i j" "hook_hears j" for pc i j
proof
  fix s t n waits os
  assume r: "stream_right pc j s"
  then have s: "streams_ok pc s" "j < length (ps_opened s)" by (simp_all add: stream_right_def)
  show "stream_given j s \<le> length (stream_log pc j s)"
    using s by (auto simp: streams_ok_def open_ok_def outputs_ok_def stream_given_def stream_log_def release_log_def)
  have keeps: "stream_right pc j (snd (proxy_step pc e s)) \<and> prefix (stream_log pc j s) (stream_log pc j (snd (proxy_step pc e s)))
      \<and> stream_given j s \<le> stream_given j (snd (proxy_step pc e s))" for e
    using proxy_step_ok [OF s(1), of e] go_on_at [OF _ s(2)] by (auto simp: stream_right_def)
  show "stream_right pc j t \<and> prefix (stream_log pc j s) (stream_log pc j t) \<and> base_of j t = base_of j s
      \<and> stream_given j s \<le> stream_given j t" if "others_go pc j s t"
    using that keeps base_of_step [OF s(2)] by (auto simp: others_go_def)
  show "stream_right pc j t \<and> prefix (stream_log pc j s) (stream_log pc j t) \<and> base_of j t \<le> n
      \<and> stream_given j s \<le> stream_given j t \<and> (waits \<longrightarrow> base_of j t = n)"
    if "hook_asks pc i j n waits s t" "base_of j s \<le> n" "n \<le> stream_given j s"
  proof -
    have "t = snd (proxy_step pc (Calls (AskRelease i n)) s)" using that(1) by (auto simp: hook_asks_def)
    with keeps [of "Calls (AskRelease i n)"] asked_base [OF r that] show ?thesis by simp
  qed
  show "stream_right pc j t \<and> prefix (stream_log pc j s) (stream_log pc j t) \<and> base_of j t = base_of j s
      \<and> stream_given j s \<le> stream_given j t \<and> base_of j s + length os \<le> stream_given j s
      \<and> os = take (length os) (drop (base_of j s) (stream_log pc j s))" if "hook_hears j os s t"
  proof -
    from that obtain c where "t = snd (proxy_step pc (Resumes c) s)"
      unfolding hook_hears_def by (metis proxy_step.simps(2) snd_conv)
    with keeps [of "Resumes c"] base_of_step [OF s(2), of "Resumes c"] heard_outputs [OF r that] show ?thesis by simp
  qed
qed

section \<open>A proxy hook\<close>

text \<open>One hook and its stream, among whatever else happens: it asks for what comes after what it has,
  hears the answer or does not (the answer to its call may go to no one), and may ask again.\<close>

record hook =
  hk_streams :: proxy_streams
  hk_got :: "stream_output list"
  hk_call :: "nat option"

datatype hook_event = Others proxy_event | Asks | Hears

definition hook_ask :: "proxy_config \<Rightarrow> string \<Rightarrow> nat \<Rightarrow> hook \<Rightarrow> hook" where
  "hook_ask pc i j hk =
     (let w = hk_streams hk
      in if map_of (ps_known w) i \<noteq> None \<and> map_of (ps_known w) i \<noteq> Some j then hk
         else (case answer_call pc (AskRelease i (length (hk_got hk))) w of
             (a, w') \<Rightarrow> hk\<lparr>hk_streams := w', hk_call := (if a = None then Some (ps_calls w) else None)\<rparr>))"

definition hook_hear :: "hook \<Rightarrow> hook" where
  "hook_hear hk =
     (case hk_call hk of
        None \<Rightarrow> hk
      | Some c \<Rightarrow>
          (case resume_call c (hk_streams hk) of
             (Some (c', Inr (NextRelease position outs)), w') \<Rightarrow>
               hk\<lparr>hk_streams := w', hk_got := hk_got hk @ outs, hk_call := None\<rparr>
           | (_, w') \<Rightarrow> hk\<lparr>hk_streams := w'\<rparr>))"

fun hook_step :: "proxy_config \<Rightarrow> string \<Rightarrow> nat \<Rightarrow> hook \<Rightarrow> hook_event \<Rightarrow> hook" where
  "hook_step pc i j hk (Others e) =
     (if asks_on j e (hk_streams hk) then hk else hk\<lparr>hk_streams := snd (proxy_step pc e (hk_streams hk))\<rparr>)"
| "hook_step pc i j hk Asks = hook_ask pc i j hk"
| "hook_step pc i j hk Hears = hook_hear hk"

definition hook_run :: "proxy_config \<Rightarrow> proxy_event list \<Rightarrow> begin_reply \<Rightarrow> hook_event list \<Rightarrow> hook" where
  "hook_run pc es given hs =
     foldl (hook_step pc (bg_id given) (length (ps_opened (proxy_run pc es))))
       \<lparr>hk_streams = snd (proxy_step pc (Calls (BeginReply given)) (proxy_run pc es)), hk_got = [], hk_call = None\<rparr> hs"

definition its_stream :: "proxy_config \<Rightarrow> proxy_event list \<Rightarrow> begin_reply \<Rightarrow> hook_event list \<Rightarrow> open_reply" where
  "its_stream pc es given hs =
     ps_opened (hk_streams (hook_run pc es given hs)) ! length (ps_opened (proxy_run pc es))"

text \<open>The call of the hook waits for output of its stream, for as long as it waits.\<close>

definition its_call :: "nat \<Rightarrow> nat \<Rightarrow> proxy_streams \<Rightarrow> bool" where
  "its_call j c w \<longleftrightarrow>
     c < ps_calls w \<and> (\<forall>x. map_of (ps_waiting w) c = Some x \<longrightarrow> (\<exists>i t. x = ForOutput j i t))"

lemma abort_stream_fields [simp]:
  "ps_waiting (abort_stream i w) = ps_waiting w" "ps_calls (abort_stream i w) = ps_calls w"
  "ps_serving (abort_stream i w) = ps_serving w"
  by (simp_all add: abort_stream_def change_open_def split: option.splits)

lemma sweep_fields [simp]:
  "ps_waiting (sweep pc w) = ps_waiting w" "ps_calls (sweep pc w) = ps_calls w" "ps_serving (sweep pc w) = ps_serving w"
proof -
  have "ps_waiting (fold abort_stream names v) = ps_waiting v \<and> ps_calls (fold abort_stream names v) = ps_calls v
      \<and> ps_serving (fold abort_stream names v) = ps_serving v" for names v
    by (induction names arbitrary: v) simp_all
  then show "ps_waiting (sweep pc w) = ps_waiting w" "ps_calls (sweep pc w) = ps_calls w" "ps_serving (sweep pc w) = ps_serving w"
    by (simp_all add: sweep_def)
qed

lemma touch_serving [simp]: "ps_serving (touch w j) = ps_serving w" "ps_serving (change_open j f w) = ps_serving w"
  by (simp_all add: touch_def change_open_def)

lemma call_stream_fields:
  "ps_waiting (snd (call_stream pc call w)) = ps_waiting w" "ps_calls (snd (call_stream pc call w)) = ps_calls w"
  "ps_serving (snd (call_stream pc call w)) = ps_serving w"
  by (cases call; auto simp: begin_stream_def on_stream_def take_chunk_def ask_release_def Let_def
      split: option.splits if_splits)+

lemma resume_fields:
  assumes "resume c x w = Some (a, w')"
  shows "ps_waiting w' = ps_waiting w" "ps_calls w' = ps_calls w" "ps_serving w' = ps_serving w"
  using assms by (cases x; auto simp: resume_def answer_release_def Let_def split: if_splits list.splits option.splits)+

lemma task_fields [simp]:
  "ps_waiting (task_step j f w) = ps_waiting w" "ps_calls (task_step j f w) = ps_calls w"
  "ps_serving (task_step j f w) = ps_serving w"
  by (auto simp: task_step_def split: option.splits)

lemma map_of_left: "map_of (filter (\<lambda>p. fst p \<noteq> c') ws) c = (if c = c' then None else map_of ws c)"
  by (induction ws) auto

lemma answer_call_waiting:
  assumes "c < ps_calls w" "map_of (ps_waiting (snd (answer_call pc call w))) c = Some x"
  shows "map_of (ps_waiting w) c = Some x"
  using assms call_stream_fields(1) [of pc call "w\<lparr>ps_calls := Suc (ps_calls w)\<rparr>"]
  by (auto simp: answer_call_def Let_def map_add_def split: call_outcome.splits prod.splits option.splits if_splits)

lemma proxy_step_waiting:
  assumes "c < ps_calls w" "map_of (ps_waiting (snd (proxy_step pc e w))) c = Some x"
  shows "map_of (ps_waiting w) c = Some x"
proof (cases e)
  case (Resumes c')
  then show ?thesis using assms
    by (auto simp: resume_call_def bind_eq_Some_conv resume_fields map_of_left split: option.splits if_splits)
qed (use assms answer_call_waiting [OF assms(1)] in \<open>auto split: if_splits\<close>)

lemma answer_call_fields:
  "ps_calls (snd (answer_call pc call w)) = Suc (ps_calls w)" "ps_serving (snd (answer_call pc call w)) = ps_serving w"
  using call_stream_fields(2,3) [of pc call "w\<lparr>ps_calls := Suc (ps_calls w)\<rparr>"]
  by (auto simp: answer_call_def Let_def split: call_outcome.splits prod.splits)

lemma resume_call_fields:
  "ps_calls (snd (resume_call c w)) = ps_calls w" "ps_serving (snd (resume_call c w)) = ps_serving w"
  by (auto simp: resume_call_def bind_eq_Some_conv resume_fields split: option.splits)

lemma proxy_step_fields: "ps_calls w \<le> ps_calls (snd (proxy_step pc e w))" "ps_serving (snd (proxy_step pc e w)) = ps_serving w"
  by (cases e; simp add: answer_call_fields resume_call_fields)+

lemma still_serving: "ps_serving (proxy_run pc es)"
  by (induction es rule: rev_induct) (simp_all add: proxy_run_def no_streams_def proxy_step_fields)

lemma its_call_step: "its_call j c w \<Longrightarrow> its_call j c (snd (proxy_step pc e w))"
  using proxy_step_waiting [of c w pc e] proxy_step_fields(1) [of w pc e] by (fastforce simp: its_call_def)

text \<open>What holds of a hook at every moment.\<close>

definition hook_ok :: "proxy_config \<Rightarrow> begin_reply \<Rightarrow> nat \<Rightarrow> hook \<Rightarrow> bool" where
  "hook_ok pc given j hk \<longleftrightarrow>
     hooked.has_first pc j (map Inr (hk_got hk)) (hk_call hk \<noteq> None) (hk_streams hk)
     \<and> op_begun (ps_opened (hk_streams hk) ! j) = given
     \<and> (\<forall>c. hk_call hk = Some c \<longrightarrow> its_call j c (hk_streams hk))"

lemma hook_right: "hook_ok pc given j hk \<Longrightarrow> streams_ok pc (hk_streams hk) \<and> j < length (ps_opened (hk_streams hk))"
  by (simp add: hook_ok_def hooked.has_first_def stream_right_def)

lemma begun_stays:
  assumes "streams_ok pc w" "j < length (ps_opened w)"
  shows "op_begun (ps_opened (snd (proxy_step pc e w)) ! j) = op_begun (ps_opened w ! j)"
  using proxy_step_ok(2) [OF assms(1), of e] assms(2) by (auto simp: go_on_def dest: same_begun)

lemma hook_others:
  assumes "hook_ok pc given j hk" "\<not> asks_on j e (hk_streams hk)"
  shows "hook_ok pc given j (hk\<lparr>hk_streams := snd (proxy_step pc e (hk_streams hk))\<rparr>)"
proof -
  have "others_go pc j (hk_streams hk) (snd (proxy_step pc e (hk_streams hk)))"
    using assms(2) by (auto simp: others_go_def)
  with assms(1) hooked.has_first_others begun_stays hook_right [OF assms(1)] its_call_step
  show ?thesis by (fastforce simp: hook_ok_def)
qed

lemma asked_waits:
  assumes "streams_ok pc w" "answer_call pc (AskRelease i n) w = (None, w')" "map_of (ps_known w) i = Some j"
  shows "its_call j (ps_calls w) w'"
proof -
  have n: "map_of (ps_waiting w) (ps_calls w) = None"
    using assms(1) by (fastforce simp: streams_ok_def waits_right_def map_of_eq_None_iff)
  from assms(2,3) show ?thesis
    by (auto simp: answer_call_def on_stream_def ask_release_def Let_def its_call_def map_add_def n
        change_open_def split: if_splits)
qed

lemma hook_asks_ok:
  assumes "hook_ok pc given j hk"
  shows "hook_ok pc given j (hook_ask pc i j hk)"
proof (cases "map_of (ps_known (hk_streams hk)) i \<noteq> None \<and> map_of (ps_known (hk_streams hk)) i \<noteq> Some j")
  case True
  with assms show ?thesis by (simp add: hook_ask_def Let_def)
next
  case False
  let ?w = "hk_streams hk"
  obtain a w' where a: "answer_call pc (AskRelease i (length (hk_got hk))) ?w = (a, w')" by fastforce
  note r = hook_right [OF assms]
  have h: "hook_asks pc i j (length (map Inr (hk_got hk))) (a = None) ?w w'"
    using False a by (auto simp: hook_asks_def)
  have f: "hooked.has_first pc j (map Inr (hk_got hk)) (a = None) w'"
    using assms hooked.has_first_asked [OF _ h] unfolding hook_ok_def by blast
  have b: "op_begun (ps_opened w' ! j) = given"
    using assms begun_stays [of pc ?w j "Calls (AskRelease i (length (hk_got hk)))"] r a by (simp add: hook_ok_def)
  have "its_call j (ps_calls ?w) w'" if "a = None"
  proof -
    have "map_of (ps_known ?w) i = Some j"
      using False a that by (auto simp: answer_call_def on_stream_def Let_def)
    then show ?thesis using asked_waits a r that by blast
  qed
  with f b have "hook_ok pc given j (hk\<lparr>hk_streams := w', hk_call := (if a = None then Some (ps_calls ?w) else None)\<rparr>)"
    by (auto simp: hook_ok_def split: if_splits)
  then show ?thesis unfolding hook_ask_def Let_def a if_not_P [OF False] prod.case .
qed

lemma hook_hears_ok:
  assumes "hook_ok pc given j hk"
  shows "hook_ok pc given j (hook_hear hk)"
proof (cases "hk_call hk")
  case None
  with assms show ?thesis by (simp add: hook_hear_def)
next
  case (Some c)
  let ?w = "hk_streams hk"
  obtain a w' where a: "resume_call c ?w = (a, w')" by fastforce
  note r = hook_right [OF assms]
  have quiet: "hook_ok pc given j (hk\<lparr>hk_streams := w'\<rparr>)"
    using hook_others [OF assms, of "Resumes c"] a by simp
  show ?thesis
  proof (cases "\<exists>c' position outs. a = Some (c', Inr (NextRelease position outs))")
    case False
    then have "hook_hear hk = hk\<lparr>hk_streams := w'\<rparr>"
      using Some a by (auto simp: hook_hear_def split: option.splits sum.splits stream_result.splits)
    then show ?thesis using quiet by simp
  next
    case True
    then obtain c' position outs where t: "a = Some (c', Inr (NextRelease position outs))" by blast
    then have c': "c' = c" and x: "\<exists>x. map_of (ps_waiting ?w) c = Some x"
      using a by (auto simp: resume_call_def bind_eq_Some_conv split: option.splits)
    with assms Some obtain i t' where "map_of (ps_waiting ?w) c = Some (ForOutput j i t')"
      by (fastforce simp: hook_ok_def its_call_def)
    then have "hook_hears j (map Inr outs) ?w w'" using a t c' by (auto simp: hook_hears_def)
    with assms Some have "hooked.has_first pc j (map Inr (hk_got hk) @ map Inr outs) False w'"
      using hooked.has_first_heard by (auto simp: hook_ok_def)
    with quiet show ?thesis using Some a t by (simp add: hook_hear_def hook_ok_def)
  qed
qed

lemma hook_step_ok: "hook_ok pc given j hk \<Longrightarrow> hook_ok pc given j (hook_step pc i j hk e)"
  by (cases e) (simp_all add: hook_others hook_asks_ok hook_hears_ok)

lemma hook_run_ok:
  assumes "map_of (ps_known (proxy_run pc es)) (bg_id given) = None"
  shows "hook_ok pc given (length (ps_opened (proxy_run pc es))) (hook_run pc es given hs)"
proof -
  let ?w = "proxy_run pc es" let ?v = "snd (proxy_step pc (Calls (BeginReply given)) ?w)"
  have o: "ps_opened ?v = ps_opened ?w @ [new_open pc given (ps_now ?w)]"
    using assms still_serving by (simp add: answer_call_def begin_stream_def Let_def)
  have "streams_ok pc ?v" by (rule proxy_step_ok(1)) (rule proxy_run_ok)
  with o have s: "hook_ok pc given (length (ps_opened ?w)) \<lparr>hk_streams = ?v, hk_got = [], hk_call = None\<rparr>"
    by (simp del: proxy_step.simps add: hook_ok_def hooked.has_first_def stream_right_def o base_of_def stream_given_def given_out_def
        stream_log_def new_open_def)
  show ?thesis unfolding hook_run_def
    by (rule rev_induct [of _ hs]) (simp_all only: foldl_Nil foldl_append foldl_Cons s hook_step_ok)
qed

section \<open>Properties\<close>

text \<open>C6: A proxy hook collects every output of its reply stream once and in order, whatever else
  happens: answers that are lost and calls sent again, other hooks and streams, judging, keepalives
  and sweeps. What it has at any moment is how the stream's outputs begin.\<close>

theorem hook_collects_in_order:
  assumes "map_of (ps_known (proxy_run pc es)) (bg_id given) = None"
  shows "map Inr (hk_got (hook_run pc es given hs)) =
      take (length (hk_got (hook_run pc es given hs))) (release_log pc (its_stream pc es given hs))
    \<and> op_begun (its_stream pc es given hs) = given"
  using hook_run_ok [OF assms, of hs] by (simp add: hook_ok_def hooked.has_first_def stream_log_def its_stream_def)

definition demo_proxy :: proxy_config where
  "demo_proxy =
     \<lparr>pc_max_body = 1000, pc_max_pending = 10, pc_poll = 20, pc_expiry = 120, pc_early = False,
      pc_keepalive = True, pc_loads = (\<lambda>_. None), pc_dumps = (\<lambda>_. []), pc_takes = (\<lambda>_ _. True),
      pc_reply = (\<lambda>_ _ _. Answered PassOn), pc_digest = (\<lambda>d. d), pc_field = (\<lambda>_. None)\<rparr>"

definition demo_begin :: begin_reply where
  "demo_begin = \<lparr>bg_id = ''r'', bg_provider = ''openai'', bg_format = Some OpenAIChat, bg_model = ''m'', bg_user = None,
     bg_status = 200, bg_content_type = ''text/event-stream'', bg_keepalive = False\<rparr>"

text \<open>The reply comes in two chunks, the first sent twice; the hook's first answer is lost.\<close>

definition demo_hook_events :: "hook_event list" where
  "demo_hook_events =
     map Others
       [Calls (ReplyChunk ''r'' 0 (b64_encode ''one '')), Calls (ReplyChunk ''r'' 0 (b64_encode ''one '')),
        Calls (ReplyChunk ''r'' 1 (b64_encode ''two'')), Resumes 1, Resumes 2, Resumes 3, Calls (EndReply ''r''), Resumes 4,
        Works 0, Works 0, Works 0, Collects 0, Collects 0, Collects 0]
     @ [Asks, Others (Resumes 5), Asks, Hears, Asks, Others (Collects 0), Hears]"

lemma demo_fresh: "map_of (ps_known (proxy_run demo_proxy [])) (bg_id demo_begin) = None"
  by code_simp

lemma demo_got: "hk_got (hook_run demo_proxy [] demo_begin demo_hook_events) = [ReleaseOutput ''b25lIHR3bw=='', FinishedOutput]"
  by code_simp

theorem hook_collects_in_order_witness:
  "map Inr [ReleaseOutput ''b25lIHR3bw=='', FinishedOutput] =
     take 2 (release_log demo_proxy (its_stream demo_proxy [] demo_begin demo_hook_events))"
  using hook_collects_in_order [OF demo_fresh, of demo_hook_events] by (simp add: demo_got numeral_2_eq_2)

text \<open>C5: A reply that a proxy hook has collected to its end is the handler's answer, whole, in the
  encoding of the endpoint: the bytes of the chunks, in their order, or all of the replacement. A
  provider's error is the bytes of its chunks.\<close>

theorem complete_reply_collected:
  assumes "map_of (ps_known (proxy_run pc es)) (bg_id given) = None"
    and "FinishedOutput \<in> set (hk_got (hook_run pc es given hs))"
  shows "let p = its_stream pc es given hs; s = op_stream p in
    map Inr (hk_got (hook_run pc es given hs)) = map (kept_output pc) (st_out s)
    \<and> (\<exists>m. st_fed s = concat (take m (op_chunks p)))
    \<and> (if succeeded (bg_status given)
       then \<exists>a. st_answer s = Some (Answered a) \<and> answer_body a (st_fed s) = Some (sent_bytes (st_out s))
       else sent_bytes (st_out s) = st_fed s)"
proof -
  let ?p = "its_stream pc es given hs" let ?s = "op_stream ?p" let ?got = "hk_got (hook_run pc es given hs)"
  note h = hook_run_ok [OF assms(1), of hs]
  have got: "map Inr ?got = take (length ?got) (release_log pc ?p)" "op_begun ?p = given"
    using h by (simp_all add: hook_ok_def hooked.has_first_def stream_log_def its_stream_def)
  have o: "open_ok pc ?p" "\<exists>m. st_fed ?s = concat (take m (op_chunks ?p))"
    using streams_okD [of pc "hk_streams (hook_run pc es given hs)"] hook_right [OF h]
    by (auto simp: its_stream_def chunks_ok_def fed_upto_def)
  then have r: "reached (op_config ?p) ?s" and cf: "op_config ?p = config_for pc given"
    using got(2) unfolding open_ok_def by auto
  have m: "mode_of (config_for pc given) = ProviderError \<longleftrightarrow> \<not> succeeded (bg_status given)"
    by (simp add: mode_of_def config_for_def)
  have "Inr FinishedOutput \<in> set (take (length ?got) (release_log pc ?p))"
    unfolding got(1) [symmetric] using assms(2) by simp
  then obtain o' where o': "o' \<in> set (take (length ?got) (st_out ?s))" "kept_output pc o' = Inr FinishedOutput"
    by (auto simp: release_log_def take_map)
  have f: "o' = Finished" using o'(2) by (cases o') (auto simp: refuse_output_def Let_def split: option.splits if_splits)
  have "length (st_out ?s) \<le> length ?got"
  proof (rule ccontr)
    assume "\<not> length (st_out ?s) \<le> length ?got"
    then have "set (take (length ?got) (st_out ?s)) \<subseteq> set (butlast (st_out ?s))"
      by (auto simp: butlast_conv_take intro: set_take_subset_set_take [THEN subsetD, rotated])
    moreover have "list_all goes_on (butlast (st_out ?s))" using reached_well_ended [OF r] by (simp add: well_ended_def)
    ultimately show False using o'(1) f by (auto simp: list_all_iff)
  qed
  then have g: "map Inr ?got = map (kept_output pc) (st_out ?s)" using got(1) by (simp add: release_log_def)
  have "Finished \<in> set (st_out ?s)" using o'(1) f by (auto dest: in_set_takeD)
  from complete_reply_is_whole [OF r this] m cf g o(2) show ?thesis by (auto simp: Let_def)
qed

theorem complete_reply_collected_witness:
  "let s = op_stream (its_stream demo_proxy [] demo_begin demo_hook_events) in
     [Inr (ReleaseOutput ''b25lIHR3bw==''), Inr FinishedOutput] = map (kept_output demo_proxy) (st_out s)
     \<and> (\<exists>a. st_answer s = Some (Answered a) \<and> answer_body a (st_fed s) = Some (sent_bytes (st_out s)))"
proof -
  have "succeeded (bg_status demo_begin)" by code_simp
  with complete_reply_collected [OF demo_fresh, of demo_hook_events] show ?thesis by (simp add: demo_got Let_def)
qed

text \<open>C36: Whatever is called, in whatever order, the bytes a reply stream has taken are those of its
  first chunks, each once and in order: of all that were fed, unless the stream was closed or its
  input had ended.\<close>

theorem chunks_taken_in_order:
  "list_all (\<lambda>p. \<exists>k m. m \<le> k \<and> k \<le> length (op_chunks p)
       \<and> op_fed p = replicate k True @ replicate (length (op_chunks p) - k) False
       \<and> st_fed (op_stream p) = concat (take m (op_chunks p))
       \<and> (m = k \<or> closed_stream (op_stream p) \<or> st_ended (op_stream p)))
     (ps_opened (proxy_run pc es))"
  using proxy_run_ok [of pc es]
  by (fastforce simp: streams_ok_def chunks_ok_def fed_upto_def list_all_length)


section \<open>A wait that outlives its stream\<close>

text \<open>A wait for output that ends after its stream was aborted lets go of the id of the call, and so
  of a stream begun under the same id meanwhile.\<close>

lemma late_answer_forgets:
  "ps_known (proxy_run demo_proxy
     [Calls (BeginReply demo_begin), Calls (AskRelease ''r'' 0), Calls (AbortReply ''r''),
      Calls (BeginReply demo_begin)]) = [(''r'', 1)]
   \<and> ps_known (proxy_run demo_proxy
     [Calls (BeginReply demo_begin), Calls (AskRelease ''r'' 0), Calls (AbortReply ''r''),
      Calls (BeginReply demo_begin), Resumes 1]) = []"
  by code_simp

end
