(* ===== verification/Http.thy ===== *)
theory Http
  imports JsonRpc
begin

text \<open>
  Reading the body of a request no larger than a limit (\<open>read_within\<close> of \<open>sidecar/_http.py\<close>), as the
  parts of it arrive. The declared length is that of the \<open>content-length\<close> header, if it is a number.
\<close>

fun read_parts :: "nat \<Rightarrow> string \<Rightarrow> string list \<Rightarrow> string option" where
  "read_parts limit body [] = Some body"
| "read_parts limit body (part # parts) =
     (if limit < length body + length part then None else read_parts limit (body @ part) parts)"

definition read_within :: "nat \<Rightarrow> nat option \<Rightarrow> string list \<Rightarrow> string option" where
  "read_within limit declared parts =
     (case declared of
        Some n \<Rightarrow> if limit < n then None else read_parts limit [] parts
      | None \<Rightarrow> read_parts limit [] parts)"

text \<open>What both endpoints answer to a call that is larger.\<close>

definition too_large_call :: "nat \<Rightarrow> http_answer" where
  "too_large_call limit = JsonBody 413 (JObj [(''error'', JStr (''A call is at most '' @ nat_text limit @ '' bytes.''))])"

text \<open>\<open>str.lower\<close> of a header's name, which is ASCII.\<close>

definition lower_char :: "char \<Rightarrow> char" where
  "lower_char c = (let n = of_char c :: nat in if 65 \<le> n \<and> n \<le> 90 then char_of (n + 32) else c)"

definition lower_text :: "string \<Rightarrow> string" where
  "lower_text t = map lower_char t"

lemma read_parts_within:
  "length body \<le> limit \<Longrightarrow>
     read_parts limit body parts =
       (if length (body @ concat parts) \<le> limit then Some (body @ concat parts) else None)"
  by (induction parts arbitrary: body) auto

lemma read_within_eq:
  "read_within limit declared parts =
     (if (\<exists>n. declared = Some n \<and> limit < n) \<or> limit < length (concat parts) then None else Some (concat parts))"
  by (auto simp: read_within_def read_parts_within split: option.splits)

end
