(* ===== verification/ProxyEndpoint.thy ===== *)
theory ProxyEndpoint
  imports Http ProxyStreams ForEvals HandlerRuns
begin

text \<open>
  The sidecar's endpoint for proxies (\<open>sidecar/_proxy_endpoint.py\<close>): a JSON-RPC call is read, put to the
  handler or to the reply streams, and answered with a result or an error. JSON and what pydantic
  makes of a method's parameters are parameters.
\<close>

section \<open>The methods\<close>

record judge_request =
  jq_id :: string
  jq_provider :: string
  jq_format :: "stream_format option"
  jq_model :: string
  jq_user :: "string option"
  jq_headers :: "(string \<times> string) list"
  jq_body :: fields

record judge_reply =
  jr_id :: string
  jr_provider :: string
  jr_format :: "stream_format option"
  jr_model :: string
  jr_user :: "string option"
  jr_status :: int
  jr_content_type :: string
  jr_body :: string

datatype proxy_method = JudgeRequest judge_request | JudgeReply judge_reply | OnStream stream_call

definition proxy_methods :: "string list" where
  "proxy_methods =
     [''judge_request'', ''judge_reply'', ''begin_reply'', ''reply_chunk'', ''end_reply'', ''abort_reply'',
      ''next_release'']"

record endpoint =
  en_handler :: sidecar_handler
  en_streams :: proxy_config
  en_loads :: "string \<Rightarrow> json option"
  en_dumps :: "json \<Rightarrow> string"
  en_call :: "json \<Rightarrow> rpc_call option"
  en_params :: "string \<Rightarrow> fields \<Rightarrow> invalid + proxy_method"
  en_max_body :: nat

section \<open>Requests and replies\<close>

definition lowered :: "(string \<times> string) list \<Rightarrow> (string \<times> string) list" where
  "lowered headers = foldl (\<lambda>d (name, v). dict_set d (lower_text name) v) [] headers"

definition request_given :: "endpoint \<Rightarrow> judge_request \<Rightarrow> proxy_request" where
  "request_given en given =
     \<lparr>rq_id = jq_id given, rq_provider = jq_provider given, rq_model = jq_model given, rq_user = jq_user given,
      rq_body = en_dumps en (JObj (jq_body given)), rq_headers = lowered (jq_headers given), rq_format = jq_format given\<rparr>"

definition reply_given :: "judge_reply \<Rightarrow> rpc_error + proxy_reply" where
  "reply_given given =
     (case b64_decode (jr_body given) of
        None \<Rightarrow> Inl (rpc invalid_params_code
                  (''The parameters don'' @ apostrophe @ ''t fit: body: A reply'' @ apostrophe @ ''s body is base64.''))
      | Some body \<Rightarrow> Inr
          \<lparr>ry_id = jr_id given, ry_provider = jr_provider given, ry_status = jr_status given,
           ry_content_type = jr_content_type given, ry_body = body, ry_format = jr_format given\<rparr>)"

section \<open>Results\<close>

text \<open>\<open>_result\<close>: what raises here counts as not judged, as it does in the handler.\<close>

definition action_json :: "string \<Rightarrow> fields \<Rightarrow> json" where
  "action_json a fs = JObj ((''action'', JStr a) # fs)"

definition refuse_json :: "stream_output \<Rightarrow> json" where
  "refuse_json o' =
     (case o' of
        RefuseOutput status message f \<Rightarrow>
          action_json ''refuse'' ([(''status'', JInt status), (''message'', JStr message)] @ optional ''sentinel'' f)
      | _ \<Rightarrow> JNull)"

definition judged_json :: "endpoint \<Rightarrow> bool \<Rightarrow> answer_to \<Rightarrow> failure + json" where
  "judged_json en is_reply answer =
     (case answer of
        RefuseWith refused \<Rightarrow> bind_err (refuse_output (en_streams en) refused) (\<lambda>o'. Inr (refuse_json o'))
      | PassOn \<Rightarrow> Inr (action_json ''pass'' [])
      | ReplaceBody body \<Rightarrow>
          if is_reply then Inr (action_json ''replace'' [(''body'', JStr (b64_encode body))])
          else (case en_loads en body of
                  Some (JObj f) \<Rightarrow> Inr (action_json ''replace'' [(''body'', JObj f)])
                | _ \<Rightarrow> Inl (OtherFailure ''ValidationError'')))"

definition output_kind :: "string \<Rightarrow> fields \<Rightarrow> json" where
  "output_kind k fs = JObj ((''kind'', JStr k) # fs)"

fun output_json :: "stream_output \<Rightarrow> json" where
  "output_json (ReleaseOutput data) = output_kind ''release'' [(''data'', JStr data)]"
| "output_json (RefuseOutput status message f) =
     output_kind ''refuse'' ([(''status'', JInt status), (''message'', JStr message)] @ optional ''sentinel'' f)"
| "output_json (ErrorEventOutput data why) =
     output_kind ''error_event'' ([(''data'', JStr data)] @ optional ''not_judged'' (map_option (\<lambda>y. JStr (unjudged_text y)) why))"
| "output_json FinishedOutput = output_kind ''finished'' []"

fun stream_json :: "stream_result \<Rightarrow> json" where
  "stream_json Taken = JObj [(''taken'', JBool True)]"
| "stream_json (NextRelease position outs) =
     JObj [(''position'', JInt (int position)), (''outputs'', JList (map output_json outs))]"

section \<open>A call\<close>

type_synonym endpoint_state = "handler_state \<times> proxy_streams"

text \<open>\<open>_judge\<close>: what a call comes to, or that it waits in the reply streams, under its number there.\<close>

datatype judging = Comes "rpc_error + json" | WaitsAs nat

definition judge_given ::
  "endpoint \<Rightarrow> proxy_method \<Rightarrow> endpoint_state \<Rightarrow> judging \<times> endpoint_state" where
  "judge_given en given st =
     (case given of
        OnStream call \<Rightarrow>
          (case answer_call (en_streams en) call (snd st) of
             (None, s) \<Rightarrow> (WaitsAs (ps_calls (snd st)), fst st, s)
           | (Some (c, Inl ex), s) \<Rightarrow> (Comes (Inl ex), fst st, s)
           | (Some (c, Inr r), s) \<Rightarrow> (Comes (Inr (stream_json r)), fst st, s))
      | JudgeRequest q \<Rightarrow>
          (case handle_request (en_handler en) (request_given en q) (fst st) of
             (answer, w) \<Rightarrow>
               (Comes (case bind_err answer (judged_json en False) of
                         Inl ex \<Rightarrow> Inl (unjudged_error ex ''request'') | Inr j \<Rightarrow> Inr j), w, snd st))
      | JudgeReply p \<Rightarrow>
          (case reply_given p of
             Inl ex \<Rightarrow> (Comes (Inl ex), st)
           | Inr reply \<Rightarrow>
               (case handle_reply (en_handler en) reply [] (fst st) of
                  (answer, w) \<Rightarrow>
                    (Comes (case bind_err answer (judged_json en True) of
                              Inl ex \<Rightarrow> Inl (unjudged_error ex ''reply'') | Inr j \<Rightarrow> Inr j), w, snd st))))"

definition judge_call :: "endpoint \<Rightarrow> string \<Rightarrow> fields \<Rightarrow> endpoint_state \<Rightarrow> judging \<times> endpoint_state" where
  "judge_call en name params st =
     (if name \<notin> set proxy_methods
      then (Comes (Inl (rpc method_not_found (''There is no method '' @ quoted name @ ''.''))), st)
      else case en_params en name params of
             Inl errors \<Rightarrow> (Comes (Inl (invalid_params errors)), st)
           | Inr given \<Rightarrow> judge_given en given st)"

text \<open>\<open>call\<close>: the answer to a request POSTed to the endpoint; a call that waits in the reply streams is
  answered later, with its id.\<close>

datatype endpoint_answer = Answer http_answer | AnswerLater call_id nat

definition answer_with :: "call_id \<Rightarrow> rpc_error + json \<Rightarrow> http_answer" where
  "answer_with i r = (case r of Inl ex \<Rightarrow> failed_call (Some i) ex | Inr j \<Rightarrow> answered_call (Some i) j)"

definition endpoint_call ::
  "endpoint \<Rightarrow> nat option \<Rightarrow> string list \<Rightarrow> endpoint_state \<Rightarrow> endpoint_answer \<times> endpoint_state" where
  "endpoint_call en declared parts st =
     (case read_within (en_max_body en) declared parts of
        None \<Rightarrow> (Answer (too_large_call (en_max_body en)), st)
      | Some body \<Rightarrow>
          (case read_call (en_loads en) (en_call en) body of
             Inl ex \<Rightarrow> (Answer (failed_call None ex), st)
           | Inr asked \<Rightarrow>
               (case ca_id asked of
                  None \<Rightarrow> (Answer (failed_call None
                            (rpc invalid_request ''A call needs an id, because its answer says what to do.'')), st)
                | Some i \<Rightarrow>
                    (case judge_call en (ca_method asked) (ca_params asked) st of
                       (Comes r, st') \<Rightarrow> (Answer (answer_with i r), st')
                     | (WaitsAs c, st') \<Rightarrow> (AnswerLater i c, st')))))"

end
