(* ===== verification/EvalEndpoint.thy ===== *)
theory EvalEndpoint
  imports Http Wire ForEvals HandlerRuns
begin

text \<open>
  The sidecar's endpoint for evals (\<open>sidecar/_eval_endpoint.py\<close>): its probe, and the four methods by
  which an eval registers a task, asks what became of a request or a sample, and ends a sample.
  pydantic's reading of a method's parameters is a parameter.
\<close>

datatype eval_method =
    RegisterTask string task_facts "rat option"
  | RequestResult string
  | SampleResult string
  | EndSample string

definition eval_methods :: "string list" where
  "eval_methods = [''register_task'', ''request_result'', ''sample_result'', ''end_sample'']"

definition results_methods :: "string list" where
  "results_methods = [''sample_result'']"

record eval_endpoint =
  ev_handler :: sidecar_handler
  ev_loads :: "string \<Rightarrow> json option"
  ev_call :: "json \<Rightarrow> rpc_call option"
  ev_params :: "string \<Rightarrow> fields \<Rightarrow> invalid + eval_method"
  ev_max_body :: nat
  ev_token :: "string option"
  ev_results :: bool
  ev_early :: bool

section \<open>Results\<close>

fun stands_text :: "stands \<Rightarrow> string" where
  "stands_text BeingJudged = ''judging''"
| "stands_text AwaitingReply = ''awaiting_reply''"
| "stands_text Decided = ''decided''"
| "stands_text NotJudged = ''not_judged''"

fun registered_json :: "string \<Rightarrow> task_facts \<Rightarrow> registration_result \<Rightarrow> rpc_error + json" where
  "registered_json eval_id facts (TasksFull t) = Inl (rpc registrations_full t)"
| "registered_json eval_id facts (NotTaken t) = Inl (rpc registration_refused t)"
| "registered_json eval_id facts granted = Inr (JObj
     ([(''eval_id'', JStr eval_id), (''task'', JStr (tf_task facts)),
       (''samples'', JInt (int (length (tf_samples facts)))), (''fixed'', JBool (granted = RegisteredBefore))]
      @ (case granted of RegisteredFor t \<Rightarrow> [(''expiry'', JNum t)] | _ \<Rightarrow> [])))"

fun request_json :: "field_config \<Rightarrow> bool \<Rightarrow> string \<Rightarrow> request_result \<Rightarrow> json" where
  "request_json fc results i ResultDropped = JObj [(''id'', JStr i), (''records'', JStr ''dropped'')]"
| "request_json fc results i ResultUnknown = JObj [(''id'', JStr i), (''records'', JStr ''unknown'')]"
| "request_json fc results i (ResultOf att es) = JObj
     ([(''id'', JStr i), (''records'', JStr ''held''), (''state'', JStr (stands_text (ta_state att)))]
      @ optional ''reason'' (map_option (\<lambda>y. JStr (unjudged_text y)) (ta_reason att))
      @ optional ''outcome'' (map_option (\<lambda>y. JStr (outcome_text y)) (ta_outcome att))
      @ optional ''message'' (map_option JStr (ta_message att))
      @ (if results then [(''recorded'', JList (map (record_json fc) es))] else [])
      @ optional ''withheld'' (map_option (withheld_json fc) (ta_withheld att))
      @ optional ''proposed'' (map_option (withheld_json fc) (ta_proposed att)))"

definition sample_json :: "string \<Rightarrow> sample_result option \<Rightarrow> rpc_error + json" where
  "sample_json uuid found =
     (case found of
        None \<Rightarrow> Inl (rpc unknown_sample (''The sidecar holds nothing for the sample '' @ quoted uuid @ ''.''))
      | Some r \<Rightarrow> Inr (JObj
          [(''sample_uuid'', JStr uuid), (''outcome'', JStr (outcome_text (sr_outcome r))), (''store'', JObj (sr_store r))]))"

definition ended_json :: "string \<Rightarrow> bool \<Rightarrow> json" where
  "ended_json uuid found = JObj
     [(''sample_uuid'', JStr uuid), (''state'', JStr (if found then ''ended'' else ''unknown''))]"

section \<open>Calls\<close>

definition on_memory :: "(sidecar \<Rightarrow> 'a \<times> sidecar) \<Rightarrow> ('a \<Rightarrow> rpc_error + json) \<Rightarrow> handler_state \<Rightarrow> (rpc_error + json) \<times> handler_state" where
  "on_memory f g w = (case f (hs_sidecar w) of (x, s) \<Rightarrow> (g x, w\<lparr>hs_sidecar := s\<rparr>))"

fun answer_given :: "eval_endpoint \<Rightarrow> eval_method \<Rightarrow> handler_state \<Rightarrow> (rpc_error + json) \<times> handler_state" where
  "answer_given en (RegisterTask eval_id facts expiry) w =
     on_memory (register_task (ev_handler en) eval_id facts expiry) (registered_json eval_id facts) w"
| "answer_given en (RequestResult i) w =
     on_memory (result_of_request i) (\<lambda>r. Inr (request_json (hn_field (ev_handler en)) (ev_results en) i r)) w"
| "answer_given en (SampleResult uuid) w = on_memory (result_of_sample uuid) (sample_json uuid) w"
| "answer_given en (EndSample uuid) w = on_memory (end_sample uuid) (\<lambda>b. Inr (ended_json uuid b)) w"

definition answer_method :: "eval_endpoint \<Rightarrow> string \<Rightarrow> fields \<Rightarrow> handler_state \<Rightarrow> (rpc_error + json) \<times> handler_state" where
  "answer_method en name params w =
     (if name \<notin> set eval_methods then (Inl (rpc method_not_found (''There is no method '' @ quoted name @ ''.'')), w)
      else case ev_params en name params of
             Inl errors \<Rightarrow> (Inl (invalid_params errors), w)
           | Inr given \<Rightarrow> answer_given en given w)"

definition asked_method :: "eval_endpoint \<Rightarrow> rpc_call \<Rightarrow> handler_state \<Rightarrow> (rpc_error + json) \<times> handler_state" where
  "asked_method en asked w =
     (if \<not> ev_results en \<and> ca_method asked \<in> set results_methods
      then (Inl (rpc method_not_found (''This sidecar doesn'' @ apostrophe @ ''t send results, so there is no method ''
              @ quoted (ca_method asked) @ ''.'')), w)
      else answer_method en (ca_method asked) (ca_params asked) w)"

definition unauthorized :: http_answer where
  "unauthorized = JsonBody 401 (JObj [(''error'', JStr ''A bearer token is required.'')])"

definition authorized :: "eval_endpoint \<Rightarrow> string option \<Rightarrow> bool" where
  "authorized en presented \<longleftrightarrow>
     (case ev_token en of
        None \<Rightarrow> True
      | Some token \<Rightarrow> (case presented of None \<Rightarrow> [] | Some h \<Rightarrow> h) = ''Bearer '' @ token)"

definition eval_call ::
  "eval_endpoint \<Rightarrow> string option \<Rightarrow> nat option \<Rightarrow> string list \<Rightarrow> handler_state \<Rightarrow> http_answer \<times> handler_state" where
  "eval_call en presented declared parts w =
     (if \<not> authorized en presented then (unauthorized, w)
      else case read_within (ev_max_body en) declared parts of
             None \<Rightarrow> (too_large_call (ev_max_body en), w)
           | Some body \<Rightarrow>
               (case read_call (ev_loads en) (ev_call en) body of
                  Inl ex \<Rightarrow> (failed_call None ex, w)
                | Inr asked \<Rightarrow>
                    (case asked_method en asked w of
                       (Inl ex, w') \<Rightarrow> (failed_call (ca_id asked) ex, w')
                     | (Inr j, w') \<Rightarrow> (answered_call (ca_id asked) j, w'))))"

text \<open>The probe.\<close>

definition eval_info :: "eval_endpoint \<Rightarrow> http_answer" where
  "eval_info en = JsonBody 200 (JObj
     [(''service'', JStr ''inspect_sentinel''), (''versions'', JList [JInt 1]),
      (''release'', JStr (if ev_early en then ''early'' else ''whole''))])"

end
