(* ===== verification/EndpointProps.thy ===== *)
theory EndpointProps
  imports ProxyEndpoint EvalEndpoint HandlerProps
begin

text \<open>
  What the endpoints promise: a proxy is told to send a request on only once it was judged, a call
  that was not judged is answered with an error, and no call of an eval takes back what the handler
  remembers.
\<close>

section \<open>The endpoint for proxies\<close>

definition result_of_call :: "endpoint_answer \<Rightarrow> json" where
  "result_of_call a = (case a of Answer (JsonBody status j) \<Rightarrow> field (object_if j) ''result'' | _ \<Rightarrow> JNull)"

definition sent_on :: "endpoint_answer \<Rightarrow> bool" where
  "sent_on a \<longleftrightarrow> field (object_if (result_of_call a)) ''action'' \<in> {JStr ''pass'', JStr ''replace''}"

lemma failed_not_sent [simp]: "\<not> sent_on (Answer (failed_call i ex))"
  by (simp add: sent_on_def result_of_call_def failed_call_def field_def)

lemma refuse_not_sent: "refuse_output pc rf = Inr o' \<Longrightarrow> \<not> sent_on (Answer (answered_call (Some i) (refuse_json o')))"
  by (auto simp: refuse_output_def Let_def sent_on_def result_of_call_def answered_call_def refuse_json_def
      action_json_def field_def split: option.splits if_splits)

lemma judged_sent:
  assumes "sent_on (Answer (answer_with i (case bind_err answer (judged_json en is_reply) of
      Inl ex \<Rightarrow> Inl (unjudged_error ex what) | Inr j \<Rightarrow> Inr j)))"
  shows "\<exists>a. answer = Inr a \<and> (\<forall>rf. a \<noteq> RefuseWith rf)"
proof -
  obtain a j where a: "answer = Inr a" "judged_json en is_reply a = Inr j"
    using assms by (auto simp: answer_with_def bind_err_Inr split: sum.splits)
  have "a \<noteq> RefuseWith rf" for rf
    using assms a refuse_not_sent by (auto simp: judged_json_def bind_err_Inr answer_with_def)
  with a show ?thesis by blast
qed


definition demo_endpoint :: endpoint where
  "demo_endpoint =
     \<lparr>en_handler = busy,
      en_streams = \<lparr>pc_max_body = 1000, pc_max_pending = 10, pc_poll = 20, pc_expiry = 120, pc_early = False,
        pc_keepalive = True, pc_loads = (\<lambda>_. None), pc_dumps = (\<lambda>_. []), pc_takes = (\<lambda>_ _. True),
        pc_reply = (\<lambda>_ _ _. Answered PassOn), pc_digest = (\<lambda>d. d), pc_field = (\<lambda>_. None)\<rparr>,
      en_loads = (\<lambda>_. Some JNull), en_dumps = (\<lambda>_. ''body''),
      en_call = (\<lambda>_. Some \<lparr>ca_method = ''judge_request'', ca_params = [], ca_id = Some (NumberId 1)\<rparr>),
      en_params = (\<lambda>_ _. Inr (JudgeRequest \<lparr>jq_id = ''1'', jq_provider = ''openai'', jq_format = Some OpenAIChat,
        jq_model = ''m'', jq_user = None, jq_headers = [], jq_body = []\<rparr>)),
      en_max_body = 10\<rparr>"

definition demo_judge_request :: judge_request where
  "demo_judge_request = \<lparr>jq_id = ''1'', jq_provider = ''openai'', jq_format = Some OpenAIChat,
     jq_model = ''m'', jq_user = None, jq_headers = [], jq_body = []\<rparr>"

lemma demo_request_given: "request_given demo_endpoint demo_judge_request = demo_request []"
  by (simp add: request_given_def demo_endpoint_def demo_judge_request_def demo_request_def lowered_def)


section \<open>The endpoint for evals\<close>

lemma grow_on_memory:
  assumes "\<And>s. goes_on_well s (snd (f s))"
  shows "state_grows hn w (snd (on_memory f g w)) \<and> hs_asked (snd (on_memory f g w)) = hs_asked w"
proof -
  have "snd (on_memory f g w) = with_sidecar f w" by (simp add: on_memory_def with_sidecar_def split: prod.splits)
  then show ?thesis using grow_with_sidecar [of f hn w, OF assms] by (simp add: with_sidecar_def)
qed

lemma grow_answer_given:
  "state_grows hn w (snd (answer_given en given w)) \<and> hs_asked (snd (answer_given en given w)) = hs_asked w"
  by (cases given) (simp_all add: grow_on_memory goes_on_well_end_run end_sample_def goes_on_well_result
      goes_on_well_leaves result_of_request_leaves register_task_leaves)


end
