(* ===== verification/Spec2Isabelle.thy ===== *)
theory Spec2Isabelle
  imports Prelude Report Results Step Invocations Runner Execution RunnerLaws RunnerProps Root
    Children Compositions Threshold Preprocess Score FromMessages Replay
    Streams Turns Errors ReplyStream ReplyStreamProps Expiring SidecarState SidecarStateProps History
    Wire Amend AmendProps Anthropic Chat Responses Formats SentinelField Handler RequestSide ReplySide ForEvals HandlerLaws HandlerGrowth HandlerRuns JudgedReplies JudgedRequests HandlerProps
    Base64 JsonRpc ProxyStreams StreamGrowth ProxyStreamsLaws ProxyStreamsRuns ProxyStreamsProps
    Http ProxyEndpoint EvalEndpoint EndpointProps
begin

text \<open>
  A verification development for inspect_sentinel.

  The program. A configuration names a root: a monitor, which scores a step of an agent's work,
  or a protocol, which decides what becomes of it. A step is run by \<open>run_sentinel\<close>, which runs
  the layers of the root's tree and records each report. Hosts put the steps: replay and scoring
  over recorded transcripts, and the sidecar, which judges the requests and the replies of a model
  API in a proxy. The sidecar's handler reads the bodies in three provider formats, keeps a history
  of each conversation, judges results and turns, edits what was rejected, and tells an Inspect
  client of it. A reply stream hands out what may go out early while the reply is still arriving.

  Where each part is. Paths are under \<open>src/src/inspect_sentinel/\<close>.

    \<open>Prelude\<close>: the error monad, \<open>first_max\<close>, the text of numbers, lists read by index, shared lemmas.
    \<open>Report\<close>, \<open>Step\<close>, \<open>Results\<close>: \<open>_report.py\<close>, \<open>_step.py\<close>, \<open>_validate.py\<close>, \<open>_results.py\<close>.
    \<open>Invocations\<close>, \<open>Runner\<close>, \<open>Execution\<close>: \<open>_unhandled.py\<close>, \<open>_final.py\<close>, \<open>_runner.py\<close> and the running
      step of \<open>_host.py\<close>. \<open>RunnerLaws\<close> holds the invariant of every operation, \<open>RunnerProps\<close> what a
      layer gives, \<open>Root\<close> the properties of a whole step.
    \<open>Children\<close>, \<open>Compositions\<close>, \<open>Threshold\<close>: \<open>_types.py\<close>, \<open>_decorators.py\<close>, \<open>_resolve.py\<close> and
      \<open>_protocols/\<close>.
    \<open>Preprocess\<close>, \<open>Score\<close>: \<open>_preprocess.py\<close>, \<open>_score.py\<close>.
    \<open>FromMessages\<close>, \<open>Replay\<close>: \<open>_from_messages.py\<close>, \<open>_replay_step.py\<close>, \<open>_replay.py\<close>,
      \<open>_human_decisions.py\<close>.
    \<open>Streams\<close>, \<open>Turns\<close>, \<open>Errors\<close>, \<open>ReplyStream\<close>, \<open>ReplyStreamProps\<close>: the events of a stream
      (\<open>sidecar/_wire.py\<close>), what may go out early (\<open>sidecar/_release.py\<close>), the answers and errors
      (\<open>sidecar/_exchange.py\<close>, \<open>sidecar/_errors.py\<close>) and \<open>sidecar/_reply_stream.py\<close>.
    \<open>Expiring\<close>, \<open>SidecarState\<close>, \<open>SidecarStateProps\<close>: \<open>sidecar/_state.py\<close>, with the records of
      \<open>sidecar/_registration.py\<close>.
    \<open>History\<close>: \<open>sidecar/_history.py\<close>.
    \<open>Wire\<close>, \<open>Amend\<close>, \<open>AmendProps\<close>, \<open>Anthropic\<close>, \<open>Chat\<close>, \<open>Responses\<close>, \<open>Formats\<close>: the rest of
      \<open>sidecar/_wire.py\<close>, \<open>sidecar/_anthropic.py\<close> and \<open>sidecar/_openai.py\<close>.
    \<open>SentinelField\<close>: \<open>sidecar/_inspect_client.py\<close>.
    \<open>Handler\<close>, \<open>RequestSide\<close>, \<open>ReplySide\<close>, \<open>ForEvals\<close>: \<open>sidecar/_handler.py\<close>. \<open>HandlerLaws\<close> and
      \<open>HandlerGrowth\<close> show that every operation only adds to what the handler remembers,
      \<open>HandlerRuns\<close> that this holds of any run of operations, \<open>JudgedReplies\<close> and \<open>JudgedRequests\<close>
      which steps are put to the sentinel on the way to an answer, \<open>HandlerProps\<close> the properties.
    \<open>Base64\<close>, \<open>JsonRpc\<close>, \<open>Http\<close>: the coding of bodies, \<open>sidecar/_json_rpc.py\<close> and the bounded
      reading of \<open>sidecar/_http.py\<close>.
    \<open>ProxyStreams\<close>: \<open>sidecar/_proxy_streams.py\<close>, with \<open>StreamGrowth\<close>, \<open>ProxyStreamsLaws\<close>,
      \<open>ProxyStreamsRuns\<close> and \<open>ProxyStreamsProps\<close> on the calls a proxy makes for a reply stream.
    \<open>ProxyEndpoint\<close>, \<open>EvalEndpoint\<close>, \<open>EndpointProps\<close>: \<open>sidecar/_proxy_endpoint.py\<close> and
      \<open>sidecar/_eval_endpoint.py\<close>, what each endpoint answers to a call.

  How it is modelled. A dataclass or pydantic model is a record, an enum a datatype; a \<open>dict\<close> whose
  order is read is an association list; objects that several hold are in arenas and named by their
  index. An exception is the \<open>Inl\<close> of a sum, and a function that awaits is a function of the state
  that gives its result and the state after. What other tasks do while a function waits is a
  parameter: a schedule for the runner's task groups, \<open>hn_others\<close> for the other exchanges of the
  handler, and a relation of steps for the reply stream. The laws of such a parameter are the
  assumptions of a locale (\<open>rely\<close>), which the handler's own operations are shown to satisfy
  (\<open>growing\<close>), so that the properties hold for any number of exchanges of the same handler.

  Interfaces. A locale states what one component asks of another: the expiring maps under the
  sidecar's memory (\<open>last_use\<close>), the formats under the handler, the relies of the handler, the log
  of a stream that an endpoint collects from (\<open>collected_log\<close>). Each is interpreted on the
  definitions of the program.

  Bounds. \<open>hn_patience\<close> bounds the rounds of the handler's wait for an earlier attempt, and
  running out of it is an outcome of its own that no property excludes. \<open>exact_pairs\<close> and the
  window of sixteen requests are the program's own. Fuel is given where a loop's end rests on the
  data (\<open>run_steps\<close>), and \<open>judging_ends\<close> shows that five steps are enough.

  Parameters. What is not in the repository is an argument: the functions of monitors and protocols
  (trees of their calls), the model of a host and its token counts, inspect_ai's converters and its
  numbering of messages, the accumulators of the provider SDKs, pydantic's reading and writing of
  a model, JSON, SHA-256, uuid4 and the clock.

  Approximations. Among the exceptions that are no \<open>Exception\<close>, only a final and a cancellation are
  modelled. The functions of sibling children take their turns one whole function after another, in
  any order and cut off at any point. Scores and times are exact rationals, without nan and
  infinities, and \<open>budget * 0.95\<close> is the product with 19/20. \<open>repr\<close> puts a text between
  apostrophes. Blank characters are the ASCII ones. A cancelled judgment has no effects but those
  its \<open>hn_sentinel\<close> result gives. That a client goes away in the middle of a handler's call
  is modelled for the reply stream alone. Bodies
  are decoded as strict base64, a proxy's digest is kept as bytes and compared by \<open>pc_digest\<close>, and
  the task that serves a reply stream to a proxy is modelled up to its end.

  Not modelled: the servers and the clients of HTTP and gRPC around the endpoints, the command line,
  configuration files, the introspection of Python functions by the decorators, the scanner for
  Inspect Scout, the portable runtime, the extensions of the documentation, benchmarks, examples and
  spikes. \<open>PROJECT.json\<close> lists them one by one.
\<close>

end
